(* ===== verification/Chen_Prelude.thy ===== *)
theory Chen_Prelude
  imports Complex_Main "HOL-Library.AList" "HOL-Library.List_Lexorder" "HOL-Library.Multiset"
begin

text \<open>
  What the component theories share: the Python values they compute with and the
  generic facts about them.

  \<^item> A \<open>str\<close> is a list of code points (\<open>pystr\<close>), so lengths and slices count what
    Python counts; \<open>lit\<close> turns a literal into one.
  \<^item> A \<open>float\<close> is a \<open>real\<close> (no rounding), an \<open>int\<close> is an \<open>int\<close>.
  \<^item> A dict is an association list in insertion order (\<open>AList.update\<close> keeps the place of
    an existing key, as Python does) where the order is observable, a map elsewhere.
  \<^item> Slices with a signed bound are \<open>py_take\<close> (\<open>xs[:k]\<close>) and \<open>py_drop\<close> (\<open>xs[k:]\<close>).
  \<^item> Code that raises or touches state is an action \<open>'w \<Rightarrow> ('e + 'a) \<times> 'w\<close>: the state is
    kept when an exception is raised, as Python keeps every mutation made before it.
  \<^item> Two interfaces that several components provide: a store with a lookup after an insert
    (\<open>keyed_store\<close>) and a machine whose steps keep an invariant (\<open>stepper\<close>).
\<close>

section \<open>Collections of facts\<close>

named_theorems act_simps \<open>unfolding rules of the action combinators\<close>
named_theorems inv_intros \<open>operations keep their component's invariant\<close>

section \<open>Strings\<close>

type_synonym pystr = "nat list"

definition lit :: "string \<Rightarrow> pystr" where
  "lit s = map of_char s"

abbreviation nl :: pystr where
  "nl \<equiv> [10]"

lemma lit_Nil [simp]: "lit [] = []"
  by (simp add: lit_def)

lemma lit_Cons [simp]: "lit (c # cs) = of_char c # lit cs"
  by (simp add: lit_def)

text \<open>\<open>sep.join(parts)\<close>\<close>

fun py_join :: "pystr \<Rightarrow> pystr list \<Rightarrow> pystr" where
  "py_join sep [] = []"
| "py_join sep [p] = p"
| "py_join sep (p # q # ps) = p @ sep @ py_join sep (q # ps)"

text \<open>\<open>needle in text\<close>\<close>

fun py_contains :: "pystr \<Rightarrow> pystr \<Rightarrow> bool" where
  "py_contains needle [] = (needle = [])"
| "py_contains needle (c # cs) =
     (take (length needle) (c # cs) = needle \<or> py_contains needle cs)"

text \<open>\<open>text.split(c)\<close> for a separator of one character.\<close>

fun split_at :: "nat \<Rightarrow> pystr \<Rightarrow> pystr list" where
  "split_at c [] = [[]]"
| "split_at c (x # s) =
     (if x = c then [] # split_at c s
      else (case split_at c s of [] \<Rightarrow> [[x]] | w # ws \<Rightarrow> (x # w) # ws))"

text \<open>\<open>text.startswith(prefix)\<close>\<close>

definition py_startswith :: "pystr \<Rightarrow> pystr \<Rightarrow> bool" where
  "py_startswith pre s \<longleftrightarrow> take (length pre) s = pre"

lemma py_startswith_append [simp]: "py_startswith pre (pre @ rest)"
  by (simp add: py_startswith_def)

lemma py_startswithE:
  assumes "py_startswith pre s"
  obtains rest where "s = pre @ rest"
  using assms append_take_drop_id [of "length pre" s]
  unfolding py_startswith_def by metis

lemma py_contains_iff: "py_contains needle s \<longleftrightarrow> (\<exists>us vs. s = us @ needle @ vs)"
proof (induction s)
  case Nil
  then show ?case by auto
next
  case (Cons c cs)
  have "(\<exists>us vs. c # cs = us @ needle @ vs) \<longleftrightarrow>
        (\<exists>vs. c # cs = needle @ vs) \<or> (\<exists>us vs. cs = us @ needle @ vs)"
    by (metis append_Cons append_eq_Cons_conv append_Nil)
  moreover have "(\<exists>vs. c # cs = needle @ vs) \<longleftrightarrow> take (length needle) (c # cs) = needle"
    by (metis append_eq_conv_conj)
  ultimately show ?case
    by (simp add: Cons.IH)
qed

text \<open>\<open>str.isspace\<close> on one code point, and \<open>text.strip()\<close>.\<close>

definition py_isspace :: "nat \<Rightarrow> bool" where
  "py_isspace c \<longleftrightarrow>
     (9 \<le> c \<and> c \<le> 13) \<or> (28 \<le> c \<and> c \<le> 32) \<or> c = 133 \<or> c = 160 \<or> c = 5760 \<or>
     (8192 \<le> c \<and> c \<le> 8202) \<or> c = 8232 \<or> c = 8233 \<or> c = 8239 \<or> c = 8287 \<or> c = 12288"

definition py_strip :: "pystr \<Rightarrow> pystr" where
  "py_strip s = rev (dropWhile py_isspace (rev (dropWhile py_isspace s)))"

lemma py_strip_id:
  assumes "s \<noteq> []" and "\<not> py_isspace (hd s)" and "\<not> py_isspace (last s)"
  shows "py_strip s = s"
proof -
  have 1: "dropWhile py_isspace s = s"
    using assms(1,2) by (cases s) auto
  have 2: "dropWhile py_isspace (rev s) = rev s"
  proof (cases "rev s")
    case Nil
    then show ?thesis by simp
  next
    case (Cons c cs)
    then have "last s = c" by (metis last_rev list.sel(1) rev_rev_ident)
    with Cons assms(3) show ?thesis by simp
  qed
  show ?thesis by (simp add: py_strip_def 1 2)
qed

text \<open>Decimal rendering of an \<open>int\<close>: \<open>str(k)\<close>.\<close>

fun digits10 :: "nat \<Rightarrow> pystr" where
  "digits10 n = (if n < 10 then [48 + n] else digits10 (n div 10) @ [48 + n mod 10])"

declare digits10.simps [simp del]

definition py_str_int :: "int \<Rightarrow> pystr" where
  "py_str_int k = (if k < 0 then 45 # digits10 (nat (- k)) else digits10 (nat k))"

definition undigits :: "pystr \<Rightarrow> nat" where
  "undigits ds = foldl (\<lambda>n d. 10 * n + (d - 48)) 0 ds"

lemma undigits_digits10 [simp]: "undigits (digits10 n) = n"
proof (induction n rule: digits10.induct)
  case (1 n)
  then show ?case
    by (subst digits10.simps) (auto simp: undigits_def)
qed

lemma digits10_inj: "digits10 m = digits10 n \<longleftrightarrow> m = n"
  by (metis undigits_digits10)

lemma digits10_digit: "c \<in> set (digits10 n) \<Longrightarrow> 48 \<le> c \<and> c \<le> 57"
proof (induction n rule: digits10.induct)
  case (1 n)
  show ?case
  proof (cases "n < 10")
    case True
    with 1(2) show ?thesis by (simp add: digits10.simps [of n])
  next
    case False
    then have "digits10 n = digits10 (n div 10) @ [48 + n mod 10]"
      by (subst digits10.simps) simp
    with 1(2) have "c \<in> set (digits10 (n div 10)) \<or> c = 48 + n mod 10" by auto
    moreover have "48 + n mod 10 \<le> 57" using mod_less_divisor [of 10 n] by linarith
    ultimately show ?thesis using 1(1) [OF False] by auto
  qed
qed

text \<open>
  Case folding and character classes. ASCII is written out; what the Unicode tables say of the
  other code points is an argument.
\<close>

record unicode =
  u_lower :: "nat \<Rightarrow> pystr"
  u_word :: "nat \<Rightarrow> bool"
  u_digit :: "nat \<Rightarrow> bool"
  u_printable :: "nat \<Rightarrow> bool"

definition py_lower :: "unicode \<Rightarrow> pystr \<Rightarrow> pystr" where
  "py_lower u s =
     concat (map (\<lambda>c. if c < 128 then [if 65 \<le> c \<and> c \<le> 90 then c + 32 else c] else u_lower u c) s)"

text \<open>\<open>s.upper()\<close>, with the mapping of the characters outside ASCII as an argument.\<close>

definition py_upper :: "(nat \<Rightarrow> pystr) \<Rightarrow> pystr \<Rightarrow> pystr" where
  "py_upper up s = concat (map (\<lambda>c. if c < 128 then [if 97 \<le> c \<and> c \<le> 122 then c - 32 else c] else up c) s)"

lemma py_lower_Nil [simp]: "py_lower u [] = []"
  by (simp add: py_lower_def)

lemma py_lower_ascii_id:
  assumes "\<forall>c\<in>set s. c < 128 \<and> \<not> (65 \<le> c \<and> c \<le> 90)"
  shows "py_lower u s = s"
  using assms by (induction s) (auto simp: py_lower_def)

text \<open>\<open>text.count(needle)\<close> for a needle that is not empty: occurrences without overlap.\<close>

fun py_count :: "pystr \<Rightarrow> pystr \<Rightarrow> nat" where
  "py_count needle [] = 0"
| "py_count needle (c # cs) =
     (if take (length needle) (c # cs) = needle
      then Suc (py_count needle (drop (length needle - 1) cs))
      else py_count needle cs)"

lemma py_count_pos:
  assumes "needle \<noteq> []"
  shows "0 < py_count needle s \<longleftrightarrow> py_contains needle s"
  using assms by (induction needle s rule: py_count.induct) auto

lemma py_count_le: "py_count needle s \<le> length s"
proof (induction needle s rule: py_count.induct)
  case (2 needle c cs)
  have "length (drop (length needle - 1) cs) \<le> length cs" by simp
  with 2 show ?case by (auto intro: order_trans le_SucI)
qed simp

text \<open>\<open>text.replace(a, b)\<close> for single characters.\<close>

definition py_replace1 :: "nat \<Rightarrow> nat \<Rightarrow> pystr \<Rightarrow> pystr" where
  "py_replace1 a b s = map (\<lambda>c. if c = a then b else c) s"

text \<open>\<open>repr(text)\<close>\<close>

definition hex_digit :: "nat \<Rightarrow> nat" where
  "hex_digit n = (if n < 10 then 48 + n else 87 + n)"

fun hex_pad :: "nat \<Rightarrow> nat \<Rightarrow> pystr" where
  "hex_pad 0 n = []"
| "hex_pad (Suc k) n = hex_pad k (n div 16) @ [hex_digit (n mod 16)]"

definition repr_char :: "unicode \<Rightarrow> nat \<Rightarrow> nat \<Rightarrow> pystr" where
  "repr_char u q c =
     (if c = q \<or> c = 92 then [92, c]
      else if c = 9 then [92, 116] else if c = 10 then [92, 110] else if c = 13 then [92, 114]
      else if 32 \<le> c \<and> c < 127 \<or> 127 < c \<and> u_printable u c then [c]
      else if c < 256 then [92, 120] @ hex_pad 2 c
      else if c < 65536 then [92, 117] @ hex_pad 4 c
      else [92, 85] @ hex_pad 8 c)"

definition py_repr :: "unicode \<Rightarrow> pystr \<Rightarrow> pystr" where
  "py_repr u s =
     (let q = (if 39 \<in> set s \<and> 34 \<notin> set s then 34 else 39)
      in q # concat (map (repr_char u q) s) @ [q])"

text \<open>\<open>f"{x:.4f}"\<close> for \<open>0 \<le> x\<close> a multiple of 1/10000.\<close>

definition py_fixed4 :: "real \<Rightarrow> pystr" where
  "py_fixed4 x =
     (let n = nat \<lfloor>x * 10000 + 1 / 2\<rfloor>;
          d = (\<lambda>k. 48 + n div k mod 10)
      in digits10 (n div 10000) @ [46, d 1000, d 100, d 10, d 1])"

section \<open>Exceptions\<close>

text \<open>
  The exceptions the code raises or lets through, without their messages. All are subclasses of
  \<open>Exception\<close>, so \<open>except Exception\<close> catches every one.
\<close>

datatype py_exc =
    ValueError | KeyError | RuntimeError | TypeError | IndexError | NotImplementedError
  | UnicodeError | IncompatibleCacheError | BackendError | BackendConfigError
  | BackendNotAvailableError | CryptoError
  | QuotaExceeded | OtherError

section \<open>Slices with a signed bound\<close>

definition py_take :: "int \<Rightarrow> 'a list \<Rightarrow> 'a list" where
  "py_take k xs = (if 0 \<le> k then take (nat k) xs else take (nat (int (length xs) + k)) xs)"

definition py_drop :: "int \<Rightarrow> 'a list \<Rightarrow> 'a list" where
  "py_drop k xs = (if 0 \<le> k then drop (nat k) xs else drop (nat (int (length xs) + k)) xs)"

lemma set_py_take_subset: "set (py_take k xs) \<subseteq> set xs"
  by (auto simp: py_take_def dest: in_set_takeD)

lemma length_py_take_le: "length (py_take k xs) \<le> length xs"
  by (auto simp: py_take_def)

lemma length_py_take_pos: "0 \<le> k \<Longrightarrow> int (length (py_take k xs)) \<le> k"
  by (simp add: py_take_def)

lemma distinct_py_take [simp]: "distinct xs \<Longrightarrow> distinct (py_take k xs)"
  by (simp add: py_take_def)

lemma py_take_all: "int (length xs) \<le> k \<Longrightarrow> py_take k xs = xs"
  by (simp add: py_take_def)

lemma py_take_Nil_pos: "0 < k \<Longrightarrow> xs \<noteq> [] \<Longrightarrow> py_take k xs \<noteq> []"
  by (simp add: py_take_def)

lemma py_take_map: "py_take k (map f xs) = map f (py_take k xs)"
  by (simp add: py_take_def take_map)

lemma py_drop_zero [simp]: "py_drop 0 xs = xs"
  by (simp add: py_drop_def)

section \<open>Dicts in insertion order\<close>

text \<open>\<open>d.get(k, default)\<close>\<close>

definition dict_get :: "('k \<times> 'v) list \<Rightarrow> 'k \<Rightarrow> 'v \<Rightarrow> 'v" where
  "dict_get d k dflt = (case map_of d k of None \<Rightarrow> dflt | Some v \<Rightarrow> v)"

text \<open>A dict comprehension \<open>{k(x): v(x) for x in xs}\<close>: later entries win in place.\<close>

definition dict_of :: "('k \<times> 'v) list \<Rightarrow> ('k \<times> 'v) list" where
  "dict_of kvs = foldl (\<lambda>d (k, v). AList.update k v d) [] kvs"

lemma foldl_update_dom:
  "fst ` set (foldl (\<lambda>d (k, v). AList.update k v d) d kvs) = fst ` set d \<union> fst ` set kvs"
proof (induction kvs arbitrary: d)
  case Nil
  then show ?case by simp
next
  case (Cons kv kvs)
  obtain k v where kv: "kv = (k, v)" by (cases kv)
  have "fst ` set (AList.update k v d) = insert k (fst ` set d)"
    using dom_update [of k v d] by simp
  with Cons.IH [of "AList.update k v d"] kv show ?case by auto
qed

lemma dict_of_keys: "fst ` set (dict_of kvs) = fst ` set kvs"
  by (simp add: dict_of_def foldl_update_dom)

lemma map_of_foldl_update:
  "map_of (foldl (\<lambda>d (k, v). AList.update k v d) d kvs) k =
   (case map_of (rev kvs) k of None \<Rightarrow> map_of d k | Some v \<Rightarrow> Some v)"
proof (induction kvs arbitrary: d)
  case Nil
  then show ?case by simp
next
  case (Cons kv kvs)
  then show ?case
    by (cases kv) (auto simp: update_conv' map_add_def split: option.splits)
qed

lemma map_of_dict_of: "map_of (dict_of kvs) k = map_of (rev kvs) k"
  by (auto simp: dict_of_def map_of_foldl_update split: option.splits)

section \<open>Descending stable sort\<close>

text \<open>\<open>sorted(xs, key=lambda x: -x[0])\<close>: \<open>sort_key\<close> is stable, as Python's sort is.\<close>

definition sort_desc :: "('a \<Rightarrow> real) \<Rightarrow> 'a list \<Rightarrow> 'a list" where
  "sort_desc f xs = sort_key (\<lambda>x. - f x) xs"

lemma set_sort_desc [simp]: "set (sort_desc f xs) = set xs"
  by (simp add: sort_desc_def)

lemma length_sort_desc [simp]: "length (sort_desc f xs) = length xs"
  by (simp add: sort_desc_def)

lemma mset_sort_desc: "mset (sort_desc f xs) = mset xs"
  by (simp add: sort_desc_def)

lemma sort_desc_Nil_iff [simp]: "sort_desc f xs = [] \<longleftrightarrow> xs = []"
  by (metis length_0_conv length_sort_desc)

lemma sorted_sort_desc: "sorted_wrt (\<ge>) (map f (sort_desc f xs))"
proof -
  have "sorted (map (\<lambda>x. - f x) (sort_desc f xs))"
    by (simp add: sort_desc_def)
  then show ?thesis
    by (simp add: sorted_map sorted_wrt_map)
qed

lemma distinct_map_sort_desc:
  assumes "distinct (map g xs)"
  shows "distinct (map g (sort_desc f xs))"
proof -
  from assms have "distinct xs" and "inj_on g (set xs)"
    by (auto simp: distinct_map)
  then show ?thesis
    by (simp add: distinct_map sort_desc_def)
qed

text \<open>The head of a descending sort is a maximum.\<close>

lemma hd_sort_desc_max:
  assumes "x \<in> set xs"
  shows "f x \<le> f (hd (sort_desc f xs))"
proof -
  from assms have ne: "sort_desc f xs \<noteq> []" by auto
  from assms have "x \<in> set (sort_desc f xs)" by simp
  then obtain i where i: "i < length (sort_desc f xs)" "x = sort_desc f xs ! i"
    by (metis in_set_conv_nth)
  show ?thesis
  proof (cases i)
    case 0
    with i ne show ?thesis by (simp add: hd_conv_nth)
  next
    case (Suc j)
    have "map f (sort_desc f xs) ! 0 \<ge> map f (sort_desc f xs) ! i"
      using sorted_wrt_nth_less [OF sorted_sort_desc, of 0 i f xs] i Suc by simp
    with i ne show ?thesis by (simp add: hd_conv_nth)
  qed
qed

section \<open>Actions: state kept across exceptions\<close>

type_synonym ('w, 'e, 'a) act = "'w \<Rightarrow> ('e + 'a) \<times> 'w"

definition ret :: "'a \<Rightarrow> ('w, 'e, 'a) act" where
  "ret x = (\<lambda>w. (Inr x, w))"

definition raise :: "'e \<Rightarrow> ('w, 'e, 'a) act" where
  "raise e = (\<lambda>w. (Inl e, w))"

definition bnd :: "('w, 'e, 'a) act \<Rightarrow> ('a \<Rightarrow> ('w, 'e, 'b) act) \<Rightarrow> ('w, 'e, 'b) act" where
  "bnd m f = (\<lambda>w. case m w of (Inl e, w') \<Rightarrow> (Inl e, w') | (Inr x, w') \<Rightarrow> f x w')"

text \<open>\<open>try: m; except Exception as e: h(e)\<close>\<close>

definition try_except :: "('w, 'e, 'a) act \<Rightarrow> ('e \<Rightarrow> ('w, 'e, 'a) act) \<Rightarrow> ('w, 'e, 'a) act" where
  "try_except m h = (\<lambda>w. case m w of (Inl e, w') \<Rightarrow> h e w' | (Inr x, w') \<Rightarrow> (Inr x, w'))"

text \<open>Run an action on one half of the state.\<close>

definition on_snd :: "('w, 'e, 'a) act \<Rightarrow> ('m \<times> 'w, 'e, 'a) act" where
  "on_snd m = (\<lambda>(s, w). case m w of (r, w') \<Rightarrow> (r, (s, w')))"

text \<open>A pure result as an action.\<close>

definition lift_err :: "'e + 'a \<Rightarrow> ('w, 'e, 'a) act" where
  "lift_err r = (\<lambda>w. (r, w))"

lemma lift_err_apply [simp, act_simps]: "lift_err r w = (r, w)"
  by (simp add: lift_err_def)

lemma ret_apply [simp, act_simps]: "ret x w = (Inr x, w)"
  by (simp add: ret_def)

lemma raise_apply [simp, act_simps]: "raise e w = (Inl e, w)"
  by (simp add: raise_def)

lemma bnd_ret [simp]: "bnd (ret x) f = f x"
  by (simp add: bnd_def ret_def)

lemma bnd_raise [simp]: "bnd (raise e) f = raise e"
  by (simp add: bnd_def raise_def)

lemma bnd_Inr_iff:
  "bnd m f w = (Inr y, w'') \<longleftrightarrow> (\<exists>x w'. m w = (Inr x, w') \<and> f x w' = (Inr y, w''))"
  by (auto simp: bnd_def split: prod.splits sum.splits)

lemma bnd_InrE [elim!]:
  assumes "bnd m f w = (Inr y, w'')"
  obtains x w' where "m w = (Inr x, w')" and "f x w' = (Inr y, w'')"
  using assms by (auto simp: bnd_Inr_iff)

text \<open>Running an action forward along a known result.\<close>

lemma bnd_apply [act_simps]:
  "bnd m f w = (case m w of (Inl e, w') \<Rightarrow> (Inl e, w') | (Inr x, w') \<Rightarrow> f x w')"
  by (simp add: bnd_def)

lemma bnd_run: "m w = (Inr x, w') \<Longrightarrow> bnd m f w = f x w'"
  by (simp add: bnd_def)

lemma bnd_run_Inl: "m w = (Inl e, w') \<Longrightarrow> bnd m f w = (Inl e, w')"
  by (simp add: bnd_def)

lemma bnd_not_Inl:
  assumes "\<And>e w'. m w \<noteq> (Inl e, w')" and "\<And>x w' e v. m w = (Inr x, w') \<Longrightarrow> f x w' \<noteq> (Inl e, v)"
  shows "bnd m f w \<noteq> (Inl e, v)"
  using assms by (cases "m w"; cases "fst (m w)") (auto simp: bnd_def)

lemma bnd_assoc: "bnd (bnd m f) g = bnd m (\<lambda>x. bnd (f x) g)"
  by (rule ext) (auto simp: bnd_def split: prod.splits sum.splits)

lemma try_except_Inr_iff:
  "try_except m h w = (Inr y, w'') \<longleftrightarrow>
   m w = (Inr y, w'') \<or> (\<exists>e w'. m w = (Inl e, w') \<and> h e w' = (Inr y, w''))"
  by (auto simp: try_except_def split: prod.splits sum.splits)

lemma on_snd_apply [act_simps]: "on_snd m (s, w) = (case m w of (r, w') \<Rightarrow> (r, (s, w')))"
  by (simp add: on_snd_def)

text \<open>Actions that never raise.\<close>

definition nofail :: "('w, 'e, 'a) act \<Rightarrow> bool" where
  "nofail m \<longleftrightarrow> (\<forall>w. \<exists>x w'. m w = (Inr x, w'))"

named_theorems nofail_intros \<open>actions that never raise\<close>

lemma nofailE:
  assumes "nofail m"
  obtains x w' where "m w = (Inr x, w')"
  using assms unfolding nofail_def by blast

lemma nofail_ret [nofail_intros]: "nofail (ret x)"
  by (simp add: nofail_def)

lemma nofail_bnd [nofail_intros]:
  assumes "nofail m" and "\<And>x. nofail (f x)"
  shows "nofail (bnd m f)"
  unfolding nofail_def
proof
  fix w
  obtain x w' where 1: "m w = (Inr x, w')" using assms(1) by (rule nofailE)
  obtain y w'' where 2: "f x w' = (Inr y, w'')" using assms(2) by (rule nofailE)
  show "\<exists>y w''. bnd m f w = (Inr y, w'')" by (simp add: bnd_apply 1 2)
qed

lemma nofail_try_except [nofail_intros]:
  assumes "\<And>e. nofail (h e)"
  shows "nofail (try_except m h)"
  unfolding nofail_def
proof
  fix w
  show "\<exists>y w'. try_except m h w = (Inr y, w')"
  proof (cases "m w")
    case (Pair r v)
    show ?thesis
    proof (cases r)
      case (Inl e)
      obtain y u where "h e v = (Inr y, u)" using assms by (rule nofailE)
      with Pair Inl show ?thesis by (simp add: try_except_def)
    next
      case (Inr x)
      with Pair show ?thesis by (simp add: try_except_def)
    qed
  qed
qed

lemma nofail_if [nofail_intros]: "(b \<Longrightarrow> nofail m) \<Longrightarrow> (\<not> b \<Longrightarrow> nofail n) \<Longrightarrow> nofail (if b then m else n)"
  by simp

lemma nofail_option [nofail_intros]:
  "(x = None \<Longrightarrow> nofail m) \<Longrightarrow> (\<And>a. x = Some a \<Longrightarrow> nofail (f a)) \<Longrightarrow>
   nofail (case x of None \<Rightarrow> m | Some a \<Rightarrow> f a)"
  by (cases x) auto

lemma nofail_prod [nofail_intros]: "(\<And>a b. nofail (f a b)) \<Longrightarrow> nofail (case p of (a, b) \<Rightarrow> f a b)"
  by (cases p) auto

lemma nofail_Let [nofail_intros]: "nofail (f x) \<Longrightarrow> nofail (let a = x in f a)"
  by (simp add: Let_def)

section \<open>A store with lookup after insert\<close>

text \<open>
  The contract several components give: a lookup returns what was last put under the key,
  and a put leaves every other key alone.
\<close>

locale keyed_store =
  fixes put :: "'k \<Rightarrow> 'v \<Rightarrow> 's \<Rightarrow> 's"
    and get :: "'s \<Rightarrow> 'k \<Rightarrow> 'v option"
  assumes get_put_same: "get (put k v s) k = Some v"
    and get_put_other: "k' \<noteq> k \<Longrightarrow> get (put k v s) k' = get s k'"
begin

lemma get_put: "get (put k v s) k' = (if k' = k then Some v else get s k')"
  by (simp add: get_put_same get_put_other)

lemma put_monotone: "get s k' \<noteq> None \<Longrightarrow> get (put k v s) k' \<noteq> None"
  by (simp add: get_put)

lemma get_put_put: "get (put k v (put k u s)) k' = get (put k v s) k'"
  by (simp add: get_put)

lemma put_commute_get:
  "k1 \<noteq> k2 \<Longrightarrow> get (put k1 v1 (put k2 v2 s)) k = get (put k2 v2 (put k1 v1 s)) k"
  by (simp add: get_put)

lemma get_fold_put:
  "get (foldl (\<lambda>s (k, v). put k v s) s kvs) k =
   (case map_of (rev kvs) k of None \<Rightarrow> get s k | Some v \<Rightarrow> Some v)"
proof (induction kvs arbitrary: s)
  case Nil
  then show ?case by simp
next
  case (Cons kv kvs)
  then show ?case
    by (cases kv) (auto simp: get_put map_add_def split: option.splits)
qed

lemma get_fold_put_frame:
  "k \<notin> fst ` set kvs \<Longrightarrow> get (foldl (\<lambda>s (k, v). put k v s) s kvs) k = get s k"
proof (induction kvs arbitrary: s)
  case Nil
  then show ?case by simp
next
  case (Cons kv kvs)
  then show ?case by (cases kv) (simp add: get_put)
qed

end

section \<open>A machine whose steps keep an invariant\<close>

locale stepper =
  fixes step :: "'op \<Rightarrow> 's \<Rightarrow> 's"
    and inv :: "'s \<Rightarrow> bool"
  assumes step_inv: "inv s \<Longrightarrow> inv (step x s)"
begin

lemma run_inv: "inv s \<Longrightarrow> inv (foldl (\<lambda>s x. step x s) s xs)"
  by (induction xs arbitrary: s) (auto intro: step_inv)

lemma run_prefix_inv:
  "inv s \<Longrightarrow> inv (foldl (\<lambda>s x. step x s) s (take n xs))"
  by (rule run_inv)

end

interpretation al_store: keyed_store AList.update map_of
  by unfold_locales (auto simp: update_conv')

end
