(* ===== verification/Core_KVCache.thy ===== *)
theory Core_KVCache
  imports Chen_Prelude
begin

text \<open>
  \<open>chen/core/kv_cache.py\<close> and \<open>chen/backends/base.py\<close>: the KV-cache, the protocol that every
  inference backend implements, and the laws of that protocol as a locale.

  A numpy array is its shape, its item size in bytes and its items in row-major order. A backend
  is a record of its operations, each an action on the state \<open>'w\<close> of the world behind it (model
  weights, GPU, a mock's cache dict).
\<close>

section \<open>Tensors\<close>

record tensor =
  t_shape :: "nat list"
  t_itemsize :: nat
  t_data :: "real list"

definition t_nbytes :: "tensor \<Rightarrow> nat" where
  "t_nbytes t = prod_list (t_shape t) * t_itemsize t"

definition t_wf :: "tensor \<Rightarrow> bool" where
  "t_wf t \<longleftrightarrow> length (t_data t) = prod_list (t_shape t)"

definition zeros_like :: "tensor \<Rightarrow> tensor" where
  "zeros_like t = t\<lparr>t_data := replicate (prod_list (t_shape t)) 0\<rparr>"

lemma zeros_like_wf [simp]: "t_wf (zeros_like t)"
  by (simp add: zeros_like_def t_wf_def)

lemma zeros_like_shape [simp]: "t_shape (zeros_like t) = t_shape t"
  by (simp add: zeros_like_def)

section \<open>KV-caches\<close>

datatype meta_value = MStr pystr | MInt int | MInts "int list"

record kv_cache =
  kv_keys :: "tensor list"
  kv_values :: "tensor list"
  source_model :: pystr
  source_layer_count :: int
  source_hidden_size :: int
  source_n_heads :: int
  source_text :: pystr
  last_token_id :: int
  position :: int
  kv_metadata :: "(pystr \<times> meta_value) list"

definition kv_post_init :: "kv_cache \<Rightarrow> py_exc + kv_cache" where
  "kv_post_init c =
     (if length (kv_keys c) \<noteq> length (kv_values c) then Inl ValueError
      else if source_layer_count c \<noteq> int (length (kv_keys c))
      then Inr (c\<lparr>kv_metadata :=
                    AList.update (lit ''layer_count_mismatch'')
                      (MStr (lit ''declared='' @ py_str_int (source_layer_count c) @
                             lit '', actual='' @ py_str_int (int (length (kv_keys c)))))
                      (kv_metadata c),
                  source_layer_count := int (length (kv_keys c))\<rparr>)
      else Inr c)"

definition seq_len :: "kv_cache \<Rightarrow> nat" where
  "seq_len c =
     (case kv_keys c of [] \<Rightarrow> 0
      | k # _ \<Rightarrow> (if 1 \<le> length (t_shape k) then t_shape k ! 0 else 0))"

definition kv_n_heads :: "kv_cache \<Rightarrow> nat" where
  "kv_n_heads c =
     (case kv_keys c of [] \<Rightarrow> 0
      | k # _ \<Rightarrow> (if length (t_shape k) < 2 then 0 else t_shape k ! 1))"

definition head_dim :: "kv_cache \<Rightarrow> nat" where
  "head_dim c =
     (case kv_keys c of [] \<Rightarrow> 0
      | k # _ \<Rightarrow> (if length (t_shape k) < 3 then 0 else t_shape k ! 2))"

definition bytes_size :: "kv_cache \<Rightarrow> nat" where
  "bytes_size c = sum_list (map t_nbytes (kv_keys c)) + sum_list (map t_nbytes (kv_values c))"

definition is_compatible_with :: "kv_cache \<Rightarrow> int \<Rightarrow> int \<Rightarrow> int \<Rightarrow> bool" where
  "is_compatible_with c n_layers heads hdim \<longleftrightarrow>
     source_layer_count c = n_layers \<and> int (kv_n_heads c) = heads \<and> int (head_dim c) = hdim"

text \<open>What \<open>__post_init__\<close> establishes.\<close>

definition kv_wf :: "kv_cache \<Rightarrow> bool" where
  "kv_wf c \<longleftrightarrow> length (kv_keys c) = length (kv_values c) \<and>
              source_layer_count c = int (length (kv_keys c))"

lemma kv_post_init_wf: "kv_post_init c = Inr c' \<Longrightarrow> kv_wf c'"
  by (auto simp: kv_post_init_def kv_wf_def split: if_splits)

lemma kv_post_init_id: "kv_wf c \<Longrightarrow> kv_post_init c = Inr c"
  by (simp add: kv_post_init_def kv_wf_def)

lemma kv_post_init_keeps:
  "kv_post_init c = Inr c' \<Longrightarrow>
   kv_keys c' = kv_keys c \<and> kv_values c' = kv_values c \<and> source_text c' = source_text c \<and>
   source_model c' = source_model c \<and> source_hidden_size c' = source_hidden_size c \<and>
   source_n_heads c' = source_n_heads c \<and> last_token_id c' = last_token_id c \<and>
   position c' = position c"
  by (auto simp: kv_post_init_def split: if_splits)

lemma kv_post_init_layers:
  "kv_post_init c = Inr c' \<Longrightarrow> source_layer_count c' = int (length (kv_keys c))"
  by (auto simp: kv_post_init_def split: if_splits)

section \<open>The backend protocol\<close>

record capabilities =
  supports_kv_cache :: bool
  supports_streaming :: bool
  supports_batching :: bool
  deterministic :: bool

text \<open>
  What reading an attribute and converting it with \<open>int\<close> gives: the attribute may be missing, or
  hold something \<open>int\<close> rejects with \<open>TypeError\<close> or \<open>ValueError\<close>.
\<close>

datatype int_attr = NoAttr | NotInt | IsInt int

record 'w backend =
  bk_params_m :: int_attr
  bk_resolved_params_m :: int_attr
  bk_capabilities :: capabilities
  bk_model_id :: pystr
  bk_generate :: "pystr \<Rightarrow> int \<Rightarrow> ('w, py_exc, pystr) act"
  bk_encode :: "pystr \<Rightarrow> ('w, py_exc, kv_cache) act"
  bk_decode :: "kv_cache \<Rightarrow> int \<Rightarrow> ('w, py_exc, pystr) act"
  bk_transfer_cache :: "kv_cache \<Rightarrow> ('w, py_exc, kv_cache) act"
  bk_count_tokens :: "(pystr \<Rightarrow> ('w, py_exc, int) act) option"

text \<open>
  What the clients rely on: \<open>encode\<close> records the text it encoded, \<open>transfer_cache\<close> keeps that
  text whatever it does to the tensors, and both hand out well-formed caches.
\<close>

locale latent_backend =
  fixes encode :: "pystr \<Rightarrow> ('w, py_exc, kv_cache) act"
    and transfer :: "kv_cache \<Rightarrow> ('w, py_exc, kv_cache) act"
  assumes encode_text: "encode p w = (Inr c, w') \<Longrightarrow> source_text c = p \<and> kv_wf c"
    and transfer_text: "kv_wf c \<Longrightarrow> transfer c w = (Inr c', w') \<Longrightarrow>
                        source_text c' = source_text c \<and> kv_wf c'"
begin

text \<open>A cache handed along a chain of transfers still stands for the text it was made from.\<close>

fun handoff :: "nat \<Rightarrow> kv_cache \<Rightarrow> ('w, py_exc, kv_cache) act" where
  "handoff 0 c = ret c"
| "handoff (Suc n) c = bnd (transfer c) (handoff n)"

lemma handoff_text:
  "kv_wf c \<Longrightarrow> handoff n c w = (Inr c', w') \<Longrightarrow> source_text c' = source_text c \<and> kv_wf c'"
proof (induction n arbitrary: c w)
  case 0
  then show ?case by simp
next
  case (Suc n)
  from Suc.prems(2) obtain d v
    where d: "transfer c w = (Inr d, v)" and r: "handoff n d v = (Inr c', w')"
    by auto
  from transfer_text [OF Suc.prems(1) d] Suc.IH [OF _ r] show ?case by auto
qed

lemma encode_handoff_text:
  "bnd (encode p) (handoff n) w = (Inr c, w') \<Longrightarrow> source_text c = p \<and> kv_wf c"
  using encode_text handoff_text by fastforce

end

section \<open>Changing the number of layers\<close>

text \<open>
  The adjustment the HuggingFace, vLLM and llama.cpp backends make in \<open>transfer_cache\<close> once heads
  and hidden size agree: the cache itself when the layer counts agree, otherwise a new cache with
  the layers cut off or filled up with zeros of the first layer's shape (an \<open>IndexError\<close> when
  there is no first layer). \<open>keep_meta\<close>: whether the metadata is passed on.
\<close>

definition adjust_layers :: "bool \<Rightarrow> int \<Rightarrow> kv_cache \<Rightarrow> py_exc + kv_cache" where
  "adjust_layers keep_meta my_n_layers c =
     (let new = (\<lambda>ks vs. kv_post_init
            (c\<lparr>kv_keys := ks, kv_values := vs, source_layer_count := my_n_layers,
               kv_metadata := (if keep_meta then kv_metadata c else [])\<rparr>))
      in if source_layer_count c = my_n_layers then Inr c
         else if my_n_layers < source_layer_count c
         then new (py_take my_n_layers (kv_keys c)) (py_take my_n_layers (kv_values c))
         else (case (kv_keys c, kv_values c) of
                 (k # _, v # _) \<Rightarrow>
                   (let pad = nat (my_n_layers - source_layer_count c)
                    in new (kv_keys c @ replicate pad (zeros_like k))
                           (kv_values c @ replicate pad (zeros_like v)))
               | _ \<Rightarrow> Inl IndexError))"

lemma adjust_layers_text:
  assumes "kv_wf c" and "adjust_layers m n c = Inr c'"
  shows "source_text c' = source_text c \<and> kv_wf c'"
  using assms kv_post_init_wf kv_post_init_keeps
  by (fastforce simp: adjust_layers_def Let_def split: if_splits list.splits)

lemma adjust_layers_count:
  assumes "kv_wf c" and "0 \<le> n" and "adjust_layers m n c = Inr c'"
  shows "source_layer_count c' = n \<and> length (kv_keys c') = nat n"
proof -
  have l: "length (kv_keys c) = nat (source_layer_count c)" "0 \<le> source_layer_count c"
    using assms(1) by (auto simp: kv_wf_def)
  consider "source_layer_count c = n" | "n < source_layer_count c" | "source_layer_count c < n"
    by linarith
  then show ?thesis
  proof cases
    case 1
    with assms l show ?thesis by (simp add: adjust_layers_def)
  next
    case 2
    then have p: "kv_post_init (c\<lparr>kv_keys := py_take n (kv_keys c), kv_values := py_take n (kv_values c),
        source_layer_count := n, kv_metadata := (if m then kv_metadata c else [])\<rparr>) = Inr c'"
      using assms(3) by (simp add: adjust_layers_def)
    have "length (py_take n (kv_keys c)) = nat n"
      using 2 assms(2) l by (simp add: py_take_def)
    with kv_post_init_layers [OF p] kv_post_init_keeps [OF p] assms(2) show ?thesis by simp
  next
    case 3
    from 3 assms(3) obtain k ks v vs where kv: "kv_keys c = k # ks" "kv_values c = v # vs"
      by (auto simp: adjust_layers_def split: list.splits)
    let ?pad = "nat (n - source_layer_count c)"
    from 3 kv have p: "kv_post_init (c\<lparr>kv_keys := kv_keys c @ replicate ?pad (zeros_like k),
        kv_values := kv_values c @ replicate ?pad (zeros_like v), source_layer_count := n,
        kv_metadata := (if m then kv_metadata c else [])\<rparr>) = Inr c'"
      using assms(3) by (simp add: adjust_layers_def Let_def)
    have "length (kv_keys c @ replicate ?pad (zeros_like k)) = nat n"
      using 3 l by simp
    with kv_post_init_layers [OF p] kv_post_init_keeps [OF p] assms(2) 3 l show ?thesis by simp
  qed
qed

lemma adjust_layers_total:
  "kv_wf c \<Longrightarrow> 0 \<le> n \<Longrightarrow> adjust_layers m n c = Inl e \<longleftrightarrow> kv_keys c = [] \<and> 0 < n \<and> e = IndexError"
  by (cases "kv_keys c"; cases "kv_values c")
    (auto simp: adjust_layers_def kv_wf_def kv_post_init_def py_take_def Let_def)

text \<open>The layers that both have are kept as they are.\<close>

lemma adjust_layers_prefix:
  assumes "kv_wf c" and "0 \<le> n" and "adjust_layers m n c = Inr c'"
  shows "take (nat (min n (source_layer_count c))) (kv_keys c') =
         take (nat (min n (source_layer_count c))) (kv_keys c)"
proof -
  have l: "length (kv_keys c) = nat (source_layer_count c)" "0 \<le> source_layer_count c"
    using assms(1) by (auto simp: kv_wf_def)
  consider "source_layer_count c = n" | "n < source_layer_count c" | "source_layer_count c < n"
    by linarith
  then show ?thesis
  proof cases
    case 1
    with assms show ?thesis by (simp add: adjust_layers_def)
  next
    case 2
    with assms have "kv_keys c' = py_take n (kv_keys c)"
      using kv_post_init_keeps by (fastforce simp: adjust_layers_def)
    with 2 assms(2) show ?thesis by (simp add: py_take_def)
  next
    case 3
    from 3 assms(3) obtain k ks v vs where kv: "kv_keys c = k # ks" "kv_values c = v # vs"
      by (auto simp: adjust_layers_def split: list.splits)
    have "kv_keys c' = kv_keys c @ replicate (nat (n - source_layer_count c)) (zeros_like k)"
      using 3 kv assms(3) kv_post_init_keeps by (fastforce simp: adjust_layers_def Let_def)
    with 3 l show ?thesis by simp
  qed
qed

end
