(* ===== verification/Chen_Bytes.thy ===== *)
theory Chen_Bytes
  imports Chen_Prelude "HOL-Library.Word"
begin

text \<open>
  The byte-level parts of the Python standard library that the code uses: \<open>str.encode("utf-8")\<close>
  and \<open>bytes.decode("utf-8")\<close>, \<open>struct.pack(">I", n)\<close> and its inverse, \<open>base64.b64encode\<close> and
  the non-strict \<open>base64.b64decode\<close>, \<open>int.from_bytes\<close>. A byte is an \<open>8 word\<close>.

  The interface \<open>codec\<close> is a partial encoder with a decoder that inverts it; UTF-8, the
  big-endian length field and base64 provide it here, the encrypted block in its own theory.
\<close>

section \<open>Bytes\<close>

type_synonym byte = "8 word"
type_synonym bytes = "byte list"

definition byte_of :: "nat \<Rightarrow> byte" where
  "byte_of n = of_nat n"

lemma unat_byte_of [simp]: "n < 256 \<Longrightarrow> unat (byte_of n) = n"
  by (simp add: byte_of_def unsigned_of_nat take_bit_nat_eq_self)

lemma unat_byte_lt [simp]: "unat (b :: byte) < 256"
  using unsigned_less [of b] by simp

lemma byte_of_unat [simp]: "byte_of (unat b) = b"
  by (simp add: byte_of_def)

lemma byte_of_inj: "m < 256 \<Longrightarrow> n < 256 \<Longrightarrow> byte_of m = byte_of n \<longleftrightarrow> m = n"
  by (metis unat_byte_of)

section \<open>Codecs\<close>

locale codec =
  fixes enc :: "'a \<Rightarrow> 'b list option"
    and dec :: "'b list \<Rightarrow> 'a option"
  assumes dec_enc: "enc x = Some bs \<Longrightarrow> dec bs = Some x"
begin

lemma enc_inj: "enc x = Some bs \<Longrightarrow> enc y = Some bs \<Longrightarrow> x = y"
  by (drule dec_enc)+ simp

lemma dec_enc_bind: "Option.bind (enc x) dec = (if enc x = None then None else Some x)"
  by (cases "enc x") (auto simp: dec_enc)

end

section \<open>UTF-8\<close>

text \<open>
  Encoding fails on a lone surrogate (\<open>UnicodeEncodeError\<close>); decoding fails on anything that
  is not the shortest form of a scalar value (\<open>UnicodeDecodeError\<close>).
\<close>

definition is_surrogate :: "nat \<Rightarrow> bool" where
  "is_surrogate c \<longleftrightarrow> 55296 \<le> c \<and> c < 57344"

definition utf8_char :: "nat \<Rightarrow> bytes option" where
  "utf8_char c =
     (if c < 128 then Some [byte_of c]
      else if c < 2048 then Some [byte_of (192 + c div 64), byte_of (128 + c mod 64)]
      else if is_surrogate c then None
      else if c < 65536 then
        Some [byte_of (224 + c div 4096), byte_of (128 + c div 64 mod 64), byte_of (128 + c mod 64)]
      else if c < 1114112 then
        Some [byte_of (240 + c div 262144), byte_of (128 + c div 4096 mod 64),
              byte_of (128 + c div 64 mod 64), byte_of (128 + c mod 64)]
      else None)"

fun utf8_encode :: "pystr \<Rightarrow> bytes option" where
  "utf8_encode [] = Some []"
| "utf8_encode (c # cs) =
     (case utf8_char c of None \<Rightarrow> None
      | Some bs \<Rightarrow> (case utf8_encode cs of None \<Rightarrow> None | Some bs' \<Rightarrow> Some (bs @ bs')))"

definition is_cont :: "byte \<Rightarrow> bool" where
  "is_cont b \<longleftrightarrow> 128 \<le> unat b \<and> unat b < 192"

fun utf8_decode :: "bytes \<Rightarrow> pystr option" where
  "utf8_decode [] = Some []"
| "utf8_decode (b # bs) =
     (if unat b < 128 then map_option (Cons (unat b)) (utf8_decode bs)
      else if unat b < 192 then None
      else if unat b < 224 then
        (case bs of b1 # bs1 \<Rightarrow>
           (let c = (unat b - 192) * 64 + (unat b1 - 128) in
            if is_cont b1 \<and> 128 \<le> c then map_option (Cons c) (utf8_decode bs1) else None)
         | _ \<Rightarrow> None)
      else if unat b < 240 then
        (case bs of b1 # b2 # bs2 \<Rightarrow>
           (let c = (unat b - 224) * 4096 + (unat b1 - 128) * 64 + (unat b2 - 128) in
            if is_cont b1 \<and> is_cont b2 \<and> 2048 \<le> c \<and> \<not> is_surrogate c
            then map_option (Cons c) (utf8_decode bs2) else None)
         | _ \<Rightarrow> None)
      else if unat b < 248 then
        (case bs of b1 # b2 # b3 # bs3 \<Rightarrow>
           (let c = (unat b - 240) * 262144 + (unat b1 - 128) * 4096 +
                    (unat b2 - 128) * 64 + (unat b3 - 128) in
            if is_cont b1 \<and> is_cont b2 \<and> is_cont b3 \<and> 65536 \<le> c \<and> c < 1114112
            then map_option (Cons c) (utf8_decode bs3) else None)
         | _ \<Rightarrow> None)
      else None)"

lemma is_cont_byte_of [simp]: "n < 64 \<Longrightarrow> is_cont (byte_of (128 + n))"
  by (simp add: is_cont_def)

lemma split_64: "(c::nat) div 64 * 64 + c mod 64 = c"
  by simp

lemma split_4096: "(c::nat) div 4096 * 4096 + c div 64 mod 64 * 64 + c mod 64 = c"
proof -
  have "c div 4096 = c div 64 div 64" by (simp add: div_mult2_eq [symmetric])
  then show ?thesis using split_64 [of "c div 64"] split_64 [of c] by linarith
qed

lemma split_262144:
  "(c::nat) div 262144 * 262144 + c div 4096 mod 64 * 4096 + c div 64 mod 64 * 64 + c mod 64 = c"
proof -
  have "c div 262144 = c div 4096 div 64" by (simp add: div_mult2_eq [symmetric])
  then show ?thesis using split_64 [of "c div 4096"] split_4096 [of c] by linarith
qed

lemma join_64 [simp]:
  "n < 64 \<Longrightarrow> (x * 64 + n) div 64 = (x::nat)"
  "n < 64 \<Longrightarrow> (x * 64 + n) mod 64 = (n::nat)"
  by simp_all

lemma join_4096:
  assumes "n1 < 64" and "n2 < (64::nat)" and c: "c = x * 4096 + n1 * 64 + n2"
  shows "c div 4096 = x" and "c div 64 mod 64 = n1" and "c mod 64 = n2"
proof -
  have c': "c = (x * 64 + n1) * 64 + n2" using c by simp
  then have d: "c div 64 = x * 64 + n1" "c mod 64 = n2"
    using assms(2) join_64 [of n2 "x * 64 + n1"] by metis+
  then show "c div 64 mod 64 = n1" "c mod 64 = n2"
    using assms(1) by simp_all
  have "c div 4096 = c div 64 div 64" by (simp add: div_mult2_eq [symmetric])
  then show "c div 4096 = x" using d assms(1) by simp
qed

lemma join_262144:
  assumes "n1 < 64" and "n2 < 64" and "n3 < (64::nat)"
    and c: "c = x * 262144 + n1 * 4096 + n2 * 64 + n3"
  shows "c div 262144 = x" and "c div 4096 mod 64 = n1" and "c div 64 mod 64 = n2"
    and "c mod 64 = n3"
proof -
  have c': "c = (x * 64 + n1) * 4096 + n2 * 64 + n3" using c by simp
  note j = join_4096 [OF assms(2,3) c']
  show "c div 64 mod 64 = n2" "c mod 64 = n3" using j by simp_all
  show "c div 4096 mod 64 = n1" using j assms(1) by simp
  have "c div 262144 = c div 4096 div 64" by (simp add: div_mult2_eq [symmetric])
  then show "c div 262144 = x" using j assms(1) by simp
qed

lemma utf8_decode_char:
  assumes "utf8_char c = Some bs"
  shows "utf8_decode (bs @ rest) = map_option (Cons c) (utf8_decode rest)"
proof -
  consider (1) "c < 128" | (2) "128 \<le> c" "c < 2048"
    | (3) "2048 \<le> c" "c < 65536" "\<not> is_surrogate c"
    | (4) "65536 \<le> c" "c < 1114112" "\<not> is_surrogate c"
    using assms by (force simp: utf8_char_def split: if_splits)
  then show ?thesis
  proof cases
    case 1
    with assms show ?thesis by (auto simp: utf8_char_def)
  next
    case 2
    then have "c div 64 < 32" by simp
    with assms 2 show ?thesis
      using split_64 [of c] by (auto simp: utf8_char_def Let_def)
  next
    case 3
    then have "c div 4096 < 16" by simp
    with assms 3 show ?thesis
      using split_4096 [of c] by (auto simp: utf8_char_def Let_def)
  next
    case 4
    then have "c div 262144 < 5" by simp
    with assms 4 show ?thesis
      using split_262144 [of c] by (auto simp: utf8_char_def Let_def)
  qed
qed

lemma utf8_decode_append:
  "utf8_encode s = Some bs \<Longrightarrow> utf8_decode (bs @ rest) = map_option ((@) s) (utf8_decode rest)"
proof (induction s arbitrary: bs)
  case Nil
  then show ?case by (simp add: option.map_ident)
next
  case (Cons c s)
  then obtain b1 b2 where "utf8_char c = Some b1" "utf8_encode s = Some b2" "bs = b1 @ b2"
    by (auto split: option.splits)
  with Cons.IH [of b2] show ?case
    by (simp add: utf8_decode_char option.map_comp comp_def)
qed

lemma utf8_decode_encode: "utf8_encode s = Some bs \<Longrightarrow> utf8_decode bs = Some s"
  using utf8_decode_append [of s bs "[]"] by simp

text \<open>Nothing else decodes: a decoded text encodes back to the same bytes.\<close>

lemma byte_of_eqI: "unat b = n \<Longrightarrow> byte_of n = b"
  by auto

lemma cont_bytes: "is_cont b \<Longrightarrow> \<exists>n<64. unat b = 128 + n"
  by (rule exI [of _ "unat b - 128"]) (auto simp: is_cont_def)

lemma utf8_encode_decode: "utf8_decode bs = Some s \<Longrightarrow> utf8_encode s = Some bs"
proof (induction bs arbitrary: s rule: utf8_decode.induct)
  case 1
  then show ?case by simp
next
  case (2 b bs)
  consider (a) "unat b < 128" | (c2) "192 \<le> unat b" "unat b < 224"
    | (c3) "224 \<le> unat b" "unat b < 240" | (c4) "240 \<le> unat b" "unat b < 248"
    using "2.prems" by (fastforce split: if_splits)
  then show ?case
  proof cases
    case a
    with "2.prems" obtain t where t: "utf8_decode bs = Some t" "s = unat b # t" by auto
    with "2.IH"(1) a show ?thesis by (simp add: utf8_char_def)
  next
    case c2
    with "2.prems" obtain b1 bs1 t where e: "bs = b1 # bs1" "is_cont b1"
      "128 \<le> (unat b - 192) * 64 + (unat b1 - 128)" "utf8_decode bs1 = Some t"
      "s = ((unat b - 192) * 64 + (unat b1 - 128)) # t"
      by (auto simp: Let_def split: list.splits if_splits)
    from e(2) obtain n1 where n1: "n1 < 64" "unat b1 = 128 + n1" using cont_bytes by blast
    let ?m = "unat b - 192"
    have m: "unat b = 192 + ?m" "?m < 32" using c2 by auto
    have "utf8_encode t = Some bs1" using "2.IH"(2) c2 e by (simp add: Let_def)
    moreover have "utf8_char (?m * 64 + n1) = Some [b, b1]"
      using e(3) n1 m by (simp add: utf8_char_def byte_of_eqI)
    ultimately show ?thesis using e n1 by simp
  next
    case c3
    let ?c = "\<lambda>b1 b2. (unat b - 224) * 4096 + (unat b1 - 128) * 64 + (unat b2 - 128)"
    from c3 "2.prems" obtain b1 b2 bs2 t where e: "bs = b1 # b2 # bs2" "is_cont b1" "is_cont b2"
      "2048 \<le> ?c b1 b2" "\<not> is_surrogate (?c b1 b2)" "utf8_decode bs2 = Some t" "s = ?c b1 b2 # t"
      by (auto simp: Let_def split: list.splits if_splits)
    from e(2,3) obtain n1 n2 where n: "n1 < 64" "unat b1 = 128 + n1" "n2 < 64" "unat b2 = 128 + n2"
      using cont_bytes by meson
    let ?m = "unat b - 224"
    have m: "unat b = 224 + ?m" "?m < 16" using c3 by auto
    have "utf8_encode t = Some bs2" using "2.IH"(3) c3 e by (simp add: Let_def)
    moreover have "utf8_char (?m * 4096 + n1 * 64 + n2) = Some [b, b1, b2]"
      using e(4,5) n m by (simp add: utf8_char_def byte_of_eqI join_4096 [OF n(1) n(3) refl])
    ultimately show ?thesis using e n by simp
  next
    case c4
    let ?c = "\<lambda>b1 b2 b3. (unat b - 240) * 262144 + (unat b1 - 128) * 4096 +
                (unat b2 - 128) * 64 + (unat b3 - 128)"
    from c4 "2.prems" obtain b1 b2 b3 bs3 t where e: "bs = b1 # b2 # b3 # bs3"
      "is_cont b1" "is_cont b2" "is_cont b3" "65536 \<le> ?c b1 b2 b3" "?c b1 b2 b3 < 1114112"
      "utf8_decode bs3 = Some t" "s = ?c b1 b2 b3 # t"
      by (auto simp: Let_def split: list.splits if_splits)
    from e(2-4) obtain n1 n2 n3 where n: "n1 < 64" "unat b1 = 128 + n1" "n2 < 64"
        "unat b2 = 128 + n2" "n3 < 64" "unat b3 = 128 + n3"
      using cont_bytes by meson
    let ?m = "unat b - 240"
    have m: "unat b = 240 + ?m" "?m < 8" using c4 by auto
    have "utf8_encode t = Some bs3" using "2.IH"(4) c4 e by (simp add: Let_def)
    moreover have "utf8_char (?m * 262144 + n1 * 4096 + n2 * 64 + n3) = Some [b, b1, b2, b3]"
    proof -
      have "\<not> is_surrogate (?m * 262144 + n1 * 4096 + n2 * 64 + n3)"
        using e(5) n by (simp add: is_surrogate_def)
      then show ?thesis
        using e(5,6) n m
        by (simp add: utf8_char_def byte_of_eqI join_262144 [OF n(1) n(3) n(5) refl])
    qed
    ultimately show ?thesis using e n by simp
  qed
qed

interpretation utf8: codec utf8_encode utf8_decode
  by unfold_locales (rule utf8_decode_encode)

text \<open>ASCII text, and \<open>bytes.decode("ascii", errors="ignore")\<close>.\<close>

definition ascii_decode_ignore :: "bytes \<Rightarrow> pystr" where
  "ascii_decode_ignore bs = map unat (filter (\<lambda>b. unat b < 128) bs)"

lemma utf8_encode_ascii: "\<forall>c \<in> set s. c < 128 \<Longrightarrow> utf8_encode s = Some (map byte_of s)"
  by (induction s) (simp_all add: utf8_char_def)

lemma length_utf8_encode_ge: "utf8_encode s = Some bs \<Longrightarrow> length s \<le> length bs"
proof (induction s arbitrary: bs)
  case Nil
  then show ?case by simp
next
  case (Cons c s)
  then obtain b1 b2 where e: "utf8_char c = Some b1" "utf8_encode s = Some b2" "bs = b1 @ b2"
    by (auto split: option.splits)
  then have "1 \<le> length b1" by (auto simp: utf8_char_def split: if_splits)
  with e Cons.IH show ?case by fastforce
qed

section \<open>Big-endian 32-bit lengths\<close>

text \<open>\<open>struct.pack(">I", n)\<close> raises \<open>struct.error\<close> for \<open>n\<close> outside \<open>[0, 2^32)\<close>.\<close>

definition be32_encode :: "nat \<Rightarrow> bytes option" where
  "be32_encode n =
     (if n < 2 ^ 32
      then Some [byte_of (n div 16777216), byte_of (n div 65536 mod 256),
                 byte_of (n div 256 mod 256), byte_of (n mod 256)]
      else None)"

definition be32_decode :: "bytes \<Rightarrow> nat option" where
  "be32_decode bs =
     (case bs of [a, b, c, d] \<Rightarrow>
        Some (unat a * 16777216 + unat b * 65536 + unat c * 256 + unat d)
      | _ \<Rightarrow> None)"

lemma split_bytes:
  "(n::nat) div 16777216 * 16777216 + n div 65536 mod 256 * 65536 +
   n div 256 mod 256 * 256 + n mod 256 = n"
proof -
  have "n div 16777216 = n div 65536 div 256" "n div 65536 = n div 256 div 256"
    by (simp_all add: div_mult2_eq [symmetric])
  then show ?thesis
    using div_mult_mod_eq [of n 256] div_mult_mod_eq [of "n div 256" 256]
      div_mult_mod_eq [of "n div 65536" 256]
    by linarith
qed

lemma length_be32: "be32_encode n = Some bs \<Longrightarrow> length bs = 4"
  by (auto simp: be32_encode_def split: if_splits)

lemma be32_decode_encode: "be32_encode n = Some bs \<Longrightarrow> be32_decode bs = Some n"
proof -
  assume a: "be32_encode n = Some bs"
  then have lt: "n < 4294967296" by (simp add: be32_encode_def split: if_splits)
  have "n div 16777216 < 256" using lt by simp
  moreover have "n div 16777216 * 16777216 + n div 65536 mod 256 * 65536 +
      n div 256 mod 256 * 256 + n mod 256 = n"
    by (rule split_bytes)
  ultimately show ?thesis
    using a by (auto simp: be32_encode_def be32_decode_def split: if_splits)
qed

interpretation be32: codec be32_encode be32_decode
  by unfold_locales (rule be32_decode_encode)

section \<open>Base64\<close>

text \<open>The alphabet, as code points, and its inverse.\<close>

definition b64_char :: "nat \<Rightarrow> nat" where
  "b64_char v =
     (if v < 26 then 65 + v else if v < 52 then 71 + v else if v < 62 then v - 4
      else if v = 62 then 43 else 47)"

definition b64_val :: "nat \<Rightarrow> nat option" where
  "b64_val c =
     (if 65 \<le> c \<and> c \<le> 90 then Some (c - 65)
      else if 97 \<le> c \<and> c \<le> 122 then Some (c - 71)
      else if 48 \<le> c \<and> c \<le> 57 then Some (c + 4)
      else if c = 43 then Some 62 else if c = 47 then Some 63 else None)"

fun b64_encode :: "bytes \<Rightarrow> pystr" where
  "b64_encode [] = []"
| "b64_encode [a] =
     [b64_char (unat a div 4), b64_char (unat a mod 4 * 16), 61, 61]"
| "b64_encode [a, b] =
     [b64_char (unat a div 4), b64_char (unat a mod 4 * 16 + unat b div 16),
      b64_char (unat b mod 16 * 4), 61]"
| "b64_encode (a # b # c # bs) =
     b64_char (unat a div 4) # b64_char (unat a mod 4 * 16 + unat b div 16) #
     b64_char (unat b mod 16 * 4 + unat c div 64) # b64_char (unat c mod 64) # b64_encode bs"

text \<open>
  The decoding loop of \<open>binascii.a2b_base64\<close> in non-strict mode: \<open>q\<close> is the position in the
  current group of four, \<open>l\<close> the bits left over, \<open>p\<close> the padding characters seen. Characters
  outside the alphabet are skipped; a completed padding ends the input.
\<close>

fun b64_loop :: "nat \<Rightarrow> nat \<Rightarrow> nat \<Rightarrow> pystr \<Rightarrow> bytes option" where
  "b64_loop q l p [] = (if q = 0 then Some [] else None)"
| "b64_loop q l p (c # cs) =
     (if c = 61 then
        (if 2 \<le> q \<and> 4 \<le> q + Suc p then Some []
         else b64_loop q l (if 2 \<le> q then Suc p else p) cs)
      else (case b64_val c of
          None \<Rightarrow> b64_loop q l p cs
        | Some v \<Rightarrow>
            (if q = 0 then b64_loop 1 v 0 cs
             else if q = 1 then map_option (Cons (byte_of (l * 4 + v div 16))) (b64_loop 2 (v mod 16) 0 cs)
             else if q = 2 then map_option (Cons (byte_of (l * 16 + v div 4))) (b64_loop 3 (v mod 4) 0 cs)
             else map_option (Cons (byte_of (l * 64 + v))) (b64_loop 0 0 0 cs))))"

definition b64_decode :: "pystr \<Rightarrow> bytes option" where
  "b64_decode s = (if \<forall>c \<in> set s. c < 128 then b64_loop 0 0 0 s else None)"

lemma b64_val_char [simp]: "v < 64 \<Longrightarrow> b64_val (b64_char v) = Some v"
  by (auto simp: b64_char_def b64_val_def)

lemma b64_char_not_pad [simp]: "v < 64 \<Longrightarrow> b64_char v \<noteq> 61"
  by (auto simp: b64_char_def)

lemma b64_char_ascii: "v < 64 \<Longrightarrow> b64_char v < 128"
  by (auto simp: b64_char_def)

lemma sextets [simp]:
  "unat (a :: byte) div 4 < 64" "unat a mod 4 * 16 < 64"
  "unat a mod 4 * 16 + unat b div 16 < 64" "unat b mod 16 * 4 < 64"
  "unat (b :: byte) mod 16 * 4 + unat (c :: byte) div 64 < 64"
  using unat_byte_lt [of a] unat_byte_lt [of b] unat_byte_lt [of c] by linarith+

lemma sextet_parts [simp]:
  "(unat (a :: byte) mod 4 * 16 + unat (b :: byte) div 16) div 16 = unat a mod 4"
  "(unat (a :: byte) mod 4 * 16 + unat (b :: byte) div 16) mod 16 = unat b div 16"
  "(unat (b :: byte) mod 16 * 4 + unat (c :: byte) div 64) div 4 = unat b mod 16"
  "(unat (b :: byte) mod 16 * 4 + unat (c :: byte) div 64) mod 4 = unat c div 64"
proof -
  have "unat b div 16 < 16" "unat c div 64 < 4"
    using unat_byte_lt [of b] unat_byte_lt [of c] by linarith+
  then show "(unat a mod 4 * 16 + unat b div 16) div 16 = unat a mod 4"
    "(unat a mod 4 * 16 + unat b div 16) mod 16 = unat b div 16"
    "(unat b mod 16 * 4 + unat c div 64) div 4 = unat b mod 16"
    "(unat b mod 16 * 4 + unat c div 64) mod 4 = unat c div 64"
    by simp_all
qed

lemma sextet_bits [simp]:
  "unat (b :: byte) div 16 mod 16 = unat b div 16" "unat (c :: byte) div 64 mod 4 = unat c div 64"
proof -
  have "unat b div 16 < 16" "unat c div 64 < 4"
    using unat_byte_lt [of b] unat_byte_lt [of c] by linarith+
  then show "unat b div 16 mod 16 = unat b div 16" "unat c div 64 mod 4 = unat c div 64"
    by simp_all
qed

lemma b64_loop_encode: "b64_loop 0 l p (b64_encode bs) = Some bs"
proof (induction bs arbitrary: l p rule: b64_encode.induct)
  case 1
  show ?case by simp
next
  case (2 a)
  show ?case by simp
next
  case (3 a b)
  show ?case by (simp add: numeral_2_eq_2 numeral_3_eq_3)
next
  case (4 a b c bs)
  then show ?case by (simp add: numeral_2_eq_2 numeral_3_eq_3)
qed

lemma b64_encode_ascii: "\<forall>c \<in> set (b64_encode bs). c < 128"
  by (induction bs rule: b64_encode.induct) (auto simp: b64_char_ascii)

lemma b64_decode_encode [simp]: "b64_decode (b64_encode bs) = Some bs"
  using b64_encode_ascii [of bs] by (simp add: b64_decode_def b64_loop_encode)

interpretation b64: codec "\<lambda>bs. Some (b64_encode bs)" b64_decode
  by unfold_locales auto

section \<open>Integers from bytes\<close>

text \<open>\<open>int.from_bytes(bs, "little")\<close>\<close>

fun from_bytes_little :: "bytes \<Rightarrow> int" where
  "from_bytes_little [] = 0"
| "from_bytes_little (b # bs) = uint b + 256 * from_bytes_little bs"

lemma from_bytes_little_bounds:
  "0 \<le> from_bytes_little bs \<and> from_bytes_little bs < 256 ^ length bs"
proof (induction bs)
  case Nil
  then show ?case by simp
next
  case (Cons b bs)
  have "0 \<le> uint b" "uint b < 256" using uint_lt2p [of b] by simp_all
  with Cons show ?case by simp
qed

text \<open>\<open>k.to_bytes(n, "little")\<close>, an \<open>OverflowError\<close> when \<open>k\<close> does not fit.\<close>

fun le_bytes :: "nat \<Rightarrow> nat \<Rightarrow> bytes" where
  "le_bytes 0 k = []"
| "le_bytes (Suc n) k = byte_of (k mod 256) # le_bytes n (k div 256)"

definition to_bytes_little :: "nat \<Rightarrow> int \<Rightarrow> bytes option" where
  "to_bytes_little n k = (if 0 \<le> k \<and> k < 256 ^ n then Some (le_bytes n (nat k)) else None)"

lemma length_le_bytes [simp]: "length (le_bytes n k) = n"
  by (induction n arbitrary: k) auto

lemma from_le_bytes: "k < 256 ^ n \<Longrightarrow> from_bytes_little (le_bytes n k) = int k"
proof (induction n arbitrary: k)
  case 0
  then show ?case by simp
next
  case (Suc n)
  have "k div 256 < 256 ^ n" using Suc.prems by (simp add: less_mult_imp_div_less)
  then have IH: "from_bytes_little (le_bytes n (k div 256)) = int (k div 256)" by (rule Suc.IH)
  have "uint (byte_of (k mod 256)) = int (k mod 256)"
    by (simp add: uint_nat)
  with IH show ?case
    by (simp add: of_nat_div of_nat_mod)
qed

interpretation le_int: codec "to_bytes_little n" "\<lambda>bs. Some (from_bytes_little bs)" for n
  by unfold_locales (auto simp: to_bytes_little_def from_le_bytes nat_less_iff split: if_splits)

text \<open>\<open>bytes.hex()\<close>\<close>

definition hex_of_bytes :: "bytes \<Rightarrow> pystr" where
  "hex_of_bytes bs = concat (map (\<lambda>b. hex_pad 2 (unat b)) bs)"

section \<open>Embeddings from chunks of eight bytes\<close>

text \<open>
  The loop the hash embeddings share: \<open>for i in range(0, m, 8): out[(i // 8) % d] = f(chunk)\<close>,
  where \<open>n\<close> is the number of iterations. Later chunks overwrite earlier ones.
\<close>

definition chunk8 :: "bytes \<Rightarrow> nat \<Rightarrow> bytes" where
  "chunk8 enc j = take 8 (drop (8 * j) enc)"

definition set_chunks :: "(nat \<Rightarrow> bytes \<Rightarrow> real) \<Rightarrow> nat \<Rightarrow> nat \<Rightarrow> bytes \<Rightarrow> real list" where
  "set_chunks f d n enc =
     foldl (\<lambda>out j. out[j mod d := f j (chunk8 enc j)]) (replicate d 0) [0..<n]"

definition n_chunks :: "nat \<Rightarrow> nat" where
  "n_chunks len = (max len 1 + 7) div 8"

lemma n_chunks_pos [simp]: "0 < n_chunks len"
  by (simp add: n_chunks_def)

lemma length_foldl_update:
  "length (foldl (\<lambda>out j. out[g j := h j]) xs js) = length xs"
  by (induction js arbitrary: xs) auto

lemma length_set_chunks [simp]: "length (set_chunks f d n enc) = d"
  by (simp add: set_chunks_def length_foldl_update)

lemma set_foldl_update:
  "set (foldl (\<lambda>out j. out[g j := h j]) xs js) \<subseteq> set xs \<union> h ` set js"
proof (induction js arbitrary: xs)
  case Nil
  then show ?case by simp
next
  case (Cons j js)
  show ?case
    using Cons.IH [of "xs[g j := h j]"] set_update_subset_insert [of xs "g j" "h j"] by auto
qed

lemma set_chunks_range:
  assumes "\<And>j bs. P (f j bs)" and "P 0" and "x \<in> set (set_chunks f d n enc)"
  shows "P x"
  using assms set_foldl_update [of "\<lambda>j. j mod d" "\<lambda>j. f j (chunk8 enc j)" "replicate d 0" "[0..<n]"]
  by (auto simp: set_chunks_def split: if_splits)

end
