(* ===== verification/Backend_Mock.thy ===== *)
theory Backend_Mock
  imports Core_KVCache Chen_Bytes
begin

text \<open>
  \<open>chen/backends/mock.py\<close> and \<open>chen/backends/registry.py\<close>: the deterministic backend the tests
  and demos run on, and the registry of backend classes.

  \<open>hashlib.blake2b(data, key=key, digest_size=n)\<close> is an argument \<open>blake data key n\<close>; \<open>float32\<close>
  values are reals. The state of the backend is its private dict of caches.
\<close>

type_synonym blake = "bytes \<Rightarrow> bytes \<Rightarrow> nat \<Rightarrow> bytes"

section \<open>Registry\<close>

type_synonym 'f registry = "(pystr \<times> 'f) list"

definition register_backend ::
  "unicode \<Rightarrow> pystr \<Rightarrow> 'f \<Rightarrow> 'f registry \<Rightarrow> (py_exc + unit) \<times> 'f registry" where
  "register_backend u nm factory reg =
     (let key = py_lower u nm in
      case map_of reg key of
        Some f \<Rightarrow> (if f \<noteq> factory then (Inl BackendError, reg)
                   else (Inr (), AList.update key factory reg))
      | None \<Rightarrow> (Inr (), AList.update key factory reg))"

definition get_backend :: "unicode \<Rightarrow> pystr \<Rightarrow> 'f registry \<Rightarrow> py_exc + 'f" where
  "get_backend u nm reg =
     (case map_of reg (py_lower u nm) of None \<Rightarrow> Inl BackendError | Some f \<Rightarrow> Inr f)"

definition list_backends :: "'f registry \<Rightarrow> pystr list" where
  "list_backends reg = sort (map fst reg)"

text \<open>The registrations made when the package is imported, with the four classes as arguments.\<close>

definition register_builtins :: "unicode \<Rightarrow> 'f \<Rightarrow> 'f \<Rightarrow> 'f \<Rightarrow> 'f \<Rightarrow> 'f registry \<Rightarrow> 'f registry" where
  "register_builtins u mock hf vllm llama reg =
     snd (register_backend u (lit ''llama_cpp'') llama
       (snd (register_backend u (lit ''vllm'') vllm
         (snd (register_backend u (lit ''hf'') hf
           (snd (register_backend u (lit ''mock'') mock reg)))))))"

lemma register_backend_get:
  assumes "register_backend u nm f reg = (Inr (), reg')"
  shows "map_of reg' = (map_of reg)(py_lower u nm \<mapsto> f)"
  using assms
  by (auto simp: register_backend_def Let_def update_conv' split: option.splits if_splits)

lemma register_backend_keeps:
  assumes "map_of reg k = Some g"
  shows "map_of (snd (register_backend u nm f reg)) k = Some g"
  using assms
  by (auto simp: register_backend_def Let_def update_conv' split: option.splits)

text \<open>A registered backend is found under any spelling of its name that lower-cases to the
  same key, and no later registration changes what an already registered name gives:
  registering a different factory under it fails and leaves the registry as it is.\<close>

theorem registry_first_registration_wins:
  assumes "register_backend u nm f reg = (Inr (), reg')"
    and "py_lower u nm' = py_lower u nm"
    and "r = snd (register_backend u nm2 g (foldl (\<lambda>r (n, h). snd (register_backend u n h r)) reg' later))"
  shows "get_backend u nm' reg' = Inr f \<and> get_backend u nm' r = Inr f \<and>
         (g \<noteq> f \<longrightarrow> register_backend u nm' g reg' = (Inl BackendError, reg'))"
proof -
  have 1: "map_of reg' (py_lower u nm') = Some f"
    by (simp add: register_backend_get [OF assms(1)] assms(2))
  have keep: "map_of (foldl (\<lambda>r (n, h). snd (register_backend u n h r)) s later) k = Some h"
    if "map_of s k = Some h" for s k h
    using that by (induction later arbitrary: s) (auto simp: register_backend_keeps)
  have "map_of r (py_lower u nm') = Some f"
    unfolding assms(3) by (rule register_backend_keeps [OF keep [OF 1]])
  with 1 show ?thesis
    by (auto simp: get_backend_def register_backend_def Let_def)
qed

theorem registry_first_registration_wins_witness:
  "let u = \<lparr>u_lower = (\<lambda>c. [c]), u_word = (\<lambda>_. True), u_digit = (\<lambda>_. False), u_printable = (\<lambda>_. True)\<rparr>
   in get_backend u (lit ''MOCK'') [(lit ''mock'', 1 :: nat)] = Inr 1"
proof -
  let ?u = "\<lparr>u_lower = (\<lambda>c. [c]), u_word = (\<lambda>_. True), u_digit = (\<lambda>_. False), u_printable = (\<lambda>_. True)\<rparr>"
  have r: "register_backend ?u (lit ''Mock'') (1 :: nat) [] = (Inr (), [(lit ''mock'', 1)])"
    by (simp add: register_backend_def py_lower_def)
  have l: "py_lower ?u (lit ''MOCK'') = py_lower ?u (lit ''Mock'')"
    by (simp add: py_lower_def)
  from registry_first_registration_wins [OF r l refl, of "[]" 2 "[]"] show ?thesis
    by (simp only: Let_def)
qed

section \<open>Hash embeddings\<close>

definition stable_hash :: "blake \<Rightarrow> pystr \<Rightarrow> int \<Rightarrow> py_exc + bytes" where
  "stable_hash blake s seed =
     (case to_bytes_little 8 seed of
        None \<Rightarrow> Inl OtherError
      | Some key \<Rightarrow> (case utf8_encode s of None \<Rightarrow> Inl UnicodeError | Some bs \<Rightarrow> Inr (blake bs key 32)))"

text \<open>
  One item: \<open>(int.from_bytes(blake2b(chunk, key), "little") % 10000) / 10000.0\<close>, with the key of
  chunk \<open>j\<close> being \<open>seed + 8 * j\<close>.
\<close>

definition embed_item :: "blake \<Rightarrow> int \<Rightarrow> nat \<Rightarrow> bytes \<Rightarrow> real" where
  "embed_item blake seed j chunk =
     real_of_int (from_bytes_little (blake chunk (le_bytes 8 (nat (seed + 8 * int j))) 8) mod 10000) / 10000"

text \<open>
  \<open>_hash_to_embedding\<close>: \<open>np.zeros\<close> rejects a negative dimension, \<open>% dim\<close> fails for 0, and a key
  outside 64 bits is an \<open>OverflowError\<close>.
\<close>

definition hash_to_embedding :: "blake \<Rightarrow> pystr \<Rightarrow> int \<Rightarrow> int \<Rightarrow> py_exc + real list" where
  "hash_to_embedding blake s d seed =
     (if d < 0 then Inl ValueError
      else case utf8_encode s of
        None \<Rightarrow> Inl UnicodeError
      | Some enc \<Rightarrow>
          (let n = n_chunks (length enc) in
           if seed < 0 \<or> 2 ^ 64 \<le> seed + 8 * int (n - 1) \<or> d = 0 then Inl OtherError
           else Inr (set_chunks (embed_item blake seed) (nat d) n enc)))"

lemma embed_item_range: "0 \<le> embed_item blake seed j c \<and> embed_item blake seed j c < 1"
proof -
  let ?m = "from_bytes_little (blake c (le_bytes 8 (nat (seed + 8 * int j))) 8) mod 10000"
  have "0 \<le> ?m" "?m < 10000" by simp_all
  then have "0 \<le> real_of_int ?m" "real_of_int ?m < 10000" by linarith+
  then show ?thesis by (simp add: embed_item_def)
qed

lemma hash_to_embedding_Inr:
  assumes "hash_to_embedding blake s d seed = Inr xs"
  shows "length xs = nat d \<and> 0 < d \<and> (\<forall>x\<in>set xs. 0 \<le> x \<and> x < 1)"
proof -
  obtain enc where "xs = set_chunks (embed_item blake seed) (nat d) (n_chunks (length enc)) enc" "0 < d"
    using assms by (auto simp: hash_to_embedding_def Let_def split: if_splits option.splits)
  then show ?thesis
    using set_chunks_range [where P = "\<lambda>x. 0 \<le> x \<and> x < 1" and f = "embed_item blake seed"] embed_item_range
    by auto
qed

section \<open>The backend\<close>

record mock_config =
  m_params_m :: int
  m_model_id :: pystr
  m_n_layers :: int
  m_n_heads :: int
  m_head_dim :: int
  m_seed :: int
  m_role_hint :: pystr

definition default_mock :: mock_config where
  "default_mock =
     \<lparr>m_params_m = 3000, m_model_id = [], m_n_layers = 4, m_n_heads = 8, m_head_dim = 64,
      m_seed = 42, m_role_hint = lit ''expert''\<rparr>"

type_synonym mock_state = "(pystr \<times> kv_cache) list"

definition mock_post_init :: "mock_config \<Rightarrow> mock_config" where
  "mock_post_init m =
     (if m_model_id m = []
      then m\<lparr>m_model_id := lit ''mock-'' @ py_str_int (m_params_m m div 1000) @ lit ''B-'' @ m_role_hint m\<rparr>
      else m)"

definition mock_capabilities :: capabilities where
  "mock_capabilities = \<lparr>supports_kv_cache = True, supports_streaming = False,
                        supports_batching = False, deterministic = True\<rparr>"

definition mock_header :: "mock_config \<Rightarrow> pystr" where
  "mock_header m = lit ''['' @ m_role_hint m @ lit ''@'' @ py_str_int (m_params_m m div 1000) @ lit ''B] ''"

definition mock_steps :: "int \<Rightarrow> real list \<Rightarrow> pystr" where
  "mock_steps n emb =
     py_join nl (map (\<lambda>i. lit ''  step '' @ py_str_int (int i + 1) @ lit '': latent['' @
                           py_str_int (int i) @ lit ''] = '' @ py_fixed4 (emb ! (i mod 32)))
                     [0..<nat n])"

definition mock_generate ::
  "unicode \<Rightarrow> blake \<Rightarrow> mock_config \<Rightarrow> pystr \<Rightarrow> int \<Rightarrow> (mock_state, py_exc, pystr) act" where
  "mock_generate u blake m prompt max_tokens =
     (case hash_to_embedding blake prompt 32 (m_seed m) of
        Inl e \<Rightarrow> raise e
      | Inr emb \<Rightarrow>
          (case utf8_encode prompt of
             None \<Rightarrow> raise UnicodeError
           | Some enc \<Rightarrow>
               (let prompt_hash = hex_of_bytes (blake enc [] 4);
                    reasoning_steps = max 1 (m_params_m m div 2000);
                    snippet = py_take 80 (py_replace1 10 32 (py_strip prompt))
                in ret (mock_header m @ lit ''prompt_id='' @ prompt_hash @ nl @
                        lit ''input: '' @ py_repr u snippet @ nl @
                        lit ''reasoning ('' @ py_str_int reasoning_steps @ lit '' steps):'' @ nl @
                        mock_steps reasoning_steps emb @ nl @
                        lit ''output: processed by '' @ m_model_id m))))"

text \<open>One key or value tensor: an embedding reshaped to \<open>(seq_len, n_heads, head_dim)\<close>.\<close>

definition mock_tensor :: "blake \<Rightarrow> mock_config \<Rightarrow> pystr \<Rightarrow> nat \<Rightarrow> int \<Rightarrow> py_exc + tensor" where
  "mock_tensor blake m s sl seed =
     (case hash_to_embedding blake s (m_n_heads m * m_head_dim m * int sl) seed of
        Inl e \<Rightarrow> Inl e
      | Inr xs \<Rightarrow>
          (if m_n_heads m < 0 \<or> m_head_dim m < 0 then Inl ValueError
           else Inr \<lparr>t_shape = [sl, nat (m_n_heads m), nat (m_head_dim m)], t_itemsize = 4, t_data = xs\<rparr>))"

definition mock_layer_text :: "pystr \<Rightarrow> nat \<Rightarrow> pystr \<Rightarrow> pystr" where
  "mock_layer_text prompt layer kind =
     prompt @ lit ''|layer='' @ py_str_int (int layer) @ lit ''|kind='' @ kind"

fun mock_layers ::
  "blake \<Rightarrow> mock_config \<Rightarrow> pystr \<Rightarrow> nat \<Rightarrow> nat list \<Rightarrow> py_exc + (tensor list \<times> tensor list)" where
  "mock_layers blake m prompt sl [] = Inr ([], [])"
| "mock_layers blake m prompt sl (l # ls) =
     (case mock_tensor blake m (mock_layer_text prompt l (lit ''key'')) sl (m_seed m + int l) of
        Inl e \<Rightarrow> Inl e
      | Inr k \<Rightarrow>
          (case mock_tensor blake m (mock_layer_text prompt l (lit ''val'')) sl (m_seed m + int l + 1000) of
             Inl e \<Rightarrow> Inl e
           | Inr v \<Rightarrow>
               (case mock_layers blake m prompt sl ls of
                  Inl e \<Rightarrow> Inl e
                | Inr (ks, vs) \<Rightarrow> Inr (k # ks, v # vs))))"

definition mock_seq_len :: "pystr \<Rightarrow> nat" where
  "mock_seq_len prompt = max 1 (length prompt div 4)"

text \<open>
  \<open>KVCache(...)\<close> at the end of \<open>encode\<close>. For a negative \<open>n_layers\<close> the range is empty and the
  constructor corrects the declared count.
\<close>

definition mock_encode :: "blake \<Rightarrow> mock_config \<Rightarrow> pystr \<Rightarrow> (mock_state, py_exc, kv_cache) act" where
  "mock_encode blake m prompt =
     (let sl = mock_seq_len prompt in
      case mock_layers blake m prompt sl [0..<nat (m_n_layers m)] of
        Inl e \<Rightarrow> raise e
      | Inr (ks, vs) \<Rightarrow>
          (case utf8_encode prompt of
             None \<Rightarrow> raise UnicodeError
           | Some enc \<Rightarrow>
               (case kv_post_init
                       \<lparr>kv_keys = ks, kv_values = vs, source_model = m_model_id m,
                        source_layer_count = m_n_layers m,
                        source_hidden_size = m_n_heads m * m_head_dim m,
                        source_n_heads = m_n_heads m, source_text = prompt,
                        last_token_id = from_bytes_little (blake enc [] 4) mod 32000,
                        position = int sl - 1, kv_metadata = []\<rparr> of
                  Inl e \<Rightarrow> raise e
                | Inr c \<Rightarrow> (\<lambda>s. (Inr c, AList.update prompt c s)))))"

definition mock_decode :: "unicode \<Rightarrow> mock_config \<Rightarrow> kv_cache \<Rightarrow> int \<Rightarrow> (mock_state, py_exc, pystr) act" where
  "mock_decode u m c max_tokens =
     (let suffix = (if source_model c \<noteq> m_model_id m
                    then lit '' (transferred from '' @ source_model c @ lit '')'' else [])
      in ret (mock_header m @ lit ''decoded from cache ('' @ py_str_int (source_layer_count c) @
              lit '' layers, seq_len='' @ py_str_int (int (seq_len c)) @ lit '')'' @ suffix @ nl @
              lit ''source: '' @ py_repr u (py_take 80 (source_text c)) @ nl @
              lit ''output: decoded by '' @ m_model_id m))"

definition mock_same_shape :: "mock_config \<Rightarrow> kv_cache \<Rightarrow> bool" where
  "mock_same_shape m c \<longleftrightarrow>
     source_layer_count c = m_n_layers m \<and> source_n_heads c = m_n_heads m \<and>
     source_hidden_size c = m_n_heads m * m_head_dim m"

definition mock_transfer_cache ::
  "blake \<Rightarrow> mock_config \<Rightarrow> kv_cache \<Rightarrow> (mock_state, py_exc, kv_cache) act" where
  "mock_transfer_cache blake m c =
     (if mock_same_shape m c then ret c else mock_encode blake m (source_text c))"

definition mock_count_tokens :: "pystr \<Rightarrow> (mock_state, py_exc, int) act" where
  "mock_count_tokens s = ret (max 1 (int (length s) div 4))"

definition mock_backend :: "unicode \<Rightarrow> blake \<Rightarrow> mock_config \<Rightarrow> mock_state backend" where
  "mock_backend u blake m =
     \<lparr>bk_params_m = IsInt (m_params_m m), bk_resolved_params_m = NoAttr,
      bk_capabilities = mock_capabilities, bk_model_id = m_model_id m,
      bk_generate = mock_generate u blake m, bk_encode = mock_encode blake m,
      bk_decode = mock_decode u m, bk_transfer_cache = mock_transfer_cache blake m,
      bk_count_tokens = Some mock_count_tokens\<rparr>"

section \<open>What the operations give\<close>

definition mock_tensor_ok :: "mock_config \<Rightarrow> nat \<Rightarrow> tensor \<Rightarrow> bool" where
  "mock_tensor_ok m sl t \<longleftrightarrow>
     t_shape t = [sl, nat (m_n_heads m), nat (m_head_dim m)] \<and> t_wf t \<and>
     (\<forall>x\<in>set (t_data t). 0 \<le> x \<and> x < 1)"

lemma mock_tensor_Inr:
  assumes "mock_tensor blake m s sl seed = Inr t"
  shows "mock_tensor_ok m sl t \<and> 0 < m_n_heads m \<and> 0 < m_head_dim m"
proof -
  let ?d = "m_n_heads m * m_head_dim m * int sl"
  obtain xs where xs: "hash_to_embedding blake s ?d seed = Inr xs"
    and nn: "0 \<le> m_n_heads m" "0 \<le> m_head_dim m"
    and t: "t = \<lparr>t_shape = [sl, nat (m_n_heads m), nat (m_head_dim m)], t_itemsize = 4, t_data = xs\<rparr>"
    using assms by (auto simp: mock_tensor_def split: sum.splits if_splits)
  note h = hash_to_embedding_Inr [OF xs]
  have "length xs = sl * (nat (m_n_heads m) * nat (m_head_dim m))"
    using h nn by (simp add: nat_mult_distrib mult.commute)
  moreover have "0 < m_n_heads m" "0 < m_head_dim m"
    using h nn by (auto simp: order_le_less zero_less_mult_iff)
  ultimately show ?thesis
    using h t by (simp add: mock_tensor_ok_def t_wf_def)
qed

lemma mock_layers_Inr:
  assumes "mock_layers blake m prompt sl ls = Inr (ks, vs)"
  shows "length ks = length ls \<and> length vs = length ls \<and>
         (\<forall>t\<in>set ks \<union> set vs. mock_tensor_ok m sl t)"
  using assms mock_tensor_Inr
  by (induction ls arbitrary: ks vs) (fastforce split: sum.splits prod.splits)+

lemma mock_encode_Inr:
  assumes "mock_encode blake m p s = (Inr c, s')"
  shows "kv_wf c \<and> source_text c = p \<and> source_model c = m_model_id m \<and>
         source_n_heads c = m_n_heads m \<and> source_hidden_size c = m_n_heads m * m_head_dim m \<and>
         length (kv_keys c) = nat (m_n_layers m) \<and>
         (\<forall>t\<in>set (kv_keys c) \<union> set (kv_values c). mock_tensor_ok m (mock_seq_len p) t) \<and>
         position c = int (mock_seq_len p) - 1 \<and> s' = AList.update p c s"
proof -
  obtain ks vs enc where l: "mock_layers blake m p (mock_seq_len p) [0..<nat (m_n_layers m)] = Inr (ks, vs)"
    and c: "kv_post_init
                       \<lparr>kv_keys = ks, kv_values = vs, source_model = m_model_id m,
                        source_layer_count = m_n_layers m,
                        source_hidden_size = m_n_heads m * m_head_dim m,
                        source_n_heads = m_n_heads m, source_text = p,
                        last_token_id = from_bytes_little (blake enc [] 4) mod 32000,
                        position = int (mock_seq_len p) - 1, kv_metadata = []\<rparr> = Inr c"
    and s': "s' = AList.update p c s"
    using assms
    by (auto simp: mock_encode_def Let_def split: sum.splits prod.splits option.splits)
  from mock_layers_Inr [OF l] kv_post_init_keeps [OF c] kv_post_init_wf [OF c] s'
  show ?thesis by simp
qed

interpretation mock_latent: latent_backend "mock_encode blake m" "mock_transfer_cache blake m"
  for blake m
proof
  fix p c and w w' :: mock_state
  assume "mock_encode blake m p w = (Inr c, w')"
  then show "source_text c = p \<and> kv_wf c" using mock_encode_Inr by blast
next
  fix c c' and w w' :: mock_state
  assume "kv_wf c" "mock_transfer_cache blake m c w = (Inr c', w')"
  then show "source_text c' = source_text c \<and> kv_wf c'"
    using mock_encode_Inr by (auto simp: mock_transfer_cache_def split: if_splits)
qed

text \<open>Encoding succeeds for every text that UTF-8 can encode, for sizes and seeds in range.\<close>

definition mock_ok :: "mock_config \<Rightarrow> pystr \<Rightarrow> bool" where
  "mock_ok m p \<longleftrightarrow>
     0 < m_n_heads m \<and> 0 < m_head_dim m \<and> 0 \<le> m_n_layers m \<and> 0 \<le> m_seed m \<and>
     (\<forall>l<nat (m_n_layers m). \<forall>kind\<in>{lit ''key'', lit ''val''}.
        \<exists>enc. utf8_encode (mock_layer_text p l kind) = Some enc \<and>
              m_seed m + int l + 1000 + 8 * int (n_chunks (length enc) - 1) < 2 ^ 64) \<and>
     utf8_encode p \<noteq> None"

lemma mock_tensor_total:
  assumes "utf8_encode s = Some enc" and "0 \<le> seed" and "seed + 8 * int (n_chunks (length enc) - 1) < 2 ^ 64"
    and "0 < m_n_heads m" and "0 < m_head_dim m" and "0 < sl"
  shows "\<exists>t. mock_tensor blake m s sl seed = Inr t"
proof -
  have "0 < m_n_heads m * m_head_dim m * int sl" using assms(4-6) by simp
  then have "\<not> m_n_heads m * m_head_dim m * int sl < 0" "m_n_heads m * m_head_dim m * int sl \<noteq> 0"
    by linarith+
  moreover have "\<not> (2 ^ 64 \<le> seed + 8 * int (n_chunks (length enc) - 1))" using assms(3) by linarith
  ultimately show ?thesis
    using assms(1,2,4,5) by (simp add: mock_tensor_def hash_to_embedding_def Let_def del: power_numeral)
qed

lemma mock_layers_total:
  assumes "mock_ok m p" and "\<forall>l\<in>set ls. l < nat (m_n_layers m)" and "0 < sl"
  shows "\<exists>ks vs. mock_layers blake m p sl ls = Inr (ks, vs)"
  using assms(2)
proof (induction ls)
  case Nil
  then show ?case by simp
next
  case (Cons l ls)
  then obtain ks vs where r: "mock_layers blake m p sl ls = Inr (ks, vs)" by auto
  from Cons.prems assms(1) obtain e1 e2 where
    e: "utf8_encode (mock_layer_text p l (lit ''key'')) = Some e1"
       "m_seed m + int l + 1000 + 8 * int (n_chunks (length e1) - 1) < 2 ^ 64"
       "utf8_encode (mock_layer_text p l (lit ''val'')) = Some e2"
       "m_seed m + int l + 1000 + 8 * int (n_chunks (length e2) - 1) < 2 ^ 64"
    unfolding mock_ok_def by (metis insertI1 insertI2 list.set_intros(1))
  have g: "0 < m_n_heads m" "0 < m_head_dim m" "0 \<le> m_seed m"
    using assms(1) by (auto simp: mock_ok_def)
  have b: "0 \<le> m_seed m + int l" "m_seed m + int l + 8 * int (n_chunks (length e1) - 1) < 2 ^ 64"
    "0 \<le> m_seed m + int l + 1000"
    using g(3) e(2) by linarith+
  obtain k where k: "mock_tensor blake m (mock_layer_text p l (lit ''key'')) sl (m_seed m + int l) = Inr k"
    using mock_tensor_total [OF e(1) b(1,2) g(1,2) assms(3)] by blast
  obtain v where v: "mock_tensor blake m (mock_layer_text p l (lit ''val'')) sl (m_seed m + int l + 1000) = Inr v"
    using mock_tensor_total [OF e(3) b(3) e(4) g(1,2) assms(3)] by blast
  show ?case using k v r by (simp only: mock_layers.simps sum.case prod.case) simp
qed

lemma mock_encode_total:
  assumes "mock_ok m p"
  shows "\<exists>c. mock_encode blake m p s = (Inr c, AList.update p c s)"
proof -
  have ls: "\<forall>l\<in>set [0..<nat (m_n_layers m)]. l < nat (m_n_layers m)" "0 < mock_seq_len p"
    by (auto simp: mock_seq_len_def)
  obtain ks vs where l: "mock_layers blake m p (mock_seq_len p) [0..<nat (m_n_layers m)] = Inr (ks, vs)"
    using mock_layers_total [OF assms ls] by blast
  moreover obtain enc where "utf8_encode p = Some enc" using assms by (auto simp: mock_ok_def)
  moreover have "length ks = length vs" using mock_layers_Inr [OF l] by simp
  ultimately show ?thesis
    by (auto simp: mock_encode_def Let_def kv_post_init_def)
qed



end
