(* ===== verification/Backend_HF.thy ===== *)
theory Backend_HF
  imports Core_KVCache
begin

text \<open>
  \<open>chen/backends/hf.py\<close>: the HuggingFace backend. The packages \<open>torch\<close> and \<open>transformers\<close> are the
  record \<open>hf_runtime\<close> of the calls the code makes to them; the state is the lazily loaded model.
  The axis permutations of numpy that the latent backends use are defined here too.
\<close>

section \<open>Permuting the axes of a three-dimensional array\<close>

definition idx3 :: "nat \<Rightarrow> nat \<Rightarrow> nat \<Rightarrow> nat \<Rightarrow> nat \<Rightarrow> nat" where
  "idx3 b c i j k = (i * b + j) * c + k"

text \<open>\<open>a.transpose(1, 0, 2)\<close> and \<open>a.transpose(0, 2, 1)\<close> on row-major items of shape \<open>(a, b, c)\<close>.\<close>

definition transpose_102 :: "nat \<Rightarrow> nat \<Rightarrow> nat \<Rightarrow> real list \<Rightarrow> real list" where
  "transpose_102 a b c xs =
     map (\<lambda>n. xs ! idx3 b c (n div c mod a) (n div c div a) (n mod c)) [0..<b * a * c]"

definition transpose_021 :: "nat \<Rightarrow> nat \<Rightarrow> nat \<Rightarrow> real list \<Rightarrow> real list" where
  "transpose_021 a b c xs =
     map (\<lambda>n. xs ! idx3 b c (n div b div c) (n mod b) (n div b mod c)) [0..<a * c * b]"

lemma length_transpose [simp]:
  "length (transpose_102 a b c xs) = b * a * c"
  "length (transpose_021 a b c xs) = a * c * b"
  by (simp_all add: transpose_102_def transpose_021_def)

lemma idx3_lt:
  assumes "i < a" and "j < b" and "k < c"
  shows "idx3 b c i j k < a * b * c"
proof -
  have "Suc i * b \<le> a * b" using assms(1) by (intro mult_right_mono) auto
  with assms(2) have "i * b + j < a * b" by simp
  then have "Suc (i * b + j) * c \<le> a * b * c" by (intro mult_right_mono) auto
  with assms(3) show ?thesis by (simp add: idx3_def)
qed

lemma transpose_102_nth:
  assumes "i < a" and "j < b" and "k < c"
  shows "transpose_102 a b c xs ! idx3 a c j i k = xs ! idx3 b c i j k"
  using assms idx3_lt [of j b i a k c] by (simp add: transpose_102_def idx3_def)

lemma transpose_021_nth:
  assumes "i < a" and "j < b" and "k < c"
  shows "transpose_021 a b c xs ! idx3 c b i k j = xs ! idx3 b c i j k"
  using assms idx3_lt [of i a k c j b] by (simp add: transpose_021_def idx3_def)

lemma idx3_split:
  assumes "n < a * b * c"
  obtains i j k where "n = idx3 b c i j k" "i < a" "j < b" "k < c"
proof
  have c: "0 < c" and b: "0 < b" using assms by (auto intro: Nat.gr0I)
  show "n = idx3 b c (n div c div b) (n div c mod b) (n mod c)"
    by (simp add: idx3_def)
  show "n div c div b < a"
    using assms by (simp add: less_mult_imp_div_less mult.commute mult.left_commute)
  show "n div c mod b < b" using b by simp
  show "n mod c < c" using c by simp
qed

lemma transpose_102_inverse:
  assumes "length xs = a * b * c"
  shows "transpose_102 b a c (transpose_102 a b c xs) = xs"
proof (rule nth_equalityI)
  show l: "length (transpose_102 b a c (transpose_102 a b c xs)) = length xs"
    using assms by simp
  fix n
  assume "n < length (transpose_102 b a c (transpose_102 a b c xs))"
  then have "n < a * b * c" by simp
  then obtain i j k where "n = idx3 b c i j k" "i < a" "j < b" "k < c" by (rule idx3_split)
  then show "transpose_102 b a c (transpose_102 a b c xs) ! n = xs ! n"
    by (simp add: transpose_102_nth)
qed

section \<open>Configuration, runtime, state\<close>

record hf_config =
  hf_model_id :: pystr
  hf_device :: pystr
  hf_dtype :: pystr
  hf_params_m :: int
  hf_trust_remote_code :: bool
  hf_token :: pystr

datatype torch_dtype = Float32 | Float16 | BFloat16

record load_args =
  la_trust_remote_code :: bool
  la_token :: "pystr option"
  la_dtype :: "torch_dtype option"

text \<open>A loaded model: its \<open>config\<close>, its parameter count and the device it was moved to.\<close>

record hf_model =
  num_hidden_layers :: nat
  num_attention_heads :: nat
  hidden_size :: nat
  numel :: int
  on_device :: pystr

text \<open>
  The packages: whether the import succeeded, the devices there are, \<open>from_pretrained\<close> (\<open>None\<close>:
  it raised), the tokenizer, \<open>model.generate\<close> on token ids (the output contains the input), and
  the forward pass with \<open>use_cache=True\<close>, as the key and value arrays of each layer.
\<close>

record hf_runtime =
  rt_available :: bool
  rt_cuda :: bool
  rt_mps :: bool
  rt_from_pretrained :: "pystr \<Rightarrow> load_args \<Rightarrow> hf_model option"
  rt_tokenize :: "pystr \<Rightarrow> int list"
  rt_detokenize :: "int list \<Rightarrow> pystr"
  rt_generate :: "int list \<Rightarrow> int \<Rightarrow> int list"
  rt_forward :: "int list \<Rightarrow> (nat \<Rightarrow> tensor \<times> tensor) option"

record hf_state =
  hf_loaded :: "hf_model option"
  hf_params_m_resolved :: int

definition hf_dtype_arg :: "unicode \<Rightarrow> hf_config \<Rightarrow> torch_dtype option" where
  "hf_dtype_arg u cfg =
     map_of [(lit ''float32'', Float32), (lit ''float16'', Float16), (lit ''bfloat16'', BFloat16)]
       (py_lower u (hf_dtype cfg))"

definition hf_pick_device :: "hf_runtime \<Rightarrow> hf_config \<Rightarrow> pystr" where
  "hf_pick_device rt cfg =
     (if hf_device cfg = lit ''auto''
      then (if rt_cuda rt then lit ''cuda'' else if rt_mps rt then lit ''mps'' else lit ''cpu'')
      else hf_device cfg)"

definition hf_ensure_loaded ::
  "unicode \<Rightarrow> hf_runtime \<Rightarrow> hf_config \<Rightarrow> (hf_state, py_exc, hf_model) act" where
  "hf_ensure_loaded u rt cfg = (\<lambda>s.
     case hf_loaded s of
       Some m \<Rightarrow> (Inr m, s)
     | None \<Rightarrow>
         if \<not> rt_available rt then (Inl BackendNotAvailableError, s)
         else (case rt_from_pretrained rt (hf_model_id cfg)
                      \<lparr>la_trust_remote_code = hf_trust_remote_code cfg,
                       la_token = (if hf_token cfg \<noteq> [] then Some (hf_token cfg) else None),
                       la_dtype = hf_dtype_arg u cfg\<rparr> of
                 None \<Rightarrow> (Inl BackendConfigError, s)
               | Some m0 \<Rightarrow>
                   (let m = m0\<lparr>on_device := hf_pick_device rt cfg\<rparr>
                    in (Inr m, s\<lparr>hf_loaded := Some m,
                               hf_params_m_resolved :=
                                 (if hf_params_m_resolved s = 0 then numel m div 1000000
                                  else hf_params_m_resolved s)\<rparr>))))"

definition hf_capabilities :: capabilities where
  "hf_capabilities = \<lparr>supports_kv_cache = True, supports_streaming = True,
                      supports_batching = True, deterministic = False\<rparr>"

definition hf_resolved_params_m ::
  "unicode \<Rightarrow> hf_runtime \<Rightarrow> hf_config \<Rightarrow> (hf_state, py_exc, int) act" where
  "hf_resolved_params_m u rt cfg =
     (if 0 < hf_params_m cfg then ret (hf_params_m cfg)
      else bnd (hf_ensure_loaded u rt cfg) (\<lambda>_ s. (Inr (hf_params_m_resolved s), s)))"

section \<open>Operations\<close>

definition hf_complete :: "hf_runtime \<Rightarrow> pystr \<Rightarrow> int \<Rightarrow> pystr" where
  "hf_complete rt prompt max_tokens =
     (let ids = rt_tokenize rt prompt
      in rt_detokenize rt (drop (length ids) (rt_generate rt ids max_tokens)))"

definition hf_generate ::
  "unicode \<Rightarrow> hf_runtime \<Rightarrow> hf_config \<Rightarrow> pystr \<Rightarrow> int \<Rightarrow> (hf_state, py_exc, pystr) act" where
  "hf_generate u rt cfg prompt max_tokens =
     bnd (hf_ensure_loaded u rt cfg) (\<lambda>_. ret (hf_complete rt prompt max_tokens))"

text \<open>
  \<open>_normalize_shape\<close>: \<open>arr[0].transpose(0, 2, 1)\<close> on four axes, \<open>arr[0].reshape(shape[1], n_heads,
  head_dim)\<close> on three, anything else unchanged. \<open>arr[0]\<close> of an array with no items along its
  first axis is an \<open>IndexError\<close>, a reshape that does not fit a \<open>ValueError\<close>.
\<close>

definition normalize_shape :: "tensor \<Rightarrow> nat \<Rightarrow> nat \<Rightarrow> py_exc + tensor" where
  "normalize_shape arr n_heads hdim =
     (case t_shape arr of
        [a, b, c, d] \<Rightarrow>
          (if a = 0 then Inl IndexError
           else Inr (arr\<lparr>t_shape := [b, d, c],
                         t_data := transpose_021 b c d (take (b * c * d) (t_data arr))\<rparr>))
      | [a, b, c] \<Rightarrow>
          (if a = 0 then Inl IndexError
           else if b * c \<noteq> b * n_heads * hdim then Inl ValueError
           else Inr (arr\<lparr>t_shape := [b, n_heads, hdim], t_data := take (b * c) (t_data arr)\<rparr>))
      | _ \<Rightarrow> Inr arr)"

fun normalize_all :: "tensor list \<Rightarrow> nat \<Rightarrow> nat \<Rightarrow> py_exc + tensor list" where
  "normalize_all [] h d = Inr []"
| "normalize_all (t # ts) h d =
     (case normalize_shape t h d of
        Inl e \<Rightarrow> Inl e
      | Inr t' \<Rightarrow> (case normalize_all ts h d of Inl e \<Rightarrow> Inl e | Inr ts' \<Rightarrow> Inr (t' # ts')))"

text \<open>\<open>input_ids[0, -1]\<close> of an empty tokenization is an \<open>IndexError\<close>.\<close>

definition hf_encode ::
  "unicode \<Rightarrow> hf_runtime \<Rightarrow> hf_config \<Rightarrow> pystr \<Rightarrow> (hf_state, py_exc, kv_cache) act" where
  "hf_encode u rt cfg prompt =
     bnd (hf_ensure_loaded u rt cfg) (\<lambda>m.
       let ids = rt_tokenize rt prompt in
       case rt_forward rt ids of
         None \<Rightarrow> raise BackendConfigError
       | Some past \<Rightarrow>
           if num_attention_heads m = 0 then raise OtherError
           else
           (let heads = num_attention_heads m;
                hdim = hidden_size m div heads;
                layers = map past [0..<num_hidden_layers m]
            in case normalize_all (map fst layers) heads hdim of
                 Inl e \<Rightarrow> raise e
               | Inr ks \<Rightarrow>
                   (case normalize_all (map snd layers) heads hdim of
                      Inl e \<Rightarrow> raise e
                    | Inr vs \<Rightarrow>
                        if ids = [] then raise IndexError
                        else (case kv_post_init
                           \<lparr>kv_keys = ks, kv_values = vs, source_model = hf_model_id cfg,
                            source_layer_count = int (num_hidden_layers m),
                            source_hidden_size = int (heads * hdim), source_n_heads = int heads,
                            source_text = prompt, last_token_id = last ids,
                            position = int (length ids) - 1, kv_metadata = []\<rparr> of
                          Inl e \<Rightarrow> raise e | Inr c \<Rightarrow> ret c))))"

definition transfer_prefix :: "kv_cache \<Rightarrow> pystr \<Rightarrow> pystr" where
  "transfer_prefix c own_id =
     (if source_model c \<noteq> own_id then lit ''[transferred from '' @ source_model c @ lit ''] '' else [])"

definition hf_decode ::
  "unicode \<Rightarrow> hf_runtime \<Rightarrow> hf_config \<Rightarrow> kv_cache \<Rightarrow> int \<Rightarrow> (hf_state, py_exc, pystr) act" where
  "hf_decode u rt cfg c max_tokens =
     bnd (hf_ensure_loaded u rt cfg) (\<lambda>_.
       ret (transfer_prefix c (hf_model_id cfg) @ hf_complete rt (source_text c) max_tokens))"

definition hf_transfer_cache ::
  "unicode \<Rightarrow> hf_runtime \<Rightarrow> hf_config \<Rightarrow> kv_cache \<Rightarrow> (hf_state, py_exc, kv_cache) act" where
  "hf_transfer_cache u rt cfg c =
     bnd (hf_ensure_loaded u rt cfg) (\<lambda>m.
       if num_attention_heads m = 0 then raise OtherError
       else
       (let heads = num_attention_heads m;
            hdim = hidden_size m div heads
        in if source_n_heads c \<noteq> int heads \<or> source_hidden_size c \<noteq> int (heads * hdim)
           then raise IncompatibleCacheError
           else (case adjust_layers False (int (num_hidden_layers m)) c of
                   Inl e \<Rightarrow> raise e | Inr c' \<Rightarrow> ret c')))"

definition hf_count_tokens ::
  "unicode \<Rightarrow> hf_runtime \<Rightarrow> hf_config \<Rightarrow> pystr \<Rightarrow> (hf_state, py_exc, int) act" where
  "hf_count_tokens u rt cfg s =
     bnd (hf_ensure_loaded u rt cfg) (\<lambda>_. ret (int (length (rt_tokenize rt s))))"

definition hf_backend :: "unicode \<Rightarrow> hf_runtime \<Rightarrow> hf_config \<Rightarrow> hf_state backend" where
  "hf_backend u rt cfg =
     \<lparr>bk_params_m = IsInt (hf_params_m cfg), bk_resolved_params_m = IsInt (hf_params_m cfg),
      bk_capabilities = hf_capabilities, bk_model_id = hf_model_id cfg,
      bk_generate = hf_generate u rt cfg, bk_encode = hf_encode u rt cfg,
      bk_decode = hf_decode u rt cfg, bk_transfer_cache = hf_transfer_cache u rt cfg,
      bk_count_tokens = Some (hf_count_tokens u rt cfg)\<rparr>"

section \<open>What the operations give\<close>

lemma hf_loaded_stays:
  assumes "hf_loaded s = Some m"
  shows "hf_ensure_loaded u rt cfg s = (Inr m, s)"
  using assms by (simp add: hf_ensure_loaded_def)

lemma hf_encode_Inr:
  assumes "hf_encode u rt cfg p s = (Inr c, s')"
  shows "source_text c = p \<and> kv_wf c \<and> source_model c = hf_model_id cfg"
proof -
  obtain ks vs lc hs nh where
    "kv_post_init \<lparr>kv_keys = ks, kv_values = vs, source_model = hf_model_id cfg,
       source_layer_count = lc, source_hidden_size = hs, source_n_heads = nh,
       source_text = p, last_token_id = last (rt_tokenize rt p),
       position = int (length (rt_tokenize rt p)) - 1, kv_metadata = []\<rparr> = Inr c"
    using assms
    by (auto simp: hf_encode_def Let_def split: option.splits sum.splits if_splits)
  from kv_post_init_keeps [OF this] kv_post_init_wf [OF this] show ?thesis by simp
qed

interpretation hf_latent: latent_backend "hf_encode u rt cfg" "hf_transfer_cache u rt cfg"
  for u rt cfg
proof
  fix p c and w w' :: hf_state
  assume "hf_encode u rt cfg p w = (Inr c, w')"
  then show "source_text c = p \<and> kv_wf c" using hf_encode_Inr by blast
next
  fix c c' and w w' :: hf_state
  assume "kv_wf c" "hf_transfer_cache u rt cfg c w = (Inr c', w')"
  then show "source_text c' = source_text c \<and> kv_wf c'"
    using adjust_layers_text
    by (auto simp: hf_transfer_cache_def Let_def split: if_splits sum.splits)
qed

text \<open>On a loaded model, \<open>transfer_cache\<close> fails with \<open>IncompatibleCacheError\<close> exactly when
  the head count or the hidden size differs. Otherwise the cache comes back with the model's
  number of layers, the layers both have unchanged, and the only other failure is a cache with no
  layer at all that would have to be padded.\<close>

theorem hf_transfer_contract:
  assumes "hf_loaded s = Some m" and "0 < num_attention_heads m" and "kv_wf c"
  shows "(if source_n_heads c \<noteq> int (num_attention_heads m) \<or>
             source_hidden_size c \<noteq> int (num_attention_heads m * (hidden_size m div num_attention_heads m))
          then hf_transfer_cache u rt cfg c s = (Inl IncompatibleCacheError, s)
          else if kv_keys c = [] \<and> 0 < num_hidden_layers m
          then hf_transfer_cache u rt cfg c s = (Inl IndexError, s)
          else \<exists>c'. hf_transfer_cache u rt cfg c s = (Inr c', s) \<and>
                 source_layer_count c' = int (num_hidden_layers m) \<and>
                 length (kv_keys c') = num_hidden_layers m \<and> source_text c' = source_text c \<and>
                 (let n = min (num_hidden_layers m) (length (kv_keys c))
                  in take n (kv_keys c') = take n (kv_keys c)))"
proof -
  let ?n = "int (num_hidden_layers m)"
  have lc: "source_layer_count c = int (length (kv_keys c))"
    using assms(3) by (simp add: kv_wf_def)
  have run: "hf_transfer_cache u rt cfg c s =
      (if source_n_heads c \<noteq> int (num_attention_heads m) \<or>
          source_hidden_size c \<noteq> int (num_attention_heads m * (hidden_size m div num_attention_heads m))
       then (Inl IncompatibleCacheError, s)
       else case adjust_layers False ?n c of Inl e \<Rightarrow> (Inl e, s) | Inr c' \<Rightarrow> (Inr c', s))"
    using assms(2) by (simp add: hf_transfer_cache_def bnd_def hf_loaded_stays [OF assms(1)] Let_def
        split: sum.split)
  show ?thesis
  proof (cases "adjust_layers False ?n c")
    case (Inl e)
    then have "kv_keys c = [] \<and> 0 < num_hidden_layers m \<and> e = IndexError"
      using adjust_layers_total [OF assms(3), of ?n False e] by simp
    with Inl run show ?thesis by simp
  next
    case (Inr c')
    then have "\<not> (kv_keys c = [] \<and> 0 < num_hidden_layers m)"
      using adjust_layers_total [OF assms(3), of ?n False IndexError] by auto
    moreover note adjust_layers_count [OF assms(3) _ Inr] adjust_layers_prefix [OF assms(3) _ Inr]
      adjust_layers_text [OF assms(3) Inr]
    moreover have "nat (min ?n (source_layer_count c)) = min (num_hidden_layers m) (length (kv_keys c))"
      by (simp add: lc)
    ultimately show ?thesis using Inr run by (auto simp: Let_def)
  qed
qed

theorem hf_transfer_contract_witness:
  "\<forall>u rt cfg. let m = \<lparr>num_hidden_layers = 2, num_attention_heads = 1, hidden_size = 1, numel = 0, on_device = []\<rparr>;
       t = \<lparr>t_shape = [1, 1, 1], t_itemsize = 4, t_data = [5]\<rparr>;
       c = \<lparr>kv_keys = [t], kv_values = [t], source_model = [], source_layer_count = 1,
            source_hidden_size = 1, source_n_heads = 1, source_text = [], last_token_id = 0,
            position = 0, kv_metadata = []\<rparr>
   in \<exists>c'. hf_transfer_cache u rt cfg c \<lparr>hf_loaded = Some m, hf_params_m_resolved = 0\<rparr> =
             (Inr c', \<lparr>hf_loaded = Some m, hf_params_m_resolved = 0\<rparr>) \<and>
           length (kv_keys c') = 2 \<and> take 1 (kv_keys c') = [t]"
  (is "\<forall>u rt cfg. ?P u rt cfg")
proof (intro allI)
  fix u rt cfg
  let ?m = "\<lparr>num_hidden_layers = 2, num_attention_heads = 1, hidden_size = 1, numel = 0, on_device = []\<rparr>"
  let ?t = "\<lparr>t_shape = [1, 1, 1], t_itemsize = 4, t_data = [5]\<rparr>"
  let ?c = "\<lparr>kv_keys = [?t], kv_values = [?t], source_model = [], source_layer_count = 1,
            source_hidden_size = 1, source_n_heads = 1, source_text = [], last_token_id = 0,
            position = 0, kv_metadata = []\<rparr>"
  let ?s = "\<lparr>hf_loaded = Some ?m, hf_params_m_resolved = 0\<rparr>"
  have 1: "hf_loaded ?s = Some ?m" "0 < num_attention_heads ?m" "kv_wf ?c"
    by (simp_all add: kv_wf_def)
  from hf_transfer_contract [OF 1, of u rt cfg] show "?P u rt cfg"
    by (auto simp: Let_def)
qed

text \<open>The layout of the caches the HuggingFace backend makes. \<open>transformers\<close> returns arrays of
  shape (batch, heads, tokens, head dimension); \<open>encode\<close> stores them as (heads, head dimension,
  tokens), not as the (tokens, heads, head dimension) that \<open>KVCache\<close> documents. So the cache's
  \<open>seq_len\<close> is the number of heads, its \<open>n_heads\<close> the head dimension and its \<open>head_dim\<close> the number of
  tokens, and it reports itself incompatible with its own model unless these coincide.\<close>

theorem hf_encode_axis_order:
  assumes "hf_loaded s = Some m" and "0 < num_attention_heads m" and "0 < num_hidden_layers m"
    and "hdm = hidden_size m div num_attention_heads m"
    and "rt_tokenize rt p = ids" and "ids \<noteq> []"
    and "rt_forward rt ids = Some past"
    and "\<And>l. t_shape (fst (past l)) = [1, num_attention_heads m, length ids, hdm]"
    and "\<And>l. t_shape (snd (past l)) = [1, num_attention_heads m, length ids, hdm]"
  shows "\<exists>c. hf_encode u rt cfg p s = (Inr c, s) \<and> seq_len c = num_attention_heads m \<and>
     kv_n_heads c = hdm \<and> head_dim c = length ids \<and>
     (is_compatible_with c (int (num_hidden_layers m)) (int (num_attention_heads m)) (int hdm) \<longleftrightarrow>
      hdm = num_attention_heads m \<and> length ids = hdm)"
proof -
  let ?H = "num_attention_heads m"
  define f :: "tensor \<Rightarrow> tensor" where "f t = t\<lparr>t_shape := [?H, hdm, length ids],
    t_data := transpose_021 ?H (length ids) hdm (take (?H * length ids * hdm) (t_data t))\<rparr>" for t
  have all: "normalize_all ts ?H hdm = Inr (map f ts)"
    if "\<forall>t\<in>set ts. t_shape t = [1, ?H, length ids, hdm]" for ts
    using that by (induction ts) (simp_all add: normalize_shape_def f_def)
  let ?layers = "map past [0..<num_hidden_layers m]"
  have ks: "normalize_all (map fst ?layers) ?H hdm = Inr (map f (map fst ?layers))"
    by (rule all) (auto simp: assms(8))
  have vs: "normalize_all (map snd ?layers) ?H hdm = Inr (map f (map snd ?layers))"
    by (rule all) (auto simp: assms(9))
  obtain c where c: "hf_encode u rt cfg p s = (Inr c, s)"
    and k: "kv_keys c = map f (map fst ?layers)" "source_layer_count c = int (num_hidden_layers m)"
    using ks vs assms(2,4,5,6,7)
    by (simp add: hf_encode_def bnd_def hf_loaded_stays [OF assms(1)] Let_def kv_post_init_def
        del: map_map)
  obtain t ts where "kv_keys c = f t # ts"
    using k assms(3) by (cases "[0..<num_hidden_layers m]") auto
  then have "seq_len c = ?H" "kv_n_heads c = hdm" "head_dim c = length ids"
    by (simp_all add: seq_len_def kv_n_heads_def head_dim_def f_def)
  with c k show ?thesis by (auto simp: is_compatible_with_def)
qed

theorem hf_encode_axis_order_witness:
  "\<forall>u cfg. let m = \<lparr>num_hidden_layers = 1, num_attention_heads = 2, hidden_size = 6, numel = 0, on_device = []\<rparr>;
       t = \<lparr>t_shape = [1, 2, 1, 3], t_itemsize = 4, t_data = [1, 2, 3, 4, 5, 6]\<rparr>;
       rt = \<lparr>rt_available = True, rt_cuda = False, rt_mps = False,
             rt_from_pretrained = (\<lambda>_ _. None), rt_tokenize = (\<lambda>_. [7]), rt_detokenize = (\<lambda>_. []),
             rt_generate = (\<lambda>i _. i), rt_forward = (\<lambda>_. Some (\<lambda>_. (t, t)))\<rparr>
   in \<exists>c. hf_encode u rt cfg (lit ''x'') \<lparr>hf_loaded = Some m, hf_params_m_resolved = 0\<rparr> =
            (Inr c, \<lparr>hf_loaded = Some m, hf_params_m_resolved = 0\<rparr>) \<and>
          seq_len c = 2 \<and> \<not> is_compatible_with c 1 2 3"
  (is "\<forall>u cfg. ?P u cfg")
proof (intro allI)
  fix u cfg
  let ?m = "\<lparr>num_hidden_layers = 1, num_attention_heads = 2, hidden_size = 6, numel = 0, on_device = []\<rparr>"
  let ?t = "\<lparr>t_shape = [1, 2, 1, 3], t_itemsize = 4, t_data = [1, 2, 3, 4, 5, 6]\<rparr>"
  let ?rt = "\<lparr>rt_available = True, rt_cuda = False, rt_mps = False,
             rt_from_pretrained = (\<lambda>_ _. None), rt_tokenize = (\<lambda>_. [7]), rt_detokenize = (\<lambda>_. []),
             rt_generate = (\<lambda>i _. i), rt_forward = (\<lambda>_. Some (\<lambda>_. (?t, ?t)))\<rparr>"
  let ?s = "\<lparr>hf_loaded = Some ?m, hf_params_m_resolved = 0\<rparr>"
  have 1: "hf_loaded ?s = Some ?m" "0 < num_attention_heads ?m" "0 < num_hidden_layers ?m"
    "3 = hidden_size ?m div num_attention_heads ?m" "rt_tokenize ?rt (lit ''x'') = [7]" "[7::int] \<noteq> []"
    "rt_forward ?rt [7] = Some (\<lambda>_. (?t, ?t))"
    by simp_all
  from hf_encode_axis_order [OF 1, of u cfg] show "?P u cfg"
    unfolding Let_def by auto
qed

end
