(* ===== verification/Core_Config.thy ===== *)
theory Core_Config
  imports Chen_Prelude
begin

text \<open>
  \<open>chen/core/config.py\<close>: the cost model and the settings read from the environment.

  The environment is a function from names to values. \<open>float(s)\<close> is an argument \<open>pf\<close> (floats are
  reals here), \<open>int(s)\<close> is \<open>py_int\<close> for ASCII text.
\<close>

section \<open>Reading the environment\<close>

type_synonym environ = "pystr \<Rightarrow> pystr option"

fun int_digits :: "bool \<Rightarrow> pystr \<Rightarrow> bool" where
  "int_digits after [] = after"
| "int_digits after (c # cs) =
     (if 48 \<le> c \<and> c \<le> 57 then int_digits True cs
      else c = 95 \<and> after \<and> int_digits False cs)"

text \<open>\<open>int(s)\<close>: surrounding white space, a sign, digits with single underscores between them.\<close>

definition py_int :: "pystr \<Rightarrow> int option" where
  "py_int s =
     (let t = py_strip s;
          neg = (t \<noteq> [] \<and> hd t = 45);
          u = (if t \<noteq> [] \<and> (hd t = 45 \<or> hd t = 43) then tl t else t)
      in if int_digits False u
         then Some ((if neg then -1 else 1) * int (undigits (filter (\<lambda>c. c \<noteq> 95) u)))
         else None)"

definition env_str :: "environ \<Rightarrow> pystr \<Rightarrow> pystr \<Rightarrow> pystr" where
  "env_str ev key dflt = (case ev key of None \<Rightarrow> dflt | Some v \<Rightarrow> v)"

definition env_float :: "(pystr \<Rightarrow> real option) \<Rightarrow> environ \<Rightarrow> pystr \<Rightarrow> real \<Rightarrow> real" where
  "env_float pf ev key dflt =
     (let v = env_str ev key [] in
      if v \<noteq> [] then (case pf v of None \<Rightarrow> dflt | Some x \<Rightarrow> x) else dflt)"

definition env_int :: "environ \<Rightarrow> pystr \<Rightarrow> int \<Rightarrow> int" where
  "env_int ev key dflt =
     (let v = env_str ev key [] in
      if v \<noteq> [] then (case py_int v of None \<Rightarrow> dflt | Some x \<Rightarrow> x) else dflt)"

lemma int_digits_all:
  "\<forall>c\<in>set ds. 48 \<le> c \<and> c \<le> 57 \<Longrightarrow> int_digits b ds \<longleftrightarrow> ds \<noteq> [] \<or> b"
  by (induction ds arbitrary: b) auto

lemma digits10_not_Nil [simp]: "digits10 n \<noteq> []"
  by (subst digits10.simps) simp

text \<open>\<open>int(str(k)) == k\<close>\<close>

lemma py_int_str: "py_int (py_str_int k) = Some k"
proof -
  let ?d = "digits10 (nat \<bar>k\<bar>)"
  have dig: "\<forall>c\<in>set ?d. 48 \<le> c \<and> c \<le> 57" using digits10_digit by blast
  then have ends: "48 \<le> hd ?d \<and> hd ?d \<le> 57" "48 \<le> last ?d \<and> last ?d \<le> 57" by auto
  have nf: "filter (\<lambda>c. c \<noteq> 95) ?d = ?d" using dig by (intro filter_True) auto
  have id: "int_digits False ?d" using int_digits_all [OF dig] by simp
  have strip: "py_strip (py_str_int k) = py_str_int k"
    using ends by (intro py_strip_id) (auto simp: py_str_int_def py_isspace_def)
  show ?thesis
  proof (cases "k < 0")
    case True
    with id nf show ?thesis by (simp add: py_int_def strip) (simp add: py_str_int_def)
  next
    case False
    with id nf ends show ?thesis by (simp add: py_int_def strip) (auto simp: py_str_int_def)
  qed
qed

section \<open>Cost model\<close>

record cost_model =
  input_per_1m :: real
  output_per_1m :: real
  per_1m_params_per_1k_tokens :: real

definition default_cost :: "(pystr \<Rightarrow> real option) \<Rightarrow> environ \<Rightarrow> cost_model" where
  "default_cost pf ev =
     \<lparr>input_per_1m = env_float pf ev (lit ''CHEN_COST_INPUT_PER_1M'') 0.15,
      output_per_1m = env_float pf ev (lit ''CHEN_COST_OUTPUT_PER_1M'') 0.60,
      per_1m_params_per_1k_tokens = 0.00001\<rparr>"

definition cost_for :: "cost_model \<Rightarrow> int \<Rightarrow> int \<Rightarrow> int \<Rightarrow> bool \<Rightarrow> real" where
  "cost_for cm input_tokens output_tokens params_m include_param_tax =
     (let cost = real_of_int input_tokens / 1000000 * input_per_1m cm
               + real_of_int output_tokens / 1000000 * output_per_1m cm
      in if include_param_tax \<and> 0 < params_m
         then cost + real_of_int params_m * (real_of_int (input_tokens + output_tokens) / 1000)
                       * per_1m_params_per_1k_tokens cm
         else cost)"

lemma cost_for_no_tax:
  "cost_for cm i k p False =
     (real_of_int i * input_per_1m cm + real_of_int k * output_per_1m cm) / 1000000"
  by (simp add: cost_for_def Let_def add_divide_distrib)

lemma cost_for_additive:
  "cost_for cm (i + i') (k + k') p False = cost_for cm i k p False + cost_for cm i' k' p' False"
  by (simp add: cost_for_no_tax add_divide_distrib [symmetric] algebra_simps)

lemma cost_for_nonneg:
  assumes "0 \<le> i" "0 \<le> k" "0 \<le> input_per_1m cm" "0 \<le> output_per_1m cm"
    "0 \<le> per_1m_params_per_1k_tokens cm"
  shows "0 \<le> cost_for cm i k p tax"
  using assms by (auto simp: cost_for_def Let_def intro!: add_nonneg_nonneg mult_nonneg_nonneg)

section \<open>Settings\<close>

text \<open>The \<open>cost\<close> field holds a cost model, or the dict that \<open>asdict\<close> makes of one.\<close>

datatype cost_value = CostObj cost_model | CostDict "(pystr \<times> real) list"

definition cost_asdict :: "cost_value \<Rightarrow> cost_value" where
  "cost_asdict v =
     (case v of
        CostObj cm \<Rightarrow> CostDict [(lit ''input_per_1m'', input_per_1m cm),
                              (lit ''output_per_1m'', output_per_1m cm),
                              (lit ''per_1m_params_per_1k_tokens'', per_1m_params_per_1k_tokens cm)]
      | CostDict d \<Rightarrow> CostDict d)"

record settings =
  default_backend :: pystr
  hf_device :: pystr
  memory_backend :: pystr
  memory_persist_dir :: pystr
  memory_embedding_model :: pystr
  log_level :: pystr
  settings_cost :: cost_value
  router_max_experts :: int
  router_min_experts :: int

definition settings_from_env :: "unicode \<Rightarrow> (pystr \<Rightarrow> real option) \<Rightarrow> environ \<Rightarrow> settings" where
  "settings_from_env u pf ev =
     \<lparr>default_backend = py_lower u (env_str ev (lit ''CHEN_DEFAULT_BACKEND'') (lit ''mock'')),
      hf_device = py_lower u (env_str ev (lit ''CHEN_HF_DEVICE'') (lit ''auto'')),
      memory_backend = py_lower u (env_str ev (lit ''CHEN_MEMORY_BACKEND'') (lit ''in_memory'')),
      memory_persist_dir = env_str ev (lit ''CHEN_MEMORY_PERSIST_DIR'') (lit ''./chen_data/memory''),
      memory_embedding_model =
        env_str ev (lit ''CHEN_MEMORY_EMBEDDING_MODEL'') (lit ''all-MiniLM-L6-v2''),
      log_level = env_str ev (lit ''CHEN_LOG_LEVEL'') (lit ''INFO''),
      settings_cost = CostObj (default_cost pf ev),
      router_max_experts = env_int ev (lit ''CHEN_ROUTER_MAX_EXPERTS'') 3,
      router_min_experts = env_int ev (lit ''CHEN_ROUTER_MIN_EXPERTS'') 1\<rparr>"

text \<open>
  \<open>with_overrides\<close>: \<open>Settings(**{**asdict(self), **kwargs})\<close>. \<open>asdict\<close> recurses into the
  nested dataclass, so the copy holds the cost model as a dict unless \<open>cost\<close> is overridden.
\<close>

datatype override =
    OvBackend pystr | OvDevice pystr | OvMemory pystr | OvPersistDir pystr | OvEmbedding pystr
  | OvLogLevel pystr | OvCost cost_value | OvMaxExperts int | OvMinExperts int

fun apply_override :: "override \<Rightarrow> settings \<Rightarrow> settings" where
  "apply_override (OvBackend v) s = s\<lparr>default_backend := v\<rparr>"
| "apply_override (OvDevice v) s = s\<lparr>hf_device := v\<rparr>"
| "apply_override (OvMemory v) s = s\<lparr>memory_backend := v\<rparr>"
| "apply_override (OvPersistDir v) s = s\<lparr>memory_persist_dir := v\<rparr>"
| "apply_override (OvEmbedding v) s = s\<lparr>memory_embedding_model := v\<rparr>"
| "apply_override (OvLogLevel v) s = s\<lparr>log_level := v\<rparr>"
| "apply_override (OvCost v) s = s\<lparr>settings_cost := v\<rparr>"
| "apply_override (OvMaxExperts v) s = s\<lparr>router_max_experts := v\<rparr>"
| "apply_override (OvMinExperts v) s = s\<lparr>router_min_experts := v\<rparr>"

definition with_overrides :: "settings \<Rightarrow> override list \<Rightarrow> settings" where
  "with_overrides s ovs =
     foldl (\<lambda>s x. apply_override x s) (s\<lparr>settings_cost := cost_asdict (settings_cost s)\<rparr>) ovs"

lemma apply_override_cost:
  "\<forall>v. OvCost v \<noteq> x \<Longrightarrow> settings_cost (apply_override x s) = settings_cost s"
  by (cases x) auto

lemma with_overrides_cost_dict:
  assumes "\<forall>v. OvCost v \<notin> set ovs"
  shows "\<exists>d. settings_cost (with_overrides s ovs) = CostDict d"
proof -
  have "settings_cost (foldl (\<lambda>s x. apply_override x s) s ovs) = settings_cost s" for s
    using assms by (induction ovs arbitrary: s) (auto simp: apply_override_cost)
  then show ?thesis
    by (simp add: with_overrides_def cost_asdict_def split: cost_value.split)
qed

text \<open>A value that does not parse, or an empty one, leaves the default.\<close>

lemma env_int_unparsable:
  "env_str ev key [] = [] \<or> py_int (env_str ev key []) = None \<Longrightarrow> env_int ev key dflt = dflt"
  by (auto simp: env_int_def Let_def)

lemma env_int_set:
  "ev key = Some (py_str_int k) \<Longrightarrow> env_int ev key dflt = k"
  by (cases "py_str_int k = []")
    (auto simp: env_int_def env_str_def py_int_str, simp add: py_str_int_def split: if_splits)

section \<open>Properties\<close>

text \<open>A numeric variable is read back as written and any text that is not an integer leaves
  the default; but \<open>with_overrides\<close> turns the cost model of the copy into a dict whenever
  \<open>cost\<close> is not itself overridden, even with no override at all.\<close>

theorem settings_overrides_lose_cost_model:
  assumes "ev (lit ''CHEN_ROUTER_MAX_EXPERTS'') = Some (py_str_int k)"
    and "py_int (env_str ev (lit ''CHEN_ROUTER_MIN_EXPERTS'') []) = None"
    and "\<forall>v. OvCost v \<notin> set ovs"
  shows "router_max_experts (settings_from_env u pf ev) = k \<and>
         router_min_experts (settings_from_env u pf ev) = 1 \<and>
         settings_cost (settings_from_env u pf ev) = CostObj (default_cost pf ev) \<and>
         (\<forall>cm. settings_cost (with_overrides (settings_from_env u pf ev) ovs) \<noteq> CostObj cm)"
proof -
  have mx: "router_max_experts (settings_from_env u pf ev) = k"
    using env_int_set [of ev "lit ''CHEN_ROUTER_MAX_EXPERTS''" k 3, OF assms(1)]
    by (simp only: settings_from_env_def settings.simps)
  have mn: "router_min_experts (settings_from_env u pf ev) = 1"
    using env_int_unparsable [of ev "lit ''CHEN_ROUTER_MIN_EXPERTS''" 1, OF disjI2 [OF assms(2)]]
    by (simp only: settings_from_env_def settings.simps)
  have c: "settings_cost (settings_from_env u pf ev) = CostObj (default_cost pf ev)"
    by (simp only: settings_from_env_def settings.simps)
  obtain d where "settings_cost (with_overrides (settings_from_env u pf ev) ovs) = CostDict d"
    using with_overrides_cost_dict [OF assms(3)] by blast
  with mx mn c show ?thesis by simp
qed

theorem settings_overrides_lose_cost_model_witness:
  "router_max_experts (settings_from_env
     \<lparr>u_lower = (\<lambda>c. [c]), u_word = (\<lambda>_. True), u_digit = (\<lambda>_. False), u_printable = (\<lambda>_. True)\<rparr>
     (\<lambda>_. None) [lit ''CHEN_ROUTER_MAX_EXPERTS'' \<mapsto> py_str_int 5]) = 5"
proof -
  let ?ev = "[lit ''CHEN_ROUTER_MAX_EXPERTS'' \<mapsto> py_str_int 5]"
  have 1: "?ev (lit ''CHEN_ROUTER_MAX_EXPERTS'') = Some (py_str_int 5)"
    by (simp only: fun_upd_same)
  have 2: "py_int (env_str ?ev (lit ''CHEN_ROUTER_MIN_EXPERTS'') []) = None"
    by (simp add: env_str_def py_int_def py_strip_def)
  have 3: "\<forall>v. OvCost v \<notin> set []" by simp
  show ?thesis
    by (rule conjunct1 [OF settings_overrides_lose_cost_model [OF 1 2 3]])
qed

end
