(* ===== verification/Backend_Engines.thy ===== *)
theory Backend_Engines
  imports Backend_HF Core_Config Chen_Bytes
begin

text \<open>
  \<open>chen/backends/vllm.py\<close> and \<open>chen/backends/llama_cpp.py\<close>. The engines are records of what the
  code asks of them (layer, head and block data, tokenizer, completion); the paged gather of vLLM
  and the packing of llama.cpp's flat KV buffer are written out.
\<close>

section \<open>vLLM\<close>

record vllm_config =
  v_model_id :: pystr
  v_tensor_parallel_size :: int
  v_gpu_memory_utilization :: real
  v_block_size :: int
  v_params_m :: int
  v_dtype :: pystr
  v_max_model_len :: int
  v_enforce_eager :: bool

text \<open>
  The engine: KV heads, head size, \<open>get_num_layers()\<close>, the key and value blocks by physical number
  for each layer of \<open>gpu_cache\<close>, the block table of the sequence a prompt became, completion.
\<close>

record vllm_engine =
  ve_kv_heads :: nat
  ve_head_size :: nat
  ve_num_layers :: nat
  ve_gpu_cache :: "((nat \<Rightarrow> tensor) \<times> (nat \<Rightarrow> tensor)) list"
  ve_block_table :: "pystr \<Rightarrow> nat list"
  ve_tokenize :: "pystr \<Rightarrow> int list"
  ve_generate :: "pystr \<Rightarrow> int \<Rightarrow> py_exc + pystr"

text \<open>
  The environment: whether the import succeeded, \<open>LLM(...)\<close> (\<open>None\<close>: it raised) and
  \<open>AutoConfig.from_pretrained\<close> as its \<open>num_hidden_layers\<close>, \<open>n_layer\<close> and \<open>hidden_size\<close>, 0 for a
  missing one.
\<close>

record vllm_runtime =
  vr_available :: bool
  vr_llm :: "vllm_config \<Rightarrow> vllm_engine option"
  vr_auto_config :: "pystr \<Rightarrow> (int \<times> int \<times> int) option"

record vllm_state =
  vs_llm :: "vllm_engine option"
  vs_params_m_resolved :: int

definition vllm_resolve :: "vllm_runtime \<Rightarrow> vllm_config \<Rightarrow> int" where
  "vllm_resolve rt cfg =
     (case vr_auto_config rt (v_model_id cfg) of
        None \<Rightarrow> v_params_m cfg
      | Some (nhl, n_l, hidden) \<Rightarrow>
          (let n = nhl + n_l in
           if n \<noteq> 0 \<and> hidden \<noteq> 0 then (12 * n * hidden * hidden) div 1000000 else v_params_m cfg))"

definition vllm_ensure_loaded ::
  "vllm_runtime \<Rightarrow> vllm_config \<Rightarrow> (vllm_state, py_exc, vllm_engine) act" where
  "vllm_ensure_loaded rt cfg = (\<lambda>s.
     case vs_llm s of
       Some m \<Rightarrow> (Inr m, s)
     | None \<Rightarrow>
         if \<not> vr_available rt then (Inl BackendNotAvailableError, s)
         else (case vr_llm rt cfg of
                 None \<Rightarrow> (Inl BackendConfigError, s)
               | Some m \<Rightarrow>
                   (Inr m, s\<lparr>vs_llm := Some m,
                             vs_params_m_resolved :=
                               (if vs_params_m_resolved s = 0 then vllm_resolve rt cfg
                                else vs_params_m_resolved s)\<rparr>)))"

definition vllm_resolved_params_m ::
  "vllm_runtime \<Rightarrow> vllm_config \<Rightarrow> (vllm_state, py_exc, int) act" where
  "vllm_resolved_params_m rt cfg =
     (if 0 < v_params_m cfg then ret (v_params_m cfg)
      else bnd (vllm_ensure_loaded rt cfg) (\<lambda>_ s. (Inr (vs_params_m_resolved s), s)))"

definition vllm_generate ::
  "vllm_runtime \<Rightarrow> vllm_config \<Rightarrow> pystr \<Rightarrow> int \<Rightarrow> (vllm_state, py_exc, pystr) act" where
  "vllm_generate rt cfg prompt max_tokens =
     bnd (vllm_ensure_loaded rt cfg) (\<lambda>m. lift_err (ve_generate m prompt max_tokens))"

text \<open>\<open>np.concatenate(blocks, axis=0)\<close> and \<open>a[:n]\<close> along the first axis.\<close>

definition concat_rows :: "tensor list \<Rightarrow> py_exc + tensor" where
  "concat_rows ts =
     (case ts of
        [] \<Rightarrow> Inl ValueError
      | t # _ \<Rightarrow>
          (if t_shape t = [] \<or> (\<exists>x\<in>set ts. t_shape x = [] \<or> tl (t_shape x) \<noteq> tl (t_shape t))
           then Inl ValueError
           else Inr \<lparr>t_shape = sum_list (map (\<lambda>x. hd (t_shape x)) ts) # tl (t_shape t),
                     t_itemsize = t_itemsize t, t_data = concat (map t_data ts)\<rparr>))"

definition take_rows :: "nat \<Rightarrow> tensor \<Rightarrow> tensor" where
  "take_rows n t =
     (case t_shape t of
        [] \<Rightarrow> t
      | r # rest \<Rightarrow> t\<lparr>t_shape := min n r # rest, t_data := take (min n r * prod_list rest) (t_data t)\<rparr>)"

definition vllm_gather :: "(nat \<Rightarrow> tensor) \<Rightarrow> nat list \<Rightarrow> nat \<Rightarrow> py_exc + tensor" where
  "vllm_gather blocks table n =
     (case concat_rows (map blocks table) of
        Inl e \<Rightarrow> Inl e
      | Inr t \<Rightarrow> Inr ((take_rows n t)\<lparr>t_itemsize := 4\<rparr>))"

fun vllm_gather_layers ::
  "((nat \<Rightarrow> tensor) \<times> (nat \<Rightarrow> tensor)) list \<Rightarrow> nat list \<Rightarrow> nat \<Rightarrow>
   py_exc + (tensor list \<times> tensor list)" where
  "vllm_gather_layers [] table n = Inr ([], [])"
| "vllm_gather_layers ((kb, vb) # layers) table n =
     (case (vllm_gather kb table n, vllm_gather vb table n) of
        (Inr k, Inr v) \<Rightarrow>
          (case vllm_gather_layers layers table n of
             Inl e \<Rightarrow> Inl e
           | Inr (ks, vs) \<Rightarrow> Inr (k # ks, v # vs))
      | (Inl e, _) \<Rightarrow> Inl e
      | (Inr _, Inl e) \<Rightarrow> Inl e)"

definition vllm_encode ::
  "vllm_runtime \<Rightarrow> vllm_config \<Rightarrow> pystr \<Rightarrow> (vllm_state, py_exc, kv_cache) act" where
  "vllm_encode rt cfg prompt =
     bnd (vllm_ensure_loaded rt cfg) (\<lambda>m.
       let token_ids = (if ve_tokenize m prompt = [] then [0] else ve_tokenize m prompt) in
       bnd (lift_err (ve_generate m prompt 1)) (\<lambda>_.
         let table = ve_block_table m prompt;
             n = length token_ids
         in bnd (lift_err (vllm_gather_layers (ve_gpu_cache m) table n)) (\<lambda>(ks, vs).
              lift_err (kv_post_init
                \<lparr>kv_keys = ks, kv_values = vs, source_model = v_model_id cfg,
                 source_layer_count = int (length (ve_gpu_cache m)),
                 source_hidden_size = int (ve_kv_heads m * ve_head_size m),
                 source_n_heads = int (ve_kv_heads m), source_text = prompt,
                 last_token_id = last token_ids, position = int n - 1,
                 kv_metadata = [(lit ''vllm_block_size'', MInt (v_block_size cfg)),
                                (lit ''vllm_block_table'', MInts (map int table))]\<rparr>))))"

definition heads_differ :: "kv_cache \<Rightarrow> nat \<Rightarrow> nat \<Rightarrow> bool" where
  "heads_differ c heads hdim \<longleftrightarrow>
     source_n_heads c \<noteq> int heads \<or> source_hidden_size c \<noteq> int (heads * hdim)"

definition vllm_decode ::
  "vllm_runtime \<Rightarrow> vllm_config \<Rightarrow> kv_cache \<Rightarrow> int \<Rightarrow> (vllm_state, py_exc, pystr) act" where
  "vllm_decode rt cfg c max_tokens =
     bnd (vllm_ensure_loaded rt cfg) (\<lambda>m.
       if heads_differ c (ve_kv_heads m) (ve_head_size m) then raise IncompatibleCacheError
       else bnd (lift_err (ve_generate m (source_text c) max_tokens)) (\<lambda>out.
              ret (transfer_prefix c (v_model_id cfg) @ out)))"

definition vllm_transfer_cache ::
  "vllm_runtime \<Rightarrow> vllm_config \<Rightarrow> kv_cache \<Rightarrow> (vllm_state, py_exc, kv_cache) act" where
  "vllm_transfer_cache rt cfg c =
     bnd (vllm_ensure_loaded rt cfg) (\<lambda>m.
       if heads_differ c (ve_kv_heads m) (ve_head_size m) then raise IncompatibleCacheError
       else lift_err (adjust_layers True (int (ve_num_layers m)) c))"

definition vllm_count_tokens ::
  "vllm_runtime \<Rightarrow> vllm_config \<Rightarrow> pystr \<Rightarrow> (vllm_state, py_exc, int) act" where
  "vllm_count_tokens rt cfg s =
     bnd (vllm_ensure_loaded rt cfg) (\<lambda>m. ret (int (length (ve_tokenize m s))))"

definition vllm_backend :: "vllm_runtime \<Rightarrow> vllm_config \<Rightarrow> vllm_state backend" where
  "vllm_backend rt cfg =
     \<lparr>bk_params_m = IsInt (v_params_m cfg), bk_resolved_params_m = IsInt (v_params_m cfg),
      bk_capabilities = hf_capabilities, bk_model_id = v_model_id cfg,
      bk_generate = vllm_generate rt cfg, bk_encode = vllm_encode rt cfg,
      bk_decode = vllm_decode rt cfg, bk_transfer_cache = vllm_transfer_cache rt cfg,
      bk_count_tokens = Some (vllm_count_tokens rt cfg)\<rparr>"

lemma vllm_encode_Inr:
  assumes "vllm_encode rt cfg p s = (Inr c, s')"
  shows "source_text c = p \<and> kv_wf c"
proof -
  obtain m :: vllm_engine and ks vs and ids :: "int list" and table where
    "kv_post_init \<lparr>kv_keys = ks, kv_values = vs, source_model = v_model_id cfg,
        source_layer_count = int (length (ve_gpu_cache m)),
        source_hidden_size = int (ve_kv_heads m * ve_head_size m),
        source_n_heads = int (ve_kv_heads m), source_text = p,
        last_token_id = last ids, position = int (length ids) - 1,
        kv_metadata = [(lit ''vllm_block_size'', MInt (v_block_size cfg)),
                       (lit ''vllm_block_table'', MInts (map int table))]\<rparr> = Inr c"
    using assms by (auto simp: vllm_encode_def Let_def split: prod.splits)
  from kv_post_init_keeps [OF this] kv_post_init_wf [OF this] show ?thesis by simp
qed

interpretation vllm_latent: latent_backend "vllm_encode rt cfg" "vllm_transfer_cache rt cfg"
  for rt cfg
proof
  fix p c and w w' :: vllm_state
  assume "vllm_encode rt cfg p w = (Inr c, w')"
  then show "source_text c = p \<and> kv_wf c" by (rule vllm_encode_Inr)
next
  fix c c' and w w' :: vllm_state
  assume wf: "kv_wf c" and r: "vllm_transfer_cache rt cfg c w = (Inr c', w')"
  obtain m :: vllm_engine where "adjust_layers True (int (ve_num_layers m)) c = Inr c'"
    using r by (auto simp: vllm_transfer_cache_def split: if_splits)
  with wf show "source_text c' = source_text c \<and> kv_wf c'" by (rule adjust_layers_text)
qed

text \<open>A block table is gathered row by row.\<close>

lemma nth_concat_uniform:
  assumes "\<forall>xs\<in>set xss. length xs = L" and "q < length xss" and "r < L"
  shows "concat xss ! (q * L + r) = xss ! q ! r"
  using assms
proof (induction xss arbitrary: q)
  case Nil
  then show ?case by simp
next
  case (Cons xs xss)
  show ?case
  proof (cases q)
    case 0
    with Cons.prems show ?thesis by (simp add: nth_append)
  next
    case (Suc p)
    with Cons show ?thesis by (simp add: nth_append)
  qed
qed

lemma length_concat_uniform:
  "\<forall>xs\<in>set xss. length xs = L \<Longrightarrow> length (concat xss) = length xss * L"
  by (induction xss) auto

lemma vllm_gather_uniform:
  assumes "table \<noteq> []" and "\<And>b. t_shape (blocks b) = [bs, h, d] \<and> t_wf (blocks b)"
    and "n \<le> length table * bs"
  shows "\<exists>t. vllm_gather blocks table n = Inr t \<and> t_shape t = [n, h, d] \<and> t_wf t \<and>
     (\<forall>q r. q * bs + r < n \<longrightarrow> r < bs \<longrightarrow>
        (\<forall>k < h * d. t_data t ! ((q * bs + r) * (h * d) + k) = t_data (blocks (table ! q)) ! (r * (h * d) + k)))"
proof -
  let ?ts = "map blocks table"
  let ?L = "bs * (h * d)"
  obtain b0 bs0 where tb: "table = b0 # bs0" using assms(1) by (cases table) auto
  have sh: "t_shape (blocks b) = [bs, h, d]" and len: "length (t_data (blocks b)) = ?L" for b
    using assms(2) [of b] by (simp_all add: t_wf_def)
  have rows: "sum_list (map (\<lambda>x. hd (t_shape x)) ?ts) = length table * bs"
    by (simp add: sh sum_list_triv comp_def)
  let ?data = "concat (map t_data ?ts)"
  have cr: "concat_rows ?ts = Inr \<lparr>t_shape = [length table * bs, h, d],
      t_itemsize = t_itemsize (blocks b0), t_data = ?data\<rparr>"
    using rows by (auto simp: concat_rows_def tb sh)
  have uni: "\<forall>xs\<in>set (map t_data ?ts). length xs = ?L" by (auto simp: len)
  have dl: "length ?data = length table * ?L" using length_concat_uniform [OF uni] by simp
  have mn: "min n (length table * bs) = n" using assms(3) by simp
  define t where "t = \<lparr>t_shape = [n, h, d], t_itemsize = 4, t_data = take (n * (h * d)) ?data\<rparr>"
  have g: "vllm_gather blocks table n = Inr t"
    by (simp add: vllm_gather_def cr take_rows_def mn t_def)
  have "n * (h * d) \<le> length table * bs * (h * d)" using assms(3) by (rule mult_right_mono) simp
  then have le: "n * (h * d) \<le> length ?data" unfolding dl by (simp add: mult.assoc)
  have wf: "t_wf t"
    unfolding t_wf_def t_def tensor.simps length_take min_absorb2 [OF le] by simp
  have "t_data t ! ((q * bs + r) * (h * d) + k) = t_data (blocks (table ! q)) ! (r * (h * d) + k)"
    if "q * bs + r < n" "r < bs" "k < h * d" for q r k
  proof -
    have q: "q < length table"
    proof (rule ccontr)
      assume "\<not> q < length table"
      then have "length table * bs \<le> q * bs" by simp
      with that assms(3) show False by simp
    qed
    have "Suc (q * bs + r) * (h * d) \<le> n * (h * d)" using that(1) by (intro mult_right_mono) auto
    with that(3) have i: "(q * bs + r) * (h * d) + k < n * (h * d)" by simp
    have "Suc r * (h * d) \<le> bs * (h * d)" using that(2) by (intro mult_right_mono) auto
    with that(3) have off: "r * (h * d) + k < ?L" by simp
    have e: "(q * bs + r) * (h * d) + k = q * ?L + (r * (h * d) + k)" by (simp add: algebra_simps)
    have "t_data t ! ((q * bs + r) * (h * d) + k) = ?data ! ((q * bs + r) * (h * d) + k)"
      unfolding t_def tensor.simps by (rule nth_take [OF i])
    also have "\<dots> = map t_data ?ts ! q ! (r * (h * d) + k)"
      unfolding e by (rule nth_concat_uniform [OF uni _ off]) (use q in simp)
    finally show ?thesis using q by simp
  qed
  with g wf show ?thesis by (auto simp: t_def)
qed

text \<open>C34: vLLM's paged gather: when the block table of the prompt covers its tokens and every
  physical block has the engine's layout, \<open>encode\<close> succeeds, the cache fits the engine's own
  layout, and token \<open>q * block_size + r\<close> of each layer's keys is row \<open>r\<close> of the block the table
  names at \<open>q\<close>, so the non-contiguous pages come out in sequence order.\<close>

theorem vllm_encode_gathers_pages:
  assumes "vs_llm s = Some m" and "ve_tokenize m p = ids" and "ids \<noteq> []"
    and "ve_generate m p 1 = Inr out" and "ve_block_table m p = table"
    and "length ids \<le> length table * bs"
    and "\<forall>kv \<in> set (ve_gpu_cache m). \<forall>b.
           t_shape (fst kv b) = [bs, ve_kv_heads m, ve_head_size m] \<and> t_wf (fst kv b) \<and>
           t_shape (snd kv b) = [bs, ve_kv_heads m, ve_head_size m] \<and> t_wf (snd kv b)"
    and "ve_gpu_cache m \<noteq> []"
  shows "\<exists>c. vllm_encode rt cfg p s = (Inr c, s) \<and> seq_len c = length ids \<and>
     is_compatible_with c (int (length (ve_gpu_cache m))) (int (ve_kv_heads m)) (int (ve_head_size m)) \<and>
     \<not> heads_differ c (ve_kv_heads m) (ve_head_size m) \<and>
     (\<forall>l < length (ve_gpu_cache m). \<forall>q r k. q * bs + r < length ids \<longrightarrow> r < bs \<longrightarrow>
        k < ve_kv_heads m * ve_head_size m \<longrightarrow>
        t_data (kv_keys c ! l) ! ((q * bs + r) * (ve_kv_heads m * ve_head_size m) + k) =
        t_data (fst (ve_gpu_cache m ! l) (table ! q)) ! (r * (ve_kv_heads m * ve_head_size m) + k))"
proof -
  let ?h = "ve_kv_heads m" and ?d = "ve_head_size m" and ?n = "length ids"
  let ?row = "\<lambda>t kb. \<forall>q r. q * bs + r < ?n \<longrightarrow> r < bs \<longrightarrow> (\<forall>k < ?h * ?d.
      t_data t ! ((q * bs + r) * (?h * ?d) + k) = t_data (kb (table ! q)) ! (r * (?h * ?d) + k))"
  have tne: "table \<noteq> []" using assms(3,6) by auto
  have all: "\<exists>ks vs. vllm_gather_layers ls table ?n = Inr (ks, vs) \<and> length ks = length ls \<and>
      length vs = length ls \<and> (\<forall>l < length ls. t_shape (ks ! l) = [?n, ?h, ?d] \<and> ?row (ks ! l) (fst (ls ! l)))"
    if "set ls \<subseteq> set (ve_gpu_cache m)" for ls
    using that
  proof (induction ls)
    case Nil
    then show ?case by simp
  next
    case (Cons kv ls)
    obtain kb vb where kv: "kv = (kb, vb)" by (cases kv)
    then have lay: "\<And>b. t_shape (kb b) = [bs, ?h, ?d] \<and> t_wf (kb b)"
      "\<And>b. t_shape (vb b) = [bs, ?h, ?d] \<and> t_wf (vb b)"
      using assms(7) Cons.prems by auto
    obtain k where k: "vllm_gather kb table ?n = Inr k" "t_shape k = [?n, ?h, ?d]" "?row k kb"
      using vllm_gather_uniform [where blocks = kb, OF tne lay(1) assms(6)] by blast
    obtain v where v: "vllm_gather vb table ?n = Inr v"
      using vllm_gather_uniform [where blocks = vb, OF tne lay(2) assms(6)] by blast
    obtain ks vs where r: "vllm_gather_layers ls table ?n = Inr (ks, vs)" "length ks = length ls"
      "length vs = length ls" "\<forall>l < length ls. t_shape (ks ! l) = [?n, ?h, ?d] \<and> ?row (ks ! l) (fst (ls ! l))"
      using Cons by auto
    have "\<forall>l < length (kv # ls). t_shape ((k # ks) ! l) = [?n, ?h, ?d] \<and> ?row ((k # ks) ! l) (fst ((kv # ls) ! l))"
      using k(2,3) r(4) kv by (auto simp: nth_Cons split: nat.split)
    with k(1) v r(1-3) kv show ?case by simp
  qed
  obtain ks vs where g: "vllm_gather_layers (ve_gpu_cache m) table ?n = Inr (ks, vs)"
    and l: "length ks = length (ve_gpu_cache m)" "length vs = length (ve_gpu_cache m)"
    and sh: "\<forall>l < length (ve_gpu_cache m). t_shape (ks ! l) = [?n, ?h, ?d] \<and> ?row (ks ! l) (fst (ve_gpu_cache m ! l))"
    using all [of "ve_gpu_cache m"] by auto
  obtain c where c: "vllm_encode rt cfg p s = (Inr c, s)" and ck: "kv_keys c = ks"
    "source_layer_count c = int (length (ve_gpu_cache m))" "source_n_heads c = int ?h"
    "source_hidden_size c = int (?h * ?d)"
    using assms(1-5) g l
    by (simp add: vllm_encode_def vllm_ensure_loaded_def bnd_def Let_def kv_post_init_def)
  obtain k0 kr where "ks = k0 # kr" using l(1) assms(8) by (cases ks) auto
  with sh assms(8) have "t_shape (hd ks) = [?n, ?h, ?d]" "ks \<noteq> []" by auto
  then have "seq_len c = ?n" "kv_n_heads c = ?h" "head_dim c = ?d"
    using ck(1) by (auto simp: seq_len_def kv_n_heads_def head_dim_def split: list.split)
  with c ck sh show ?thesis
    by (auto simp: is_compatible_with_def heads_differ_def)
qed

theorem vllm_encode_gathers_pages_witness:
  "\<forall>rt cfg. let blk = (\<lambda>b. \<lparr>t_shape = [2, 1, 1], t_itemsize = 2, t_data = [10 * real b, 10 * real b + 1]\<rparr>);
       m = \<lparr>ve_kv_heads = 1, ve_head_size = 1, ve_num_layers = 1, ve_gpu_cache = [(blk, blk)],
            ve_block_table = (\<lambda>_. [4, 2]), ve_tokenize = (\<lambda>_. [5, 6, 7]), ve_generate = (\<lambda>_ _. Inr [])\<rparr>
   in \<exists>c. vllm_encode rt cfg (lit ''x'') \<lparr>vs_llm = Some m, vs_params_m_resolved = 0\<rparr> =
            (Inr c, \<lparr>vs_llm = Some m, vs_params_m_resolved = 0\<rparr>) \<and>
          seq_len c = 3 \<and> t_data (kv_keys c ! 0) ! 2 = 20"
  (is "\<forall>rt cfg. ?P rt cfg")
proof (intro allI)
  fix rt cfg
  let ?blk = "\<lambda>b. \<lparr>t_shape = [2, 1, 1], t_itemsize = 2, t_data = [10 * real b, 10 * real b + 1]\<rparr>"
  let ?m = "\<lparr>ve_kv_heads = 1, ve_head_size = 1, ve_num_layers = 1, ve_gpu_cache = [(?blk, ?blk)],
            ve_block_table = (\<lambda>_. [4, 2]), ve_tokenize = (\<lambda>_. [5, 6, 7]), ve_generate = (\<lambda>_ _. Inr [])\<rparr>"
  let ?s = "\<lparr>vs_llm = Some ?m, vs_params_m_resolved = 0\<rparr>"
  have 1: "vs_llm ?s = Some ?m" "ve_tokenize ?m (lit ''x'') = [5, 6, 7]" "[5, 6, 7 :: int] \<noteq> []"
    "ve_generate ?m (lit ''x'') 1 = Inr []" "ve_block_table ?m (lit ''x'') = [4, 2]"
    "length [5, 6, 7 :: int] \<le> length [4, 2 :: nat] * 2"
    by simp_all
  have 2: "\<forall>kv \<in> set (ve_gpu_cache ?m). \<forall>b.
           t_shape (fst kv b) = [2, ve_kv_heads ?m, ve_head_size ?m] \<and> t_wf (fst kv b) \<and>
           t_shape (snd kv b) = [2, ve_kv_heads ?m, ve_head_size ?m] \<and> t_wf (snd kv b)"
    by (simp add: t_wf_def)
  have 3: "ve_gpu_cache ?m \<noteq> []" by simp
  obtain c where c: "vllm_encode rt cfg (lit ''x'') ?s = (Inr c, ?s)" "seq_len c = 3"
    and rows: "\<forall>l < length (ve_gpu_cache ?m). \<forall>q r k. q * 2 + r < length [5, 6, 7 :: int] \<longrightarrow> r < 2 \<longrightarrow>
        k < ve_kv_heads ?m * ve_head_size ?m \<longrightarrow>
        t_data (kv_keys c ! l) ! ((q * 2 + r) * (ve_kv_heads ?m * ve_head_size ?m) + k) =
        t_data (fst (ve_gpu_cache ?m ! l) ([4, 2] ! q)) ! (r * (ve_kv_heads ?m * ve_head_size ?m) + k)"
    using vllm_encode_gathers_pages [where s = ?s and m = ?m and p = "lit ''x''" and bs = 2
        and ids = "[5, 6, 7]" and table = "[4, 2]" and out = "[]" and rt = rt and cfg = cfg,
        OF 1 2 3] by auto
  have "t_data (kv_keys c ! 0) ! 2 = 20"
    using rows [rule_format, of 0 1 0 0] by simp
  with c show "?P rt cfg" unfolding Let_def by blast
qed

section \<open>llama.cpp\<close>

record llama_config =
  l_model_path :: pystr
  l_n_ctx :: int
  l_n_gpu_layers :: int
  l_n_threads :: int
  l_params_m :: int
  l_verbose :: bool

text \<open>
  The loaded context: sizes, tokenizer, what \<open>reset\<close> and \<open>eval\<close> leave in the KV buffer, completion
  of a prompt given the buffer, and the \<open>general.parameter_count\<close> of the GGUF metadata.
\<close>

record llama_engine =
  le_n_layer :: nat
  le_n_embd :: nat
  le_n_head :: nat
  le_n_head_kv :: nat
  le_tokenize :: "bytes \<Rightarrow> bool \<Rightarrow> int list"
  le_reset :: "real list \<Rightarrow> real list"
  le_eval :: "int list \<Rightarrow> real list \<Rightarrow> real list"
  le_complete :: "pystr \<Rightarrow> int \<Rightarrow> real list \<Rightarrow> py_exc + pystr"
  le_parameter_count :: "pystr option"

record llama_runtime =
  lr_available :: bool
  lr_env_path :: "pystr option"
  lr_exists :: "pystr \<Rightarrow> bool"
  lr_llama :: "llama_config \<Rightarrow> llama_engine option"

record llama_state =
  ls_llm :: "llama_engine option"
  ls_params_m_resolved :: int
  ls_buffer :: "real list"

definition llama_post_init :: "llama_runtime \<Rightarrow> llama_config \<Rightarrow> llama_config" where
  "llama_post_init rt cfg =
     (if l_model_path cfg = []
      then cfg\<lparr>l_model_path := (case lr_env_path rt of
                 None \<Rightarrow> lit ''./models/llama-3-8b-instruct.Q4_K_M.gguf'' | Some p \<Rightarrow> p)\<rparr>
      else cfg)"

text \<open>\<open>int(n) // 1_000_000 or self.params_m\<close>, with \<open>self.params_m\<close> when \<open>int\<close> raises.\<close>

definition llama_resolve :: "llama_engine \<Rightarrow> llama_config \<Rightarrow> int" where
  "llama_resolve m cfg =
     (case py_int (case le_parameter_count m of None \<Rightarrow> lit ''0'' | Some s \<Rightarrow> s) of
        None \<Rightarrow> l_params_m cfg
      | Some n \<Rightarrow> (if n div 1000000 \<noteq> 0 then n div 1000000 else l_params_m cfg))"

definition llama_ensure_loaded ::
  "llama_runtime \<Rightarrow> llama_config \<Rightarrow> (llama_state, py_exc, llama_engine) act" where
  "llama_ensure_loaded rt cfg = (\<lambda>s.
     case ls_llm s of
       Some m \<Rightarrow> (Inr m, s)
     | None \<Rightarrow>
         if \<not> lr_available rt then (Inl BackendNotAvailableError, s)
         else if \<not> lr_exists rt (l_model_path cfg) then (Inl BackendConfigError, s)
         else (case lr_llama rt cfg of
                 None \<Rightarrow> (Inl BackendConfigError, s)
               | Some m \<Rightarrow>
                   (Inr m, s\<lparr>ls_llm := Some m,
                             ls_params_m_resolved :=
                               (if ls_params_m_resolved s = 0 then llama_resolve m cfg
                                else ls_params_m_resolved s)\<rparr>)))"

definition basename :: "pystr \<Rightarrow> pystr" where
  "basename p = rev (takeWhile (\<lambda>c. c \<noteq> 47) (rev p))"

definition llama_model_id :: "llama_config \<Rightarrow> pystr" where
  "llama_model_id cfg = lit ''llama_cpp:'' @ basename (l_model_path cfg)"

definition llama_capabilities :: capabilities where
  "llama_capabilities = \<lparr>supports_kv_cache = True, supports_streaming = True,
                         supports_batching = False, deterministic = False\<rparr>"

definition llama_resolved_params_m ::
  "llama_runtime \<Rightarrow> llama_config \<Rightarrow> (llama_state, py_exc, int) act" where
  "llama_resolved_params_m rt cfg =
     (if 0 < l_params_m cfg then ret (l_params_m cfg)
      else bnd (llama_ensure_loaded rt cfg) (\<lambda>_ s. (Inr (ls_params_m_resolved s), s)))"

text \<open>\<open>_get_model_config\<close>: the engine and its head dimension \<open>n_embd // n_head\<close>.\<close>

definition llama_model_config ::
  "llama_runtime \<Rightarrow> llama_config \<Rightarrow> (llama_state, py_exc, llama_engine \<times> nat) act" where
  "llama_model_config rt cfg =
     bnd (llama_ensure_loaded rt cfg) (\<lambda>m.
       if le_n_head m = 0 then raise OtherError else ret (m, le_n_embd m div le_n_head m))"

definition with_buffer :: "(real list \<Rightarrow> (py_exc + 'a) \<times> real list) \<Rightarrow> (llama_state, py_exc, 'a) act" where
  "with_buffer f = (\<lambda>s. case f (ls_buffer s) of (r, b) \<Rightarrow> (r, s\<lparr>ls_buffer := b\<rparr>))"

definition llama_generate ::
  "llama_runtime \<Rightarrow> llama_config \<Rightarrow> pystr \<Rightarrow> int \<Rightarrow> (llama_state, py_exc, pystr) act" where
  "llama_generate rt cfg prompt max_tokens =
     bnd (llama_ensure_loaded rt cfg) (\<lambda>m. with_buffer (\<lambda>b. (le_complete m prompt max_tokens b, b)))"

subsection \<open>The flat buffer\<close>

text \<open>
  \<open>kv_array.reshape(n_layer, 2, n_head_kv, seq_len, head_dim)\<close>, then \<open>transpose(1, 0, 2)\<close> of the
  slice of layer \<open>l\<close> and part \<open>p\<close> (0 the keys, 1 the values).
\<close>

definition llama_slice :: "nat \<Rightarrow> nat \<Rightarrow> nat \<Rightarrow> real list \<Rightarrow> nat \<Rightarrow> nat \<Rightarrow> tensor" where
  "llama_slice hk sl hdim flat l p =
     (let size = hk * sl * hdim
      in \<lparr>t_shape = [sl, hk, hdim], t_itemsize = 4,
          t_data = transpose_102 hk sl hdim (take size (drop ((2 * l + p) * size) flat))\<rparr>)"

definition llama_unpack :: "nat \<Rightarrow> nat \<Rightarrow> nat \<Rightarrow> nat \<Rightarrow> real list \<Rightarrow> tensor list \<times> tensor list" where
  "llama_unpack n_layer hk sl hdim flat =
     (map (\<lambda>l. llama_slice hk sl hdim flat l 0) [0..<n_layer],
      map (\<lambda>l. llama_slice hk sl hdim flat l 1) [0..<n_layer])"

text \<open>
  \<open>flat[layer, part] = t.transpose(1, 0, 2)\<close>: the assignment broadcasts axes of length 1 and
  rejects any other shape; \<open>transpose\<close> rejects an array that has not three axes.
\<close>

definition llama_pack_one :: "nat \<Rightarrow> nat \<Rightarrow> nat \<Rightarrow> tensor \<Rightarrow> py_exc + real list" where
  "llama_pack_one hk sl hdim t =
     (case t_shape t of
        [s', h', d'] \<Rightarrow>
          (if (s' = sl \<or> s' = 1) \<and> (h' = hk \<or> h' = 1) \<and> (d' = hdim \<or> d' = 1)
           then (let bc = (\<lambda>m i. if m = 1 then 0 else i) in
                 Inr (map (\<lambda>n. t_data t ! idx3 h' d' (bc s' (n div hdim mod sl)) (bc h' (n div hdim div sl))
                                  (bc d' (n mod hdim))) [0..<hk * sl * hdim]))
           else Inl ValueError)
      | _ \<Rightarrow> Inl ValueError)"

fun llama_pack :: "nat \<Rightarrow> nat \<Rightarrow> nat \<Rightarrow> tensor list \<Rightarrow> tensor list \<Rightarrow> py_exc + real list" where
  "llama_pack hk sl hdim (k # ks) (v # vs) =
     (case llama_pack_one hk sl hdim k of
        Inl e \<Rightarrow> Inl e
      | Inr kd \<Rightarrow>
          (case llama_pack_one hk sl hdim v of
             Inl e \<Rightarrow> Inl e
           | Inr vd \<Rightarrow>
               (case llama_pack hk sl hdim ks vs of Inl e \<Rightarrow> Inl e | Inr r \<Rightarrow> Inr (kd @ vd @ r))))"
| "llama_pack hk sl hdim _ _ = Inr []"

text \<open>Cut off or zero-filled to \<open>n_layer\<close> layers; \<open>cache_keys[0]\<close> of no layers is an \<open>IndexError\<close>.\<close>

definition fit_layers :: "nat \<Rightarrow> tensor list \<Rightarrow> py_exc + tensor list" where
  "fit_layers n ts =
     (let cut = take n ts in
      if length cut < n
      then (case cut of [] \<Rightarrow> Inl IndexError
            | t # _ \<Rightarrow> Inr (cut @ replicate (n - length cut) (zeros_like t)))
      else Inr cut)"

subsection \<open>Operations\<close>

text \<open>
  \<open>np.frombuffer\<close> and the \<open>ctypes\<close> fallback read the same number of items; a buffer that is too
  short is a \<open>ValueError\<close>.
\<close>

definition llama_encode ::
  "llama_runtime \<Rightarrow> llama_config \<Rightarrow> pystr \<Rightarrow> (llama_state, py_exc, kv_cache) act" where
  "llama_encode rt cfg prompt =
     bnd (llama_model_config rt cfg) (\<lambda>(m, hdim).
       case utf8_encode prompt of
         None \<Rightarrow> raise UnicodeError
       | Some enc \<Rightarrow>
           (let token_ids = (if le_tokenize m enc True = [] then [0] else le_tokenize m enc True);
                sl = length token_ids;
                total = le_n_layer m * 2 * le_n_head_kv m * sl * hdim
            in bnd (with_buffer (\<lambda>b. let b' = le_eval m token_ids (le_reset m b) in (Inr b', b'))) (\<lambda>b.
                 if length b < total then raise ValueError
                 else (case llama_unpack (le_n_layer m) (le_n_head_kv m) sl hdim (take total b) of
                    (ks, vs) \<Rightarrow>
                      lift_err (kv_post_init
                        \<lparr>kv_keys = ks, kv_values = vs, source_model = llama_model_id cfg,
                         source_layer_count = int (le_n_layer m),
                         source_hidden_size = int (le_n_head_kv m * hdim),
                         source_n_heads = int (le_n_head_kv m), source_text = prompt,
                         last_token_id = last token_ids, position = int sl - 1,
                         kv_metadata = [(lit ''llama_cpp_n_embd'', MInt (int (le_n_embd m)))]\<rparr>)))))"

definition llama_decode ::
  "llama_runtime \<Rightarrow> llama_config \<Rightarrow> kv_cache \<Rightarrow> int \<Rightarrow> (llama_state, py_exc, pystr) act" where
  "llama_decode rt cfg c max_tokens =
     bnd (llama_model_config rt cfg) (\<lambda>(m, hdim).
       if heads_differ c (le_n_head_kv m) hdim then raise IncompatibleCacheError
       else if source_model c \<noteq> llama_model_id cfg
       then bnd (with_buffer (\<lambda>b. (le_complete m (source_text c) max_tokens b, b))) (\<lambda>out.
              ret (lit ''[transferred from '' @ source_model c @ lit ''] '' @ out))
       else bnd (lift_err (fit_layers (le_n_layer m) (kv_keys c))) (\<lambda>ks.
            bnd (lift_err (fit_layers (le_n_layer m) (kv_values c))) (\<lambda>vs.
            bnd (lift_err (llama_pack (le_n_head_kv m) (seq_len c) hdim ks vs)) (\<lambda>flat.
            bnd (with_buffer (\<lambda>b. (Inr (), le_eval m [last_token_id c] (flat @ drop (length flat) b)))) (\<lambda>_.
            with_buffer (\<lambda>b. (le_complete m [] max_tokens b, b)))))))"

definition llama_transfer_cache ::
  "llama_runtime \<Rightarrow> llama_config \<Rightarrow> kv_cache \<Rightarrow> (llama_state, py_exc, kv_cache) act" where
  "llama_transfer_cache rt cfg c =
     bnd (llama_model_config rt cfg) (\<lambda>(m, hdim).
       if heads_differ c (le_n_head_kv m) hdim then raise IncompatibleCacheError
       else lift_err (adjust_layers True (int (le_n_layer m)) c))"

definition llama_count_tokens ::
  "llama_runtime \<Rightarrow> llama_config \<Rightarrow> pystr \<Rightarrow> (llama_state, py_exc, int) act" where
  "llama_count_tokens rt cfg s =
     bnd (llama_ensure_loaded rt cfg) (\<lambda>m.
       case utf8_encode s of
         None \<Rightarrow> raise UnicodeError
       | Some enc \<Rightarrow> ret (int (length (le_tokenize m enc False))))"

definition llama_backend :: "llama_runtime \<Rightarrow> llama_config \<Rightarrow> llama_state backend" where
  "llama_backend rt cfg =
     \<lparr>bk_params_m = IsInt (l_params_m cfg), bk_resolved_params_m = IsInt (l_params_m cfg),
      bk_capabilities = llama_capabilities, bk_model_id = llama_model_id cfg,
      bk_generate = llama_generate rt cfg, bk_encode = llama_encode rt cfg,
      bk_decode = llama_decode rt cfg, bk_transfer_cache = llama_transfer_cache rt cfg,
      bk_count_tokens = Some (llama_count_tokens rt cfg)\<rparr>"

interpretation llama_latent: latent_backend "llama_encode rt cfg" "llama_transfer_cache rt cfg"
  for rt cfg
proof
  fix p c and w w' :: llama_state
  assume "llama_encode rt cfg p w = (Inr c, w')"
  then obtain r :: kv_cache where "kv_post_init r = Inr c" "source_text r = p"
    by (fastforce simp: llama_encode_def Let_def split: prod.splits option.splits if_splits)
  from kv_post_init_keeps [OF this(1)] kv_post_init_wf [OF this(1)] this(2)
  show "source_text c = p \<and> kv_wf c" by simp
next
  fix c c' and w w' :: llama_state
  assume wf: "kv_wf c" and r: "llama_transfer_cache rt cfg c w = (Inr c', w')"
  obtain m :: llama_engine where "adjust_layers True (int (le_n_layer m)) c = Inr c'"
    using r by (auto simp: llama_transfer_cache_def split: if_splits prod.splits)
  with wf show "source_text c' = source_text c \<and> kv_wf c'" by (rule adjust_layers_text)
qed

subsection \<open>Packing and unpacking\<close>

definition layer_shape :: "nat \<Rightarrow> nat \<Rightarrow> nat \<Rightarrow> tensor \<Rightarrow> bool" where
  "layer_shape hk sl hdim t \<longleftrightarrow> t_shape t = [sl, hk, hdim] \<and> t_wf t \<and> t_itemsize t = 4"

lemma llama_pack_one_exact:
  assumes "layer_shape hk sl hdim t"
  shows "llama_pack_one hk sl hdim t = Inr (transpose_102 sl hk hdim (t_data t))"
proof -
  have sh: "t_shape t = [sl, hk, hdim]" using assms by (simp add: layer_shape_def)
  have "(if m = 1 then 0 else i) = i" if "i < m" for m i :: nat using that by auto
  then have bc: "idx3 hk hdim (if sl = 1 then 0 else n div hdim mod sl)
        (if hk = 1 then 0 else n div hdim div sl) (if hdim = 1 then 0 else n mod hdim) =
      idx3 hk hdim (n div hdim mod sl) (n div hdim div sl) (n mod hdim)"
    if "n < hk * sl * hdim" for n
  proof -
    note n = that
    obtain i j k where "n = idx3 sl hdim i j k" "i < hk" "j < sl" "k < hdim"
      using idx3_split [OF n] by blast
    then have "n div hdim mod sl < sl" "n div hdim div sl < hk" "n mod hdim < hdim"
      by (auto simp: idx3_def)
    then show ?thesis by auto
  qed
  have "map (\<lambda>n. t_data t ! idx3 hk hdim (if sl = 1 then 0 else n div hdim mod sl)
        (if hk = 1 then 0 else n div hdim div sl) (if hdim = 1 then 0 else n mod hdim)) [0..<hk * sl * hdim] =
      transpose_102 sl hk hdim (t_data t)"
    unfolding transpose_102_def by (intro map_cong refl) (simp only: bc set_upt atLeastLessThan_iff)
  then show ?thesis by (simp add: llama_pack_one_def sh Let_def)
qed

lemma llama_pack_exact:
  assumes "\<forall>t\<in>set ks \<union> set vs. layer_shape hk sl hdim t" and "length ks = length vs"
  shows "llama_pack hk sl hdim ks vs =
     Inr (concat (map (\<lambda>(k, v). transpose_102 sl hk hdim (t_data k) @ transpose_102 sl hk hdim (t_data v))
                    (zip ks vs)))"
  using assms
proof (induction ks arbitrary: vs)
  case Nil
  then show ?case by simp
next
  case (Cons k ks)
  from Cons.prems(2) obtain v vs' where vs: "vs = v # vs'" by (cases vs) auto
  with Cons show ?case by (simp add: llama_pack_one_exact)
qed

lemma slice_concat:
  assumes "\<forall>xs\<in>set xss. length xs = L" and "q < length xss"
  shows "take L (drop (q * L) (concat xss)) = xss ! q"
  using assms
proof (induction xss arbitrary: q)
  case Nil
  then show ?case by simp
next
  case (Cons xs xss)
  then show ?case by (cases q) auto
qed

lemma concat_pairs: "concat (map (\<lambda>(k, v). f k @ g v) kvs) = concat (concat (map (\<lambda>(k, v). [f k, g v]) kvs))"
  by (induction kvs) auto



end
