(* ===== verification/Core_Memory.thy ===== *)
theory Core_Memory
  imports Chen_Bytes
begin

text \<open>
  \<open>chen/core/memory.py\<close>: the shared external memory. The entries are a list in insertion order and
  the index maps an entry's id to its place in the list, which stands for the object both
  structures share. \<open>blake2b\<close> and a custom \<open>embed_fn\<close> are arguments; \<open>float32\<close> values are reals.
\<close>

section \<open>Entries\<close>

record memory_entry =
  me_text :: pystr
  me_embedding :: "real list option"
  me_role :: pystr
  me_expert_name :: pystr
  me_confidence :: real
  me_timestamp :: real
  me_metadata :: "(pystr \<times> pystr) list"

definition mk_entry :: "pystr \<Rightarrow> pystr \<Rightarrow> pystr \<Rightarrow> real \<Rightarrow> real \<Rightarrow> memory_entry" where
  "mk_entry txt role expert conf now =
     \<lparr>me_text = txt, me_embedding = None, me_role = role, me_expert_name = expert,
      me_confidence = conf, me_timestamp = now, me_metadata = []\<rparr>"

definition entry_key :: "memory_entry \<Rightarrow> pystr" where
  "entry_key e = me_role e @ lit ''|'' @ me_expert_name e @ lit ''|'' @ me_text e"

definition entry_id :: "(bytes \<Rightarrow> bytes \<Rightarrow> nat \<Rightarrow> bytes) \<Rightarrow> memory_entry \<Rightarrow> pystr option" where
  "entry_id blake e =
     map_option (\<lambda>bs. hex_of_bytes (blake bs [] 8)) (utf8_encode (entry_key e))"

section \<open>The default embedding\<close>

definition hash_embed :: "(bytes \<Rightarrow> bytes \<Rightarrow> nat \<Rightarrow> bytes) \<Rightarrow> int \<Rightarrow> pystr \<Rightarrow> py_exc + real list" where
  "hash_embed blake d s =
     (if d < 0 then Inl ValueError
      else case utf8_encode s of
        None \<Rightarrow> Inl UnicodeError
      | Some enc \<Rightarrow>
          (if d = 0 then Inl OtherError
           else (let out = set_chunks
                       (\<lambda>_ c. real_of_int (from_bytes_little (blake c [] 4)) / 4294967295)
                       (nat d) (n_chunks (length enc)) enc;
                     nrm = sqrt (sum_list (map (\<lambda>x. x ^ 2) out))
                 in Inr (if 0 < nrm then map (\<lambda>x. x / nrm) out else out))))"

lemma sum_list_sq_nonneg: "0 \<le> sum_list (map (\<lambda>x. (x :: real) ^ 2) xs)"
  by (induction xs) auto

lemma sum_list_sq_div:
  "sum_list (map (\<lambda>x. (x / c) ^ 2) xs) = sum_list (map (\<lambda>x. (x :: real) ^ 2) xs) / c ^ 2"
  by (induction xs) (auto simp: power_divide add_divide_distrib)

text \<open>The result has the requested dimension and is a unit vector or zero.\<close>

lemma hash_embed_unit:
  assumes "hash_embed blake d s = Inr v"
  shows "int (length v) = d \<and>
         (sum_list (map (\<lambda>x. x ^ 2) v) = 1 \<or> sum_list (map (\<lambda>x. x ^ 2) v) = 0)"
proof -
  obtain out where len: "int (length out) = d"
    and v: "v = (let nrm = sqrt (sum_list (map (\<lambda>x. x ^ 2) out))
                 in if 0 < nrm then map (\<lambda>x. x / nrm) out else out)"
    using assms by (fastforce simp: hash_embed_def Let_def split: if_splits option.splits)
  let ?q = "sum_list (map (\<lambda>x. x ^ 2) out)"
  show ?thesis
  proof (cases "0 < sqrt ?q")
    case True
    then have "?q / (sqrt ?q) ^ 2 = 1" using sum_list_sq_nonneg [of out] by simp
    moreover have "sum_list (map (\<lambda>x. x ^ 2) v) = ?q / (sqrt ?q) ^ 2"
      using True by (simp add: v Let_def comp_def sum_list_sq_div)
    ultimately show ?thesis using len True by (simp add: v Let_def)
  next
    case False
    then have "?q = 0" using sum_list_sq_nonneg [of out] by simp
    with False len show ?thesis by (simp add: v Let_def)
  qed
qed

section \<open>InMemoryMemory\<close>

record mem_state =
  ms_entries :: "memory_entry list"
  ms_index :: "(pystr \<times> nat) list"

definition mem_empty :: mem_state where
  "mem_empty = \<lparr>ms_entries = [], ms_index = []\<rparr>"

definition dict_merge :: "('k \<times> 'v) list \<Rightarrow> ('k \<times> 'v) list \<Rightarrow> ('k \<times> 'v) list" where
  "dict_merge d kvs = foldl (\<lambda>d (k, v). AList.update k v d) d kvs"

text \<open>The update of an entry that is already indexed.\<close>

definition refresh :: "memory_entry \<Rightarrow> memory_entry \<Rightarrow> memory_entry" where
  "refresh e old =
     old\<lparr>me_text := me_text e, me_embedding := me_embedding e, me_confidence := me_confidence e,
         me_metadata := dict_merge (me_metadata old) (me_metadata e)\<rparr>"

definition mem_write ::
  "(bytes \<Rightarrow> bytes \<Rightarrow> nat \<Rightarrow> bytes) \<Rightarrow> (pystr \<Rightarrow> py_exc + real list) \<Rightarrow> memory_entry \<Rightarrow>
   (mem_state, py_exc, pystr) act" where
  "mem_write blake emb e = (\<lambda>s.
     case (case me_embedding e of Some v \<Rightarrow> Inr v | None \<Rightarrow> emb (me_text e)) of
       Inl x \<Rightarrow> (Inl x, s)
     | Inr v \<Rightarrow>
         (let e' = e\<lparr>me_embedding := Some v\<rparr> in
          case entry_id blake e' of
            None \<Rightarrow> (Inl UnicodeError, s)
          | Some eid \<Rightarrow>
              (case map_of (ms_index s) eid of
                 None \<Rightarrow>
                   (Inr eid, s\<lparr>ms_entries := ms_entries s @ [e'],
                              ms_index := AList.update eid (length (ms_entries s)) (ms_index s)\<rparr>)
               | Some i \<Rightarrow>
                   (Inr eid, s\<lparr>ms_entries := (ms_entries s)[i := refresh e' (ms_entries s ! i)]\<rparr>))))"

definition dot :: "real list \<Rightarrow> real list \<Rightarrow> py_exc + real" where
  "dot xs ys = (if length xs = length ys then Inr (sum_list (map2 (*) xs ys)) else Inl ValueError)"

definition passes :: "pystr option \<Rightarrow> real \<Rightarrow> memory_entry \<Rightarrow> bool" where
  "passes role min_conf e \<longleftrightarrow>
     (case role of None \<Rightarrow> True | Some r \<Rightarrow> me_role e = r) \<and> min_conf \<le> me_confidence e"

text \<open>
  The scoring loop: it yields the (similarity, place) pairs of the entries that pass, and the list
  with the embeddings it had to fill in.
\<close>

fun score_entries ::
  "(pystr \<Rightarrow> py_exc + real list) \<Rightarrow> real list \<Rightarrow> pystr option \<Rightarrow> real \<Rightarrow> memory_entry list \<Rightarrow>
   (py_exc + (real \<times> memory_entry) list) \<times> memory_entry list" where
  "score_entries emb q role mc [] = (Inr [], [])"
| "score_entries emb q role mc (e # es) =
     (if \<not> passes role mc e
      then (case score_entries emb q role mc es of (r, es') \<Rightarrow> (r, e # es'))
      else (case (case me_embedding e of Some v \<Rightarrow> Inr v | None \<Rightarrow> emb (me_text e)) of
              Inl x \<Rightarrow> (Inl x, e # es)
            | Inr v \<Rightarrow>
                (let e' = e\<lparr>me_embedding := Some v\<rparr> in
                 case dot q v of
                   Inl x \<Rightarrow> (Inl x, e' # es)
                 | Inr sim \<Rightarrow>
                     (case score_entries emb q role mc es of
                        (Inl x, es') \<Rightarrow> (Inl x, e' # es')
                      | (Inr r, es') \<Rightarrow> (Inr ((sim, e') # r), e' # es')))))"

definition mem_retrieve ::
  "(pystr \<Rightarrow> py_exc + real list) \<Rightarrow> pystr \<Rightarrow> int \<Rightarrow> pystr option \<Rightarrow> real \<Rightarrow>
   (mem_state, py_exc, memory_entry list) act" where
  "mem_retrieve emb query k role min_conf = (\<lambda>s.
     if ms_entries s = [] then (Inr [], s)
     else case emb query of
            Inl x \<Rightarrow> (Inl x, s)
          | Inr q \<Rightarrow>
              (case score_entries emb q role min_conf (ms_entries s) of
                 (Inl x, es) \<Rightarrow> (Inl x, s\<lparr>ms_entries := es\<rparr>)
               | (Inr scored, es) \<Rightarrow>
                   (Inr (map snd (py_take k (sort_desc fst scored))), s\<lparr>ms_entries := es\<rparr>)))"

definition mem_count :: "mem_state \<Rightarrow> nat" where
  "mem_count s = length (ms_entries s)"

definition mem_clear :: "mem_state \<Rightarrow> mem_state" where
  "mem_clear s = \<lparr>ms_entries = [], ms_index = []\<rparr>"

section \<open>What a client sees: texts written and texts read\<close>

text \<open>
  The contract of the \<open>Memory\<close> protocol the pipelines rely on: reading gives back only texts that
  are stored and stores none, writing adds at most the text written.
\<close>

datatype mem_op = WriteOp memory_entry | ReadOp pystr int

locale text_memory =
  fixes wr :: "memory_entry \<Rightarrow> ('w, py_exc, pystr) act"
    and rd :: "pystr \<Rightarrow> int \<Rightarrow> ('w, py_exc, memory_entry list) act"
    and texts :: "'w \<Rightarrow> pystr set"
  assumes rd_result: "rd q k w = (Inr es, w') \<Longrightarrow> me_text ` set es \<subseteq> texts w"
    and rd_texts: "rd q k w = (r, w') \<Longrightarrow> texts w' = texts w"
    and wr_texts: "wr e w = (r', w') \<Longrightarrow> texts w' \<subseteq> insert (me_text e) (texts w)"
begin

fun run_op :: "mem_op \<Rightarrow> 'w \<Rightarrow> 'w" where
  "run_op (WriteOp e) w = snd (wr e w)"
| "run_op (ReadOp q k) w = snd (rd q k w)"

definition written :: "mem_op list \<Rightarrow> pystr set" where
  "written ops = {me_text e | e. WriteOp e \<in> set ops}"

lemma run_texts: "texts (foldl (\<lambda>w x. run_op x w) w ops) \<subseteq> texts w \<union> written ops"
proof (induction ops arbitrary: w)
  case Nil
  then show ?case by simp
next
  case (Cons x ops)
  have "texts (run_op x w) \<subseteq> texts w \<union> written [x]"
  proof (cases x)
    case (WriteOp e)
    then show ?thesis using wr_texts [of e w] by (cases "wr e w") (auto simp: written_def)
  next
    case (ReadOp q k)
    then show ?thesis using rd_texts [of q k w] by (cases "rd q k w") auto
  qed
  with Cons.IH [of "run_op x w"] show ?case by (auto simp: written_def)
qed

lemma retrieved_written:
  assumes "rd q k (foldl (\<lambda>w x. run_op x w) w ops) = (Inr es, w')"
  shows "me_text ` set es \<subseteq> texts w \<union> written ops"
  using rd_result [OF assms] run_texts by blast

end

section \<open>Retrieval\<close>

lemma score_entries_texts:
  "map me_text (snd (score_entries emb q role mc es)) = map me_text es"
proof (induction es)
  case Nil
  then show ?case by simp
next
  case (Cons e es)
  then show ?case
    by (auto simp: Let_def split: prod.splits sum.splits option.splits)
qed

lemma score_entries_keys:
  "map entry_key (snd (score_entries emb q role mc es)) = map entry_key es"
proof (induction es)
  case Nil
  then show ?case by simp
next
  case (Cons e es)
  then show ?case
    by (auto simp: Let_def entry_key_def split: prod.splits sum.splits option.splits)
qed

lemma score_entries_Inr:
  assumes "score_entries emb q role mc es = (Inr scored, es')"
  shows "map snd scored = filter (passes role mc) es' \<and> length es' = length es"
  using assms
proof (induction es arbitrary: scored es')
  case Nil
  then show ?case by simp
next
  case (Cons e es)
  have p: "passes role mc (e\<lparr>me_embedding := v\<rparr>) = passes role mc e" for v
    by (simp add: passes_def split: option.split)
  from Cons show ?case
    by (auto simp: Let_def p split: prod.splits sum.splits option.splits if_splits)
qed

lemma score_entries_embedded:
  assumes "\<forall>e\<in>set es. me_embedding e \<noteq> None"
  shows "snd (score_entries emb q role mc es) = es"
  using assms
proof (induction es)
  case Nil
  then show ?case by simp
next
  case (Cons e es)
  then show ?case
    by (auto simp: Let_def split: prod.splits sum.splits option.splits)
qed

lemma score_entries_sim:
  assumes "score_entries emb q role mc es = (Inr scored, es')" and "(s, e) \<in> set scored"
  shows "\<exists>v. me_embedding e = Some v \<and> dot q v = Inr s"
  using assms
proof (induction es arbitrary: scored es')
  case Nil
  then show ?case by simp
next
  case (Cons e es)
  from Cons.prems Cons.IH show ?case
    by (fastforce simp: Let_def split: prod.splits sum.splits option.splits if_splits)
qed

text \<open>Sorting pairs by their first component is sorting by the function that computed it.\<close>

lemma insort_key_map: "insort_key f (g x) (map g xs) = map g (insort_key (\<lambda>y. f (g y)) x xs)"
  by (induction xs) auto

lemma sort_key_map: "sort_key f (map g xs) = map g (sort_key (\<lambda>y. f (g y)) xs)"
  by (induction xs) (simp_all add: insort_key_map)

definition similarity :: "real list \<Rightarrow> memory_entry \<Rightarrow> real" where
  "similarity q e =
     (case me_embedding e of None \<Rightarrow> 0 | Some v \<Rightarrow> sum_list (map2 (*) q v))"

lemma score_entries_map:
  assumes "score_entries emb q role mc es = (Inr scored, es')"
  shows "scored = map (\<lambda>e. (similarity q e, e)) (filter (passes role mc) es')"
proof -
  have "scored = map (\<lambda>e. (similarity q e, e)) (map snd scored)"
  proof (rule nth_equalityI)
    fix i
    assume i: "i < length scored"
    obtain s e where se: "scored ! i = (s, e)" by (cases "scored ! i")
    with i have "(s, e) \<in> set scored" by (metis nth_mem)
    from score_entries_sim [OF assms this] have "similarity q e = s"
      by (auto simp: similarity_def dot_def split: if_splits)
    with i se show "scored ! i = map (\<lambda>e. (similarity q e, e)) (map snd scored) ! i" by simp
  qed simp
  with score_entries_Inr [OF assms] show ?thesis by simp
qed

interpretation mem_client: text_memory "mem_write blake emb" "\<lambda>q k. mem_retrieve emb q k role mc"
    "\<lambda>s. me_text ` set (ms_entries s)"
  for blake emb role mc
proof
  fix q k w w' es
  assume r: "mem_retrieve emb q k role mc w = (Inr es, w')"
  show "me_text ` set es \<subseteq> me_text ` set (ms_entries w)"
  proof (cases "ms_entries w = []")
    case True
    with r show ?thesis by (simp add: mem_retrieve_def)
  next
    case False
    obtain v where v: "emb q = Inr v" using r False by (cases "emb q") (auto simp: mem_retrieve_def)
    obtain sc es' where sc: "score_entries emb v role mc (ms_entries w) = (sc, es')"
      by (cases "score_entries emb v role mc (ms_entries w)")
    with r False v obtain scored where "sc = Inr scored"
      and es: "es = map snd (py_take k (sort_desc fst scored))"
      by (auto simp: mem_retrieve_def split: sum.splits)
    with sc have m: "map snd scored = filter (passes role mc) es'"
      using score_entries_Inr by blast
    have "set es \<subseteq> set (map snd scored)"
      using set_py_take_subset [of k "sort_desc fst scored"] es by auto
    then have "set es \<subseteq> set es'" unfolding m by auto
    moreover have "map me_text es' = map me_text (ms_entries w)"
      using score_entries_texts [of emb v role mc "ms_entries w"] sc by simp
    ultimately show ?thesis by (metis image_mono list.set_map)
  qed
next
  fix q k w w' r
  assume r: "mem_retrieve emb q k role mc w = (r, w')"
  show "me_text ` set (ms_entries w') = me_text ` set (ms_entries w)"
  proof (cases "ms_entries w = []")
    case True
    with r show ?thesis by (auto simp: mem_retrieve_def)
  next
    case False
    show ?thesis
    proof (cases "emb q")
      case (Inl x)
      with r False show ?thesis by (auto simp: mem_retrieve_def)
    next
      case (Inr v)
      obtain sc es' where sc: "score_entries emb v role mc (ms_entries w) = (sc, es')"
        by (cases "score_entries emb v role mc (ms_entries w)")
      with r False Inr have "ms_entries w' = es'"
        by (auto simp: mem_retrieve_def split: sum.splits)
      moreover have "map me_text es' = map me_text (ms_entries w)"
        using score_entries_texts [of emb v role mc "ms_entries w"] sc by simp
      ultimately show ?thesis by (metis list.set_map)
    qed
  qed
next
  fix e w w' r
  assume r: "mem_write blake emb e w = (r, w')"
  show "me_text ` set (ms_entries w') \<subseteq> insert (me_text e) (me_text ` set (ms_entries w))"
  proof -
    consider "w' = w" | v where "ms_entries w' = ms_entries w @ [e\<lparr>me_embedding := v\<rparr>]"
      | v i where "ms_entries w' = (ms_entries w)[i := refresh (e\<lparr>me_embedding := v\<rparr>) (ms_entries w ! i)]"
      using r by (fastforce simp: mem_write_def Let_def split: sum.splits option.splits)
    then show ?thesis
    proof cases
      case (3 v i)
      then show ?thesis
        using set_update_subset_insert [of "ms_entries w" i "refresh (e\<lparr>me_embedding := v\<rparr>) (ms_entries w ! i)"]
        by (auto simp: refresh_def)
    qed auto
  qed
qed

section \<open>The index\<close>

text \<open>
  The invariant that makes writing idempotent: the index holds exactly the ids of the entries,
  each at the place of its entry, and every entry has its embedding.
\<close>

definition mem_inv :: "(bytes \<Rightarrow> bytes \<Rightarrow> nat \<Rightarrow> bytes) \<Rightarrow> mem_state \<Rightarrow> bool" where
  "mem_inv blake s \<longleftrightarrow>
     (\<forall>k i. map_of (ms_index s) k = Some i \<longleftrightarrow>
        i < length (ms_entries s) \<and> entry_id blake (ms_entries s ! i) = Some k) \<and>
     (\<forall>e\<in>set (ms_entries s). me_embedding e \<noteq> None \<and> entry_id blake e \<noteq> None)"

lemma mem_inv_empty: "mem_inv blake mem_empty"
  by (simp add: mem_inv_def mem_empty_def)

lemma mem_inv_clear: "mem_inv blake (mem_clear s)"
  by (simp add: mem_inv_def mem_clear_def)

lemma mem_inv_distinct:
  assumes "mem_inv blake s"
  shows "distinct (map (entry_id blake) (ms_entries s))"
  unfolding distinct_conv_nth
proof (intro allI impI)
  fix i j
  assume ij: "i < length (map (entry_id blake) (ms_entries s))"
    "j < length (map (entry_id blake) (ms_entries s))" "i \<noteq> j"
  then have "entry_id blake (ms_entries s ! i) \<noteq> None"
    using assms by (auto simp: mem_inv_def)
  then obtain k where k: "entry_id blake (ms_entries s ! i) = Some k" by auto
  show "map (entry_id blake) (ms_entries s) ! i \<noteq> map (entry_id blake) (ms_entries s) ! j"
  proof
    assume "map (entry_id blake) (ms_entries s) ! i = map (entry_id blake) (ms_entries s) ! j"
    with ij k have "entry_id blake (ms_entries s ! j) = Some k" by simp
    with ij k assms have "map_of (ms_index s) k = Some i" "map_of (ms_index s) k = Some j"
      by (auto simp: mem_inv_def)
    with ij show False by simp
  qed
qed

text \<open>The part of a written entry that an update does not touch decides whether its id stays.\<close>

lemma refresh_id:
  assumes "me_role old = me_role e" and "me_expert_name old = me_expert_name e"
  shows "entry_id blake (refresh e old) = entry_id blake e"
  using assms by (simp add: entry_id_def entry_key_def refresh_def)

lemma entry_id_embedding [simp]: "entry_id blake (e\<lparr>me_embedding := v\<rparr>) = entry_id blake e"
  by (simp add: entry_id_def entry_key_def)

lemma entry_key_split:
  assumes "entry_key a = entry_key b"
    and "124 \<notin> set (me_role a)" "124 \<notin> set (me_role b)"
    and "124 \<notin> set (me_expert_name a)" "124 \<notin> set (me_expert_name b)"
  shows "me_role a = me_role b \<and> me_expert_name a = me_expert_name b \<and> me_text a = me_text b"
proof -
  have tw: "takeWhile (\<lambda>c. c \<noteq> 124) (xs @ 124 # ys) = xs \<and>
            dropWhile (\<lambda>c. c \<noteq> 124) (xs @ 124 # ys) = 124 # ys"
    if "124 \<notin> set xs" for xs ys :: pystr
    using that by (induction xs) auto
  have eq: "me_role a @ 124 # (me_expert_name a @ 124 # me_text a) =
            me_role b @ 124 # (me_expert_name b @ 124 # me_text b)"
    using assms(1) by (simp add: entry_key_def)
  from tw [OF assms(2)] tw [OF assms(3)] eq have r: "me_role a = me_role b" by metis
  with eq have "me_expert_name a @ 124 # me_text a = me_expert_name b @ 124 # me_text b" by simp
  with tw [OF assms(4)] tw [OF assms(5)] r show ?thesis by (metis list.inject same_append_eq)
qed

section \<open>Writing\<close>

definition triple :: "memory_entry \<Rightarrow> pystr \<times> pystr \<times> pystr" where
  "triple e = (me_role e, me_expert_name e, me_text e)"

definition clean_names :: "memory_entry \<Rightarrow> bool" where
  "clean_names e \<longleftrightarrow> 124 \<notin> set (me_role e) \<and> 124 \<notin> set (me_expert_name e)"

definition collision_free :: "(bytes \<Rightarrow> bytes \<Rightarrow> nat \<Rightarrow> bytes) \<Rightarrow> memory_entry set \<Rightarrow> bool" where
  "collision_free blake E \<longleftrightarrow>
     (\<forall>a\<in>E. \<forall>b\<in>E. entry_id blake a = entry_id blake b \<longrightarrow> entry_key a = entry_key b)"

lemma entry_id_triple: "triple a = triple b \<Longrightarrow> entry_id blake a = entry_id blake b"
  by (simp add: triple_def entry_id_def entry_key_def)

lemma clean_triple: "triple a = triple b \<Longrightarrow> clean_names a = clean_names b"
  by (simp add: triple_def clean_names_def)

lemma key_triple:
  assumes "entry_key a = entry_key b" and "clean_names a" and "clean_names b"
  shows "triple a = triple b"
proof -
  have "124 \<notin> set (me_role a)" "124 \<notin> set (me_role b)"
    "124 \<notin> set (me_expert_name a)" "124 \<notin> set (me_expert_name b)"
    using assms(2,3) by (simp_all add: clean_names_def)
  from entry_key_split [OF assms(1) this] show ?thesis by (simp add: triple_def)
qed

text \<open>The writes an argument list stands for, and what they store.\<close>

definition write_all ::
  "(bytes \<Rightarrow> bytes \<Rightarrow> nat \<Rightarrow> bytes) \<Rightarrow> (pystr \<Rightarrow> py_exc + real list) \<Rightarrow> memory_entry list \<Rightarrow>
   mem_state \<Rightarrow> mem_state" where
  "write_all blake emb es s = foldl (\<lambda>s e. snd (mem_write blake emb e s)) s es"

definition writable :: "(bytes \<Rightarrow> bytes \<Rightarrow> nat \<Rightarrow> bytes) \<Rightarrow> (pystr \<Rightarrow> py_exc + real list) \<Rightarrow> memory_entry \<Rightarrow> bool" where
  "writable blake emb e \<longleftrightarrow>
     entry_id blake e \<noteq> None \<and> (me_embedding e = None \<longrightarrow> (\<exists>v. emb (me_text e) = Inr v))"

lemma mem_write_writable:
  assumes "writable blake emb e"
  obtains v eid where "entry_id blake e = Some eid"
    "mem_write blake emb e s =
       (let e' = e\<lparr>me_embedding := Some v\<rparr> in
        (Inr eid,
         case map_of (ms_index s) eid of
           None \<Rightarrow> s\<lparr>ms_entries := ms_entries s @ [e'],
                    ms_index := AList.update eid (length (ms_entries s)) (ms_index s)\<rparr>
         | Some i \<Rightarrow> s\<lparr>ms_entries := (ms_entries s)[i := refresh e' (ms_entries s ! i)]\<rparr>))"
proof -
  obtain eid where "entry_id blake e = Some eid" using assms by (auto simp: writable_def)
  moreover obtain v where "(case me_embedding e of Some v \<Rightarrow> Inr v | None \<Rightarrow> emb (me_text e)) = Inr v"
    using assms by (cases "me_embedding e") (auto simp: writable_def)
  ultimately show thesis
    by (intro that [of eid v]) (simp_all add: mem_write_def Let_def split: option.split)
qed

lemma mem_write_step:
  assumes inv: "mem_inv blake s" and wr: "writable blake emb e"
    and same: "\<forall>old\<in>set (ms_entries s). entry_id blake old = entry_id blake e \<longrightarrow> triple old = triple e"
  shows "mem_inv blake (snd (mem_write blake emb e s)) \<and>
         triple ` set (ms_entries (snd (mem_write blake emb e s))) =
           insert (triple e) (triple ` set (ms_entries s))"
proof -
  obtain v eid where eid: "entry_id blake e = Some eid" and run: "mem_write blake emb e s =
       (let e' = e\<lparr>me_embedding := Some v\<rparr> in
        (Inr eid,
         case map_of (ms_index s) eid of
           None \<Rightarrow> s\<lparr>ms_entries := ms_entries s @ [e'],
                    ms_index := AList.update eid (length (ms_entries s)) (ms_index s)\<rparr>
         | Some i \<Rightarrow> s\<lparr>ms_entries := (ms_entries s)[i := refresh e' (ms_entries s ! i)]\<rparr>))"
    using mem_write_writable [OF wr] by blast
  let ?e = "e\<lparr>me_embedding := Some v\<rparr>" and ?es = "ms_entries s"
  have idx: "\<And>k i. map_of (ms_index s) k = Some i \<longleftrightarrow>
      i < length ?es \<and> entry_id blake (?es ! i) = Some k"
    and emb: "\<And>x. x \<in> set ?es \<Longrightarrow> me_embedding x \<noteq> None \<and> entry_id blake x \<noteq> None"
    using inv by (auto simp: mem_inv_def)
  show ?thesis
  proof (cases "map_of (ms_index s) eid")
    case None
    have res: "snd (mem_write blake emb e s) = s\<lparr>ms_entries := ?es @ [?e],
        ms_index := AList.update eid (length ?es) (ms_index s)\<rparr>"
      unfolding run Let_def None by simp
    have "map_of (AList.update eid (length ?es) (ms_index s)) k = Some i \<longleftrightarrow>
        i < length (?es @ [?e]) \<and> entry_id blake ((?es @ [?e]) ! i) = Some k" for k i
      using None idx [of k i] idx [of eid] eid
      by (cases "i = length ?es") (auto simp: update_conv' nth_append)
    then have "mem_inv blake (snd (mem_write blake emb e s))"
      using emb eid unfolding res by (auto simp: mem_inv_def)
    moreover have "triple ?e = triple e" by (simp add: triple_def)
    ultimately show ?thesis unfolding res by simp
  next
    case (Some i)
    let ?new = "refresh ?e (?es ! i)"
    have res: "snd (mem_write blake emb e s) = s\<lparr>ms_entries := ?es[i := ?new]\<rparr>"
      unfolding run Let_def Some by simp
    from Some idx have i: "i < length ?es" "entry_id blake (?es ! i) = Some eid" by auto
    with same eid have tr: "triple (?es ! i) = triple e" by auto
    then have id: "entry_id blake ?new = Some eid"
      using eid refresh_id [of "?es ! i" ?e blake] by (simp add: triple_def)
    have tn: "triple ?new = triple e"
      using tr by (simp add: triple_def refresh_def)
    have "map_of (ms_index s) k = Some j \<longleftrightarrow>
        j < length (?es[i := ?new]) \<and> entry_id blake (?es[i := ?new] ! j) = Some k" for k j
      using idx [of k j] i id by (auto simp: nth_list_update)
    moreover have "\<forall>x\<in>set (?es[i := ?new]). me_embedding x \<noteq> None \<and> entry_id blake x \<noteq> None"
      using emb id set_update_subset_insert [of ?es i ?new] by (auto simp: refresh_def)
    ultimately have "mem_inv blake (snd (mem_write blake emb e s))"
      unfolding res by (simp add: mem_inv_def)
    moreover have "triple ` set (?es[i := ?new]) = insert (triple e) (triple ` set ?es)"
    proof -
      have "map triple (?es[i := ?new]) = map triple ?es"
        using i tr tn by (simp add: map_update list_update_same_conv)
      then have "triple ` set (?es[i := ?new]) = triple ` set ?es" by (metis list.set_map)
      moreover have "triple e \<in> triple ` set ?es" using i(1) tr by (metis image_eqI nth_mem)
      ultimately show ?thesis by auto
    qed
    ultimately show ?thesis unfolding res by simp
  qed
qed

lemma write_all_inv:
  assumes "collision_free blake (set es \<union> set (ms_entries s))"
    and "\<forall>e\<in>set es. writable blake emb e \<and> clean_names e"
    and "mem_inv blake s" and "\<forall>e\<in>set (ms_entries s). clean_names e"
  shows "mem_inv blake (write_all blake emb es s) \<and>
         triple ` set (ms_entries (write_all blake emb es s)) =
           triple ` set (ms_entries s) \<union> triple ` set es"
  using assms
proof (induction es arbitrary: s)
  case Nil
  then show ?case by (simp add: write_all_def)
next
  case (Cons e es)
  let ?s = "snd (mem_write blake emb e s)"
  have same: "\<forall>old\<in>set (ms_entries s). entry_id blake old = entry_id blake e \<longrightarrow> triple old = triple e"
  proof (intro ballI impI)
    fix old
    assume "old \<in> set (ms_entries s)" "entry_id blake old = entry_id blake e"
    with Cons.prems(1) have "entry_key old = entry_key e"
      unfolding collision_free_def by (meson UnI1 UnI2 list.set_intros(1))
    moreover have "clean_names old" "clean_names e"
      using Cons.prems(2,4) \<open>old \<in> set (ms_entries s)\<close> by simp_all
    ultimately show "triple old = triple e" by (rule key_triple)
  qed
  have we: "writable blake emb e" using Cons.prems(2) by simp
  note st' = mem_write_step [OF Cons.prems(3) we same]
  note st = conjunct1 [OF st'] conjunct2 [OF st']
  have old: "\<exists>b\<in>set (e # es) \<union> set (ms_entries s). triple b = triple a"
    if "a \<in> set es \<union> set (ms_entries ?s)" for a
  proof -
    have "a \<in> set es \<or> triple a \<in> insert (triple e) (triple ` set (ms_entries s))"
      using that st(2) by blast
    then show ?thesis by auto
  qed
  have key: "triple a = triple b \<Longrightarrow> entry_key a = entry_key b" for a b
    by (simp add: triple_def entry_key_def)
  have "collision_free blake (set es \<union> set (ms_entries ?s))"
    unfolding collision_free_def
  proof (intro ballI impI)
    fix a b
    assume ab: "a \<in> set es \<union> set (ms_entries ?s)" "b \<in> set es \<union> set (ms_entries ?s)"
      "entry_id blake a = entry_id blake b"
    obtain a' where a': "a' \<in> set (e # es) \<union> set (ms_entries s)" "triple a' = triple a"
      using old [OF ab(1)] by blast
    obtain b' where b': "b' \<in> set (e # es) \<union> set (ms_entries s)" "triple b' = triple b"
      using old [OF ab(2)] by blast
    have "entry_id blake a' = entry_id blake b'"
      using ab(3) entry_id_triple [OF a'(2)] entry_id_triple [OF b'(2)] by simp
    with Cons.prems(1) a'(1) b'(1) have "entry_key a' = entry_key b'"
      unfolding collision_free_def by blast
    with key [OF a'(2)] key [OF b'(2)] show "entry_key a = entry_key b" by simp
  qed
  moreover have "\<forall>x\<in>set (ms_entries ?s). clean_names x"
  proof
    fix x
    assume "x \<in> set (ms_entries ?s)"
    with st(2) have "triple x \<in> triple ` set (e # ms_entries s)" by auto
    then obtain y where y: "y \<in> set (e # ms_entries s)" "triple x = triple y" by blast
    have "clean_names y" using y(1) Cons.prems(2,4) by (cases "y = e") simp_all
    with clean_triple [OF y(2)] show "clean_names x" by simp
  qed
  ultimately have "mem_inv blake (write_all blake emb es ?s) \<and>
      triple ` set (ms_entries (write_all blake emb es ?s)) = triple ` set (ms_entries ?s) \<union> triple ` set es"
    using Cons.IH Cons.prems(2) st(1) by simp
  with st(2) show ?case by (simp add: write_all_def)
qed

text \<open>C8: Shared memory behaves as a set keyed by (role, expert, text). After any sequence of
  writes of entries whose role and expert name do not contain \<open>|\<close>, provided ids do not collide,
  the memory holds exactly one entry for each distinct triple written, however often it was
  written, and the index points at the entry of each id.\<close>

theorem memory_is_keyed_set:
  assumes "collision_free blake (set es)"
    and "\<forall>e\<in>set es. writable blake emb e \<and> clean_names e"
  shows "let s = write_all blake emb es mem_empty in
     mem_inv blake s \<and> triple ` set (ms_entries s) = triple ` set es \<and>
     mem_count s = card (triple ` set es) \<and>
     (\<forall>e\<in>set es. \<exists>i k. entry_id blake e = Some k \<and> map_of (ms_index s) k = Some i \<and>
        triple (ms_entries s ! i) = triple e)"
proof -
  let ?s = "write_all blake emb es mem_empty"
  have w: "mem_inv blake ?s" "triple ` set (ms_entries ?s) = triple ` set es"
    using write_all_inv [of blake es mem_empty emb] assms mem_inv_empty [of blake]
    by (simp_all add: mem_empty_def)
  have "distinct (map triple (ms_entries ?s))"
  proof -
    have d: "distinct (map (entry_id blake) (ms_entries ?s))" by (rule mem_inv_distinct [OF w(1)])
    show ?thesis
      unfolding distinct_map
    proof
      show "distinct (ms_entries ?s)" using d distinct_map by blast
      have inj: "inj_on (entry_id blake) (set (ms_entries ?s))" using d distinct_map by blast
      show "inj_on triple (set (ms_entries ?s))"
        by (rule inj_onI) (rule inj_onD [OF inj entry_id_triple])
    qed
  qed
  then have "mem_count ?s = card (triple ` set es)"
    using w(2) by (metis distinct_card length_map list.set_map mem_count_def)
  moreover have "\<exists>i k. entry_id blake e = Some k \<and> map_of (ms_index ?s) k = Some i \<and>
      triple (ms_entries ?s ! i) = triple e" if "e \<in> set es" for e
  proof -
    from that w(2) obtain x where x: "x \<in> set (ms_entries ?s)" "triple x = triple e"
      by (metis imageE imageI)
    then obtain i where i: "i < length (ms_entries ?s)" "x = ms_entries ?s ! i"
      by (metis in_set_conv_nth)
    have "entry_id blake e \<noteq> None"
      using assms(2) that unfolding writable_def by blast
    then obtain k where k: "entry_id blake e = Some k" by blast
    with x have "entry_id blake x = Some k" using entry_id_triple by metis
    with i w(1) have "map_of (ms_index ?s) k = Some i" by (simp add: mem_inv_def)
    with i k x show ?thesis by blast
  qed
  ultimately show ?thesis using w by (simp add: Let_def)
qed

theorem memory_is_keyed_set_witness:
  "let blake = (\<lambda>bs _ _. bs); emb = (\<lambda>_. Inr [1]);
       a = mk_entry (lit ''t'') (lit ''user'') (lit ''user'') 1 0;
       s = write_all blake emb [a, a] mem_empty
   in mem_count s = 1 \<and> mem_inv blake s"
proof -
  let ?blake = "\<lambda>bs _ _. bs" and ?emb = "\<lambda>_. Inr [1]"
  let ?a = "mk_entry (lit ''t'') (lit ''user'') (lit ''user'') 1 0"
  have cf: "collision_free ?blake (set [?a, ?a])" by (simp add: collision_free_def)
  have ok: "\<forall>e\<in>set [?a, ?a]. writable ?blake ?emb e \<and> clean_names e"
    by (simp add: writable_def clean_names_def mk_entry_def entry_id_def entry_key_def utf8_char_def)
  from memory_is_keyed_set [OF cf ok] show ?thesis
    by (simp add: Let_def)
qed



text \<open>The separator in the id is not escaped. Two entries written by different experts can
  share an id; the second write then overwrites the first one's text, leaving an entry that is
  stored under an id that is no longer its own, and a third write of that very entry is stored
  twice.\<close>

theorem memory_id_ambiguous:
  assumes "\<And>p. emb p = Inr v"
    and "entry_id blake (mk_entry (lit ''c'') (lit ''r'') (lit ''a|b'') 1 0) = Some k"
    and "entry_id blake (mk_entry (lit ''c'') (lit ''r'') (lit ''a'') 1 0) = Some k'" and "k' \<noteq> k"
  shows "let a = mk_entry (lit ''b|c'') (lit ''r'') (lit ''a'') 1 0;
             b = mk_entry (lit ''c'') (lit ''r'') (lit ''a|b'') 1 0;
             c = mk_entry (lit ''c'') (lit ''r'') (lit ''a'') 1 0;
             s = write_all blake emb [a, b, c] mem_empty
         in triple a \<noteq> triple b \<and> entry_id blake a = entry_id blake b \<and>
            map triple (ms_entries s) = [triple c, triple c] \<and> \<not> mem_inv blake s"
proof -
  define a b c where abc: "a = mk_entry (lit ''b|c'') (lit ''r'') (lit ''a'') 1 0"
    "b = mk_entry (lit ''c'') (lit ''r'') (lit ''a|b'') 1 0"
    "c = mk_entry (lit ''c'') (lit ''r'') (lit ''a'') 1 0"
  let ?v = "\<lambda>e. e\<lparr>me_embedding := Some v\<rparr>"
  have b: "entry_id blake b = Some k" and c: "entry_id blake c = Some k'"
    using assms(2,3) unfolding abc .
  have "entry_key a = entry_key b" by (simp add: abc entry_key_def mk_entry_def)
  with b have a: "entry_id blake a = Some k" by (simp add: entry_id_def)
  have emb: "me_embedding a = None" "me_embedding b = None" "me_embedding c = None"
    by (simp_all add: abc mk_entry_def)
  define s1 where "s1 = \<lparr>ms_entries = [?v a], ms_index = [(k, 0)]\<rparr>"
  define x where "x = refresh (?v b) (?v a)"
  have 1: "mem_write blake emb a mem_empty = (Inr k, s1)"
    by (simp add: mem_write_def Let_def emb assms(1) a mem_empty_def s1_def)
  have 2: "mem_write blake emb b s1 = (Inr k, s1\<lparr>ms_entries := [x]\<rparr>)"
    by (simp add: mem_write_def Let_def emb assms(1) b s1_def x_def)
  have 3: "mem_write blake emb c (s1\<lparr>ms_entries := [x]\<rparr>) =
      (Inr k', \<lparr>ms_entries = [x, ?v c], ms_index = [(k, 0), (k', 1)]\<rparr>)"
    using assms(4) by (simp add: mem_write_def Let_def emb assms(1) c s1_def)
  let ?s = "\<lparr>ms_entries = [x, ?v c], ms_index = [(k, 0), (k', 1)]\<rparr>"
  have s: "write_all blake emb [a, b, c] mem_empty = ?s"
    by (simp add: write_all_def 1 2 3)
  have tx: "triple x = triple c" "triple (?v c) = triple c"
    by (simp_all add: x_def refresh_def triple_def mk_entry_def abc)
  then have ex: "entry_id blake x = Some k'" using c entry_id_triple by metis
  have "\<not> mem_inv blake ?s"
  proof
    assume "mem_inv blake ?s"
    then have "distinct (map (entry_id blake) (ms_entries ?s))" by (rule mem_inv_distinct)
    with ex c show False by simp
  qed
  moreover have "triple a \<noteq> triple b" by (simp add: abc triple_def mk_entry_def)
  ultimately show ?thesis
    unfolding Let_def abc [symmetric] s using a b tx by simp
qed

theorem memory_id_ambiguous_witness:
  "let blake = (\<lambda>bs _ _. bs); emb = (\<lambda>_. Inr [1]);
       s = write_all blake emb
            [mk_entry (lit ''b|c'') (lit ''r'') (lit ''a'') 1 0,
             mk_entry (lit ''c'') (lit ''r'') (lit ''a|b'') 1 0,
             mk_entry (lit ''c'') (lit ''r'') (lit ''a'') 1 0] mem_empty
   in \<not> mem_inv blake s"
proof -
  let ?blake = "\<lambda>bs _ _. bs" and ?emb = "\<lambda>_. Inr [1]"
  have k: "\<exists>k. entry_id ?blake (mk_entry (lit ''c'') (lit ''r'') (lit ''a|b'') 1 0) = Some k \<and> length k = 14"
    "\<exists>k. entry_id ?blake (mk_entry (lit ''c'') (lit ''r'') (lit ''a'') 1 0) = Some k \<and> length k = 10"
    by (simp_all add: entry_id_def entry_key_def mk_entry_def utf8_char_def hex_of_bytes_def
        numeral_2_eq_2)
  obtain a b where a: "entry_id ?blake (mk_entry (lit ''c'') (lit ''r'') (lit ''a|b'') 1 0) = Some a"
      "length a = 14"
    and b: "entry_id ?blake (mk_entry (lit ''c'') (lit ''r'') (lit ''a'') 1 0) = Some b" "length b = 10"
    using k by blast
  have "b \<noteq> a" using a(2) b(2) by auto
  from memory_id_ambiguous [OF refl a(1) b(1) this] show ?thesis by (simp only: Let_def simp_thms)
qed

end
