(* ===== verification/Core_Expert.thy ===== *)
theory Core_Expert
  imports Core_KVCache Core_Config Core_Memory
begin

text \<open>
  \<open>chen/core/expert.py\<close> and \<open>chen/core/pipeline.py\<close>: one expert invocation with its metrics, the
  aggregation of metrics, and what the three pipelines share. The clocks (\<open>time.perf_counter\<close> and
  \<open>time.time\<close>) are read from the world. No caller in the program forwards further keyword arguments
  to a backend, so \<open>**kwargs\<close> carries nothing but \<open>max_tokens\<close> here.
\<close>

section \<open>Roles and experts\<close>

datatype expert_role = ANALYST | REASONER | SYNTHESIZER | CODER | ROUTER | TRANSLATOR | GENERALIST

fun role_value :: "expert_role \<Rightarrow> pystr" where
  "role_value ANALYST = lit ''analyst''"
| "role_value REASONER = lit ''reasoner''"
| "role_value SYNTHESIZER = lit ''synthesizer''"
| "role_value CODER = lit ''coder''"
| "role_value ROUTER = lit ''router''"
| "role_value TRANSLATOR = lit ''translator''"
| "role_value GENERALIST = lit ''generalist''"

instantiation expert_role :: enum
begin

definition enum_expert_role :: "expert_role list" where
  "enum_expert_role = [ANALYST, REASONER, SYNTHESIZER, CODER, ROUTER, TRANSLATOR, GENERALIST]"

definition enum_all_expert_role :: "(expert_role \<Rightarrow> bool) \<Rightarrow> bool" where
  "enum_all_expert_role P \<longleftrightarrow> list_all P enum_class.enum"

definition enum_ex_expert_role :: "(expert_role \<Rightarrow> bool) \<Rightarrow> bool" where
  "enum_ex_expert_role P \<longleftrightarrow> list_ex P enum_class.enum"

instance
proof
  have all: "r \<in> set enum_class.enum" for r :: expert_role
    by (cases r) (simp_all add: enum_expert_role_def)
  then show "UNIV = set (enum_class.enum :: expert_role list)" by auto
  show "distinct (enum_class.enum :: expert_role list)" by (simp add: enum_expert_role_def)
  show "enum_class.enum_all P = Ball (UNIV :: expert_role set) P" for P
    using all by (auto simp: enum_all_expert_role_def list_all_iff)
  show "enum_class.enum_ex P = Bex (UNIV :: expert_role set) P" for P
    using all by (auto simp: enum_ex_expert_role_def list_ex_iff)
qed

end

lemma role_value_inj [simp]: "role_value r = role_value r' \<longleftrightarrow> r = r'"
  by (cases r; cases r'; simp)

record 'w expert =
  ex_name :: pystr
  ex_role :: expert_role
  ex_backend :: "'w backend"
  ex_description :: pystr
  ex_tags :: "pystr list"

record expert_metrics =
  em_name :: pystr
  em_role :: expert_role
  em_params_m :: int
  em_input_tokens :: int
  em_output_tokens :: int
  em_latency_ms :: real
  em_transfer_ms :: real
  em_used_kv :: bool
  em_transfer_ok :: bool

definition em_total_tokens :: "expert_metrics \<Rightarrow> int" where
  "em_total_tokens m = em_input_tokens m + em_output_tokens m"

definition ex_supports_kv :: "'w expert \<Rightarrow> bool" where
  "ex_supports_kv e \<longleftrightarrow> supports_kv_cache (bk_capabilities (ex_backend e))"

definition ex_params_m :: "'w expert \<Rightarrow> int" where
  "ex_params_m e =
     (case bk_params_m (ex_backend e) of
        IsInt n \<Rightarrow> n
      | _ \<Rightarrow> (case bk_resolved_params_m (ex_backend e) of IsInt n \<Rightarrow> n | _ \<Rightarrow> 0))"

section \<open>Clocks\<close>

record 'w clocks =
  ck_perf :: "'w \<Rightarrow> real \<times> 'w"
  ck_wall :: "'w \<Rightarrow> real \<times> 'w"

definition tick :: "('w \<Rightarrow> real \<times> 'w) \<Rightarrow> ('w, py_exc, real) act" where
  "tick f = (\<lambda>w. case f w of (t, w') \<Rightarrow> (Inr t, w'))"

lemma tick_not_Inl [simp]: "tick f w \<noteq> (Inl e, w')"
  by (simp add: tick_def split: prod.split)

lemma tick_total: "\<exists>t w'. tick f w = (Inr t, w')"
  by (simp add: tick_def split: prod.split)

section \<open>Expert.invoke\<close>

text \<open>
  The transfer of the incoming cache: the cache to decode from, whether a cache was used, whether
  the transfer succeeded, and the time it took. A failing transfer is caught here.
\<close>

definition transfer_in ::
  "'w clocks \<Rightarrow> 'w backend \<Rightarrow> kv_cache option \<Rightarrow>
   ('w, py_exc, kv_cache option \<times> bool \<times> bool \<times> real) act" where
  "transfer_in ck b cache =
     (case cache of
        None \<Rightarrow> ret (None, False, True, 0)
      | Some c \<Rightarrow>
          bnd (tick (ck_perf ck)) (\<lambda>t0.
          bnd (try_except (bnd (bk_transfer_cache b c) (\<lambda>c'. ret (Some c', True, True)))
                          (\<lambda>_. ret (None, False, False))) (\<lambda>(tc, used, ok).
          bnd (tick (ck_perf ck)) (\<lambda>t1. ret (tc, used, ok, (t1 - t0) * 1000)))))"

definition estimate_tokens :: "pystr \<Rightarrow> int" where
  "estimate_tokens s = max 1 (int (length s) div 4)"

definition count_both :: "'w backend \<Rightarrow> pystr \<Rightarrow> pystr \<Rightarrow> ('w, py_exc, int \<times> int) act" where
  "count_both b inp out =
     (case bk_count_tokens b of
        None \<Rightarrow> ret (estimate_tokens inp, estimate_tokens out)
      | Some f \<Rightarrow>
          try_except (bnd (f inp) (\<lambda>i. bnd (f out) (\<lambda>k. ret (i, k))))
                     (\<lambda>_. ret (estimate_tokens inp, estimate_tokens out)))"

definition output_cache :: "'w expert \<Rightarrow> pystr \<Rightarrow> pystr \<Rightarrow> ('w, py_exc, kv_cache option) act" where
  "output_cache e inp out =
     (if ex_supports_kv e
      then try_except (bnd (bk_encode (ex_backend e) (inp @ nl @ out)) (\<lambda>c. ret (Some c)))
                      (\<lambda>_. ret None)
      else ret None)"

text \<open>From the transferred cache to the metrics.\<close>

definition invoke_tail ::
  "'w clocks \<Rightarrow> 'w expert \<Rightarrow> pystr \<Rightarrow> int \<Rightarrow> kv_cache option \<times> bool \<times> bool \<times> real \<Rightarrow>
   ('w, py_exc, pystr \<times> kv_cache option \<times> expert_metrics) act" where
  "invoke_tail ck e effective max_tokens tr =
     (let b = ex_backend e; (tc, used, ok, transfer_ms) = tr in
      bnd (tick (ck_perf ck)) (\<lambda>t0.
      bnd (case tc of
             Some c \<Rightarrow> (if used then bk_decode b c max_tokens else bk_generate b effective max_tokens)
           | None \<Rightarrow> bk_generate b effective max_tokens) (\<lambda>out.
      bnd (tick (ck_perf ck)) (\<lambda>t1.
      bnd (output_cache e effective out) (\<lambda>oc.
      bnd (count_both b effective out) (\<lambda>(i, k).
      ret (out, oc,
           \<lparr>em_name = ex_name e, em_role = ex_role e, em_params_m = ex_params_m e,
            em_input_tokens = i, em_output_tokens = k, em_latency_ms = (t1 - t0) * 1000,
            em_transfer_ms = transfer_ms, em_used_kv = used, em_transfer_ok = ok\<rparr>)))))))"

definition expert_invoke ::
  "'w clocks \<Rightarrow> 'w expert \<Rightarrow> pystr option \<Rightarrow> kv_cache option \<Rightarrow> int \<Rightarrow>
   ('w, py_exc, pystr \<times> kv_cache option \<times> expert_metrics) act" where
  "expert_invoke ck e prompt0 cache0 max_tokens =
     (if prompt0 = None \<and> cache0 = None then raise ValueError
      else
      (let (prompt, cache) =
             (case cache0 of
                Some c \<Rightarrow> (if \<not> ex_supports_kv e then (Some (source_text c), None) else (prompt0, cache0))
              | None \<Rightarrow> (prompt0, cache0));
           effective = (case cache of
                          Some c \<Rightarrow> source_text c
                        | None \<Rightarrow> (case prompt of Some p \<Rightarrow> p | None \<Rightarrow> []))
       in bnd (transfer_in ck (ex_backend e) cache) (invoke_tail ck e effective max_tokens)))"

text \<open>The text an invocation stands for.\<close>

definition invoked_text :: "'w expert \<Rightarrow> pystr option \<Rightarrow> kv_cache option \<Rightarrow> pystr" where
  "invoked_text e prompt cache =
     (case cache of Some c \<Rightarrow> source_text c | None \<Rightarrow> (case prompt of Some p \<Rightarrow> p | None \<Rightarrow> []))"

lemma transfer_in_Inr:
  assumes "transfer_in ck b cache w = (Inr (tc, used, ok, ms), w')"
  shows "(cache = None \<longrightarrow> tc = None \<and> \<not> used \<and> ok \<and> ms = 0) \<and>
         (cache \<noteq> None \<longrightarrow> used = ok) \<and> (used \<longleftrightarrow> tc \<noteq> None)"
  using assms
  by (cases cache) (auto simp: transfer_in_def try_except_Inr_iff)

lemma transfer_in_not_Inl: "transfer_in ck b cache w \<noteq> (Inl e, w')"
proof (cases cache)
  case None
  then show ?thesis by (simp add: transfer_in_def)
next
  case (Some c)
  obtain t0 w1 where 1: "tick (ck_perf ck) w = (Inr t0, w1)"
    using tick_total [of "ck_perf ck" w] by blast
  obtain x w2 where 2: "try_except (bnd (bk_transfer_cache b c) (\<lambda>c'. ret (Some c', True, True)))
      (\<lambda>_. ret (None, False, False)) w1 = (Inr x, w2)"
    by (cases "bk_transfer_cache b c w1"; cases "fst (bk_transfer_cache b c w1)")
      (auto simp: try_except_def bnd_def)
  obtain t1 w3 where 3: "tick (ck_perf ck) w2 = (Inr t1, w3)"
    using tick_total [of "ck_perf ck" w2] by blast
  show ?thesis
    by (cases x) (simp add: transfer_in_def Some bnd_apply 1 2 3)
qed

lemma output_cache_not_Inl: "output_cache ex inp out w \<noteq> (Inl e, w')"
  by (cases "bk_encode (ex_backend ex) (inp @ nl @ out) w"; cases "fst (bk_encode (ex_backend ex) (inp @ nl @ out) w)")
    (auto simp: output_cache_def try_except_def bnd_def)

lemma count_both_not_Inl: "count_both b inp out w \<noteq> (Inl e, w')"
  by (auto simp: count_both_def try_except_def split: option.splits sum.splits prod.splits)

text \<open>Everything a successful invocation reports.\<close>

lemma expert_invoke_Inr:
  assumes "expert_invoke ck e prompt cache mt w = (Inr (out, oc, m), w')"
  shows "em_name m = ex_name e \<and> em_role m = ex_role e \<and> em_params_m m = ex_params_m e \<and>
         (em_used_kv m \<longrightarrow> em_transfer_ok m) \<and> (em_used_kv m \<longrightarrow> cache \<noteq> None) \<and>
         (cache = None \<longrightarrow> em_transfer_ok m \<and> em_transfer_ms m = 0)"
proof -
  let ?c = "case cache of None \<Rightarrow> None | Some c \<Rightarrow> if \<not> ex_supports_kv e then None else cache"
  obtain tc ms w1 where t: "transfer_in ck (ex_backend e) ?c w = (Inr (tc, em_used_kv m, em_transfer_ok m, ms), w1)"
    and m: "em_name m = ex_name e" "em_role m = ex_role e" "em_params_m m = ex_params_m e"
      "em_transfer_ms m = ms"
    using assms
    by (cases cache) (fastforce simp: expert_invoke_def invoke_tail_def Let_def split: if_splits)+
  have "cache = None \<Longrightarrow> ?c = None" by simp
  with transfer_in_Inr [OF t] m show ?thesis by (cases cache) auto
qed

lemma expert_invoke_text:
  assumes "expert_invoke ck e prompt cache mt w = (Inr (out, Some oc, m), w')"
  shows "\<exists>v v'. bk_encode (ex_backend e) (invoked_text e prompt cache @ nl @ out) v = (Inr oc, v')"
proof -
  obtain v v' where "output_cache e (invoked_text e prompt cache) out v = (Inr (Some oc), v')"
    using assms
    by (cases cache)
      (fastforce simp: expert_invoke_def invoke_tail_def Let_def invoked_text_def split: if_splits)+
  then have "bk_encode (ex_backend e) (invoked_text e prompt cache @ nl @ out) v = (Inr oc, v')"
    by (auto simp: output_cache_def try_except_Inr_iff split: if_splits)
  then show ?thesis by (intro exI)
qed

section \<open>Invocations that cannot fail\<close>

text \<open>A failing transfer, a failing encoding and a failing token count are all absorbed.\<close>

lemma nofail_tick [nofail_intros]: "nofail (tick f)"
  unfolding nofail_def using tick_total [of f] by blast

lemma nofail_transfer_in [nofail_intros]: "nofail (transfer_in ck b cache)"
  unfolding transfer_in_def by (intro nofail_intros)

lemma nofail_output_cache [nofail_intros]: "nofail (output_cache e inp out)"
  unfolding output_cache_def by (intro nofail_intros)

lemma nofail_count_both [nofail_intros]: "nofail (count_both b inp out)"
  unfolding count_both_def by (intro nofail_intros)

lemma nofail_invoke_tail:
  assumes "\<And>p. nofail (bk_generate (ex_backend e) p mt)"
    and "\<And>c. tc = Some c \<Longrightarrow> nofail (bk_decode (ex_backend e) c mt)"
  shows "nofail (invoke_tail ck e eff mt (tc, used, ok, ms))"
  unfolding invoke_tail_def Let_def prod.case by (intro nofail_intros assms)

lemma nofail_expert_invoke:
  assumes "prompt \<noteq> None \<or> cache \<noteq> None"
    and "\<And>p. nofail (bk_generate (ex_backend e) p mt)"
    and "\<And>c. cache \<noteq> None \<Longrightarrow> nofail (bk_decode (ex_backend e) c mt)"
  shows "nofail (expert_invoke ck e prompt cache mt)"
proof -
  have t: "nofail (bnd (transfer_in ck (ex_backend e) c) (invoke_tail ck e eff mt))"
    if c: "c = None \<or> cache \<noteq> None" for c eff
    unfolding nofail_def
  proof
    fix w
    obtain tc used ok ms v where tr: "transfer_in ck (ex_backend e) c w = (Inr (tc, used, ok, ms), v)"
      using nofailE [OF nofail_transfer_in] by (metis prod_cases4)
    have "c = None \<Longrightarrow> tc = None" using transfer_in_Inr [OF tr] by simp
    then have "nofail (invoke_tail ck e eff mt (tc, used, ok, ms))"
      using c by (intro nofail_invoke_tail assms) auto
    then show "\<exists>x w'. bnd (transfer_in ck (ex_backend e) c) (invoke_tail ck e eff mt) w = (Inr x, w')"
      using tr by (simp add: bnd_apply nofail_def)
  qed
  show ?thesis
    using assms(1) unfolding expert_invoke_def Let_def
    by (auto intro!: t split: option.split)
qed

end
