(* ===== verification/Core_Pipeline.thy ===== *)
theory Core_Pipeline
  imports Core_Expert
begin

text \<open>
  \<open>chen/core/pipeline.py\<close>: the aggregation of per-expert metrics and what every pipeline shares
  (the experts by name, the shared memory, the memory-augmented invocation).
\<close>

section \<open>AggregateMetrics\<close>

record aggregate =
  ag_expert_metrics :: "expert_metrics list"
  ag_input_tokens :: int
  ag_output_tokens :: int
  ag_latency_ms :: real
  ag_params_invoked_m :: int
  ag_distinct_params_m :: int
  ag_cost_usd :: real
  ag_kv_transfers :: int
  ag_kv_failures :: int
  ag_nuance :: real
  ag_mem_read :: int
  ag_mem_written :: int
  ag_cost :: cost_model

definition new_aggregate :: "cost_model \<Rightarrow> aggregate" where
  "new_aggregate cm =
     \<lparr>ag_expert_metrics = [], ag_input_tokens = 0, ag_output_tokens = 0, ag_latency_ms = 0,
      ag_params_invoked_m = 0, ag_distinct_params_m = 0, ag_cost_usd = 0, ag_kv_transfers = 0,
      ag_kv_failures = 0, ag_nuance = 0, ag_mem_read = 0, ag_mem_written = 0, ag_cost = cm\<rparr>"

definition agg_add :: "expert_metrics \<Rightarrow> aggregate \<Rightarrow> aggregate" where
  "agg_add m a =
     a\<lparr>ag_expert_metrics := ag_expert_metrics a @ [m],
       ag_input_tokens := ag_input_tokens a + em_input_tokens m,
       ag_output_tokens := ag_output_tokens a + em_output_tokens m,
       ag_latency_ms := ag_latency_ms a + (em_latency_ms m + em_transfer_ms m),
       ag_params_invoked_m := ag_params_invoked_m a + em_params_m m,
       ag_kv_transfers := (if em_used_kv m then ag_kv_transfers a + 1 else ag_kv_transfers a),
       ag_kv_failures := (if em_used_kv m \<and> \<not> em_transfer_ok m then ag_kv_failures a + 1
                          else ag_kv_failures a),
       ag_cost_usd := ag_cost_usd a +
          cost_for (ag_cost a) (em_input_tokens m) (em_output_tokens m) (em_params_m m) False\<rparr>"

definition agg_finalize :: "'w expert list \<Rightarrow> aggregate \<Rightarrow> aggregate" where
  "agg_finalize distinct_experts a =
     (let n_used = length (filter em_used_kv (ag_expert_metrics a));
          n_ok = length (filter (\<lambda>m. em_used_kv m \<and> em_transfer_ok m) (ag_expert_metrics a))
      in a\<lparr>ag_distinct_params_m := sum_list (map ex_params_m distinct_experts),
           ag_nuance := (if 0 < n_used then real n_ok / real n_used else ag_nuance a)\<rparr>)"

definition agg_total_tokens :: "aggregate \<Rightarrow> int" where
  "agg_total_tokens a = ag_input_tokens a + ag_output_tokens a"

definition cost_per_1m_tokens :: "aggregate \<Rightarrow> real" where
  "cost_per_1m_tokens a =
     (if agg_total_tokens a = 0 then 0 else ag_cost_usd a / real_of_int (agg_total_tokens a) * 1000000)"

definition epu :: "aggregate \<Rightarrow> real" where
  "epu a = (if ag_params_invoked_m a = 0 then 0
            else real_of_int (ag_distinct_params_m a) / real_of_int (ag_params_invoked_m a))"

text \<open>What adding a list of metrics one by one amounts to.\<close>

definition agg_counts :: "aggregate \<Rightarrow> expert_metrics list \<Rightarrow> bool" where
  "agg_counts a ms \<longleftrightarrow>
     ag_expert_metrics a = ms \<and>
     ag_input_tokens a = sum_list (map em_input_tokens ms) \<and>
     ag_output_tokens a = sum_list (map em_output_tokens ms) \<and>
     ag_latency_ms a = sum_list (map (\<lambda>m. em_latency_ms m + em_transfer_ms m) ms) \<and>
     ag_params_invoked_m a = sum_list (map em_params_m ms) \<and>
     ag_kv_transfers a = int (length (filter em_used_kv ms)) \<and>
     ag_kv_failures a = int (length (filter (\<lambda>m. em_used_kv m \<and> \<not> em_transfer_ok m) ms)) \<and>
     ag_cost_usd a = cost_for (ag_cost a) (sum_list (map em_input_tokens ms))
                       (sum_list (map em_output_tokens ms)) 0 False"

lemma agg_counts_new [simp]: "agg_counts (new_aggregate cm) []"
  by (simp add: agg_counts_def new_aggregate_def cost_for_no_tax)

lemma agg_counts_add [intro]:
  "agg_counts a ms \<Longrightarrow> agg_counts (agg_add m a) (ms @ [m])"
  by (simp add: agg_counts_def agg_add_def cost_for_no_tax add_divide_distrib algebra_simps)

lemma agg_counts_mem [simp]:
  "agg_counts (a\<lparr>ag_mem_read := n\<rparr>) ms = agg_counts a ms"
  "agg_counts (a\<lparr>ag_mem_written := n\<rparr>) ms = agg_counts a ms"
  by (simp_all add: agg_counts_def)

lemma agg_add_simps [simp]:
  "ag_cost (agg_add m a) = ag_cost a" "ag_nuance (agg_add m a) = ag_nuance a"
  "ag_mem_read (agg_add m a) = ag_mem_read a" "ag_mem_written (agg_add m a) = ag_mem_written a"
  by (simp_all add: agg_add_def)

section \<open>Experts by name, memory, invocation\<close>

text \<open>The \<open>Memory\<close> object a pipeline holds.\<close>

record 'w memory_ops =
  mo_write :: "memory_entry \<Rightarrow> ('w, py_exc, pystr) act"
  mo_retrieve :: "pystr \<Rightarrow> int \<Rightarrow> ('w, py_exc, memory_entry list) act"

record 'w pipeline =
  pl_experts :: "'w expert list"
  pl_memory :: "'w memory_ops"
  pl_cost :: cost_model
  pl_clocks :: "'w clocks"
  pl_sequence :: "pystr list"
  pl_max_tokens :: int
  pl_write_memory :: bool
  pl_retrieve_k :: int
  pl_fallback :: bool

text \<open>\<open>{e.name: e for e in experts}[name]\<close>: the last expert of that name.\<close>

definition find_expert :: "'w expert list \<Rightarrow> pystr \<Rightarrow> 'w expert option" where
  "find_expert es n = map_of (dict_of (map (\<lambda>e. (ex_name e, e)) es)) n"

definition get_expert :: "'w expert list \<Rightarrow> pystr \<Rightarrow> py_exc + 'w expert" where
  "get_expert es n = (case find_expert es n of None \<Rightarrow> Inl KeyError | Some e \<Rightarrow> Inr e)"

lemma find_expert_name: "find_expert es n = Some e \<Longrightarrow> ex_name e = n \<and> e \<in> set es"
  by (auto simp: find_expert_def map_of_dict_of dest!: map_of_SomeD)

lemma find_expert_Some_iff: "find_expert es n \<noteq> None \<longleftrightarrow> n \<in> ex_name ` set es"
  by (force simp: find_expert_def map_of_dict_of map_of_eq_None_iff)

lemma get_expert_Inr: "get_expert es n = Inr e \<Longrightarrow> ex_name e = n \<and> e \<in> set es"
  using find_expert_name by (auto simp: get_expert_def split: option.splits)

text \<open>
  Construction: \<open>Pipeline.__post_init__\<close>, then the default sequence and the check for unknown names
  that the cascade and the KV-pass pipelines add.
\<close>

definition pipeline_init :: "'w pipeline \<Rightarrow> py_exc + 'w pipeline" where
  "pipeline_init pl =
     (if pl_experts pl = [] then Inl ValueError
      else (let sq = (if pl_sequence pl = [] then map ex_name (pl_experts pl) else pl_sequence pl)
            in if \<exists>n\<in>set sq. find_expert (pl_experts pl) n = None then Inl ValueError
               else Inr (pl\<lparr>pl_sequence := sq\<rparr>)))"

definition pipeline_ok :: "'w pipeline \<Rightarrow> bool" where
  "pipeline_ok pl \<longleftrightarrow> pl_experts pl \<noteq> [] \<and> pl_sequence pl \<noteq> [] \<and>
     set (pl_sequence pl) \<subseteq> ex_name ` set (pl_experts pl)"

lemma pipeline_init_ok: "pipeline_init pl = Inr pl' \<Longrightarrow> pipeline_ok pl'"
  by (auto simp: pipeline_init_def pipeline_ok_def Let_def find_expert_Some_iff [symmetric]
      split: if_splits)

text \<open>The context that retrieved entries put in front of a prompt.\<close>

definition memory_context :: "memory_entry list \<Rightarrow> pystr" where
  "memory_context es = py_join nl (map (\<lambda>e. lit ''- ['' @ me_role e @ lit ''] '' @ me_text e) es)"

definition augment :: "memory_entry list \<Rightarrow> pystr \<Rightarrow> pystr" where
  "augment es prompt =
     (if es = [] then prompt
      else lit ''Context from shared memory:'' @ nl @ memory_context es @ nl @ nl @ lit ''---'' @ nl @ nl @ prompt)"

definition invoke_expert ::
  "'w pipeline \<Rightarrow> 'w expert \<Rightarrow> pystr \<Rightarrow> int \<Rightarrow> int \<Rightarrow>
   ('w, py_exc, pystr \<times> kv_cache option \<times> expert_metrics) act" where
  "invoke_expert pl e prompt max_tokens k =
     bnd (if 0 < k then bnd (mo_retrieve (pl_memory pl) prompt k) (\<lambda>es. ret (augment es prompt))
          else ret prompt)
       (\<lambda>p. expert_invoke (pl_clocks pl) e (Some p) None max_tokens)"

text \<open>\<open>self.memory.write(MemoryEntry(text=..., ...))\<close>, with the timestamp of its construction.\<close>

definition remember ::
  "'w pipeline \<Rightarrow> pystr \<Rightarrow> pystr \<Rightarrow> pystr \<Rightarrow> real \<Rightarrow> ('w, py_exc, unit) act" where
  "remember pl txt role expert conf =
     bnd (tick (ck_wall (pl_clocks pl))) (\<lambda>now.
     bnd (mo_write (pl_memory pl) (mk_entry txt role expert conf now)) (\<lambda>_. ret ()))"

lemma invoke_expert_Inr:
  assumes "invoke_expert pl e p mt k w = (Inr (out, oc, m), w')"
  shows "em_name m = ex_name e \<and> em_params_m m = ex_params_m e \<and> \<not> em_used_kv m \<and> em_transfer_ok m"
proof -
  obtain q v where "expert_invoke (pl_clocks pl) e (Some q) None mt v = (Inr (out, oc, m), w')"
    using assms by (auto simp: invoke_expert_def)
  from expert_invoke_Inr [OF this] show ?thesis by auto
qed

section \<open>The report of a run\<close>

record pipeline_result =
  pr_output :: pystr
  pr_metrics :: aggregate
  pr_per_expert :: "expert_metrics list"
  pr_selected :: "pystr list"
  pr_text_mode :: bool

text \<open>
  The metrics of a run over \<open>names\<close>: one entry per name, each of the expert of that name, and the
  aggregate counting exactly those.
\<close>

definition reports :: "'w pipeline \<Rightarrow> pystr list \<Rightarrow> expert_metrics list \<Rightarrow> aggregate \<Rightarrow> bool" where
  "reports pl names ms a \<longleftrightarrow>
     agg_counts a ms \<and> ag_nuance a = 0 \<and> ag_cost a = pl_cost pl \<and>
     list_all2 (\<lambda>n m. \<exists>e. find_expert (pl_experts pl) n = Some e \<and> em_name m = n \<and>
                          em_params_m m = ex_params_m e \<and> (em_used_kv m \<longrightarrow> em_transfer_ok m))
       names ms"

lemma reports_new [simp]: "reports pl [] [] (new_aggregate (pl_cost pl))"
  by (simp add: reports_def) (simp add: new_aggregate_def)

lemma reports_add:
  assumes "reports pl names ms a" and "get_expert (pl_experts pl) n = Inr e"
    and "em_name m = ex_name e" and "em_params_m m = ex_params_m e"
    and "em_used_kv m \<longrightarrow> em_transfer_ok m"
  shows "reports pl (names @ [n]) (ms @ [m]) (agg_add m a)"
proof -
  have fe: "find_expert (pl_experts pl) n = Some e"
    using assms(2) by (auto simp: get_expert_def split: option.splits)
  with find_expert_name [OF fe] assms show ?thesis by (auto simp: reports_def intro!: list_all2_appendI)
qed

lemma reports_mem [simp]:
  "reports pl names ms (a\<lparr>ag_mem_read := n\<rparr>) = reports pl names ms a"
  "reports pl names ms (a\<lparr>ag_mem_written := n\<rparr>) = reports pl names ms a"
  by (simp_all add: reports_def)

definition named_experts :: "'w pipeline \<Rightarrow> pystr list \<Rightarrow> 'w expert list" where
  "named_experts pl names = List.map_filter (find_expert (pl_experts pl)) names"

text \<open>The report of a finished run, in the closed form the properties of the pipelines share.\<close>

definition final_report :: "'w pipeline \<Rightarrow> pystr list \<Rightarrow> pipeline_result \<Rightarrow> bool" where
  "final_report pl names r \<longleftrightarrow>
     pr_selected r = names \<and> map em_name (pr_per_expert r) = names \<and>
     agg_counts (pr_metrics r) (pr_per_expert r) \<and> ag_cost (pr_metrics r) = pl_cost pl \<and>
     ag_kv_failures (pr_metrics r) = 0 \<and>
     ag_nuance (pr_metrics r) = (if \<exists>m\<in>set (pr_per_expert r). em_used_kv m then 1 else 0) \<and>
     epu (pr_metrics r) = (if ag_params_invoked_m (pr_metrics r) = 0 then 0 else 1)"

lemma final_report_counts:
  assumes "final_report pl names r"
  shows "agg_total_tokens (pr_metrics r) = sum_list (map em_input_tokens (pr_per_expert r)) +
      sum_list (map em_output_tokens (pr_per_expert r))"
    and "filter (\<lambda>m. em_used_kv m \<and> \<not> em_transfer_ok m) (pr_per_expert r) = []"
  using assms by (auto simp: final_report_def agg_counts_def agg_total_tokens_def filter_empty_conv)

lemma reports_names: "reports pl names ms a \<Longrightarrow> map em_name ms = names"
proof -
  assume "reports pl names ms a"
  then have "list_all2 (\<lambda>n m. em_name m = n) names ms"
    by (auto simp: reports_def elim!: list_all2_mono)
  then show ?thesis by (induction rule: list_all2_induct) auto
qed

lemma reports_ok: "reports pl names ms a \<Longrightarrow> m \<in> set ms \<Longrightarrow> em_used_kv m \<Longrightarrow> em_transfer_ok m"
proof -
  assume r: "reports pl names ms a" and m: "m \<in> set ms" "em_used_kv m"
  then have "list_all2 (\<lambda>n m. em_used_kv m \<longrightarrow> em_transfer_ok m) names ms"
    by (auto simp: reports_def elim!: list_all2_mono)
  then show ?thesis using m by (auto simp: list_all2_conv_all_nth in_set_conv_nth)
qed

lemma reports_params:
  "reports pl names ms a \<Longrightarrow>
   sum_list (map ex_params_m (named_experts pl names)) = sum_list (map em_params_m ms)"
proof -
  assume "reports pl names ms a"
  then have "list_all2 (\<lambda>n m. \<exists>e. find_expert (pl_experts pl) n = Some e \<and> em_params_m m = ex_params_m e) names ms"
    by (auto simp: reports_def elim!: list_all2_mono)
  then show ?thesis
    by (induction rule: list_all2_induct) (auto simp: named_experts_def List.map_filter_simps)
qed

lemma final_report_finalize:
  assumes "reports pl names ms a"
  shows "final_report pl names
     \<lparr>pr_output = out, pr_metrics = agg_finalize (named_experts pl names) a,
      pr_per_expert = ms, pr_selected = names, pr_text_mode = t\<rparr>"
proof -
  let ?a = "agg_finalize (named_experts pl names) a"
  have ac: "agg_counts a ms" and nu: "ag_nuance a = 0" and co: "ag_cost a = pl_cost pl"
    using assms by (auto simp: reports_def)
  have ac': "agg_counts ?a ms" using ac by (simp add: agg_counts_def agg_finalize_def Let_def)
  have f: "filter (\<lambda>m. em_used_kv m \<and> em_transfer_ok m) ms = filter em_used_kv ms"
    "filter (\<lambda>m. em_used_kv m \<and> \<not> em_transfer_ok m) ms = []"
    using reports_ok [OF assms] by (auto intro: filter_cong simp: filter_empty_conv)
  have em: "ag_expert_metrics a = ms" using ac by (simp add: agg_counts_def)
  have "ag_nuance ?a = (if filter em_used_kv ms = [] then 0 else 1)"
    using nu f by (simp add: agg_finalize_def Let_def em)
  then have nuance: "ag_nuance ?a = (if \<exists>m\<in>set ms. em_used_kv m then 1 else 0)"
    by (auto simp: filter_empty_conv)
  have "ag_distinct_params_m ?a = ag_params_invoked_m ?a"
    using reports_params [OF assms] ac by (simp add: agg_finalize_def Let_def agg_counts_def)
  then have e: "epu ?a = (if ag_params_invoked_m ?a = 0 then 0 else 1)" by (simp add: epu_def)
  have "ag_kv_failures ?a = 0" using ac' f by (simp add: agg_counts_def)
  moreover have "ag_cost ?a = pl_cost pl" using co by (simp add: agg_finalize_def Let_def)
  ultimately show ?thesis
    using ac' nuance e reports_names [OF assms] by (simp add: final_report_def)
qed

end
