(* ===== verification/Core_Router.thy ===== *)
theory Core_Router
  imports Core_Pipeline
begin

text \<open>
  \<open>chen/core/router.py\<close>: feature extraction, the logistic, cosine and hybrid routers, and the
  contract a router gives the routing pipeline as a locale.

  The two regular expressions are written out as searches. \<open>float\<close> is \<open>real\<close>, so \<open>math.exp\<close> does
  not overflow. The iteration order of the Python set in the hybrid router is an argument.
\<close>

section \<open>Features\<close>

definition word_char :: "unicode \<Rightarrow> nat \<Rightarrow> bool" where
  "word_char u c \<longleftrightarrow>
     (48 \<le> c \<and> c \<le> 57) \<or> (65 \<le> c \<and> c \<le> 90) \<or> (97 \<le> c \<and> c \<le> 122) \<or> c = 95 \<or> (128 \<le> c \<and> u_word u c)"

definition digit_char :: "unicode \<Rightarrow> nat \<Rightarrow> bool" where
  "digit_char u c \<longleftrightarrow> (48 \<le> c \<and> c \<le> 57) \<or> (128 \<le> c \<and> u_digit u c)"

text \<open>\<open>\\bkw\\b\<close>, \<open>\\{\\s*$\<close>, \<open>^\\s*\\}\<close> (with \<open>MULTILINE\<close>) and \<open>\\d+\\s*[+\\-*/^]\\s*\\d\<close>.\<close>

fun has_word :: "unicode \<Rightarrow> pystr \<Rightarrow> bool \<Rightarrow> pystr \<Rightarrow> bool" where
  "has_word u kw after_word [] = False"
| "has_word u kw after_word (c # cs) =
     ((\<not> after_word \<and> take (length kw) (c # cs) = kw \<and>
       (case drop (length kw) (c # cs) of [] \<Rightarrow> True | d # _ \<Rightarrow> \<not> word_char u d)) \<or>
      has_word u kw (word_char u c) cs)"

fun brace_at_eol :: "pystr \<Rightarrow> bool" where
  "brace_at_eol [] = False"
| "brace_at_eol (c # cs) =
     ((c = 123 \<and> (let ws = takeWhile py_isspace cs in 10 \<in> set ws \<or> ws = cs)) \<or> brace_at_eol cs)"

fun line_starts_brace :: "bool \<Rightarrow> pystr \<Rightarrow> bool" where
  "line_starts_brace at_start [] = False"
| "line_starts_brace at_start (c # cs) =
     ((at_start \<and> (case dropWhile py_isspace (c # cs) of [] \<Rightarrow> False | d # _ \<Rightarrow> d = 125)) \<or>
      line_starts_brace (c = 10) cs)"

fun arithmetic :: "unicode \<Rightarrow> pystr \<Rightarrow> bool" where
  "arithmetic u [] = False"
| "arithmetic u (c # cs) =
     ((digit_char u c \<and>
       (case dropWhile py_isspace cs of
          [] \<Rightarrow> False
        | x # r \<Rightarrow> x \<in> {43, 45, 42, 47, 94} \<and>
                  (case dropWhile py_isspace r of [] \<Rightarrow> False | d # _ \<Rightarrow> digit_char u d))) \<or>
      arithmetic u cs)"

definition code_indicators :: "unicode \<Rightarrow> pystr \<Rightarrow> bool" where
  "code_indicators u s \<longleftrightarrow>
     (\<exists>kw\<in>set [lit ''def'', lit ''class'', lit ''import'', lit ''from'', lit ''function'', lit ''return''].
        has_word u kw False s) \<or>
     (\<exists>t\<in>set [lit ''<<'', lit ''>>'', lit ''=>'', lit ''->'', lit ''::'', [96, 96, 96]]. py_contains t s) \<or>
     brace_at_eol s \<or> line_starts_brace True s"

definition math_indicators :: "unicode \<Rightarrow> pystr \<Rightarrow> bool" where
  "math_indicators u s \<longleftrightarrow>
     arithmetic u s \<or>
     (\<exists>t\<in>set [lit ''frac'', lit ''sum'', lit ''int'', lit ''sqrt'', lit ''alpha'', lit ''beta''].
        py_contains (92 # t) s) \<or>
     (\<exists>kw\<in>set [lit ''equation'', lit ''formula'', lit ''proof'']. has_word u kw False s)"

definition role_keywords :: "(expert_role \<times> pystr list) list" where
  "role_keywords =
     [(ANALYST,
       [lit ''extract'', lit ''entity'', lit ''parse'', lit ''summarize'', lit ''analyze'',
        lit ''identify'', lit ''list'', lit ''find'', lit ''what'', lit ''who'', lit ''where'',
        lit ''when'']),
      (REASONER,
       [lit ''why'', lit ''how'', lit ''explain'', lit ''derive'', lit ''prove'', lit ''calculate'',
        lit ''solve'', lit ''math'', lit ''physics'', lit ''logic'', lit ''reason'', lit ''step'',
        lit ''equation'', lit ''formula'', lit ''reasoning'']),
      (CODER,
       [lit ''code'', lit ''python'', lit ''javascript'', lit ''java'', lit ''c++'', lit ''rust'',
        lit ''go'', lit ''sql'', lit ''function'', lit ''class'', lit ''bug'', lit ''debug'',
        lit ''compile'', lit ''runtime'', lit ''stack'', lit ''trace'', lit ''segfault'',
        lit ''allocator'', lit ''refactor'', lit ''implement'', lit ''algorithm'']),
      (SYNTHESIZER,
       [lit ''write'', lit ''compose'', lit ''draft'', lit ''generate'', lit ''produce'',
        lit ''essay'', lit ''story'', lit ''poem'', lit ''haiku'', lit ''letter'', lit ''email'',
        lit ''report'', lit ''summary'']),
      (TRANSLATOR,
       [lit ''translate'', lit ''translation'', lit ''in french'', lit ''in spanish'',
        lit ''in german'', lit ''in chinese'', lit ''in japanese'', lit ''translate to''])]"

definition indicator :: "bool \<Rightarrow> real" where
  "indicator b = (if b then 1 else 0)"

definition keyword_density :: "unicode \<Rightarrow> pystr \<Rightarrow> pystr list \<Rightarrow> real" where
  "keyword_density u prompt kws =
     real (sum_list (map (\<lambda>kw. py_count kw (py_lower u prompt)) kws)) /
     (real (max 1 (length prompt)) / 100)"

definition extract_features :: "unicode \<Rightarrow> pystr \<Rightarrow> (pystr \<times> real) list" where
  "extract_features u prompt =
     (let n = max 1 (length prompt) in
      [(lit ''length_short'', indicator (n < 100)),
       (lit ''length_medium'', indicator (100 \<le> n \<and> n < 500)),
       (lit ''length_long'', indicator (500 \<le> n)),
       (lit ''has_code'', indicator (code_indicators u prompt)),
       (lit ''has_math'', indicator (math_indicators u prompt)),
       (lit ''has_question'', indicator (63 \<in> set prompt))] @
      map (\<lambda>(role, kws). (lit ''kw_'' @ role_value role, keyword_density u prompt kws)) role_keywords)"

section \<open>Logistic router\<close>

type_synonym weights = "(pystr \<times> (pystr \<times> real) list) list"

record logistic_router =
  lg_min_activation :: int
  lg_max_activation :: int
  lg_force_last :: expert_role
  lg_threshold :: real
  lg_weights :: weights

definition default_weights :: weights where
  "default_weights =
     [(role_value ANALYST,
       [(lit ''kw_analyst'', 3), (lit ''has_question'', 1), (lit ''length_long'', 1 / 2), (lit ''bias'', - (1 / 2))]),
      (role_value REASONER,
       [(lit ''kw_reasoner'', 4), (lit ''has_math'', 2), (lit ''length_long'', 7 / 10), (lit ''bias'', -1)]),
      (role_value CODER,
       [(lit ''kw_coder'', 5), (lit ''has_code'', 3), (lit ''bias'', - (3 / 2))]),
      (role_value SYNTHESIZER,
       [(lit ''kw_synthesizer'', 4), (lit ''length_short'', 1 / 2), (lit ''bias'', 0)]),
      (role_value TRANSLATOR,
       [(lit ''kw_translator'', 6), (lit ''bias'', -2)]),
      (role_value GENERALIST,
       [(lit ''bias'', 0)])]"

text \<open>\<open>LogisticRouter(...)\<close> with \<open>__post_init__\<close>; \<open>from_experts\<close> passes its keyword arguments on.\<close>

definition mk_logistic :: "int \<Rightarrow> int \<Rightarrow> expert_role \<Rightarrow> real \<Rightarrow> weights \<Rightarrow> logistic_router" where
  "mk_logistic mn mx force thr ws =
     \<lparr>lg_min_activation = mn, lg_max_activation = mx, lg_force_last = force, lg_threshold = thr,
      lg_weights = (if ws = [] then default_weights else ws)\<rparr>"

definition default_logistic :: logistic_router where
  "default_logistic = mk_logistic 1 3 SYNTHESIZER (15 / 100) []"

definition sigmoid :: "real \<Rightarrow> real" where
  "sigmoid x = 1 / (1 + exp (- x))"

definition logit :: "(pystr \<times> real) list \<Rightarrow> (pystr \<times> real) list \<Rightarrow> real" where
  "logit features w =
     foldl (\<lambda>l (fname, val). l + dict_get w fname 0 * val) (dict_get w (lit ''bias'') 0) features"

definition logistic_scores :: "unicode \<Rightarrow> logistic_router \<Rightarrow> pystr \<Rightarrow> (pystr \<times> real) list" where
  "logistic_scores u r prompt =
     (let features = extract_features u prompt
      in dict_of (map (\<lambda>(role, w). (role, sigmoid (logit features w))) (lg_weights r)))"

definition adjusted_score :: "(pystr \<times> real) list \<Rightarrow> 'w expert \<Rightarrow> real" where
  "adjusted_score scores e =
     dict_get scores (role_value (ex_role e)) 0 + - (1 / 10000) * (real_of_int (ex_params_m e) / 1000)"

text \<open>The best expert of each role, in the order the roles are first met.\<close>

definition role_best :: "(pystr \<times> real) list \<Rightarrow> 'w expert list \<Rightarrow> (pystr \<times> real \<times> 'w expert) list" where
  "role_best scores es =
     foldl (\<lambda>best e.
        let r = role_value (ex_role e); s = adjusted_score scores e in
        case map_of best r of
          None \<Rightarrow> AList.update r (s, e) best
        | Some (s0, _) \<Rightarrow> (if s > s0 then AList.update r (s, e) best else best)) [] es"

definition ranked :: "real \<Rightarrow> (pystr \<times> real \<times> 'w expert) list \<Rightarrow> (real \<times> 'w expert) list" where
  "ranked thr best = sort_desc fst (filter (\<lambda>x. thr \<le> fst x) (map snd best))"

text \<open>
  The top of the ranking, the collapse to the single best when fewer than \<open>min_activation\<close> passed,
  and the absolute fallback.
\<close>

definition pick_top ::
  "int \<Rightarrow> expert_role \<Rightarrow> 'w expert list \<Rightarrow> pystr list \<Rightarrow> (real \<times> 'w expert) list \<Rightarrow> pystr list" where
  "pick_top mn force es tops rk =
     (let sel = (if int (length tops) < mn \<and> rk \<noteq> [] then [ex_name (snd (hd rk))] else tops) in
      if sel = [] \<and> es \<noteq> []
      then (case find (\<lambda>e. ex_role e = force) es of
              Some e \<Rightarrow> [ex_name e]
            | None \<Rightarrow> [ex_name (hd es)])
      else sel)"

definition first_role_of :: "pystr \<Rightarrow> 'w expert list \<Rightarrow> pystr" where
  "first_role_of n es =
     (case find (\<lambda>e. ex_name e = n) es of Some e \<Rightarrow> role_value (ex_role e) | None \<Rightarrow> [])"

definition append_forced :: "expert_role \<Rightarrow> 'w expert list \<Rightarrow> pystr list \<Rightarrow> pystr list" where
  "append_forced force es sel =
     (case find (\<lambda>e. ex_role e = force \<and> ex_name e \<notin> set sel) es of
        Some e \<Rightarrow> sel @ [ex_name e]
      | None \<Rightarrow> sel)"

definition last_role_names :: "expert_role \<Rightarrow> 'w expert list \<Rightarrow> pystr list" where
  "last_role_names force es = map ex_name (filter (\<lambda>e. ex_role e = force) es)"

definition move_last :: "pystr list \<Rightarrow> pystr list \<Rightarrow> pystr list" where
  "move_last names sel =
     (case filter (\<lambda>n. n \<in> set names) sel of
        [] \<Rightarrow> sel
      | xs \<Rightarrow> filter (\<lambda>n. n \<noteq> last xs) sel @ [last xs])"

definition cap :: "int \<Rightarrow> 'a list \<Rightarrow> 'a list" where
  "cap mx xs = (if 0 < mx then py_take mx xs else xs)"

definition logistic_select ::
  "logistic_router \<Rightarrow> (pystr \<times> real) list \<Rightarrow> 'w expert list \<Rightarrow> pystr list" where
  "logistic_select r scores es =
     (if es = [] then []
      else
      (let force = lg_force_last r;
           rk = ranked (lg_threshold r) (role_best scores es);
           tops = map (\<lambda>x. ex_name (snd x)) (py_take (lg_max_activation r) rk);
           sel = pick_top (lg_min_activation r) force es tops rk;
           sel = (if role_value force \<notin> (\<lambda>n. first_role_of n es) ` set sel
                  then append_forced force es sel else sel)
       in cap (lg_max_activation r) (move_last (last_role_names force es) sel)))"

definition logistic_route :: "unicode \<Rightarrow> logistic_router \<Rightarrow> pystr \<Rightarrow> 'w expert list \<Rightarrow> pystr list" where
  "logistic_route u r prompt es = logistic_select r (logistic_scores u r prompt) es"

section \<open>Cosine router\<close>

record cosine_router =
  co_min_activation :: int
  co_max_activation :: int
  co_force_last :: expert_role
  co_threshold :: real

type_synonym prototypes = "(pystr \<times> real list) list"

text \<open>
  The fallback embedding. Its loop runs over \<open>len(text)\<close> while the chunks are cut from the UTF-8
  bytes, so only as many bytes are read as there are characters.
\<close>

definition cosine_hash_embed ::
  "(bytes \<Rightarrow> bytes \<Rightarrow> nat \<Rightarrow> bytes) \<Rightarrow> int \<Rightarrow> pystr \<Rightarrow> py_exc + real list" where
  "cosine_hash_embed blake d s =
     (if d < 0 then Inl ValueError
      else case utf8_encode s of
        None \<Rightarrow> Inl UnicodeError
      | Some enc \<Rightarrow>
          (if d = 0 then Inl OtherError
           else (let out = set_chunks
                       (\<lambda>_ c. real_of_int (from_bytes_little (blake c [] 4)) / 4294967295)
                       (nat d) (n_chunks (length s)) enc;
                     nrm = sqrt (sum_list (map (\<lambda>x. x ^ 2) out))
                 in Inr (if 0 < nrm then map (\<lambda>x. x / nrm) out else out))))"

fun embed_all :: "(pystr \<Rightarrow> py_exc + real list) \<Rightarrow> pystr list \<Rightarrow> py_exc + real list list" where
  "embed_all emb [] = Inr []"
| "embed_all emb (p # ps) =
     (case emb p of
        Inl e \<Rightarrow> Inl e
      | Inr v \<Rightarrow> (case embed_all emb ps of Inl e \<Rightarrow> Inl e | Inr vs \<Rightarrow> Inr (v # vs)))"

text \<open>\<open>np.stack(embs).mean(axis=0)\<close>, normalized: \<open>np.stack\<close> rejects vectors of different lengths.\<close>

definition prototype :: "real list list \<Rightarrow> py_exc + real list" where
  "prototype vs =
     (case vs of
        [] \<Rightarrow> Inl ValueError
      | v # _ \<Rightarrow>
          (if \<exists>x\<in>set vs. length x \<noteq> length v then Inl ValueError
           else (let m = map (\<lambda>i. sum_list (map (\<lambda>x. x ! i) vs) / real (length vs)) [0..<length v];
                     nrm = sqrt (sum_list (map (\<lambda>x. x ^ 2) m))
                 in Inr (if 0 < nrm then map (\<lambda>x. x / nrm) m else m))))"

definition register_expert ::
  "(pystr \<Rightarrow> py_exc + real list) \<Rightarrow> 'w expert \<Rightarrow> pystr list \<Rightarrow> (prototypes, py_exc, unit) act" where
  "register_expert emb e samples =
     (if samples = [] then ret ()
      else bnd (lift_err (embed_all emb samples)) (\<lambda>vs.
           bnd (lift_err (prototype vs)) (\<lambda>p ps. (Inr (), AList.update (ex_name e) p ps))))"

definition role_samples :: "'w expert \<Rightarrow> pystr list" where
  "role_samples e =
     [role_value (ex_role e),
      if ex_description e = [] then role_value (ex_role e) else ex_description e]"

text \<open>\<open>from_experts\<close>: the given samples of an expert, or its role and description.\<close>

fun register_all ::
  "(pystr \<Rightarrow> py_exc + real list) \<Rightarrow> (pystr \<times> pystr list) list \<Rightarrow> 'w expert list \<Rightarrow> (prototypes, py_exc, unit) act" where
  "register_all emb samples [] = ret ()"
| "register_all emb samples (e # es) =
     (let given = dict_get samples (ex_name e) [] in
      bnd (register_expert emb e (if given = [] then role_samples e else given))
          (\<lambda>_. register_all emb samples es))"

fun cosine_scored ::
  "(pystr \<Rightarrow> py_exc + real list) \<Rightarrow> real list \<Rightarrow> 'w expert list \<Rightarrow> (prototypes, py_exc, (real \<times> 'w expert) list) act" where
  "cosine_scored emb q [] = ret []"
| "cosine_scored emb q (e # es) =
     bnd (\<lambda>ps. case map_of ps (ex_name e) of
            Some p \<Rightarrow> (Inr p, ps)
          | None \<Rightarrow> bnd (register_expert emb e (role_samples e))
                     (\<lambda>_ ps'. case map_of ps' (ex_name e) of Some p \<Rightarrow> (Inr p, ps') | None \<Rightarrow> (Inl KeyError, ps')) ps)
       (\<lambda>p. bnd (lift_err (dot q p)) (\<lambda>sim. bnd (cosine_scored emb q es) (\<lambda>r. ret ((sim, e) # r))))"

definition cosine_select ::
  "cosine_router \<Rightarrow> (real \<times> 'w expert) list \<Rightarrow> 'w expert list \<Rightarrow> pystr list" where
  "cosine_select r scored es =
     (let force = co_force_last r;
          rk = sort_desc fst scored;
          tops = map (\<lambda>x. ex_name (snd x))
                  (filter (\<lambda>x. co_threshold r \<le> fst x) (py_take (co_max_activation r) rk));
          sel = pick_top (co_min_activation r) force es tops rk;
          names = last_role_names force es;
          sel = (if \<exists>n\<in>set sel. n \<in> set names then sel else append_forced force es sel)
      in cap (co_max_activation r) (move_last names sel))"

definition cosine_route ::
  "(pystr \<Rightarrow> py_exc + real list) \<Rightarrow> cosine_router \<Rightarrow> pystr \<Rightarrow> 'w expert list \<Rightarrow> (prototypes, py_exc, pystr list) act" where
  "cosine_route emb r prompt es =
     (if es = [] then ret []
      else bnd (lift_err (emb prompt)) (\<lambda>q.
           bnd (cosine_scored emb q es) (\<lambda>scored. ret (cosine_select r scored es))))"

section \<open>Hybrid router\<close>

record hybrid_router =
  hy_logistic :: logistic_router
  hy_cosine :: cosine_router
  hy_alpha :: real
  hy_max_activation :: int
  hy_force_last :: expert_role

text \<open>
  \<open>from_experts\<close> keeps only \<open>alpha\<close> of its keyword arguments; the sub-routers and the bounds get
  their defaults.
\<close>

definition default_cosine :: cosine_router where
  "default_cosine = \<lparr>co_min_activation = 1, co_max_activation = 3, co_force_last = SYNTHESIZER, co_threshold = 1 / 10\<rparr>"

definition hybrid_from_experts :: "real option \<Rightarrow> hybrid_router" where
  "hybrid_from_experts alpha =
     \<lparr>hy_logistic = default_logistic, hy_cosine = default_cosine,
      hy_alpha = (case alpha of None \<Rightarrow> 6 / 10 | Some a \<Rightarrow> a), hy_max_activation = 3,
      hy_force_last = SYNTHESIZER\<rparr>"

definition hybrid_select ::
  "(pystr list \<Rightarrow> pystr list) \<Rightarrow> hybrid_router \<Rightarrow> pystr list \<Rightarrow> pystr list \<Rightarrow> 'w expert list \<Rightarrow> pystr list" where
  "hybrid_select iter r l_order c_order es =
     (let union = iter (remdups (l_order @ c_order)) in
      if union = [] then l_order
      else
      (let ordered = filter (\<lambda>n. n \<in> set union) l_order @ filter (\<lambda>n. n \<notin> set l_order) union;
           names = last_role_names (hy_force_last r) es;
           mx = hy_max_activation r
       in if names \<noteq> []
          then (let lst = (case find (\<lambda>n. n \<in> set names) ordered of Some n \<Rightarrow> n | None \<Rightarrow> hd names);
                    others = filter (\<lambda>n. n \<noteq> lst) ordered
                in (if 0 < mx then py_take (max 0 (mx - 1)) others else others) @ [lst])
          else cap mx ordered))"

definition hybrid_route ::
  "unicode \<Rightarrow> (pystr \<Rightarrow> py_exc + real list) \<Rightarrow> (pystr list \<Rightarrow> pystr list) \<Rightarrow> hybrid_router \<Rightarrow> pystr \<Rightarrow>
   'w expert list \<Rightarrow> (prototypes, py_exc, pystr list) act" where
  "hybrid_route u emb iter r prompt es =
     bnd (cosine_route emb (hy_cosine r) prompt es) (\<lambda>c_order.
     ret (hybrid_select iter r (logistic_route u (hy_logistic r) prompt es) c_order es))"

section \<open>The contract of a router\<close>

locale router =
  fixes route :: "pystr \<Rightarrow> 'e expert list \<Rightarrow> ('w, py_exc, pystr list) act"
  assumes route_known: "route p es w = (Inr ns, w') \<Longrightarrow> set ns \<subseteq> ex_name ` set es"
    and route_nonempty: "route p es w = (Inr ns, w') \<Longrightarrow> es \<noteq> [] \<Longrightarrow> ns \<noteq> []"
    and route_distinct: "route p es w = (Inr ns, w') \<Longrightarrow> distinct (map ex_name es) \<Longrightarrow> distinct ns"
begin

text \<open>What a routing pipeline needs: every name resolves, and no expert is invoked twice.\<close>

lemma route_resolves:
  assumes "route p es w = (Inr ns, w')" and "n \<in> set ns"
  shows "\<exists>e. get_expert es n = Inr e \<and> e \<in> set es \<and> ex_name e = n"
proof -
  have "n \<in> ex_name ` set es" using route_known [OF assms(1)] assms(2) by blast
  then obtain e where "find_expert es n = Some e"
    using find_expert_Some_iff [of es n] by auto
  then show ?thesis using find_expert_name by (fastforce simp: get_expert_def)
qed

lemma route_length:
  assumes "route p es w = (Inr ns, w')" and "distinct (map ex_name es)"
  shows "length ns \<le> length es"
proof -
  have "length ns = card (set ns)"
    using route_distinct [OF assms] by (simp add: distinct_card)
  also have "\<dots> \<le> card (ex_name ` set es)"
    using route_known [OF assms(1)] by (intro card_mono) auto
  also have "\<dots> \<le> length es" using card_image_le card_length order_trans by blast
  finally show ?thesis .
qed

end

section \<open>The pieces of a selection\<close>

definition names_of :: "'w expert list \<Rightarrow> pystr set" where
  "names_of es = ex_name ` set es"

lemma pick_top_props:
  assumes "set tops \<subseteq> names_of es" and "\<forall>x\<in>set rk. snd x \<in> set es" and "es \<noteq> []"
  shows "set (pick_top mn force es tops rk) \<subseteq> names_of es \<and> pick_top mn force es tops rk \<noteq> []"
proof -
  have "rk \<noteq> [] \<Longrightarrow> ex_name (snd (hd rk)) \<in> names_of es"
    using assms(2) by (cases rk) (auto simp: names_of_def)
  moreover have "ex_name (hd es) \<in> names_of es" using assms(3) by (simp add: names_of_def)
  moreover have "find P es = Some e \<Longrightarrow> ex_name e \<in> names_of es" for P e
    by (auto simp: find_Some_iff names_of_def)
  ultimately show ?thesis
    using assms(1,3) by (auto simp: pick_top_def Let_def split: option.split)
qed

lemma distinct_pick_top: "distinct tops \<Longrightarrow> distinct (pick_top mn force es tops rk)"
  by (auto simp: pick_top_def Let_def split: option.split)

lemma append_forced_props:
  "set sel \<subseteq> names_of es \<Longrightarrow> set (append_forced force es sel) \<subseteq> names_of es"
  "sel \<noteq> [] \<Longrightarrow> append_forced force es sel \<noteq> []"
  "distinct sel \<Longrightarrow> distinct (append_forced force es sel)"
  by (auto simp: append_forced_def names_of_def find_Some_iff split: option.split)

lemma set_move_last [simp]: "set (move_last names sel) = set sel"
proof (cases "filter (\<lambda>n. n \<in> set names) sel")
  case Nil
  then show ?thesis by (simp add: move_last_def)
next
  case (Cons x xs)
  then have "last (x # xs) \<in> set sel"
    by (metis filter_is_subset last_in_set list.distinct(1) subsetD)
  with Cons show ?thesis by (auto simp: move_last_def)
qed

lemma distinct_move_last: "distinct sel \<Longrightarrow> distinct (move_last names sel)"
  by (auto simp: move_last_def split: list.split)

lemma move_last_Nil_iff [simp]: "move_last names sel = [] \<longleftrightarrow> sel = []"
  by (metis set_empty set_move_last)

lemma last_move_last:
  assumes "\<exists>n\<in>set sel. n \<in> set names"
  shows "last (move_last names sel) \<in> set names"
proof (cases "filter (\<lambda>n. n \<in> set names) sel")
  case Nil
  with assms show ?thesis by (auto simp: filter_empty_conv)
next
  case (Cons x xs)
  have "last (x # xs) \<in> set (filter (\<lambda>n. n \<in> set names) sel)" unfolding Cons by (rule last_in_set) simp
  then have "last (x # xs) \<in> set names" by simp
  with Cons show ?thesis by (simp add: move_last_def)
qed

lemma length_move_last:
  assumes "distinct sel"
  shows "length (move_last names sel) = length sel"
  using assms distinct_move_last [OF assms] by (metis distinct_card set_move_last)

lemma cap_props:
  "set (cap mx xs) \<subseteq> set xs" "xs \<noteq> [] \<Longrightarrow> cap mx xs \<noteq> []" "distinct xs \<Longrightarrow> distinct (cap mx xs)"
  "0 < mx \<Longrightarrow> int (length (cap mx xs)) \<le> mx" "int (length xs) \<le> mx \<Longrightarrow> cap mx xs = xs"
  by (auto simp: cap_def py_take_def dest: in_set_takeD)

section \<open>The best expert of each role\<close>

definition best_inv :: "(pystr \<times> real) list \<Rightarrow> 'w expert list \<Rightarrow> (pystr \<times> real \<times> 'w expert) list \<Rightarrow> bool" where
  "best_inv scores seen best \<longleftrightarrow>
     distinct (map fst best) \<and>
     (\<forall>(r, s, e)\<in>set best. e \<in> set seen \<and> r = role_value (ex_role e) \<and> s = adjusted_score scores e) \<and>
     (\<forall>e\<in>set seen. \<exists>s e'. map_of best (role_value (ex_role e)) = Some (s, e') \<and> adjusted_score scores e \<le> s)"

lemma set_AList_update:
  assumes "distinct (map fst al)"
  shows "set (AList.update k v al) = insert (k, v) {p \<in> set al. fst p \<noteq> k}"
  using assms
proof (induction al)
  case Nil
  then show ?case by simp
next
  case (Cons p al)
  obtain a b where p: "p = (a, b)" by (cases p)
  show ?case
  proof (cases "a = k")
    case True
    have keys: "\<And>q. q \<in> set al \<Longrightarrow> fst q \<noteq> k" using Cons.prems p True by force
    have "AList.update k v (p # al) = (k, v) # al" using True p by simp
    then show ?thesis using keys True p by auto
  next
    case False
    with Cons p show ?thesis by auto
  qed
qed

lemma role_best_step:
  assumes "best_inv scores seen best"
  shows "best_inv scores (seen @ [e])
    (let r = role_value (ex_role e); s = adjusted_score scores e in
     case map_of best r of
       None \<Rightarrow> AList.update r (s, e) best
     | Some (s0, _) \<Rightarrow> (if s > s0 then AList.update r (s, e) best else best))"
proof -
  let ?r = "role_value (ex_role e)" and ?s = "adjusted_score scores e"
  have d: "distinct (map fst best)"
    and mem: "\<And>r s x. (r, s, x) \<in> set best \<Longrightarrow> x \<in> set seen \<and> r = role_value (ex_role x) \<and> s = adjusted_score scores x"
    and cov: "\<And>x. x \<in> set seen \<Longrightarrow> \<exists>s e'. map_of best (role_value (ex_role x)) = Some (s, e') \<and> adjusted_score scores x \<le> s"
    using assms by (auto simp: best_inv_def)
  have upd: "best_inv scores (seen @ [e]) (AList.update ?r (?s, e) best)"
    if better: "\<And>s0 e0. map_of best ?r = Some (s0, e0) \<Longrightarrow> s0 < ?s"
  proof -
    have "distinct (map fst (AList.update ?r (?s, e) best))" using d by (rule distinct_update)
    moreover have "x \<in> set (seen @ [e]) \<and> r = role_value (ex_role x) \<and> s = adjusted_score scores x"
      if "(r, s, x) \<in> set (AList.update ?r (?s, e) best)" for r s x
      using that mem [of r s x] by (auto simp: set_AList_update [OF d])
    moreover have "\<exists>s e'. map_of (AList.update ?r (?s, e) best) (role_value (ex_role x)) = Some (s, e') \<and>
        adjusted_score scores x \<le> s" if "x \<in> set (seen @ [e])" for x
    proof (cases "ex_role x = ex_role e")
      case True
      have "adjusted_score scores x \<le> ?s"
      proof (cases "x \<in> set seen")
        case True
        with cov obtain s e' where "map_of best (role_value (ex_role x)) = Some (s, e')" "adjusted_score scores x \<le> s"
          by blast
        with better [of s e'] \<open>ex_role x = ex_role e\<close> show ?thesis by simp
      next
        case False
        with that show ?thesis by simp
      qed
      with True show ?thesis by (simp add: update_conv')
    next
      case False
      with that have "x \<in> set seen" by auto
      with cov False show ?thesis by (simp add: update_conv')
    qed
    ultimately show ?thesis unfolding best_inv_def by blast
  qed
  show ?thesis
  proof (cases "map_of best ?r")
    case None
    with upd show ?thesis by (simp add: Let_def)
  next
    case (Some se)
    obtain s0 e0 where se: "se = (s0, e0)" by (cases se)
    show ?thesis
    proof (cases "?s > s0")
      case True
      with upd Some se show ?thesis by (simp add: Let_def)
    next
      case False
      have "best_inv scores (seen @ [e]) best"
        unfolding best_inv_def
      proof (intro conjI)
        show "distinct (map fst best)" by (rule d)
        show "\<forall>(r, s, x)\<in>set best. x \<in> set (seen @ [e]) \<and> r = role_value (ex_role x) \<and> s = adjusted_score scores x"
          using mem by auto
        show "\<forall>x\<in>set (seen @ [e]). \<exists>s e'. map_of best (role_value (ex_role x)) = Some (s, e') \<and> adjusted_score scores x \<le> s"
          using cov Some se False by auto
      qed
      with False Some se show ?thesis by (simp add: Let_def)
    qed
  qed
qed

lemma role_best_inv: "best_inv scores es (role_best scores es)"
proof -
  let ?f = "\<lambda>best e. let r = role_value (ex_role e); s = adjusted_score scores e in
     case map_of best r of
       None \<Rightarrow> AList.update r (s, e) best
     | Some (s0, _) \<Rightarrow> (if s > s0 then AList.update r (s, e) best else best)"
  have gen: "best_inv scores (seen @ es) (foldl ?f best es)" if "best_inv scores seen best" for seen best
    using that
  proof (induction es arbitrary: seen best)
    case Nil
    then show ?case by simp
  next
    case (Cons e es)
    from Cons.IH [OF role_best_step [OF Cons.prems, of e]] show ?case by simp
  qed
  have "best_inv scores [] []" by (simp add: best_inv_def)
  from gen [OF this] show ?thesis unfolding role_best_def append_Nil .
qed

text \<open>The ranking: experts of the pool with their own score, at most one per role.\<close>

lemma ranked_mem:
  assumes "(s, e) \<in> set (ranked thr (role_best scores es))"
  shows "e \<in> set es \<and> s = adjusted_score scores e \<and> thr \<le> s \<and>
         (\<forall>e'\<in>set es. ex_role e' = ex_role e \<longrightarrow> adjusted_score scores e' \<le> s)"
proof -
  let ?b = "role_best scores es"
  obtain r where r: "(r, s, e) \<in> set ?b" and thr: "thr \<le> s"
    using assms by (auto simp: ranked_def)
  have inv: "best_inv scores es ?b" by (rule role_best_inv)
  then have e: "e \<in> set es" "r = role_value (ex_role e)" "s = adjusted_score scores e"
    and d: "distinct (map fst ?b)"
    using r by (auto simp: best_inv_def)
  have look: "map_of ?b r = Some (s, e)" using r d by simp
  have "adjusted_score scores e' \<le> s" if e': "e' \<in> set es" "ex_role e' = ex_role e" for e'
  proof -
    obtain s' x where "map_of ?b (role_value (ex_role e')) = Some (s', x)" "adjusted_score scores e' \<le> s'"
      using inv e'(1) unfolding best_inv_def by blast
    with look e(2) e'(2) show ?thesis by simp
  qed
  with e thr show ?thesis by blast
qed

lemma distinct_ranked_roles: "distinct (map (\<lambda>x. ex_role (snd x)) (ranked thr (role_best scores es)))"
proof -
  let ?b = "role_best scores es"
  have inv: "distinct (map fst ?b)" "\<forall>(r, s, e)\<in>set ?b. r = role_value (ex_role e)"
    using role_best_inv [of scores es] by (auto simp: best_inv_def)
  have "map fst ?b = map role_value (map (\<lambda>x. ex_role (snd (snd x))) ?b)"
    using inv(2) by auto
  with inv(1) have "distinct (map (\<lambda>x. ex_role (snd (snd x))) ?b)"
    by (metis distinct_map)
  then have "distinct (map (\<lambda>x. ex_role (snd x)) (map snd ?b))" by (simp add: comp_def)
  then have "distinct (map (\<lambda>x. ex_role (snd x)) (filter (\<lambda>x. thr \<le> fst x) (map snd ?b)))"
    by (rule distinct_map_filter)
  then show ?thesis unfolding ranked_def by (rule distinct_map_sort_desc)
qed

lemma distinct_ranked_names:
  assumes "distinct (map ex_name es)"
  shows "distinct (map (\<lambda>x. ex_name (snd x)) (ranked thr (role_best scores es)))"
proof -
  let ?rk = "ranked thr (role_best scores es)"
  have "map (\<lambda>x. ex_role (snd x)) ?rk = map ex_role (map snd ?rk)" by simp
  then have "distinct (map snd ?rk)"
    using distinct_ranked_roles [of thr scores es] by (simp only: distinct_map)
  moreover have "inj_on ex_name (set (map snd ?rk))"
  proof -
    have "inj_on ex_name (set es)" using assms by (simp add: distinct_map)
    moreover have "set (map snd ?rk) \<subseteq> set es" using ranked_mem by fastforce
    ultimately show ?thesis by (rule inj_on_subset)
  qed
  ultimately have "distinct (map ex_name (map snd ?rk))" by (simp only: distinct_map simp_thms)
  then show ?thesis by (simp add: comp_def)
qed

section \<open>The three routers keep the contract\<close>

definition logistic_tops :: "logistic_router \<Rightarrow> (pystr \<times> real) list \<Rightarrow> 'w expert list \<Rightarrow> pystr list" where
  "logistic_tops r scores es =
     map (\<lambda>x. ex_name (snd x)) (py_take (lg_max_activation r) (ranked (lg_threshold r) (role_best scores es)))"

text \<open>The selection before the cap.\<close>

definition logistic_chosen :: "logistic_router \<Rightarrow> (pystr \<times> real) list \<Rightarrow> 'w expert list \<Rightarrow> pystr list" where
  "logistic_chosen r scores es =
     pick_top (lg_min_activation r) (lg_force_last r) es (logistic_tops r scores es)
       (ranked (lg_threshold r) (role_best scores es))"

definition with_forced :: "logistic_router \<Rightarrow> 'w expert list \<Rightarrow> pystr list \<Rightarrow> pystr list" where
  "with_forced r es sel =
     (if role_value (lg_force_last r) \<notin> (\<lambda>n. first_role_of n es) ` set sel
      then append_forced (lg_force_last r) es sel else sel)"

lemma logistic_select_eq:
  "es \<noteq> [] \<Longrightarrow> logistic_select r scores es =
     cap (lg_max_activation r) (move_last (last_role_names (lg_force_last r) es)
       (with_forced r es (logistic_chosen r scores es)))"
  by (simp add: logistic_select_def with_forced_def logistic_chosen_def logistic_tops_def Let_def)

lemma logistic_tops_known: "set (logistic_tops r scores es) \<subseteq> names_of es"
proof -
  let ?rk = "ranked (lg_threshold r) (role_best scores es)"
  have "set (py_take (lg_max_activation r) ?rk) \<subseteq> set ?rk" by (rule set_py_take_subset)
  then show ?thesis using ranked_mem by (fastforce simp: logistic_tops_def names_of_def)
qed

lemma logistic_tops_distinct:
  "distinct (map ex_name es) \<Longrightarrow> distinct (logistic_tops r scores es)"
  unfolding logistic_tops_def py_take_map [symmetric]
  by (intro distinct_py_take distinct_ranked_names)

lemma logistic_chosen_props:
  assumes "es \<noteq> []"
  shows "set (logistic_chosen r scores es) \<subseteq> names_of es" and "logistic_chosen r scores es \<noteq> []"
    and "distinct (map ex_name es) \<Longrightarrow> distinct (logistic_chosen r scores es)"
proof -
  have rk: "\<forall>x\<in>set (ranked (lg_threshold r) (role_best scores es)). snd x \<in> set es"
    using ranked_mem by fastforce
  from pick_top_props [OF logistic_tops_known rk assms]
  show "set (logistic_chosen r scores es) \<subseteq> names_of es" "logistic_chosen r scores es \<noteq> []"
    unfolding logistic_chosen_def by blast+
  show "distinct (logistic_chosen r scores es)" if "distinct (map ex_name es)"
    unfolding logistic_chosen_def by (intro distinct_pick_top logistic_tops_distinct that)
qed

lemma with_forced_props:
  "set sel \<subseteq> names_of es \<Longrightarrow> set (with_forced r es sel) \<subseteq> names_of es"
  "sel \<noteq> [] \<Longrightarrow> with_forced r es sel \<noteq> []"
  "distinct sel \<Longrightarrow> distinct (with_forced r es sel)"
  by (simp_all add: with_forced_def append_forced_props)

lemma logistic_select_props:
  assumes "es \<noteq> []"
  shows "set (logistic_select r scores es) \<subseteq> names_of es" and "logistic_select r scores es \<noteq> []"
    and "distinct (map ex_name es) \<Longrightarrow> distinct (logistic_select r scores es)"
proof -
  note c = logistic_chosen_props [OF assms, of r scores]
  let ?m = "move_last (last_role_names (lg_force_last r) es) (with_forced r es (logistic_chosen r scores es))"
  show "set (logistic_select r scores es) \<subseteq> names_of es"
    unfolding logistic_select_eq [OF assms]
    using cap_props(1) [of "lg_max_activation r" ?m] with_forced_props(1) [OF c(1)] by auto
  show "logistic_select r scores es \<noteq> []"
    unfolding logistic_select_eq [OF assms]
    by (rule cap_props(2)) (simp add: with_forced_props(2) c(2))
  show "distinct (logistic_select r scores es)" if "distinct (map ex_name es)"
    unfolding logistic_select_eq [OF assms]
    by (intro cap_props(3) distinct_move_last with_forced_props(3) c(3) that)
qed

interpretation logistic: router "\<lambda>p es. ret (logistic_route u r p es)" for u r
proof
  fix p and es :: "'a expert list" and ns and w w' :: 'w
  assume "ret (logistic_route u r p es) w = (Inr ns, w')"
  then have ns: "ns = logistic_select r (logistic_scores u r p) es" by (simp add: logistic_route_def)
  show "set ns \<subseteq> ex_name ` set es"
    using logistic_select_props(1) [of es r] unfolding ns names_of_def
    by (cases "es = []") (simp_all add: logistic_select_def)
  show "ns \<noteq> []" if "es \<noteq> []" unfolding ns by (rule logistic_select_props(2) [OF that])
  show "distinct ns" if "distinct (map ex_name es)"
    using logistic_select_props(3) [of es r] that unfolding ns
    by (cases "es = []") (simp_all add: logistic_select_def)
qed

lemma cosine_scored_Inr:
  "cosine_scored emb q es ps = (Inr sc, ps') \<Longrightarrow> map snd sc = es"
  by (induction es arbitrary: ps sc) auto

lemma cosine_select_props:
  assumes "es \<noteq> []" and "map snd sc = es"
  shows "set (cosine_select r sc es) \<subseteq> names_of es" and "cosine_select r sc es \<noteq> []"
    and "distinct (map ex_name es) \<Longrightarrow> distinct (cosine_select r sc es)"
    and "0 < co_max_activation r \<Longrightarrow> int (length (cosine_select r sc es)) \<le> co_max_activation r"
proof -
  define rk where "rk = sort_desc fst sc"
  define tops where "tops = map (\<lambda>x. ex_name (snd x))
      (filter (\<lambda>x. co_threshold r \<le> fst x) (py_take (co_max_activation r) rk))"
  define sel where "sel = pick_top (co_min_activation r) (co_force_last r) es tops rk"
  define names where "names = last_role_names (co_force_last r) es"
  define f where "f = (if \<exists>n\<in>set sel. n \<in> set names then sel else append_forced (co_force_last r) es sel)"
  have eq: "cosine_select r sc es = cap (co_max_activation r) (move_last names f)"
    by (simp add: cosine_select_def Let_def rk_def tops_def sel_def names_def f_def)
  have in_es: "\<forall>x\<in>set rk. snd x \<in> set es" by (force simp: rk_def assms(2) [symmetric])
  have "set (py_take (co_max_activation r) rk) \<subseteq> set rk" by (rule set_py_take_subset)
  with in_es have t: "set tops \<subseteq> names_of es" by (auto simp: tops_def names_of_def)
  note p = pick_top_props [OF t in_es assms(1), of "co_min_activation r" "co_force_last r", folded sel_def]
  have fs: "set f \<subseteq> names_of es" "f \<noteq> []"
    using p append_forced_props(1) [where sel = sel and es = es] append_forced_props(2) [where sel = sel and es = es]
    by (simp_all add: f_def)
  show "set (cosine_select r sc es) \<subseteq> names_of es"
    unfolding eq using cap_props(1) [of "co_max_activation r" "move_last names f"] fs(1) by simp
  show "cosine_select r sc es \<noteq> []" unfolding eq by (intro cap_props(2)) (simp add: fs(2))
  show "distinct (cosine_select r sc es)" if d: "distinct (map ex_name es)"
  proof -
    have "map (\<lambda>x. ex_name (snd x)) sc = map ex_name (map snd sc)" by simp
    then have "distinct (map (\<lambda>x. ex_name (snd x)) sc)" using d unfolding assms(2) by simp
    then have "distinct (map (\<lambda>x. ex_name (snd x)) rk)" unfolding rk_def by (rule distinct_map_sort_desc)
    then have "distinct (map (\<lambda>x. ex_name (snd x)) (py_take (co_max_activation r) rk))"
      unfolding py_take_map [symmetric] by (rule distinct_py_take)
    then have "distinct tops" unfolding tops_def by (rule distinct_map_filter)
    then have "distinct sel" unfolding sel_def by (rule distinct_pick_top)
    then have "distinct f" using append_forced_props(3) [where sel = sel and es = es] by (simp add: f_def)
    then show ?thesis unfolding eq by (intro cap_props(3) distinct_move_last)
  qed
  show "int (length (cosine_select r sc es)) \<le> co_max_activation r" if "0 < co_max_activation r"
    unfolding eq by (rule cap_props(4) [OF that])
qed

interpretation cosine: router "cosine_route emb r" for emb r
proof
  fix p and es :: "'a expert list" and ns w w'
  assume r: "cosine_route emb r p es w = (Inr ns, w')"
  have empty: "ns = []" if "es = []" using r that by (simp add: cosine_route_def)
  have full: "set ns \<subseteq> names_of es \<and> ns \<noteq> [] \<and> (distinct (map ex_name es) \<longrightarrow> distinct ns)"
    if ne: "es \<noteq> []"
  proof -
    obtain q sc v v' where sc: "cosine_scored emb q es v = (Inr sc, v')" and ns: "ns = cosine_select r sc es"
      using r ne by (auto simp: cosine_route_def)
    note m = cosine_scored_Inr [OF sc]
    show ?thesis
      unfolding ns using cosine_select_props(1-3) [OF ne m] by blast
  qed
  show "set ns \<subseteq> ex_name ` set es"
    using full empty by (cases "es = []") (simp_all add: names_of_def)
  show "ns \<noteq> []" if "es \<noteq> []" using full [OF that] by simp
  show "distinct ns" if d: "distinct (map ex_name es)"
    using full empty d by (cases "es = []") simp_all
qed

text \<open>The order in which a Python set is listed: some permutation of its elements.\<close>

definition set_order :: "(pystr list \<Rightarrow> pystr list) \<Rightarrow> bool" where
  "set_order iter \<longleftrightarrow> (\<forall>xs. mset (iter xs) = mset xs)"

lemma set_orderD: "set_order iter \<Longrightarrow> set (iter xs) = set xs" "set_order iter \<Longrightarrow> distinct (iter xs) = distinct xs"
  unfolding set_order_def by (metis set_mset_mset, metis distinct_count_atmost_1 set_mset_mset)

lemma hybrid_select_props:
  assumes "set_order iter" and "set l \<subseteq> names_of es" and "set c \<subseteq> names_of es" and "l \<noteq> []"
  shows "set (hybrid_select iter r l c es) \<subseteq> names_of es" and "hybrid_select iter r l c es \<noteq> []"
    and "distinct l \<Longrightarrow> distinct (hybrid_select iter r l c es)"
    and "0 < hy_max_activation r \<Longrightarrow> int (length (hybrid_select iter r l c es)) \<le> hy_max_activation r"
    and "last_role_names (hy_force_last r) es \<noteq> [] \<Longrightarrow>
         last (hybrid_select iter r l c es) \<in> set (last_role_names (hy_force_last r) es)"
proof -
  define un where "un = iter (remdups (l @ c))"
  define ord where "ord = filter (\<lambda>n. n \<in> set un) l @ filter (\<lambda>n. n \<notin> set l) un"
  define names where "names = last_role_names (hy_force_last r) es"
  define lst where "lst = (case find (\<lambda>n. n \<in> set names) ord of Some n \<Rightarrow> n | None \<Rightarrow> hd names)"
  define others where "others = filter (\<lambda>n. n \<noteq> lst) ord"
  let ?mx = "hy_max_activation r"
  define kept where "kept = (if 0 < ?mx then py_take (max 0 (?mx - 1)) others else others)"
  have u: "set un = set l \<union> set c" "distinct un"
    unfolding un_def using set_orderD [OF assms(1)] by simp_all
  then have une: "un \<noteq> []" using assms(4) by (metis set_empty sup_eq_bot_iff)
  have eq: "hybrid_select iter r l c es = (if names \<noteq> [] then kept @ [lst] else cap ?mx ord)"
    unfolding hybrid_select_def Let_def un_def [symmetric] ord_def [symmetric] names_def [symmetric]
      lst_def [symmetric] others_def [symmetric] kept_def [symmetric] using une by simp
  have o: "set ord \<subseteq> names_of es" using u assms(2,3) by (auto simp: ord_def)
  have one: "ord \<noteq> []" using u assms(4) by (cases l) (auto simp: ord_def)
  have lst: "lst \<in> set names" if "names \<noteq> []"
    using that unfolding lst_def by (auto split: option.split simp: find_Some_iff)
  have nm: "set names \<subseteq> names_of es" by (auto simp: names_def last_role_names_def names_of_def)
  have tk: "set kept \<subseteq> set others" by (auto simp: kept_def dest: subsetD [OF set_py_take_subset])
  have oth: "set others \<subseteq> set ord" "lst \<notin> set others" by (auto simp: others_def)
  show "set (hybrid_select iter r l c es) \<subseteq> names_of es"
  proof (cases "names = []")
    case True
    then show ?thesis unfolding eq using cap_props(1) [of ?mx ord] o by simp
  next
    case False
    have "set (kept @ [lst]) \<subseteq> names_of es" using tk oth o lst [OF False] nm by auto
    then show ?thesis unfolding eq using False by simp
  qed
  show "hybrid_select iter r l c es \<noteq> []"
    unfolding eq using cap_props(2) [OF one] by simp
  show "distinct (hybrid_select iter r l c es)" if "distinct l"
  proof -
    have od: "distinct ord" using that u by (auto simp: ord_def)
    then have "distinct kept" by (simp add: kept_def others_def)
    moreover have "lst \<notin> set kept" using tk oth by blast
    ultimately show ?thesis unfolding eq using cap_props(3) [OF od] by simp
  qed
  show "int (length (hybrid_select iter r l c es)) \<le> ?mx" if "0 < ?mx"
  proof -
    have "int (length kept) \<le> ?mx - 1"
      using length_py_take_pos [of "max 0 (?mx - 1)" others] that by (simp add: kept_def)
    then show ?thesis unfolding eq using that cap_props(4) [OF that, of ord] by simp
  qed
  show "last (hybrid_select iter r l c es) \<in> set (last_role_names (hy_force_last r) es)"
    if "last_role_names (hy_force_last r) es \<noteq> []"
    using that lst unfolding eq names_def [symmetric] by simp
qed

lemma router_hybrid:
  assumes "set_order iter"
  shows "router (hybrid_route u emb iter r :: pystr \<Rightarrow> 'e expert list \<Rightarrow> (prototypes, py_exc, pystr list) act)"
proof
  fix p and es :: "'e expert list" and ns w w'
  assume run: "hybrid_route u emb iter r p es w = (Inr ns, w')"
  let ?l = "logistic_route u (hy_logistic r) p es"
  obtain c v where c: "cosine_route emb (hy_cosine r) p es w = (Inr c, v)"
    and ns: "ns = hybrid_select iter r ?l c es"
    using run by (auto simp: hybrid_route_def)
  have l: "set ?l \<subseteq> names_of es" "es \<noteq> [] \<Longrightarrow> ?l \<noteq> []" "distinct (map ex_name es) \<Longrightarrow> distinct ?l"
    using logistic.route_known [of u "hy_logistic r" p es "()" ?l "()"]
      logistic.route_nonempty [of u "hy_logistic r" p es "()" ?l "()"]
      logistic.route_distinct [of u "hy_logistic r" p es "()" ?l "()"]
    by (simp_all add: names_of_def)
  have cs: "set c \<subseteq> names_of es" using cosine.route_known [OF c] by (simp add: names_of_def)
  have empty: "ns = []" if "es = []"
  proof -
    have "?l = []" "c = []" using l(1) cs that by (auto simp: names_of_def)
    moreover have "iter [] = []"
      using assms unfolding set_order_def by (metis mset_zero_iff mset.simps(1))
    ultimately show ?thesis unfolding ns hybrid_select_def by (simp add: Let_def)
  qed
  show "set ns \<subseteq> ex_name ` set es"
  proof (cases "es = []")
    case False
    from hybrid_select_props(1) [OF assms l(1) cs l(2) [OF False], of r]
    show ?thesis by (simp add: ns names_of_def)
  qed (simp add: empty)
  show "ns \<noteq> []" if "es \<noteq> []"
    unfolding ns by (rule hybrid_select_props(2) [OF assms l(1) cs l(2) [OF that]])
  show "distinct ns" if d: "distinct (map ex_name es)"
  proof (cases "es = []")
    case False
    from hybrid_select_props(3) [OF assms l(1) cs l(2) [OF False] l(3) [OF d], of r]
    show ?thesis by (simp add: ns)
  qed (simp add: empty)
qed

section \<open>What the logistic router selects\<close>

lemma first_role_of_unique:
  assumes "distinct (map ex_name es)" and "e \<in> set es"
  shows "first_role_of (ex_name e) es = role_value (ex_role e)"
proof -
  have "find (\<lambda>x. ex_name x = ex_name e) es = Some e"
    using assms
  proof (induction es)
    case Nil
    then show ?case by simp
  next
    case (Cons x es)
    then show ?case by (auto simp: image_iff)
  qed
  then show ?thesis by (simp add: first_role_of_def)
qed

lemma forced_in_sel:
  assumes "distinct (map ex_name es)" and "set sel \<subseteq> names_of es"
  shows "role_value force \<in> (\<lambda>n. first_role_of n es) ` set sel \<longleftrightarrow>
         (\<exists>n\<in>set sel. n \<in> set (last_role_names force es))"
proof -
  have "role_value force = first_role_of n es \<longleftrightarrow> n \<in> set (last_role_names force es)" if n: "n \<in> set sel" for n
  proof -
    obtain e where e: "e \<in> set es" "n = ex_name e" using n assms(2) by (auto simp: names_of_def)
    have "n \<in> set (last_role_names force es) \<longleftrightarrow> ex_role e = force"
    proof
      assume "n \<in> set (last_role_names force es)"
      then obtain x where "x \<in> set es" "ex_role x = force" "ex_name x = n"
        by (auto simp: last_role_names_def)
      with e assms(1) show "ex_role e = force" by (metis distinct_map inj_onD)
    next
      assume "ex_role e = force"
      with e show "n \<in> set (last_role_names force es)" by (auto simp: last_role_names_def)
    qed
    with e first_role_of_unique [OF assms(1) e(1)] show ?thesis by auto
  qed
  then show ?thesis by blast
qed

lemma last_role_names_iff:
  "n \<in> set (last_role_names force es) \<longleftrightarrow> (\<exists>e\<in>set es. ex_role e = force \<and> ex_name e = n)"
  by (auto simp: last_role_names_def)

lemma with_forced_last:
  assumes "distinct (map ex_name es)" and "set sel \<subseteq> names_of es"
    and "last_role_names (lg_force_last r) es \<noteq> []"
  shows "\<exists>n\<in>set (with_forced r es sel). n \<in> set (last_role_names (lg_force_last r) es)"
proof (cases "\<exists>n\<in>set sel. n \<in> set (last_role_names (lg_force_last r) es)")
  case True
  then show ?thesis using forced_in_sel [OF assms(1,2)] by (simp add: with_forced_def)
next
  case False
  obtain e where "e \<in> set es" "ex_role e = lg_force_last r" "ex_name e \<notin> set sel"
  proof -
    have "hd (last_role_names (lg_force_last r) es) \<in> set (last_role_names (lg_force_last r) es)"
      using assms(3) by simp
    with False that show thesis by (metis last_role_names_iff)
  qed
  then obtain x where x: "find (\<lambda>e. ex_role e = lg_force_last r \<and> ex_name e \<notin> set sel) es = Some x"
    by (metis (mono_tags, lifting) find_None_iff not_None_eq)
  then have "x \<in> set es" "ex_role x = lg_force_last r" by (auto simp: find_Some_iff)
  with False x show ?thesis
    using forced_in_sel [OF assms(1,2), of "lg_force_last r"]
    by (auto simp: with_forced_def append_forced_def last_role_names_iff)
qed

lemma length_with_forced: "length (with_forced r es sel) \<le> Suc (length sel)"
  by (auto simp: with_forced_def append_forced_def split: option.split)

text \<open>The roles of what \<open>pick_top\<close> chose are distinct, so there are at most as many names as roles.\<close>

lemma logistic_tops_length: "length (logistic_tops r scores es) \<le> card (ex_role ` set es)"
proof -
  let ?rk = "ranked (lg_threshold r) (role_best scores es)"
  have "length (logistic_tops r scores es) \<le> length ?rk"
    by (simp add: logistic_tops_def length_py_take_le)
  also have "\<dots> = card (set (map (\<lambda>x. ex_role (snd x)) ?rk))"
    using distinct_ranked_roles by (metis distinct_card length_map)
  also have "\<dots> \<le> card (ex_role ` set es)"
    using ranked_mem by (intro card_mono) fastforce+
  finally show ?thesis .
qed

lemma logistic_chosen_cases:
  assumes "es \<noteq> []"
  shows "logistic_chosen r scores es = logistic_tops r scores es \<and> logistic_tops r scores es \<noteq> [] \<or>
         length (logistic_chosen r scores es) = 1"
  using assms by (auto simp: logistic_chosen_def pick_top_def Let_def split: option.split)

lemma logistic_room:
  assumes "es \<noteq> []" and "distinct (map ex_name es)" and "last_role_names (lg_force_last r) es \<noteq> []"
  shows "length (with_forced r es (logistic_chosen r scores es)) \<le> card (ex_role ` set es)"
proof -
  let ?sel = "logistic_chosen r scores es" and ?f = "lg_force_last r"
  let ?rk = "ranked (lg_threshold r) (role_best scores es)"
  have known: "set ?sel \<subseteq> names_of es" by (rule logistic_chosen_props(1) [OF assms(1)])
  obtain e0 where e0: "e0 \<in> set es" "ex_role e0 = ?f"
    using assms(3) by (auto simp: last_role_names_def filter_empty_conv)
  have one: "1 \<le> card (ex_role ` set es)" using e0 by (simp add: Suc_le_eq card_gt_0_iff) auto
  show ?thesis
  proof (cases "\<exists>n\<in>set ?sel. n \<in> set (last_role_names ?f es)")
    case True
    then have "with_forced r es ?sel = ?sel"
      using forced_in_sel [OF assms(2) known] by (simp add: with_forced_def)
    with logistic_chosen_cases [OF assms(1), of r scores] logistic_tops_length [of r scores es] one
    show ?thesis by auto
  next
    case False
    from logistic_chosen_cases [OF assms(1), of r scores] show ?thesis
    proof
      assume t: "?sel = logistic_tops r scores es \<and> logistic_tops r scores es \<noteq> []"
      let ?tk = "py_take (lg_max_activation r) ?rk"
      let ?roles = "map (\<lambda>x. ex_role (snd x)) ?tk"
      have sub: "set ?tk \<subseteq> set ?rk" by (rule set_py_take_subset)
      have d: "distinct ?roles"
        unfolding py_take_map [symmetric] by (intro distinct_py_take distinct_ranked_roles)
      have "set ?roles \<subseteq> ex_role ` set es - {?f}"
      proof
        fix x
        assume "x \<in> set ?roles"
        then obtain s e where e: "(s, e) \<in> set ?tk" "x = ex_role e" by auto
        then have es: "e \<in> set es" using sub ranked_mem by blast
        have "ex_name e \<in> set ?sel" using e(1) t by (force simp: logistic_tops_def)
        with False es have "ex_role e \<noteq> ?f" by (auto simp: last_role_names_iff)
        with es e(2) show "x \<in> ex_role ` set es - {?f}" by simp
      qed
      then have "card (set ?roles) \<le> card (ex_role ` set es - {?f})" by (intro card_mono) auto
      also have "\<dots> = card (ex_role ` set es) - 1" using e0 by (intro card_Diff_singleton) force
      finally have "card (set ?roles) \<le> card (ex_role ` set es) - 1" .
      moreover have "length ?sel = length ?roles" using t by (simp add: logistic_tops_def)
      moreover have "length ?roles = card (set ?roles)" by (rule distinct_card [OF d, symmetric])
      ultimately have "length ?sel \<le> card (ex_role ` set es) - 1" by linarith
      with length_with_forced [of r es ?sel] one show ?thesis by linarith
    next
      assume l1: "length ?sel = 1"
      then obtain n where n: "?sel = [n]" by (metis One_nat_def length_0_conv length_Suc_conv)
      then obtain e where e: "e \<in> set es" "ex_name e = n" using known by (auto simp: names_of_def)
      with False n have "ex_role e \<noteq> ?f" by (auto simp: last_role_names_iff)
      have "{ex_role e, ?f} \<subseteq> ex_role ` set es" using e(1) e0 by (metis empty_subsetI image_eqI insert_subset)
      then have "card {ex_role e, ?f} \<le> card (ex_role ` set es)" by (intro card_mono) auto
      with \<open>ex_role e \<noteq> ?f\<close> have "2 \<le> card (ex_role ` set es)" by simp
      with length_with_forced [of r es ?sel] l1 show ?thesis by linarith
    qed
  qed
qed

section \<open>Properties\<close>

text \<open>C3: Every router answers with experts it was given: for a pool of uniquely named experts the
  names are known, not empty and pairwise distinct, there are no more of them than experts, and at
  most \<open>max_activation\<close> when that is positive. This holds for the logistic router, for a cosine run
  that does not fail and for the hybrid of the two, whatever order Python lists the set in.\<close>

theorem routers_select_known_experts:
  assumes "distinct (map ex_name es)" and "es \<noteq> []" and "set_order iter"
    and "cosine_route emb co p es ps = (Inr c, ps')"
    and "hybrid_route u emb iter hy p es ps = (Inr h, ps'')"
    and "(ns, mx) \<in> {(logistic_route u lg p es, lg_max_activation lg), (c, co_max_activation co),
                     (h, hy_max_activation hy)}"
  shows "set ns \<subseteq> ex_name ` set es \<and> ns \<noteq> [] \<and> distinct ns \<and> length ns \<le> length es \<and>
         (0 < mx \<longrightarrow> int (length ns) \<le> mx)"
proof -
  have lg: "set (logistic_route u lg p es) \<subseteq> ex_name ` set es" "logistic_route u lg p es \<noteq> []"
    "distinct (logistic_route u lg p es)" "length (logistic_route u lg p es) \<le> length es" for lg
    using logistic.route_known [of u lg p es "()" _ "()"] logistic.route_nonempty [of u lg p es "()" _ "()"]
      logistic.route_distinct [of u lg p es "()" _ "()"] logistic.route_length [of u lg p es "()" _ "()"]
      assms(1,2) by simp_all
  have lm: "0 < lg_max_activation lg \<longrightarrow> int (length (logistic_route u lg p es)) \<le> lg_max_activation lg"
    unfolding logistic_route_def logistic_select_eq [OF assms(2)] by (simp add: cap_props(4))
  have cm: "0 < co_max_activation r \<longrightarrow> int (length d) \<le> co_max_activation r"
    if run: "cosine_route emb r p es ps = (Inr d, v)" for r d v
  proof -
    obtain q sc w w' where sc: "cosine_scored emb q es w = (Inr sc, w')" and d: "d = cosine_select r sc es"
      using run assms(2) by (auto simp: cosine_route_def)
    show ?thesis unfolding d using cosine_select_props(4) [OF assms(2) cosine_scored_Inr [OF sc]] by blast
  qed
  obtain c1 v where c1: "cosine_route emb (hy_cosine hy) p es ps = (Inr c1, v)"
    and h: "h = hybrid_select iter hy (logistic_route u (hy_logistic hy) p es) c1 es"
    using assms(5) by (auto simp: hybrid_route_def)
  have hm: "0 < hy_max_activation hy \<longrightarrow> int (length h) \<le> hy_max_activation hy"
    using hybrid_select_props(4) [OF assms(3) _ _ lg(2) [of "hy_logistic hy"], of es c1 hy]
      lg(1) [of "hy_logistic hy"] cosine.route_known [OF c1]
    unfolding h names_of_def by blast
  note rh = router_hybrid [OF assms(3), of u emb hy]
  show ?thesis
    using assms(6)
  proof (elim insertE emptyE)
    assume "(ns, mx) = (logistic_route u lg p es, lg_max_activation lg)"
    then have "ns = logistic_route u lg p es" "mx = lg_max_activation lg" by simp_all
    with lg [of lg] lm show ?thesis by simp
  next
    assume "(ns, mx) = (c, co_max_activation co)"
    then have "ns = c" "mx = co_max_activation co" by simp_all
    with cosine.route_known [OF assms(4)] cosine.route_nonempty [OF assms(4,2)]
      cosine.route_distinct [OF assms(4,1)] cosine.route_length [OF assms(4,1)] cm [OF assms(4)]
    show ?thesis by simp
  next
    assume "(ns, mx) = (h, hy_max_activation hy)"
    then have "ns = h" "mx = hy_max_activation hy" by simp_all
    with router.route_known [OF rh assms(5)] router.route_nonempty [OF rh assms(5,2)]
      router.route_distinct [OF rh assms(5,1)] router.route_length [OF rh assms(5,1)] hm
    show ?thesis by simp
  qed
qed

text \<open>The last expert is of the \<open>force_last\<close> role whenever the pool has one, for the hybrid router
  always, and for the logistic router when \<open>max_activation\<close> is not positive or at least the number
  of roles in the pool.\<close>

theorem force_last_role_is_last:
  assumes "distinct (map ex_name es)" and "es \<noteq> []" and "set_order iter"
    and "\<exists>e\<in>set es. ex_role e = force"
    and "lg_force_last lg = force" and "hy_force_last hy = force"
    and "lg_max_activation lg \<le> 0 \<or> int (card (ex_role ` set es)) \<le> lg_max_activation lg"
    and "hybrid_route u emb iter hy p es ps = (Inr h, ps')"
  shows "last h \<in> set (last_role_names force es) \<and>
         last (logistic_route u lg p es) \<in> set (last_role_names force es)"
proof
  have ne: "last_role_names force es \<noteq> []"
    using assms(4) by (auto simp: last_role_names_def filter_empty_conv)
  obtain c1 v where c1: "cosine_route emb (hy_cosine hy) p es ps = (Inr c1, v)"
    and h: "h = hybrid_select iter hy (logistic_route u (hy_logistic hy) p es) c1 es"
    using assms(8) by (auto simp: hybrid_route_def)
  have l: "set (logistic_route u (hy_logistic hy) p es) \<subseteq> names_of es" "logistic_route u (hy_logistic hy) p es \<noteq> []"
    unfolding logistic_route_def by (rule logistic_select_props [OF assms(2)])+
  have cs: "set c1 \<subseteq> names_of es" using cosine.route_known [OF c1] by (simp add: names_of_def)
  show "last h \<in> set (last_role_names force es)"
    using hybrid_select_props(5) [OF assms(3) l(1) cs l(2), of hy] ne unfolding h assms(6) by blast
  let ?scores = "logistic_scores u lg p"
  let ?w = "with_forced lg es (logistic_chosen lg ?scores es)"
  have known: "set (logistic_chosen lg ?scores es) \<subseteq> names_of es" by (rule logistic_chosen_props(1) [OF assms(2)])
  have in_w: "\<exists>n\<in>set ?w. n \<in> set (last_role_names (lg_force_last lg) es)"
    by (rule with_forced_last [OF assms(1) known]) (simp add: assms(5) ne)
  have "distinct ?w" by (intro with_forced_props(3) logistic_chosen_props(3) assms)
  then have len: "length (move_last (last_role_names (lg_force_last lg) es) ?w) = length ?w"
    by (rule length_move_last)
  have room: "length ?w \<le> card (ex_role ` set es)"
    by (rule logistic_room [OF assms(2,1)]) (simp add: assms(5) ne)
  have "cap (lg_max_activation lg) (move_last (last_role_names (lg_force_last lg) es) ?w) =
      move_last (last_role_names (lg_force_last lg) es) ?w"
    using assms(7)
  proof
    assume "lg_max_activation lg \<le> 0"
    then show ?thesis by (simp add: cap_def)
  next
    assume "int (card (ex_role ` set es)) \<le> lg_max_activation lg"
    with room len show ?thesis by (intro cap_props(5)) simp
  qed
  then show "last (logistic_route u lg p es) \<in> set (last_role_names force es)"
    unfolding logistic_route_def logistic_select_eq [OF assms(2)]
    using last_move_last [OF in_w] unfolding assms(5) by simp
qed

text \<open>Otherwise the logistic router can drop it: when the first \<open>max_activation\<close> experts of the
  ranking are all of other roles, the synthesizer that is appended to close the pipeline is cut
  off again by the final cap, and the selection is just that ranking, although the pool has a
  synthesizer.\<close>

theorem logistic_cap_drops_forced:
  assumes "distinct (map ex_name es)" and "es \<noteq> []"
    and "0 < lg_max_activation r" and "lg_min_activation r \<le> lg_max_activation r"
    and "rk = ranked (lg_threshold r) (role_best scores es)"
    and "lg_max_activation r \<le> int (length rk)"
    and "\<forall>x\<in>set (take (nat (lg_max_activation r)) rk). ex_role (snd x) \<noteq> lg_force_last r"
    and "\<exists>e\<in>set es. ex_role e = lg_force_last r"
  shows "logistic_select r scores es =
           map (\<lambda>x. ex_name (snd x)) (take (nat (lg_max_activation r)) rk) \<and>
         (\<forall>n\<in>set (logistic_select r scores es). n \<notin> set (last_role_names (lg_force_last r) es))"
proof -
  let ?mx = "nat (lg_max_activation r)" and ?f = "lg_force_last r"
  let ?t = "map (\<lambda>x. ex_name (snd x)) (take ?mx rk)"
  have tops: "logistic_tops r scores es = ?t"
    using assms(3) by (simp add: logistic_tops_def py_take_def assms(5))
  have len: "length ?t = ?mx" using assms(6) by simp
  then have tne: "?t \<noteq> []" using assms(3) by auto
  have ch: "logistic_chosen r scores es = ?t"
    using tne len assms(3,4) unfolding logistic_chosen_def tops
    by (auto simp: pick_top_def Let_def assms(5) [symmetric])
  have known: "set ?t \<subseteq> names_of es" using logistic_tops_known [of r scores es] tops by simp
  have no: "\<forall>n\<in>set ?t. n \<notin> set (last_role_names ?f es)"
  proof
    fix n
    assume "n \<in> set ?t"
    then obtain s e where e: "(s, e) \<in> set (take ?mx rk)" "n = ex_name e" by auto
    then have "e \<in> set es" using ranked_mem assms(5) by (metis in_set_takeD)
    moreover have "ex_role e \<noteq> ?f" using assms(7) e(1) by force
    ultimately show "n \<notin> set (last_role_names ?f es)"
      using assms(1) e(2) by (auto simp: last_role_names_iff distinct_map dest: inj_onD)
  qed
  have ne: "last_role_names ?f es \<noteq> []"
    using assms(8) by (auto simp: last_role_names_def filter_empty_conv)
  have nof: "role_value ?f \<notin> (\<lambda>n. first_role_of n es) ` set ?t"
    using forced_in_sel [OF assms(1) known] no by blast
  obtain n where n: "n \<in> set (with_forced r es ?t)" "n \<in> set (last_role_names ?f es)"
    using with_forced_last [OF assms(1) known ne] by blast
  obtain x where w: "with_forced r es ?t = ?t @ [x]"
    using n no nof by (auto simp: with_forced_def append_forced_def split: option.splits)
  have x: "x \<in> set (last_role_names ?f es)" using n no w by auto
  have fl: "filter (\<lambda>n. n \<in> set (last_role_names ?f es)) (?t @ [x]) = [x]"
    using x no by (auto simp: filter_empty_conv)
  have "filter (\<lambda>n. n \<noteq> x) ?t = ?t" using x no by (auto intro!: filter_True)
  then have mv: "move_last (last_role_names ?f es) (?t @ [x]) = ?t @ [x]"
    unfolding move_last_def fl by simp
  have "logistic_select r scores es = ?t"
    unfolding logistic_select_eq [OF assms(2)] ch w mv using assms(3) len
    by (simp add: cap_def py_take_def)
  with no show ?thesis by simp
qed

text \<open>Asking for more experts can give fewer: when experts pass the threshold but not
  \<open>min_activation\<close> of them, the logistic router does not fill the selection up; it keeps the single
  best one, first, and at most the synthesizer is added, so the answer has one or two names.\<close>

theorem min_activation_collapses:
  assumes "distinct (map ex_name es)" and "es \<noteq> []"
    and "rk = ranked (lg_threshold r) (role_best scores es)" and "rk \<noteq> []"
    and "int (length rk) < lg_min_activation r"
  shows "hd (logistic_select r scores es) = ex_name (snd (hd rk)) \<and>
         length (logistic_select r scores es) \<in> {1, 2}"
proof -
  let ?a = "ex_name (snd (hd rk))" and ?f = "lg_force_last r"
  have "length (logistic_tops r scores es) \<le> length rk"
    using length_py_take_le [of "lg_max_activation r" rk] by (simp add: logistic_tops_def assms(3))
  then have ch: "logistic_chosen r scores es = [?a]"
    using assms(4,5) unfolding logistic_chosen_def by (simp add: pick_top_def Let_def assms(3) [symmetric])
  have known: "set [?a] \<subseteq> names_of es"
    using ranked_mem [of _ _ "lg_threshold r" scores es] assms(3,4)
    by (cases rk) (fastforce simp: names_of_def)+
  have "\<exists>xs. move_last (last_role_names ?f es) (with_forced r es [?a]) = ?a # xs \<and> length xs \<le> 1"
  proof (cases "?a \<in> set (last_role_names ?f es)")
    case True
    then have "with_forced r es [?a] = [?a]"
      using forced_in_sel [OF assms(1) known] by (simp add: with_forced_def)
    with True show ?thesis by (simp add: move_last_def)
  next
    case False
    show ?thesis
    proof (cases "with_forced r es [?a] = [?a]")
      case True
      then show ?thesis using False by (simp add: move_last_def)
    next
      case neq: False
      then obtain x where x: "with_forced r es [?a] = [?a, x]" "x \<noteq> ?a"
        by (auto simp: with_forced_def append_forced_def find_Some_iff split: if_splits option.splits)
      then show ?thesis using False by (auto simp: move_last_def)
    qed
  qed
  then obtain xs where xs: "move_last (last_role_names ?f es) (with_forced r es [?a]) = ?a # xs" "length xs \<le> 1"
    by blast
  show ?thesis
    unfolding logistic_select_eq [OF assms(2)] ch xs(1) using xs(2)
    by (cases xs) (auto simp: cap_def py_take_def take_Cons' )
qed

section \<open>Concrete pools\<close>

definition role_expert :: "pystr \<Rightarrow> expert_role \<Rightarrow> unit expert" where
  "role_expert nm role =
     \<lparr>ex_name = nm, ex_role = role,
      ex_backend =
        \<lparr>bk_params_m = IsInt 0, bk_resolved_params_m = NoAttr,
         bk_capabilities = \<lparr>supports_kv_cache = False, supports_streaming = False, supports_batching = False,
                            deterministic = True\<rparr>,
         bk_model_id = nm, bk_generate = (\<lambda>p _. ret p), bk_encode = (\<lambda>_. raise NotImplementedError),
         bk_decode = (\<lambda>_ _. raise NotImplementedError), bk_transfer_cache = (\<lambda>_. raise NotImplementedError),
         bk_count_tokens = None\<rparr>,
      ex_description = [], ex_tags = []\<rparr>"

lemma role_expert_simps [simp]:
  "ex_name (role_expert n r) = n" "ex_role (role_expert n r) = r" "ex_params_m (role_expert n r) = 0"
  "ex_description (role_expert n r) = []"
  by (simp_all add: role_expert_def ex_params_m_def)

definition role_pool :: "unit expert list" where
  "role_pool = [role_expert (lit ''a'') ANALYST, role_expert (lit ''c'') CODER, role_expert (lit ''s'') SYNTHESIZER]"

definition role_scores :: "(pystr \<times> real) list" where
  "role_scores = [(role_value ANALYST, 3 / 4), (role_value CODER, 1 / 2), (role_value SYNTHESIZER, 1 / 4)]"

definition capped_router :: logistic_router where
  "capped_router = mk_logistic 1 2 SYNTHESIZER (15 / 100) []"

lemma role_pool_ranked:
  "ranked (lg_threshold capped_router) (role_best role_scores role_pool) =
   [(3 / 4, role_expert (lit ''a'') ANALYST), (1 / 2, role_expert (lit ''c'') CODER),
    (1 / 4, role_expert (lit ''s'') SYNTHESIZER)]"
  by (simp add: role_pool_def role_best_def ranked_def sort_desc_def Let_def adjusted_score_def dict_get_def
      role_scores_def capped_router_def mk_logistic_def)

lemma role_pool_simps:
  "distinct (map ex_name role_pool)" "role_pool \<noteq> []" "\<exists>e\<in>set role_pool. ex_role e = SYNTHESIZER"
  "lg_max_activation capped_router = 2" "lg_min_activation capped_router = 1"
  "lg_force_last capped_router = SYNTHESIZER"
  by (simp_all add: role_pool_def capped_router_def mk_logistic_def)

lemma logistic_cap_drops_forced_witness:
  "logistic_select capped_router role_scores role_pool = [lit ''a'', lit ''c'']"
proof -
  have "logistic_select capped_router role_scores role_pool =
      map (\<lambda>x. ex_name (snd x)) (take (nat (lg_max_activation capped_router))
        (ranked (lg_threshold capped_router) (role_best role_scores role_pool)))"
    by (rule logistic_cap_drops_forced [THEN conjunct1, OF role_pool_simps(1,2) _ _ refl])
      (simp_all add: role_pool_ranked role_pool_simps)
  then show ?thesis by (simp add: role_pool_ranked role_pool_simps)
qed

definition solo :: "unit expert list" where
  "solo = [role_expert (lit ''s'') SYNTHESIZER]"

lemma solo_simps: "distinct (map ex_name solo)" "solo \<noteq> []" "\<exists>e\<in>set solo. ex_role e = SYNTHESIZER"
  "ex_role ` set solo = {SYNTHESIZER}"
  by (simp_all add: solo_def)

lemma solo_cosine: "cosine_route (\<lambda>_. Inr [1]) default_cosine p solo [] = (Inr [lit ''s''], [(lit ''s'', [1])])"
proof -
  have "cosine_scored (\<lambda>_. Inr [1]) [1] solo [] = (Inr [(1, role_expert (lit ''s'') SYNTHESIZER)], [(lit ''s'', [1])])"
    by (simp add: solo_def bnd_apply ret_def lift_err_def register_expert_def role_samples_def prototype_def dot_def Let_def)
  then show ?thesis
    by (simp add: cosine_route_def bnd_apply lift_err_def ret_def)
       (simp add: solo_def cosine_select_def default_cosine_def sort_desc_def py_take_def pick_top_def
          last_role_names_def move_last_def cap_def Let_def)
qed

lemma solo_hybrid: "\<exists>h. hybrid_route u (\<lambda>_. Inr [1]) (\<lambda>xs. xs) (hybrid_from_experts None) p solo [] = (Inr h, [(lit ''s'', [1])])"
  using solo_cosine [of p] by (simp add: hybrid_route_def hybrid_from_experts_def bnd_apply ret_def)

lemma routers_select_known_experts_witness:
  "\<exists>h ps. hybrid_route \<lparr>u_lower = (\<lambda>c. [c]), u_word = (\<lambda>_. False), u_digit = (\<lambda>_. False), u_printable = (\<lambda>_. True)\<rparr>
       (\<lambda>_. Inr [1]) (\<lambda>xs. xs) (hybrid_from_experts None) (lit ''hi'') solo [] = (Inr h, ps) \<and> h = [lit ''s'']"
proof -
  let ?u = "\<lparr>u_lower = (\<lambda>c. [c]), u_word = (\<lambda>_. False), u_digit = (\<lambda>_. False), u_printable = (\<lambda>_. True)\<rparr>"
  obtain h where h: "hybrid_route ?u (\<lambda>_. Inr [1]) (\<lambda>xs. xs) (hybrid_from_experts None) (lit ''hi'') solo [] = (Inr h, [(lit ''s'', [1])])"
    using solo_hybrid by blast
  have io: "set_order (\<lambda>xs. xs)" by (simp add: set_order_def)
  have "set h \<subseteq> ex_name ` set solo \<and> h \<noteq> [] \<and> distinct h \<and> length h \<le> length solo \<and> (0 < (3 :: int) \<longrightarrow> int (length h) \<le> 3)"
    by (rule routers_select_known_experts [OF solo_simps(1,2) io solo_cosine h, where lg = default_logistic])
      (simp add: hybrid_from_experts_def)
  then have "h = [lit ''s'']" by (cases h; cases "tl h") (auto simp: solo_def)
  with h show ?thesis by blast
qed

lemma force_last_role_is_last_witness:
  "lit ''s'' = last (logistic_route \<lparr>u_lower = (\<lambda>c. [c]), u_word = (\<lambda>_. False), u_digit = (\<lambda>_. False), u_printable = (\<lambda>_. True)\<rparr>
       default_logistic (lit ''hi'') solo)"
proof -
  let ?u = "\<lparr>u_lower = (\<lambda>c. [c]), u_word = (\<lambda>_. False), u_digit = (\<lambda>_. False), u_printable = (\<lambda>_. True)\<rparr>"
  obtain h where h: "hybrid_route ?u (\<lambda>_. Inr [1]) (\<lambda>xs. xs) (hybrid_from_experts None) (lit ''hi'') solo [] = (Inr h, [(lit ''s'', [1])])"
    using solo_hybrid by blast
  have io: "set_order (\<lambda>xs. xs)" by (simp add: set_order_def)
  have "last h \<in> set (last_role_names SYNTHESIZER solo) \<and>
    last (logistic_route ?u default_logistic (lit ''hi'') solo) \<in> set (last_role_names SYNTHESIZER solo)"
    by (rule force_last_role_is_last [OF solo_simps(1,2) io solo_simps(3) _ _ _ h])
       (simp_all add: default_logistic_def mk_logistic_def hybrid_from_experts_def solo_simps)
  then show ?thesis by (simp add: solo_def last_role_names_def)
qed

definition greedy_router :: logistic_router where
  "greedy_router = mk_logistic 3 3 SYNTHESIZER (4 / 10) []"

lemma greedy_ranked:
  "ranked (lg_threshold greedy_router) (role_best role_scores role_pool) =
   [(3 / 4, role_expert (lit ''a'') ANALYST), (1 / 2, role_expert (lit ''c'') CODER)]"
  by (simp add: role_pool_def role_best_def ranked_def sort_desc_def Let_def adjusted_score_def dict_get_def
      role_scores_def greedy_router_def mk_logistic_def)

lemma min_activation_collapses_witness:
  "hd (logistic_select greedy_router role_scores role_pool) = lit ''a'' \<and>
   length (logistic_select greedy_router role_scores role_pool) \<in> {1, 2}"
proof -
  have m: "lg_min_activation greedy_router = 3" by (simp add: greedy_router_def mk_logistic_def)
  show ?thesis
    using min_activation_collapses [OF role_pool_simps(1,2) refl, of greedy_router role_scores]
    unfolding greedy_ranked m by simp
qed

end
