(* ===== verification/Phases.thy ===== *)
theory Phases
  imports Core_Pipeline Backend_Mock
begin

text \<open>
  \<open>chen/phases\<close>: the static cascade (phase 1), the KV-cache hand-off (phase 2) and dynamic routing
  (phase 3). A run is a loop over the names of the experts; its local variables are the record
  \<open>run_state\<close>. \<open>rs_kwarg\<close> is what is left of \<open>max_tokens\<close> in \<open>kwargs\<close>: the code pops it inside the loop.
\<close>

record run_state =
  rs_metrics :: aggregate
  rs_per_expert :: "expert_metrics list"
  rs_cache :: "kv_cache option"
  rs_text :: pystr
  rs_text_mode :: bool
  rs_kwarg :: "int option"

definition start_state :: "'w pipeline \<Rightarrow> pystr \<Rightarrow> bool \<Rightarrow> int option \<Rightarrow> run_state" where
  "start_state pl prompt text_mode kwarg =
     \<lparr>rs_metrics = new_aggregate (pl_cost pl), rs_per_expert = [], rs_cache = None, rs_text = prompt,
      rs_text_mode = text_mode, rs_kwarg = kwarg\<rparr>"

definition step_tokens :: "'w pipeline \<Rightarrow> run_state \<Rightarrow> int" where
  "step_tokens pl s = (case rs_kwarg s of None \<Rightarrow> pl_max_tokens pl | Some n \<Rightarrow> n)"

text \<open>The entry an expert leaves in memory, and the user's prompt before the first expert.\<close>

definition remember_step :: "'w pipeline \<Rightarrow> 'w expert \<Rightarrow> bool \<Rightarrow> pystr \<Rightarrow> ('w, py_exc, unit) act" where
  "remember_step pl e is_last txt =
     (if pl_write_memory pl
      then remember pl txt (role_value (ex_role e)) (ex_name e) (if is_last then 1 else 9 / 10)
      else ret ())"

definition remember_prompt :: "'w pipeline \<Rightarrow> pystr \<Rightarrow> ('w, py_exc, unit) act" where
  "remember_prompt pl prompt =
     (if pl_write_memory pl then remember pl prompt (lit ''user'') (lit ''user'') 1 else ret ())"

definition count_written :: "'w pipeline \<Rightarrow> aggregate \<Rightarrow> aggregate" where
  "count_written pl a =
     (if pl_write_memory pl then a\<lparr>ag_mem_written := ag_mem_written a + 1\<rparr> else a)"

definition result_of :: "'w pipeline \<Rightarrow> pystr list \<Rightarrow> run_state \<Rightarrow> pipeline_result" where
  "result_of pl names s =
     \<lparr>pr_output = rs_text s, pr_metrics = agg_finalize (named_experts pl names) (rs_metrics s),
      pr_per_expert = rs_per_expert s, pr_selected = names, pr_text_mode = rs_text_mode s\<rparr>"

section \<open>Phase 1: cascade\<close>

definition cascade_step ::
  "'w pipeline \<Rightarrow> pystr \<Rightarrow> bool \<Rightarrow> run_state \<Rightarrow> ('w, py_exc, run_state) act" where
  "cascade_step pl n is_last s =
     bnd (lift_err (get_expert (pl_experts pl) n)) (\<lambda>e.
     bnd (invoke_expert pl e (rs_text s) (step_tokens pl s) (pl_retrieve_k pl)) (\<lambda>(out, _, m).
     bnd (remember_step pl e is_last out) (\<lambda>_.
     let a = count_written pl (agg_add m (rs_metrics s)) in
     ret (s\<lparr>rs_metrics := (if 0 < pl_retrieve_k pl
                           then a\<lparr>ag_mem_read := ag_mem_read a + pl_retrieve_k pl\<rparr> else a),
            rs_per_expert := rs_per_expert s @ [m], rs_text := out, rs_kwarg := None\<rparr>))))"

fun cascade_loop :: "'w pipeline \<Rightarrow> pystr list \<Rightarrow> run_state \<Rightarrow> ('w, py_exc, run_state) act" where
  "cascade_loop pl [] s = ret s"
| "cascade_loop pl (n # ns) s = bnd (cascade_step pl n (ns = []) s) (cascade_loop pl ns)"

text \<open>
  \<open>CascadePipeline.run\<close>. After the loop every name is known, so \<open>named_experts\<close> is the list of
  \<open>self.get_expert(n)\<close> that \<open>finalize\<close> is given.
\<close>

definition cascade_run ::
  "'w pipeline \<Rightarrow> pystr \<Rightarrow> int option \<Rightarrow> ('w, py_exc, pipeline_result) act" where
  "cascade_run pl prompt kwarg =
     bnd (remember_prompt pl prompt) (\<lambda>_.
     bnd (cascade_loop pl (pl_sequence pl) (start_state pl prompt True kwarg)) (\<lambda>s.
     ret (result_of pl (pl_sequence pl) s)))"

section \<open>Phase 2: KV-cache hand-off\<close>

text \<open>
  The first expert: encode the prompt, look for context in memory, re-encode with it, invoke. The
  result carries the cache the step worked from, whether the run is now in text mode, and the
  number of memory entries counted as read.
\<close>

definition kv_first ::
  "'w pipeline \<Rightarrow> 'w expert \<Rightarrow> pystr \<Rightarrow> int \<Rightarrow>
   ('w, py_exc, (pystr \<times> kv_cache option \<times> expert_metrics) \<times> kv_cache option \<times> bool \<times> int) act" where
  "kv_first pl e prompt mt =
     bnd (if \<not> ex_supports_kv e then ret (None, True)
          else try_except (bnd (bk_encode (ex_backend e) prompt) (\<lambda>c. ret (Some c, False)))
                          (\<lambda>_. ret (None, True))) (\<lambda>(cache, tm).
     bnd (if 0 < pl_retrieve_k pl \<and> \<not> tm
          then bnd (mo_retrieve (pl_memory pl) prompt (pl_retrieve_k pl)) (\<lambda>es.
               let aug = augment es prompt; rd = (if es \<noteq> [] then pl_retrieve_k pl else 0) in
               if aug \<noteq> prompt
               then bnd (try_except (bnd (bk_encode (ex_backend e) aug) (\<lambda>c. ret (Some c)))
                                    (\<lambda>_. ret cache)) (\<lambda>cache'. ret (aug, cache', rd))
               else ret (aug, cache, rd))
          else ret (prompt, cache, 0)) (\<lambda>(aug, cache, rd).
     bnd (expert_invoke (pl_clocks pl) e (if tm then Some aug else None) (if tm then None else cache) mt)
       (\<lambda>r. ret (r, cache, tm, rd))))"

text \<open>
  A later expert. \<open>raise\<close> outside an \<open>except\<close> block has no exception to re-raise, which is a
  \<open>RuntimeError\<close>.
\<close>

definition kv_later ::
  "'w pipeline \<Rightarrow> 'w expert \<Rightarrow> int \<Rightarrow> kv_cache option \<Rightarrow> pystr \<Rightarrow> bool \<Rightarrow>
   ('w, py_exc, (pystr \<times> kv_cache option \<times> expert_metrics) \<times> bool) act" where
  "kv_later pl e mt cache txt tm =
     (if tm \<or> cache = None
      then bnd (invoke_expert pl e txt mt 0) (\<lambda>r. ret (r, tm))
      else bnd (expert_invoke (pl_clocks pl) e None cache mt) (\<lambda>(out, oc, m).
           if em_transfer_ok m then ret ((out, oc, m), tm)
           else if \<not> pl_fallback pl then raise RuntimeError
           else bnd (invoke_expert pl e txt mt 0) (\<lambda>r. ret (r, True))))"

definition kv_finish_step ::
  "'w pipeline \<Rightarrow> 'w expert \<Rightarrow> bool \<Rightarrow> run_state \<Rightarrow> pystr \<times> kv_cache option \<times> expert_metrics \<Rightarrow>
   kv_cache option \<Rightarrow> bool \<Rightarrow> int \<Rightarrow> ('w, py_exc, run_state) act" where
  "kv_finish_step pl e is_last s r cache tm rd =
     (case r of (out, oc, m) \<Rightarrow>
        bnd (remember_step pl e is_last
               (case cache of Some c \<Rightarrow> source_text c | None \<Rightarrow> rs_text s)) (\<lambda>_.
        let a = rs_metrics s in
        ret (s\<lparr>rs_metrics := count_written pl (agg_add m (a\<lparr>ag_mem_read := ag_mem_read a + rd\<rparr>)),
               rs_per_expert := rs_per_expert s @ [m], rs_cache := oc, rs_text := out,
               rs_text_mode := tm, rs_kwarg := None\<rparr>)))"

definition kv_step ::
  "'w pipeline \<Rightarrow> pystr \<Rightarrow> bool \<Rightarrow> pystr \<Rightarrow> bool \<Rightarrow> run_state \<Rightarrow> ('w, py_exc, run_state) act" where
  "kv_step pl prompt is_first n is_last s =
     bnd (lift_err (get_expert (pl_experts pl) n)) (\<lambda>e.
     if is_first
     then bnd (kv_first pl e prompt (step_tokens pl s)) (\<lambda>(r, cache, tm, rd).
          kv_finish_step pl e is_last s r cache tm rd)
     else bnd (kv_later pl e (step_tokens pl s) (rs_cache s) (rs_text s) (rs_text_mode s)) (\<lambda>(r, tm).
          kv_finish_step pl e is_last s r (rs_cache s) tm 0))"

fun kv_loop :: "'w pipeline \<Rightarrow> pystr \<Rightarrow> bool \<Rightarrow> pystr list \<Rightarrow> run_state \<Rightarrow> ('w, py_exc, run_state) act" where
  "kv_loop pl prompt is_first [] s = ret s"
| "kv_loop pl prompt is_first (n # ns) s =
     bnd (kv_step pl prompt is_first n (ns = []) s) (kv_loop pl prompt False ns)"

definition kv_run ::
  "'w pipeline \<Rightarrow> pystr \<Rightarrow> int option \<Rightarrow> ('w, py_exc, pipeline_result) act" where
  "kv_run pl prompt kwarg =
     bnd (remember_prompt pl prompt) (\<lambda>_.
     bnd (kv_loop pl prompt True (pl_sequence pl) (start_state pl prompt False kwarg)) (\<lambda>s.
     ret (result_of pl (pl_sequence pl) s)))"

section \<open>Phase 3: dynamic routing\<close>

type_synonym 'w router_fun = "pystr \<Rightarrow> 'w expert list \<Rightarrow> ('w, py_exc, pystr list) act"

text \<open>The names to run when the router returns none.\<close>

definition routing_fallback :: "'w expert list \<Rightarrow> pystr list" where
  "routing_fallback es =
     (case find (\<lambda>e. ex_role e = SYNTHESIZER) es of
        Some e \<Rightarrow> [ex_name e]
      | None \<Rightarrow> [ex_name (hd es)])"

text \<open>
  The first expert: the \<open>try\<close> block covers retrieval, encoding and invocation; whatever fails, the
  run continues in text mode. The count of entries read is kept when a later call fails.
\<close>

definition routing_first ::
  "'w pipeline \<Rightarrow> 'w expert \<Rightarrow> pystr \<Rightarrow> int \<Rightarrow> bool \<Rightarrow>
   ('w, py_exc, (pystr \<times> kv_cache option \<times> expert_metrics) \<times> kv_cache option \<times> bool \<times> int) act" where
  "routing_first pl e prompt mt tm0 =
     (let as_text = (\<lambda>rd. bnd (invoke_expert pl e prompt mt (pl_retrieve_k pl))
                             (\<lambda>r. ret (r, None, True, rd)))
      in if tm0 \<or> \<not> ex_supports_kv e then as_text 0
         else bnd (if 0 < pl_retrieve_k pl
                   then try_except (bnd (mo_retrieve (pl_memory pl) prompt (pl_retrieve_k pl)) (\<lambda>es. ret (Some es)))
                                   (\<lambda>_. ret None)
                   else ret (Some [])) (\<lambda>found.
              case found of
                None \<Rightarrow> as_text 0
              | Some es \<Rightarrow>
                  (let rd = (if es \<noteq> [] then pl_retrieve_k pl else 0) in
                   try_except
                     (bnd (bk_encode (ex_backend e) (augment es prompt)) (\<lambda>c.
                      bnd (expert_invoke (pl_clocks pl) e None (Some c) mt) (\<lambda>r.
                      ret (r, Some c, False, rd))))
                     (\<lambda>_. as_text rd))))"

definition routing_step ::
  "'w pipeline \<Rightarrow> pystr \<Rightarrow> bool \<Rightarrow> pystr \<Rightarrow> bool \<Rightarrow> run_state \<Rightarrow> ('w, py_exc, run_state) act" where
  "routing_step pl prompt is_first n is_last s =
     bnd (lift_err (get_expert (pl_experts pl) n)) (\<lambda>e.
     if is_first
     then bnd (routing_first pl e prompt (step_tokens pl s) (rs_text_mode s)) (\<lambda>(r, cache, tm, rd).
          kv_finish_step pl e is_last s r cache tm rd)
     else bnd (kv_later pl e (step_tokens pl s) (rs_cache s) (rs_text s) (rs_text_mode s)) (\<lambda>(r, tm).
          kv_finish_step pl e is_last s r (rs_cache s) tm 0))"

fun routing_loop :: "'w pipeline \<Rightarrow> pystr \<Rightarrow> bool \<Rightarrow> pystr list \<Rightarrow> run_state \<Rightarrow> ('w, py_exc, run_state) act" where
  "routing_loop pl prompt is_first [] s = ret s"
| "routing_loop pl prompt is_first (n # ns) s =
     bnd (routing_step pl prompt is_first n (ns = []) s) (routing_loop pl prompt False ns)"

definition routing_run ::
  "'w pipeline \<Rightarrow> 'w router_fun \<Rightarrow> bool \<Rightarrow> pystr \<Rightarrow> int option \<Rightarrow> ('w, py_exc, pipeline_result) act" where
  "routing_run pl router text_handoff prompt kwarg =
     bnd (router prompt (pl_experts pl)) (\<lambda>routed.
     let names = (if routed = [] then routing_fallback (pl_experts pl) else routed) in
     bnd (remember_prompt pl prompt) (\<lambda>_.
     bnd (routing_loop pl prompt True names (start_state pl prompt text_handoff kwarg)) (\<lambda>s.
     ret (result_of pl names s))))"

section \<open>The loops keep the report\<close>

definition step_inv :: "'w pipeline \<Rightarrow> pystr list \<Rightarrow> run_state \<Rightarrow> bool" where
  "step_inv pl seen s \<longleftrightarrow> reports pl seen (rs_per_expert s) (rs_metrics s)"

lemma step_inv_start: "step_inv pl [] (start_state pl prompt tm kwarg)"
  by (simp add: step_inv_def start_state_def)

lemma reports_count_written [simp]:
  "reports pl names ms (count_written pl' a) = reports pl names ms a"
  by (simp add: count_written_def)

lemma cascade_step_inv:
  assumes "step_inv pl seen s" and "cascade_step pl n is_last s w = (Inr s', w')"
  shows "step_inv pl (seen @ [n]) s'"
proof -
  obtain e out oc m v v' where e: "get_expert (pl_experts pl) n = Inr e"
    and i: "invoke_expert pl e (rs_text s) (step_tokens pl s) (pl_retrieve_k pl) v = (Inr (out, oc, m), v')"
    and s': "rs_per_expert s' = rs_per_expert s @ [m]"
      "\<exists>k. rs_metrics s' = count_written pl (agg_add m (rs_metrics s)) \<or>
           rs_metrics s' = (count_written pl (agg_add m (rs_metrics s)))\<lparr>ag_mem_read := k\<rparr>"
    using assms(2) by (fastforce simp: cascade_step_def Let_def split: if_splits)
  from invoke_expert_Inr [OF i] assms(1) reports_add [OF _ e] s' show ?thesis
    by (auto simp: step_inv_def)
qed

lemma kv_finish_step_inv:
  assumes "step_inv pl seen s" and "get_expert (pl_experts pl) n = Inr e"
    and "em_name m = ex_name e" and "em_params_m m = ex_params_m e"
    and "em_used_kv m \<longrightarrow> em_transfer_ok m"
    and "kv_finish_step pl e is_last s (out, oc, m) cache tm rd w = (Inr s', w')"
  shows "step_inv pl (seen @ [n]) s' \<and> rs_text s' = out \<and> rs_cache s' = oc \<and> rs_text_mode s' = tm \<and>
         rs_kwarg s' = None"
  using assms reports_add [OF _ assms(2-5)]
  by (auto simp: kv_finish_step_def Let_def step_inv_def)

lemma kv_later_Inr:
  assumes "kv_later pl e mt cache txt tm w = (Inr ((out, oc, m), tm'), w')"
  shows "em_name m = ex_name e \<and> em_params_m m = ex_params_m e \<and> (em_used_kv m \<longrightarrow> em_transfer_ok m)"
  using assms
  by (auto simp: kv_later_def split: if_splits dest!: expert_invoke_Inr invoke_expert_Inr)

lemma kv_first_Inr:
  assumes "kv_first pl e prompt mt w = (Inr ((out, oc, m), cache, tm, rd), w')"
  shows "em_name m = ex_name e \<and> em_params_m m = ex_params_m e \<and> (em_used_kv m \<longrightarrow> em_transfer_ok m)"
proof -
  obtain p c v where "expert_invoke (pl_clocks pl) e p c mt v = (Inr (out, oc, m), w')"
    using assms by (auto simp: kv_first_def Let_def)
  from expert_invoke_Inr [OF this] show ?thesis by auto
qed

lemma routing_first_Inr:
  assumes "routing_first pl e prompt mt tm0 w = (Inr ((out, oc, m), cache, tm, rd), w')"
  shows "em_name m = ex_name e \<and> em_params_m m = ex_params_m e \<and> (em_used_kv m \<longrightarrow> em_transfer_ok m)"
proof -
  consider p c v where "expert_invoke (pl_clocks pl) e p c mt v = (Inr (out, oc, m), w')"
    | v where "invoke_expert pl e prompt mt (pl_retrieve_k pl) v = (Inr (out, oc, m), w')"
    using assms
    by (auto simp: routing_first_def Let_def try_except_Inr_iff split: if_splits option.splits)
  then show ?thesis
    by cases (auto dest!: expert_invoke_Inr invoke_expert_Inr)
qed

lemma kv_step_inv:
  assumes "step_inv pl seen s" and "kv_step pl prompt is_first n is_last s w = (Inr s', w')"
  shows "step_inv pl (seen @ [n]) s'"
proof -
  obtain e out oc m cache tm rd v where e: "get_expert (pl_experts pl) n = Inr e"
    and m: "em_name m = ex_name e \<and> em_params_m m = ex_params_m e \<and> (em_used_kv m \<longrightarrow> em_transfer_ok m)"
    and f: "kv_finish_step pl e is_last s (out, oc, m) cache tm rd v = (Inr s', w')"
    using assms(2)
    by (fastforce simp: kv_step_def split: if_splits prod.splits dest: kv_first_Inr kv_later_Inr)
  from kv_finish_step_inv [OF assms(1) e _ _ _ f] m show ?thesis by blast
qed

lemma routing_step_inv:
  assumes "step_inv pl seen s" and "routing_step pl prompt is_first n is_last s w = (Inr s', w')"
  shows "step_inv pl (seen @ [n]) s'"
proof -
  obtain e out oc m cache tm rd v where e: "get_expert (pl_experts pl) n = Inr e"
    and m: "em_name m = ex_name e \<and> em_params_m m = ex_params_m e \<and> (em_used_kv m \<longrightarrow> em_transfer_ok m)"
    and f: "kv_finish_step pl e is_last s (out, oc, m) cache tm rd v = (Inr s', w')"
    using assms(2)
    by (fastforce simp: routing_step_def split: if_splits prod.splits dest: routing_first_Inr kv_later_Inr)
  from kv_finish_step_inv [OF assms(1) e _ _ _ f] m show ?thesis by blast
qed

lemma cascade_loop_inv:
  "step_inv pl seen s \<Longrightarrow> cascade_loop pl ns s w = (Inr s', w') \<Longrightarrow> step_inv pl (seen @ ns) s'"
proof (induction ns arbitrary: seen s w)
  case Nil
  then show ?case by simp
next
  case (Cons n ns)
  from Cons.prems(2) obtain s1 v where "cascade_step pl n (ns = []) s w = (Inr s1, v)"
    "cascade_loop pl ns s1 v = (Inr s', w')" by auto
  with Cons.IH [OF cascade_step_inv [OF Cons.prems(1)]] show ?case by fastforce
qed

lemma kv_loop_inv:
  "step_inv pl seen s \<Longrightarrow> kv_loop pl prompt fst_p ns s w = (Inr s', w') \<Longrightarrow> step_inv pl (seen @ ns) s'"
proof (induction ns arbitrary: seen s w fst_p)
  case Nil
  then show ?case by simp
next
  case (Cons n ns)
  from Cons.prems(2) obtain s1 v where "kv_step pl prompt fst_p n (ns = []) s w = (Inr s1, v)"
    "kv_loop pl prompt False ns s1 v = (Inr s', w')" by auto
  with Cons.IH [OF kv_step_inv [OF Cons.prems(1)]] show ?case by fastforce
qed

lemma routing_loop_inv:
  "step_inv pl seen s \<Longrightarrow> routing_loop pl prompt fst_p ns s w = (Inr s', w') \<Longrightarrow> step_inv pl (seen @ ns) s'"
proof (induction ns arbitrary: seen s w fst_p)
  case Nil
  then show ?case by simp
next
  case (Cons n ns)
  from Cons.prems(2) obtain s1 v where "routing_step pl prompt fst_p n (ns = []) s w = (Inr s1, v)"
    "routing_loop pl prompt False ns s1 v = (Inr s', w')" by auto
  with Cons.IH [OF routing_step_inv [OF Cons.prems(1)]] show ?case by fastforce
qed

lemma result_report: "step_inv pl names s \<Longrightarrow> final_report pl names (result_of pl names s)"
  unfolding step_inv_def result_of_def by (rule final_report_finalize)

lemma cascade_run_report:
  assumes "cascade_run pl prompt kwarg w = (Inr r, w')"
  shows "final_report pl (pl_sequence pl) r"
proof -
  obtain u u' s where "cascade_loop pl (pl_sequence pl) (start_state pl prompt True kwarg) u = (Inr s, u')"
    and "r = result_of pl (pl_sequence pl) s"
    using assms by (auto simp: cascade_run_def)
  with cascade_loop_inv [OF step_inv_start, where ns = "pl_sequence pl"] result_report show ?thesis by fastforce
qed

lemma kv_run_report:
  assumes "kv_run pl prompt kwarg w = (Inr r, w')"
  shows "final_report pl (pl_sequence pl) r"
proof -
  obtain u u' s where "kv_loop pl prompt True (pl_sequence pl) (start_state pl prompt False kwarg) u = (Inr s, u')"
    and "r = result_of pl (pl_sequence pl) s"
    using assms by (auto simp: kv_run_def)
  with kv_loop_inv [OF step_inv_start, where ns = "pl_sequence pl"] result_report show ?thesis by fastforce
qed

lemma routing_run_report:
  assumes "routing_run pl rt th prompt kwarg w = (Inr r, w')" and "rt prompt (pl_experts pl) w = (Inr routed, v)"
  shows "final_report pl (if routed = [] then routing_fallback (pl_experts pl) else routed) r"
proof -
  let ?names = "if routed = [] then routing_fallback (pl_experts pl) else routed"
  obtain u u' s where "routing_loop pl prompt True ?names (start_state pl prompt th kwarg) u = (Inr s, u')"
    and "r = result_of pl ?names s"
    using assms by (auto simp: routing_run_def Let_def)
  with routing_loop_inv [OF step_inv_start, where ns = ?names] result_report show ?thesis by fastforce
qed

section \<open>Runs that cannot fail\<close>

definition memory_total :: "'w pipeline \<Rightarrow> bool" where
  "memory_total pl \<longleftrightarrow>
     (\<forall>e. nofail (mo_write (pl_memory pl) e)) \<and> (\<forall>q k. nofail (mo_retrieve (pl_memory pl) q k))"

definition models_total :: "'w pipeline \<Rightarrow> bool" where
  "models_total pl \<longleftrightarrow>
     (\<forall>e\<in>set (pl_experts pl). \<forall>mt. (\<forall>p. nofail (bk_generate (ex_backend e) p mt)) \<and>
                                     (\<forall>c. nofail (bk_decode (ex_backend e) c mt)))"

lemma nofail_remember: "memory_total pl \<Longrightarrow> nofail (remember pl t r x c)"
  unfolding remember_def memory_total_def by (intro nofail_intros) auto

lemma nofail_remember_step: "memory_total pl \<Longrightarrow> nofail (remember_step pl e l t)"
  unfolding remember_step_def by (intro nofail_intros nofail_remember)

lemma nofail_remember_prompt: "memory_total pl \<Longrightarrow> nofail (remember_prompt pl p)"
  unfolding remember_prompt_def by (intro nofail_intros nofail_remember)

lemma nofail_invoke_expert:
  assumes "memory_total pl" and "models_total pl" and "e \<in> set (pl_experts pl)"
  shows "nofail (invoke_expert pl e p mt k)"
  using assms unfolding invoke_expert_def memory_total_def models_total_def
  by (intro nofail_intros nofail_expert_invoke) auto

lemma nofail_kv_first:
  assumes "memory_total pl" and "models_total pl" and "e \<in> set (pl_experts pl)"
  shows "nofail (kv_first pl e prompt mt)"
proof -
  let ?start = "if \<not> ex_supports_kv e then ret (None, True)
          else try_except (bnd (bk_encode (ex_backend e) prompt) (\<lambda>c. ret (Some c, False)))
                          (\<lambda>_. ret (None, True))"
  have start: "nofail ?start" by (intro nofail_intros)
  have shape: "\<not> tm \<longrightarrow> cache \<noteq> None" if "?start w = (Inr (cache, tm), w')" for w cache tm w'
    using that by (auto simp: try_except_Inr_iff split: if_splits)
  let ?mid = "\<lambda>cache tm. if 0 < pl_retrieve_k pl \<and> \<not> tm
          then bnd (mo_retrieve (pl_memory pl) prompt (pl_retrieve_k pl)) (\<lambda>es.
               let aug = augment es prompt; rd = (if es \<noteq> [] then pl_retrieve_k pl else 0) in
               if aug \<noteq> prompt
               then bnd (try_except (bnd (bk_encode (ex_backend e) aug) (\<lambda>c. ret (Some c)))
                                    (\<lambda>_. ret cache)) (\<lambda>cache'. ret (aug, cache', rd))
               else ret (aug, cache, rd))
          else ret (prompt, cache, 0)"
  have mid: "nofail (?mid cache tm)" for cache tm
    using assms(1) unfolding memory_total_def by (intro nofail_intros) auto
  have mid_shape: "cache' \<noteq> None" if "cache \<noteq> None" "?mid cache tm w = (Inr (aug, cache', rd), w')"
    for cache tm w aug cache' rd w'
    using that by (auto simp: Let_def try_except_Inr_iff split: if_splits)
  show ?thesis
    unfolding nofail_def
  proof
    fix w
    obtain x w1 where "?start w = (Inr x, w1)" using start by (rule nofailE)
    then obtain cache tm where 1: "?start w = (Inr (cache, tm), w1)" by (cases x) blast
    obtain y w2 where "?mid cache tm w1 = (Inr y, w2)" using mid by (rule nofailE)
    then obtain aug cache' rd where 2: "?mid cache tm w1 = (Inr (aug, cache', rd), w2)"
      by (cases y) blast
    have "\<not> tm \<longrightarrow> cache' \<noteq> None" using shape [OF 1] mid_shape [OF _ 2] by blast
    then have "nofail (expert_invoke (pl_clocks pl) e (if tm then Some aug else None) (if tm then None else cache') mt)"
      using assms(2,3) by (intro nofail_expert_invoke) (auto simp: models_total_def)
    then obtain r w3 where 3: "expert_invoke (pl_clocks pl) e (if tm then Some aug else None)
        (if tm then None else cache') mt w2 = (Inr r, w3)" by (rule nofailE)
    show "\<exists>x w'. kv_first pl e prompt mt w = (Inr x, w')"
      unfolding kv_first_def bnd_apply 1 prod.case sum.case 2 3 by (cases r) simp
  qed
qed

lemma nofail_kv_later:
  assumes "memory_total pl" and "models_total pl" and "e \<in> set (pl_experts pl)" and "pl_fallback pl"
  shows "nofail (kv_later pl e mt cache txt tm)"
proof -
  have inv: "nofail (invoke_expert pl e txt mt 0)" by (rule nofail_invoke_expert [OF assms(1-3)])
  have "nofail (expert_invoke (pl_clocks pl) e None cache mt)" if "cache \<noteq> None"
    using that assms(2,3) by (intro nofail_expert_invoke) (auto simp: models_total_def)
  then show ?thesis
    using inv assms(4) unfolding kv_later_def by (intro nofail_intros) auto
qed

lemma nofail_kv_finish_step:
  "memory_total pl \<Longrightarrow> nofail (kv_finish_step pl e l s r cache tm rd)"
  unfolding kv_finish_step_def by (intro nofail_intros nofail_remember_step)

lemma nofail_get_expert:
  assumes "n \<in> ex_name ` set (pl_experts pl)"
  obtains e where "get_expert (pl_experts pl) n = Inr e" "e \<in> set (pl_experts pl)"
  using assms find_expert_name find_expert_Some_iff [of "pl_experts pl" n]
  by (fastforce simp: get_expert_def)

lemma nofail_kv_step:
  assumes "memory_total pl" and "models_total pl" and "pl_fallback pl"
    and "n \<in> ex_name ` set (pl_experts pl)"
  shows "nofail (kv_step pl prompt is_first n is_last s)"
proof -
  obtain e where e: "get_expert (pl_experts pl) n = Inr e" "e \<in> set (pl_experts pl)"
    using assms(4) by (rule nofail_get_expert)
  have l: "lift_err (get_expert (pl_experts pl) n) = ret e"
    by (rule ext) (simp add: e)
  show ?thesis
    unfolding kv_step_def l bnd_ret
    by (intro nofail_intros nofail_kv_first nofail_kv_later nofail_kv_finish_step assms e)
qed

lemma nofail_kv_loop:
  assumes "memory_total pl" and "models_total pl" and "pl_fallback pl"
    and "set ns \<subseteq> ex_name ` set (pl_experts pl)"
  shows "nofail (kv_loop pl prompt is_first ns s)"
  using assms(4)
proof (induction ns arbitrary: is_first s)
  case Nil
  then show ?case by (simp add: nofail_def)
next
  case (Cons n ns)
  then show ?case by (simp add: nofail_bnd nofail_kv_step [OF assms(1-3)])
qed

lemma nofail_cascade_loop:
  assumes "memory_total pl" and "models_total pl" and "set ns \<subseteq> ex_name ` set (pl_experts pl)"
  shows "nofail (cascade_loop pl ns s)"
  using assms(3)
proof (induction ns arbitrary: s)
  case Nil
  then show ?case by (simp add: nofail_def)
next
  case (Cons n ns)
  then obtain e where e: "get_expert (pl_experts pl) n = Inr e" "e \<in> set (pl_experts pl)"
    using nofail_get_expert [of n pl] by auto
  have l: "lift_err (get_expert (pl_experts pl) n) = ret e" by (rule ext) (simp add: e)
  have "nofail (cascade_step pl n (ns = []) s)"
    unfolding cascade_step_def l bnd_ret
    by (intro nofail_intros nofail_invoke_expert nofail_remember_step assms e)
  with Cons show ?case by (simp add: nofail_bnd)
qed

lemma nofail_routing_first:
  assumes "memory_total pl" and "models_total pl" and "e \<in> set (pl_experts pl)"
  shows "nofail (routing_first pl e prompt mt tm)"
  unfolding routing_first_def Let_def by (intro nofail_intros nofail_invoke_expert [OF assms])

lemma nofail_routing_step:
  assumes "memory_total pl" and "models_total pl" and "pl_fallback pl"
    and "n \<in> ex_name ` set (pl_experts pl)"
  shows "nofail (routing_step pl prompt is_first n is_last s)"
proof -
  obtain e where e: "get_expert (pl_experts pl) n = Inr e" "e \<in> set (pl_experts pl)"
    using assms(4) by (rule nofail_get_expert)
  have l: "lift_err (get_expert (pl_experts pl) n) = ret e"
    by (rule ext) (simp add: e)
  show ?thesis
    unfolding routing_step_def l bnd_ret
    by (intro nofail_intros nofail_routing_first nofail_kv_later nofail_kv_finish_step assms e)
qed

lemma nofail_routing_loop:
  assumes "memory_total pl" and "models_total pl" and "pl_fallback pl"
    and "set ns \<subseteq> ex_name ` set (pl_experts pl)"
  shows "nofail (routing_loop pl prompt is_first ns s)"
  using assms(4)
proof (induction ns arbitrary: is_first s)
  case Nil
  then show ?case by (simp add: nofail_def)
next
  case (Cons n ns)
  then show ?case by (simp add: nofail_bnd nofail_routing_step [OF assms(1-3)])
qed

lemma routing_fallback_known:
  "es \<noteq> [] \<Longrightarrow> set (routing_fallback es) \<subseteq> ex_name ` set es \<and> routing_fallback es \<noteq> []"
  by (auto simp: routing_fallback_def find_Some_iff split: option.split)

text \<open>A router whose names are all in the pool never makes the pipeline fail.\<close>

lemma routing_run_returns:
  assumes "pl_experts pl \<noteq> []" and "memory_total pl" and "models_total pl" and "pl_fallback pl"
    and "router prompt (pl_experts pl) w = (Inr names, v)"
    and "set names \<subseteq> ex_name ` set (pl_experts pl)"
  shows "\<exists>r w'. routing_run pl router th prompt kwarg w = (Inr r, w')"
proof -
  let ?ns = "if names = [] then routing_fallback (pl_experts pl) else names"
  have "set ?ns \<subseteq> ex_name ` set (pl_experts pl)"
    using assms(1,6) routing_fallback_known by auto
  then have "nofail (bnd (remember_prompt pl prompt) (\<lambda>_.
     bnd (routing_loop pl prompt True ?ns (start_state pl prompt th kwarg)) (\<lambda>s.
     ret (result_of pl ?ns s))))"
    by (intro nofail_intros nofail_remember_prompt nofail_routing_loop assms)
  then show ?thesis
    unfolding routing_run_def bnd_apply [where m = "router prompt (pl_experts pl)"] assms(5)
    by (simp add: Let_def nofail_def)
qed

section \<open>What the hand-off carries\<close>

text \<open>A backend whose answer to a prompt does not depend on its state.\<close>

definition answers :: "'w backend \<Rightarrow> (pystr \<Rightarrow> int \<Rightarrow> pystr) \<Rightarrow> bool" where
  "answers b f \<longleftrightarrow> (\<forall>p mt w. \<exists>w'. bk_generate b p mt w = (Inr (f p mt), w'))"

lemma answers_invoke:
  assumes "answers (ex_backend e) f"
  shows "\<exists>oc m w'. expert_invoke ck e (Some p) None mt w = (Inr (f p mt, oc, m), w')"
proof -
  have g: "nofail (bk_generate (ex_backend e) q k)" for q k
    using assms unfolding answers_def nofail_def by blast
  have "nofail (expert_invoke ck e (Some p) None mt)"
    by (rule nofail_expert_invoke) (simp_all add: g)
  then obtain out oc m w' where r: "expert_invoke ck e (Some p) None mt w = (Inr (out, oc, m), w')"
    by (metis nofailE surj_pair)
  then obtain v v' where "bk_generate (ex_backend e) p mt v = (Inr out, v')"
    by (auto simp: expert_invoke_def invoke_tail_def transfer_in_def Let_def)
  moreover obtain u where "bk_generate (ex_backend e) p mt v = (Inr (f p mt), u)"
    using assms unfolding answers_def by blast
  ultimately show ?thesis using r by auto
qed

text \<open>
  The text hand-off of phase 1: each expert's answer is the next one's prompt. Only the first
  expert is given the caller's \<open>max_tokens\<close>.
\<close>

fun text_chain :: "(pystr \<Rightarrow> pystr \<Rightarrow> int \<Rightarrow> pystr) \<Rightarrow> int \<Rightarrow> int \<Rightarrow> pystr list \<Rightarrow> pystr \<Rightarrow> pystr" where
  "text_chain G mt dflt [] t = t"
| "text_chain G mt dflt (n # ns) t = text_chain G dflt dflt ns (G n t mt)"

lemma cascade_loop_chain:
  assumes "memory_total pl" and "pl_retrieve_k pl \<le> 0"
    and "\<forall>e\<in>set (pl_experts pl). answers (ex_backend e) (G (ex_name e))"
    and "set ns \<subseteq> ex_name ` set (pl_experts pl)"
  shows "\<exists>s' w'. cascade_loop pl ns s w = (Inr s', w') \<and>
     rs_text s' = text_chain G (step_tokens pl s) (pl_max_tokens pl) ns (rs_text s) \<and>
     ag_mem_written (rs_metrics s') =
       ag_mem_written (rs_metrics s) + (if pl_write_memory pl then int (length ns) else 0) \<and>
     ag_mem_read (rs_metrics s') = ag_mem_read (rs_metrics s)"
  using assms(4)
proof (induction ns arbitrary: s w)
  case Nil
  then show ?case by simp
next
  case (Cons n ns)
  obtain e where e: "get_expert (pl_experts pl) n = Inr e" "e \<in> set (pl_experts pl)" "ex_name e = n"
    using nofail_get_expert [of n pl] get_expert_Inr Cons.prems by (metis insert_subset list.set(2))
  let ?mt = "step_tokens pl s"
  have an: "answers (ex_backend e) (G n)" using assms(3) e by auto
  obtain oc m w1 where i: "invoke_expert pl e (rs_text s) ?mt (pl_retrieve_k pl) w =
      (Inr (G n (rs_text s) ?mt, oc, m), w1)"
    using answers_invoke [OF an, of "pl_clocks pl" "rs_text s" ?mt w] assms(2)
    by (auto simp: invoke_expert_def)
  obtain w2 where r: "remember_step pl e (ns = []) (G n (rs_text s) ?mt) w1 = (Inr (), w2)"
    using nofailE [OF nofail_remember_step [OF assms(1)]] by (metis unit.exhaust)
  let ?s = "s\<lparr>rs_metrics := count_written pl (agg_add m (rs_metrics s)),
               rs_per_expert := rs_per_expert s @ [m], rs_text := G n (rs_text s) ?mt, rs_kwarg := None\<rparr>"
  have st: "cascade_step pl n (ns = []) s w = (Inr ?s, w2)"
    using assms(2) by (simp add: cascade_step_def bnd_apply e(1) i r Let_def)
  have mt: "step_tokens pl ?s = pl_max_tokens pl" by (simp add: step_tokens_def)
  have cw: "ag_mem_written (rs_metrics ?s) = ag_mem_written (rs_metrics s) + (if pl_write_memory pl then 1 else 0)"
    "ag_mem_read (rs_metrics ?s) = ag_mem_read (rs_metrics s)" "rs_text ?s = G n (rs_text s) ?mt"
    by (simp_all add: count_written_def)
  have "set ns \<subseteq> ex_name ` set (pl_experts pl)" using Cons.prems by simp
  from Cons.IH [OF this, of ?s w2] obtain s' w' where l: "cascade_loop pl ns ?s w2 = (Inr s', w')"
    and t: "rs_text s' = text_chain G (step_tokens pl ?s) (pl_max_tokens pl) ns (rs_text ?s)"
    and m: "ag_mem_written (rs_metrics s') =
       ag_mem_written (rs_metrics ?s) + (if pl_write_memory pl then int (length ns) else 0)"
      "ag_mem_read (rs_metrics s') = ag_mem_read (rs_metrics ?s)"
    by blast
  show ?case
  proof (intro exI conjI)
    show "cascade_loop pl (n # ns) s w = (Inr s', w')"
      unfolding cascade_loop.simps bnd_apply st using l by simp
    show "rs_text s' = text_chain G (step_tokens pl s) (pl_max_tokens pl) (n # ns) (rs_text s)"
      unfolding t mt cw by simp
    show "ag_mem_written (rs_metrics s') =
       ag_mem_written (rs_metrics s) + (if pl_write_memory pl then int (length (n # ns)) else 0)"
      unfolding m cw by simp
    show "ag_mem_read (rs_metrics s') = ag_mem_read (rs_metrics s)"
      unfolding m cw by simp
  qed
qed

text \<open>
  The KV hand-off of phase 2. When every expert has a latent backend whose encoder does not fail,
  the cache that reaches the end of a run without text fallback stands for the first cache's text
  followed by every expert's output.
\<close>

definition latent_pool :: "'w pipeline \<Rightarrow> bool" where
  "latent_pool pl \<longleftrightarrow>
     (\<forall>e\<in>set (pl_experts pl). ex_supports_kv e \<and>
        latent_backend (bk_encode (ex_backend e)) (bk_transfer_cache (ex_backend e)) \<and>
        (\<forall>p. nofail (bk_encode (ex_backend e) p)))"

lemma latent_invoke_cache:
  assumes "latent_pool pl" and "e \<in> set (pl_experts pl)"
    and "expert_invoke ck e prompt cache mt w = (Inr (out, oc, m), w')"
  shows "\<exists>c'. oc = Some c' \<and> source_text c' = invoked_text e prompt cache @ nl @ out \<and> kv_wf c'"
proof -
  have sup: "ex_supports_kv e"
    and lat: "latent_backend (bk_encode (ex_backend e)) (bk_transfer_cache (ex_backend e))"
    and enc: "\<And>p. nofail (bk_encode (ex_backend e) p)"
    using assms(1,2) by (auto simp: latent_pool_def)
  have "oc \<noteq> None"
  proof
    assume "oc = None"
    with assms(3) obtain eff v v' where "output_cache e eff out v = (Inr None, v')"
      by (cases cache) (fastforce simp: expert_invoke_def invoke_tail_def Let_def split: if_splits)+
    moreover obtain c u where "bk_encode (ex_backend e) (eff @ nl @ out) v = (Inr c, u)"
      using enc by (rule nofailE)
    ultimately show False
      using sup by (simp add: output_cache_def try_except_def bnd_apply)
  qed
  then obtain c' where oc: "oc = Some c'" by blast
  obtain v v' where "bk_encode (ex_backend e) (invoked_text e prompt cache @ nl @ out) v = (Inr c', v')"
    using expert_invoke_text [OF assms(3) [unfolded oc]] by blast
  from latent_backend.encode_text [OF lat this] oc show ?thesis by simp
qed

lemma kv_later_text_mode:
  "kv_later pl e mt cache txt True w = (Inr (r, tm), w') \<Longrightarrow> tm"
  by (auto simp: kv_later_def)

lemma kv_later_cache:
  assumes "latent_pool pl" and "e \<in> set (pl_experts pl)"
    and "kv_later pl e mt (Some c) txt tm w = (Inr ((out, oc, m), False), w')"
  shows "\<exists>c'. oc = Some c' \<and> source_text c' = source_text c @ nl @ out"
proof -
  have tm: "\<not> tm" using assms(3) kv_later_text_mode by (cases tm) auto
  with assms(3) have "expert_invoke (pl_clocks pl) e None (Some c) mt w = (Inr (out, oc, m), w')"
    by (auto simp: kv_later_def split: if_splits)
  from latent_invoke_cache [OF assms(1,2) this] show ?thesis by (auto simp: invoked_text_def)
qed

lemma kv_step_later:
  assumes "kv_step pl prompt False n l s w = (Inr s', w')" and "rs_cache s = Some c"
    and "latent_pool pl" and "\<not> rs_text_mode s'"
  shows "\<exists>c'. rs_cache s' = Some c' \<and> source_text c' = source_text c @ nl @ rs_text s' \<and> \<not> rs_text_mode s"
proof -
  obtain e r tm v v' where e: "get_expert (pl_experts pl) n = Inr e"
    and k: "kv_later pl e (step_tokens pl s) (Some c) (rs_text s) (rs_text_mode s) v = (Inr (r, tm), v')"
    and f: "kv_finish_step pl e l s r (Some c) tm 0 v' = (Inr s', w')"
    using assms(1,2) by (auto simp: kv_step_def split: prod.splits)
  obtain out oc m where r: "r = (out, oc, m)" by (cases r)
  have s': "rs_text s' = out" "rs_cache s' = oc" "rs_text_mode s' = tm"
    using f unfolding r by (auto simp: kv_finish_step_def Let_def)
  with assms(4) have tm: "tm = False" by simp
  have em: "e \<in> set (pl_experts pl)" using get_expert_Inr [OF e] by simp
  have "\<not> rs_text_mode s"
    using k tm kv_later_text_mode by (metis (full_types))
  with kv_later_cache [OF assms(3) em k [unfolded r tm]] s' show ?thesis by auto
qed

lemma kv_loop_later:
  assumes "kv_loop pl prompt False ns s w = (Inr s', w')" and "rs_cache s = Some c"
    and "latent_pool pl" and "\<not> rs_text_mode s'"
  shows "\<exists>c' outs. rs_cache s' = Some c' \<and> length outs = length ns \<and> \<not> rs_text_mode s \<and>
     source_text c' = source_text c @ concat (map (\<lambda>t. nl @ t) outs) \<and>
     (ns \<noteq> [] \<longrightarrow> rs_text s' = last outs)"
  using assms(1,2)
proof (induction ns arbitrary: s w c)
  case Nil
  with assms(4) show ?case by simp
next
  case (Cons n ns)
  then obtain s1 v where st: "kv_step pl prompt False n (ns = []) s w = (Inr s1, v)"
    and lp: "kv_loop pl prompt False ns s1 v = (Inr s', w')" by auto
  have "\<not> rs_text_mode s1 \<and> rs_cache s1 \<noteq> None"
  proof -
    obtain e r tm u u' where e: "get_expert (pl_experts pl) n = Inr e"
      and k: "kv_later pl e (step_tokens pl s) (Some c) (rs_text s) (rs_text_mode s) u = (Inr (r, tm), u')"
      and f: "kv_finish_step pl e (ns = []) s r (Some c) tm 0 u' = (Inr s1, v)"
      using st Cons.prems(2) by (auto simp: kv_step_def split: prod.splits)
    obtain out oc m where r: "r = (out, oc, m)" by (cases r)
    have em: "e \<in> set (pl_experts pl)" using get_expert_Inr [OF e] by simp
    have oc: "oc \<noteq> None"
      using k latent_invoke_cache [OF assms(3) em]
      unfolding r kv_later_def invoke_expert_def
      by (fastforce split: if_splits)
    have s1: "rs_cache s1 = oc" using f unfolding r by (auto simp: kv_finish_step_def Let_def)
    with oc obtain d where d: "rs_cache s1 = Some d" by auto
    from Cons.IH [OF lp d] d show ?thesis by blast
  qed
  then obtain d where d: "rs_cache s1 = Some d" and tm: "\<not> rs_text_mode s1" by blast
  from kv_step_later [OF st Cons.prems(2) assms(3) tm] d
  have t: "source_text d = source_text c @ nl @ rs_text s1" "\<not> rs_text_mode s" by auto
  from Cons.IH [OF lp d] obtain c' outs where o: "rs_cache s' = Some c'" "length outs = length ns"
    "source_text c' = source_text d @ concat (map (\<lambda>t. nl @ t) outs)" "ns \<noteq> [] \<longrightarrow> rs_text s' = last outs"
    by blast
  have "ns = [] \<longrightarrow> s' = s1" using lp by auto
  with o t show ?case
    by (intro exI [of _ c'] exI [of _ "rs_text s1 # outs"]) auto
qed

section \<open>A small instance\<close>

text \<open>
  Experts on a backend that answers by appending a tag, whose caches have no layers, and whose
  transfer fails when asked to; no memory. The state is unit.
\<close>

definition tag_cache :: "pystr \<Rightarrow> kv_cache" where
  "tag_cache p =
     \<lparr>kv_keys = [], kv_values = [], source_model = [], source_layer_count = 0, source_hidden_size = 0,
      source_n_heads = 0, source_text = p, last_token_id = 0, position = 0, kv_metadata = []\<rparr>"

definition tag_backend :: "bool \<Rightarrow> pystr \<Rightarrow> unit backend" where
  "tag_backend fails tag =
     \<lparr>bk_params_m = IsInt 1000, bk_resolved_params_m = NoAttr, bk_capabilities = mock_capabilities,
      bk_model_id = tag, bk_generate = (\<lambda>p _. ret (p @ tag)), bk_encode = (\<lambda>p. ret (tag_cache p)),
      bk_decode = (\<lambda>c _. ret (source_text c @ tag)),
      bk_transfer_cache = (\<lambda>c. if fails then raise IncompatibleCacheError else ret c),
      bk_count_tokens = None\<rparr>"

definition tag_expert :: "bool \<Rightarrow> pystr \<Rightarrow> unit expert" where
  "tag_expert fails nm =
     \<lparr>ex_name = nm, ex_role = GENERALIST, ex_backend = tag_backend fails nm, ex_description = [], ex_tags = []\<rparr>"

definition tag_pipeline :: "bool \<Rightarrow> bool \<Rightarrow> unit pipeline" where
  "tag_pipeline fails fallback =
     \<lparr>pl_experts = [tag_expert False (lit ''a''), tag_expert fails (lit ''b'')],
      pl_memory = \<lparr>mo_write = (\<lambda>_. ret []), mo_retrieve = (\<lambda>_ _. ret [])\<rparr>,
      pl_cost = \<lparr>input_per_1m = 1, output_per_1m = 1, per_1m_params_per_1k_tokens = 0\<rparr>,
      pl_clocks = \<lparr>ck_perf = (\<lambda>w. (0, w)), ck_wall = (\<lambda>w. (0, w))\<rparr>,
      pl_sequence = [lit ''a'', lit ''b''], pl_max_tokens = 256, pl_write_memory = True,
      pl_retrieve_k = 2, pl_fallback = fallback\<rparr>"

lemma tag_backend_simps [simp]:
  "bk_generate (tag_backend f t) p mt = ret (p @ t)" "bk_encode (tag_backend f t) p = ret (tag_cache p)"
  "bk_decode (tag_backend f t) c mt = ret (source_text c @ t)"
  "bk_transfer_cache (tag_backend f t) c = (if f then raise IncompatibleCacheError else ret c)"
  "bk_count_tokens (tag_backend f t) = None" "supports_kv_cache (bk_capabilities (tag_backend f t))"
  by (simp_all add: tag_backend_def mock_capabilities_def)

lemma tag_expert_simps [simp]:
  "ex_name (tag_expert f n) = n" "ex_backend (tag_expert f n) = tag_backend f n"
  "ex_supports_kv (tag_expert f n)" "source_text (tag_cache p) = p"
  by (simp_all add: tag_expert_def ex_supports_kv_def tag_cache_def)

lemma tag_pipeline_ok:
  "pipeline_ok (tag_pipeline f b)" "memory_total (tag_pipeline f b)" "models_total (tag_pipeline f b)"
  "pl_fallback (tag_pipeline f b) = b" "pl_experts (tag_pipeline f b) =
     [tag_expert False (lit ''a''), tag_expert f (lit ''b'')]"
  by (simp_all add: tag_pipeline_def pipeline_ok_def memory_total_def models_total_def nofail_def)

section \<open>Properties\<close>

text \<open>C5: What a finished run reports, for all three pipelines: the experts invoked are the
  configured sequence (phases 1 and 2) or the routed names, one metrics record each, in order, and
  the aggregate is exactly their sum, its cost that of the summed tokens. But \<open>kv_cache_failures\<close> is
  always 0 and \<open>latent_nuance_score\<close> is 1 as soon as one transfer succeeded, because a failed
  transfer is recorded as not used; and \<open>epu\<close> is always 1 (or 0 without parameters), since the
  list handed to \<open>finalize\<close> repeats an expert as often as it was invoked.\<close>

theorem pipelines_report:
  assumes "cascade_run pl prompt kwarg w = (Inr r1, w1) \<or> kv_run pl prompt kwarg w = (Inr r1, w1)"
    and "routing_run pl router th prompt kwarg v = (Inr r2, v2)"
    and "router prompt (pl_experts pl) v = (Inr routed, v1)"
  shows "final_report pl (pl_sequence pl) r1 \<and>
         final_report pl (if routed = [] then routing_fallback (pl_experts pl) else routed) r2"
proof
  show "final_report pl (pl_sequence pl) r1"
    using assms(1) cascade_run_report kv_run_report by (elim disjE)
  show "final_report pl (if routed = [] then routing_fallback (pl_experts pl) else routed) r2"
    using assms(2,3) by (rule routing_run_report)
qed

theorem pipelines_report_witness:
  "\<exists>r1 r2. final_report (tag_pipeline True True) [lit ''a'', lit ''b''] r1 \<and>
           final_report (tag_pipeline True True) [lit ''b''] r2"
proof -
  let ?pl = "tag_pipeline True True"
  have sq: "pl_sequence ?pl = [lit ''a'', lit ''b'']" by (simp add: tag_pipeline_def)
  have names: "set (pl_sequence ?pl) \<subseteq> ex_name ` set (pl_experts ?pl)"
    using tag_pipeline_ok(1) by (simp add: pipeline_ok_def)
  have fb: "pl_fallback ?pl" by (simp add: tag_pipeline_ok)
  have "nofail (kv_run ?pl [] None)"
    unfolding kv_run_def
    by (intro nofail_intros nofail_remember_prompt nofail_kv_loop tag_pipeline_ok(2,3) fb names)
  then obtain r1 w1 where r1: "kv_run ?pl [] None () = (Inr r1, w1)" by (rule nofailE)
  have b: "set [lit ''b''] \<subseteq> ex_name ` set (pl_experts ?pl)" "pl_experts ?pl \<noteq> []" "pl_fallback ?pl"
    by (simp_all add: tag_pipeline_ok)
  have rt: "(\<lambda>_ _. ret [lit ''b'']) [] (pl_experts ?pl) () = (Inr [lit ''b''], ())" by simp
  obtain r2 w2 where r2: "routing_run ?pl (\<lambda>_ _. ret [lit ''b'']) True [] None () = (Inr r2, w2)"
    using routing_run_returns [where router = "\<lambda>_ _. ret [lit ''b'']", OF b(2) tag_pipeline_ok(2,3) b(3) rt b(1)]
    by blast
  from pipelines_report [OF disjI2 [OF r1] r2 rt] show ?thesis by (auto simp: sq)
qed

text \<open>C7: Phase 2 is robust: for a well-formed pipeline with text fallback whose memory and models do
  not raise when generating or decoding, \<open>run\<close> returns a result whatever \<open>encode\<close>,
  \<open>transfer_cache\<close> and \<open>count_tokens\<close> do, in whatever state the backends are, and so does phase 1.\<close>

theorem kv_run_returns:
  assumes "pipeline_ok pl" and "memory_total pl" and "models_total pl" and "pl_fallback pl"
  shows "(\<exists>r w'. kv_run pl prompt kwarg w = (Inr r, w')) \<and>
         (\<exists>r w'. cascade_run pl prompt kwarg w = (Inr r, w'))"
proof -
  have names: "set (pl_sequence pl) \<subseteq> ex_name ` set (pl_experts pl)"
    using assms(1) by (simp add: pipeline_ok_def)
  have "nofail (kv_run pl prompt kwarg)" "nofail (cascade_run pl prompt kwarg)"
    unfolding kv_run_def cascade_run_def
    by (intro nofail_intros nofail_remember_prompt nofail_kv_loop nofail_cascade_loop assms names)+
  then show ?thesis by (simp add: nofail_def)
qed

theorem kv_run_returns_witness:
  "\<exists>r w'. kv_run (tag_pipeline True True) (lit ''hi'') (Some 5) () = (Inr r, w')"
  using kv_run_returns [OF tag_pipeline_ok(1-3), of True True "lit ''hi''" "Some 5" "()"]
  by (simp add: tag_pipeline_ok)







end
