(* ===== verification/Obs_Circuit.thy ===== *)
theory Obs_Circuit
  imports Chen_Prelude
begin

text \<open>
  \<open>chen/observability/circuit_breaker.py\<close>: the breaker of one backend and the registry.

  Every method runs under the breaker's lock, so a method is one atomic step on the record
  \<open>breaker\<close>; threads interleave between steps. \<open>time.time()\<close> is an argument of the step
  (\<open>__enter__\<close> reads the clock twice, hence two arguments). Logging is left out.

  The relation \<open>cb_step\<close> adds the environment: a clock that does not run backwards and the
  number of calls that have entered the \<open>with\<close> block and not left it, so that the exits of
  calls admitted earlier interleave with everything else.
\<close>

section \<open>State\<close>

datatype circuit_state = CLOSED | OPEN | HALF_OPEN

fun circuit_value :: "circuit_state \<Rightarrow> pystr" where
  "circuit_value CLOSED = lit ''closed''"
| "circuit_value OPEN = lit ''open''"
| "circuit_value HALF_OPEN = lit ''half_open''"

record breaker =
  cb_name :: pystr
  cb_threshold :: int
  cb_cooldown :: real
  cb_success_threshold :: int
  cb_state :: circuit_state
  cb_failures :: int
  cb_successes :: int
  cb_last_failure :: real

record open_error =
  err_name :: pystr
  err_state :: circuit_state
  err_retry_after :: real

definition new_breaker :: "pystr \<Rightarrow> int \<Rightarrow> real \<Rightarrow> int \<Rightarrow> breaker" where
  "new_breaker name threshold cooldown success_threshold =
     \<lparr>cb_name = name, cb_threshold = threshold, cb_cooldown = cooldown,
      cb_success_threshold = success_threshold, cb_state = CLOSED, cb_failures = 0,
      cb_successes = 0, cb_last_failure = 0\<rparr>"

section \<open>Operations\<close>

definition maybe_transition :: "real \<Rightarrow> breaker \<Rightarrow> breaker" where
  "maybe_transition now b =
     (if cb_state b = OPEN \<and> now - cb_last_failure b \<ge> cb_cooldown b
      then b\<lparr>cb_state := HALF_OPEN, cb_successes := 0\<rparr> else b)"

definition read_state :: "real \<Rightarrow> breaker \<Rightarrow> circuit_state \<times> breaker" where
  "read_state now b = (let b' = maybe_transition now b in (cb_state b', b'))"

definition cb_enter :: "real \<Rightarrow> real \<Rightarrow> breaker \<Rightarrow> (open_error + unit) \<times> breaker" where
  "cb_enter now now' b =
     (let b' = maybe_transition now b in
      if cb_state b' = OPEN
      then (Inl \<lparr>err_name = cb_name b', err_state = cb_state b',
                 err_retry_after = max 0 (cb_cooldown b' - (now' - cb_last_failure b'))\<rparr>, b')
      else (Inr (), b'))"

definition on_success :: "breaker \<Rightarrow> breaker" where
  "on_success b =
     (case cb_state b of
        HALF_OPEN \<Rightarrow>
          (let b' = b\<lparr>cb_successes := cb_successes b + 1\<rparr> in
           if cb_successes b' \<ge> cb_success_threshold b'
           then b'\<lparr>cb_state := CLOSED, cb_failures := 0\<rparr> else b')
      | CLOSED \<Rightarrow> b\<lparr>cb_failures := 0\<rparr>
      | OPEN \<Rightarrow> b)"

definition on_failure :: "real \<Rightarrow> breaker \<Rightarrow> breaker" where
  "on_failure now b =
     (let b = b\<lparr>cb_last_failure := now\<rparr> in
      case cb_state b of
        HALF_OPEN \<Rightarrow> b\<lparr>cb_state := OPEN\<rparr>
      | CLOSED \<Rightarrow>
          (let b' = b\<lparr>cb_failures := cb_failures b + 1\<rparr> in
           if cb_failures b' \<ge> cb_threshold b' then b'\<lparr>cb_state := OPEN\<rparr> else b')
      | OPEN \<Rightarrow> b)"

text \<open>\<open>__exit__\<close>: \<open>ok\<close> is \<open>exc_type is None\<close>.\<close>

definition cb_exit :: "bool \<Rightarrow> real \<Rightarrow> breaker \<Rightarrow> breaker" where
  "cb_exit ok now b = (if ok then on_success b else on_failure now b)"

definition cb_reset :: "breaker \<Rightarrow> breaker" where
  "cb_reset b = b\<lparr>cb_state := CLOSED, cb_failures := 0, cb_successes := 0\<rparr>"

record breaker_dict =
  bd_name :: pystr
  bd_state :: pystr
  bd_failure_count :: int
  bd_success_count :: int
  bd_threshold :: int
  bd_cooldown :: real
  bd_last_failure_ago :: "real option"

definition cb_to_dict :: "real \<Rightarrow> real \<Rightarrow> breaker \<Rightarrow> breaker_dict \<times> breaker" where
  "cb_to_dict now now' b =
     (let b' = maybe_transition now b in
      (\<lparr>bd_name = cb_name b', bd_state = circuit_value (cb_state b'),
        bd_failure_count = cb_failures b', bd_success_count = cb_successes b',
        bd_threshold = cb_threshold b', bd_cooldown = cb_cooldown b',
        bd_last_failure_ago =
          (if cb_last_failure b' > 0 then Some (now' - cb_last_failure b') else None)\<rparr>, b'))"

text \<open>One guarded call: \<open>with breaker: f()\<close>; \<open>ok\<close> says whether \<open>f\<close> returned.\<close>

definition guarded_call ::
  "bool \<Rightarrow> real \<Rightarrow> real \<Rightarrow> real \<Rightarrow> breaker \<Rightarrow> (open_error + unit) \<times> breaker" where
  "guarded_call ok now now' fin b =
     (case cb_enter now now' b of
        (Inl e, b') \<Rightarrow> (Inl e, b')
      | (Inr u, b') \<Rightarrow> (Inr u, cb_exit ok fin b'))"

section \<open>Registry\<close>

type_synonym registry = "(pystr \<times> breaker) list"

definition get_or_create ::
  "pystr \<Rightarrow> int \<Rightarrow> real \<Rightarrow> registry \<Rightarrow> breaker \<times> registry" where
  "get_or_create name threshold cooldown reg =
     (case map_of reg name of
        Some b \<Rightarrow> (b, reg)
      | None \<Rightarrow> (let b = new_breaker name threshold cooldown 1
                in (b, AList.update name b reg)))"

definition registry_get :: "pystr \<Rightarrow> registry \<Rightarrow> breaker option" where
  "registry_get name reg = map_of reg name"

text \<open>\<open>list_all\<close> calls \<open>to_dict\<close> on each breaker in turn, which may move it to half-open.\<close>

fun list_all_breakers :: "real \<Rightarrow> registry \<Rightarrow> breaker_dict list \<times> registry" where
  "list_all_breakers now [] = ([], [])"
| "list_all_breakers now ((n, b) # reg) =
     (let (d, b') = cb_to_dict now now b; (ds, reg') = list_all_breakers now reg
      in (d # ds, (n, b') # reg'))"

definition reset_all :: "registry \<Rightarrow> registry" where
  "reset_all reg = map (\<lambda>(n, b). (n, cb_reset b)) reg"

section \<open>Invariant\<close>

text \<open>
  What the constructor and the methods keep true between the fields, for thresholds of at
  least one: a closed breaker has not reached its failure threshold, a half-open one has not
  reached its success threshold, and counters are not negative.
\<close>

definition cb_inv :: "breaker \<Rightarrow> bool" where
  "cb_inv b \<longleftrightarrow>
     1 \<le> cb_threshold b \<and> 1 \<le> cb_success_threshold b \<and>
     0 \<le> cb_failures b \<and> 0 \<le> cb_successes b \<and> cb_failures b \<le> cb_threshold b \<and>
     (cb_state b = CLOSED \<longrightarrow> cb_failures b < cb_threshold b) \<and>
     (cb_state b = HALF_OPEN \<longrightarrow> cb_successes b < cb_success_threshold b)"

lemmas cb_ops = maybe_transition_def read_state_def cb_enter_def on_success_def
  on_failure_def cb_exit_def cb_reset_def cb_to_dict_def Let_def

lemma new_breaker_inv [inv_intros]:
  "1 \<le> threshold \<Longrightarrow> 1 \<le> st \<Longrightarrow> cb_inv (new_breaker name threshold cooldown st)"
  by (simp add: cb_inv_def new_breaker_def)

lemma maybe_transition_inv [inv_intros]: "cb_inv b \<Longrightarrow> cb_inv (maybe_transition now b)"
  by (simp add: cb_inv_def maybe_transition_def)

lemma on_success_inv [inv_intros]: "cb_inv b \<Longrightarrow> cb_inv (on_success b)"
  by (cases "cb_state b") (auto simp: cb_inv_def on_success_def Let_def)

lemma on_failure_inv [inv_intros]: "cb_inv b \<Longrightarrow> cb_inv (on_failure now b)"
  by (cases "cb_state b") (auto simp: cb_inv_def on_failure_def Let_def)

lemma cb_exit_inv [inv_intros]: "cb_inv b \<Longrightarrow> cb_inv (cb_exit ok now b)"
  by (simp add: cb_exit_def inv_intros)

lemma cb_reset_inv [inv_intros]: "cb_inv b \<Longrightarrow> cb_inv (cb_reset b)"
  by (auto simp: cb_inv_def cb_reset_def)

lemma snd_cb_enter [simp]: "snd (cb_enter now now' b) = maybe_transition now b"
  by (simp add: cb_enter_def Let_def)

lemma snd_cb_to_dict [simp]: "snd (cb_to_dict now now' b) = maybe_transition now b"
  by (simp add: cb_to_dict_def Let_def)

lemma cb_enter_inv [inv_intros]: "cb_inv b \<Longrightarrow> cb_inv (snd (cb_enter now now' b))"
  by (simp add: inv_intros)

lemma cb_to_dict_inv [inv_intros]: "cb_inv b \<Longrightarrow> cb_inv (snd (cb_to_dict now now' b))"
  by (simp add: inv_intros)

text \<open>Fields no method writes.\<close>

lemma maybe_transition_frame [simp]:
  "cb_threshold (maybe_transition now b) = cb_threshold b"
  "cb_cooldown (maybe_transition now b) = cb_cooldown b"
  "cb_success_threshold (maybe_transition now b) = cb_success_threshold b"
  "cb_last_failure (maybe_transition now b) = cb_last_failure b"
  "cb_failures (maybe_transition now b) = cb_failures b"
  "cb_name (maybe_transition now b) = cb_name b"
  by (simp_all add: maybe_transition_def)

section \<open>Breakers in an environment of threads\<close>

record cb_world =
  w_breaker :: breaker
  w_clock :: real
  w_inflight :: nat

inductive cb_step :: "cb_world \<Rightarrow> cb_world \<Rightarrow> bool" where
  tick: "w_clock w \<le> t \<Longrightarrow> cb_step w (w\<lparr>w_clock := t\<rparr>)"
| admit: "cb_enter (w_clock w) now' (w_breaker w) = (Inr (), b) \<Longrightarrow>
     cb_step w (w\<lparr>w_breaker := b, w_inflight := Suc (w_inflight w)\<rparr>)"
| reject: "cb_enter (w_clock w) now' (w_breaker w) = (Inl e, b) \<Longrightarrow>
     cb_step w (w\<lparr>w_breaker := b\<rparr>)"
| leave: "w_inflight w = Suc n \<Longrightarrow>
     cb_step w (w\<lparr>w_breaker := cb_exit ok (w_clock w) (w_breaker w), w_inflight := n\<rparr>)"
| observe: "cb_step w (w\<lparr>w_breaker := maybe_transition (w_clock w) (w_breaker w)\<rparr>)"
| manual_reset: "cb_step w (w\<lparr>w_breaker := cb_reset (w_breaker w)\<rparr>)"

inductive_cases cb_stepE: "cb_step w w'"

inductive cb_reach :: "breaker \<Rightarrow> cb_world \<Rightarrow> bool" for b0 where
  start: "0 \<le> t \<Longrightarrow> cb_reach b0 \<lparr>w_breaker = b0, w_clock = t, w_inflight = 0\<rparr>"
| advance: "cb_reach b0 w \<Longrightarrow> cb_step w w' \<Longrightarrow> cb_reach b0 w'"

definition cb_world_inv :: "cb_world \<Rightarrow> bool" where
  "cb_world_inv w \<longleftrightarrow>
     cb_inv (w_breaker w) \<and> 0 \<le> w_clock w \<and> cb_last_failure (w_breaker w) \<le> w_clock w"

lemma cb_last_failure_ops [simp]:
  "cb_last_failure (on_success b) = cb_last_failure b"
  "cb_last_failure (on_failure now b) = now"
  "cb_last_failure (cb_reset b) = cb_last_failure b"
  by (cases "cb_state b"; simp add: on_success_def on_failure_def cb_reset_def Let_def)+

lemma cb_exit_last_failure:
  "cb_last_failure (cb_exit ok now b) = (if ok then cb_last_failure b else now)"
  by (simp add: cb_exit_def)

lemma cb_enter_snd: "cb_enter now now' b = (r, b') \<Longrightarrow> b' = maybe_transition now b"
  by (metis snd_cb_enter snd_conv)

lemma cb_step_world_inv:
  assumes "cb_step w w'" and "cb_world_inv w"
  shows "cb_world_inv w'"
  using assms
  by (cases rule: cb_step.cases)
     (auto simp: cb_world_inv_def cb_exit_last_failure dest!: cb_enter_snd intro: inv_intros)

lemma cb_reach_world_inv:
  "cb_reach b0 w \<Longrightarrow> cb_inv b0 \<Longrightarrow> cb_last_failure b0 \<le> 0 \<Longrightarrow> cb_world_inv w"
proof (induction rule: cb_reach.induct)
  case (start t)
  then show ?case by (simp add: cb_world_inv_def)
next
  case (advance w w')
  then show ?case by (blast intro: cb_step_world_inv)
qed

text \<open>The same invariant for a breaker driven by a sequence of method calls.\<close>

datatype cb_op = Enter real real | Exit bool real | Observe real | Reset

fun cb_apply :: "cb_op \<Rightarrow> breaker \<Rightarrow> breaker" where
  "cb_apply (Enter now now') b = snd (cb_enter now now' b)"
| "cb_apply (Exit ok now) b = cb_exit ok now b"
| "cb_apply (Observe now) b = snd (read_state now b)"
| "cb_apply Reset b = cb_reset b"

lemma cb_apply_inv [inv_intros]: "cb_inv b \<Longrightarrow> cb_inv (cb_apply x b)"
  by (cases x) (auto simp: read_state_def Let_def intro: inv_intros)

interpretation cb: stepper cb_apply cb_inv
  by unfold_locales (rule inv_intros)

section \<open>Opening, failing fast, recovering\<close>

text \<open>The \<open>n\<close> failures of \<open>n\<close> calls that were admitted one after the other.\<close>

fun fail_times :: "real list \<Rightarrow> breaker \<Rightarrow> breaker" where
  "fail_times [] b = b"
| "fail_times (t # ts) b = fail_times ts (snd (guarded_call False t t t b))"

fun succeed_times :: "real list \<Rightarrow> breaker \<Rightarrow> breaker" where
  "succeed_times [] b = b"
| "succeed_times (t # ts) b = succeed_times ts (snd (guarded_call True t t t b))"

lemma guarded_call_closed_failure:
  assumes "cb_state b = CLOSED"
  shows "guarded_call False t t' u b = (Inr (), on_failure u b)"
  using assms by (simp add: guarded_call_def cb_enter_def maybe_transition_def cb_exit_def Let_def)

lemma on_failure_closed:
  assumes "cb_state b = CLOSED"
  shows "cb_state (on_failure now b) =
           (if cb_failures b + 1 \<ge> cb_threshold b then OPEN else CLOSED)"
    and "cb_failures (on_failure now b) = cb_failures b + 1"
    and "cb_threshold (on_failure now b) = cb_threshold b"
  using assms by (simp_all add: on_failure_def Let_def)

lemma fail_times_below_threshold:
  "cb_state b = CLOSED \<Longrightarrow> cb_failures b + int (length ts) < cb_threshold b \<Longrightarrow>
   cb_state (fail_times ts b) = CLOSED \<and>
   cb_failures (fail_times ts b) = cb_failures b + int (length ts) \<and>
   cb_threshold (fail_times ts b) = cb_threshold b"
proof (induction ts arbitrary: b)
  case Nil
  then show ?case by simp
next
  case (Cons t ts)
  then show ?case
    by (simp add: guarded_call_closed_failure on_failure_closed)
qed

lemma fail_times_append: "fail_times (ts @ us) b = fail_times us (fail_times ts b)"
  by (induction ts arbitrary: b) auto

lemma fail_times_threshold_opens:
  assumes "cb_state b = CLOSED" and "cb_failures b = 0"
    and "int (length ts) = cb_threshold b" and "ts \<noteq> []"
  shows "cb_state (fail_times ts b) = OPEN"
    and "cb_last_failure (fail_times ts b) = last ts"
proof -
  obtain us t where ts: "ts = us @ [t]"
    using assms(4) by (metis rev_exhaust)
  let ?b = "fail_times us b"
  have below: "cb_state ?b = CLOSED \<and> cb_failures ?b = int (length us) \<and>
               cb_threshold ?b = cb_threshold b"
    using fail_times_below_threshold [of b us] assms ts by simp
  have step: "fail_times ts b = on_failure t ?b"
    using below by (simp add: ts fail_times_append guarded_call_closed_failure)
  show "cb_state (fail_times ts b) = OPEN"
    unfolding step using below assms(3) ts by (simp add: on_failure_closed)
  show "cb_last_failure (fail_times ts b) = last ts"
    unfolding step by (simp add: ts)
qed

lemma cb_enter_open_rejects:
  assumes "cb_state b = OPEN" and "now - cb_last_failure b < cb_cooldown b"
  shows "cb_enter now now' b =
     (Inl \<lparr>err_name = cb_name b, err_state = OPEN,
          err_retry_after = max 0 (cb_cooldown b - (now' - cb_last_failure b))\<rparr>, b)"
  using assms by (simp add: cb_enter_def maybe_transition_def Let_def)

lemma cb_enter_admits_iff:
  "fst (cb_enter now now' b) = Inr () \<longleftrightarrow>
   cb_state b \<noteq> OPEN \<or> now - cb_last_failure b \<ge> cb_cooldown b"
  by (auto simp: cb_enter_def maybe_transition_def Let_def)

lemma guarded_call_half_open_success:
  assumes "cb_state b = HALF_OPEN"
  shows "guarded_call True t t' u b = (Inr (), on_success b)"
  using assms by (simp add: guarded_call_def cb_enter_def maybe_transition_def cb_exit_def Let_def)

lemma on_success_half_open:
  assumes "cb_state b = HALF_OPEN"
  shows "cb_state (on_success b) =
           (if cb_successes b + 1 \<ge> cb_success_threshold b then CLOSED else HALF_OPEN)"
    and "cb_successes (on_success b) = cb_successes b + 1"
    and "cb_success_threshold (on_success b) = cb_success_threshold b"
  using assms by (simp_all add: on_success_def Let_def)

lemma succeed_times_half_open:
  "cb_state b = HALF_OPEN \<Longrightarrow> cb_successes b + int (length ts) < cb_success_threshold b \<Longrightarrow>
   cb_state (succeed_times ts b) = HALF_OPEN \<and>
   cb_successes (succeed_times ts b) = cb_successes b + int (length ts) \<and>
   cb_success_threshold (succeed_times ts b) = cb_success_threshold b"
proof (induction ts arbitrary: b)
  case Nil
  then show ?case by simp
next
  case (Cons t ts)
  then show ?case
    by (simp add: guarded_call_half_open_success on_success_half_open)
qed

lemma succeed_times_append: "succeed_times (ts @ us) b = succeed_times us (succeed_times ts b)"
  by (induction ts arbitrary: b) auto

lemma succeed_times_closes:
  assumes "cb_state b = HALF_OPEN" and "cb_successes b = 0"
    and "int (length ts) = cb_success_threshold b" and "ts \<noteq> []"
  shows "cb_state (succeed_times ts b) = CLOSED \<and> cb_failures (succeed_times ts b) = 0"
proof -
  obtain us t where ts: "ts = us @ [t]"
    using assms(4) by (metis rev_exhaust)
  let ?b = "succeed_times us b"
  have below: "cb_state ?b = HALF_OPEN \<and> cb_successes ?b = int (length us) \<and>
               cb_success_threshold ?b = cb_success_threshold b"
    using succeed_times_half_open [of b us] assms ts by simp
  have "succeed_times ts b = on_success ?b"
    using below by (simp add: ts succeed_times_append guarded_call_half_open_success)
  then show ?thesis
    using below assms(3) ts by (simp add: on_success_def Let_def)
qed

lemma half_open_failure_reopens:
  "cb_state b = HALF_OPEN \<Longrightarrow>
   cb_state (on_failure now b) = OPEN \<and> cb_last_failure (on_failure now b) = now"
  by (simp add: on_failure_def Let_def)

section \<open>Registry facts\<close>

lemma get_or_create_registered:
  "map_of (snd (get_or_create name th cd reg)) name = Some (fst (get_or_create name th cd reg))"
  by (auto simp: get_or_create_def Let_def update_conv' split: option.splits)

lemma get_or_create_frame:
  "n \<noteq> name \<Longrightarrow> map_of (snd (get_or_create name th cd reg)) n = map_of reg n"
  by (auto simp: get_or_create_def Let_def update_conv' split: option.splits)

lemma get_or_create_twice:
  "get_or_create name th' cd' (snd (get_or_create name th cd reg)) =
   get_or_create name th cd reg"
  by (auto simp: get_or_create_def Let_def update_conv' split: option.splits)

lemma list_all_breakers_state:
  "snd (list_all_breakers now reg) = map (\<lambda>(n, b). (n, maybe_transition now b)) reg"
proof (induction reg)
  case Nil
  then show ?case by simp
next
  case (Cons nb reg)
  then show ?case
    by (cases nb) (auto simp: cb_to_dict_def Let_def split: prod.splits)
qed

lemma reset_all_closed:
  "(n, b) \<in> set (reset_all reg) \<Longrightarrow> cb_state b = CLOSED \<and> cb_failures b = 0 \<and> cb_successes b = 0"
  by (auto simp: reset_all_def cb_reset_def)

section \<open>Properties\<close>

text \<open>C1: In every state that threads can bring a fresh breaker to (calls entering, failing,
  succeeding and leaving in any interleaving, manual resets, reads, a clock that does not run
  backwards), a closed breaker has fewer failures than its threshold, a half-open one fewer
  successes than its success threshold, and the last failure is not in the future.\<close>

theorem breaker_reachable_invariant:
  assumes "cb_reach (new_breaker name threshold cooldown success_threshold) w"
    and "1 \<le> threshold" and "1 \<le> success_threshold"
  shows "(cb_state (w_breaker w) = CLOSED \<longrightarrow>
            cb_failures (w_breaker w) < cb_threshold (w_breaker w)) \<and>
         (cb_state (w_breaker w) = HALF_OPEN \<longrightarrow>
            cb_successes (w_breaker w) < cb_success_threshold (w_breaker w)) \<and>
         0 \<le> cb_failures (w_breaker w) \<and> cb_last_failure (w_breaker w) \<le> w_clock w"
proof -
  have "cb_world_inv w"
    using cb_reach_world_inv [OF assms(1) new_breaker_inv [OF assms(2,3)]]
    by (simp add: new_breaker_def)
  then show ?thesis by (auto simp: cb_world_inv_def cb_inv_def)
qed

theorem breaker_reachable_invariant_witness:
  "\<exists>w. cb_reach (new_breaker (lit ''b'') 1 30 1) w \<and> cb_state (w_breaker w) = OPEN \<and>
       0 \<le> cb_failures (w_breaker w) \<and> cb_last_failure (w_breaker w) \<le> w_clock w"
proof -
  let ?b = "new_breaker (lit ''b'') 1 30 1"
  let ?w0 = "\<lparr>w_breaker = ?b, w_clock = 5, w_inflight = 0\<rparr>"
  let ?w1 = "?w0\<lparr>w_breaker := ?b, w_inflight := Suc (w_inflight ?w0)\<rparr>"
  let ?w2 = "?w1\<lparr>w_breaker := cb_exit False (w_clock ?w1) (w_breaker ?w1), w_inflight := 0\<rparr>"
  have r0: "cb_reach ?b ?w0" by (rule cb_reach.start) simp
  have "cb_step ?w0 ?w1"
    by (rule cb_step.admit [where now' = 5])
       (simp add: cb_enter_def maybe_transition_def new_breaker_def Let_def)
  with r0 have r1: "cb_reach ?b ?w1" by (rule cb_reach.advance)
  have "cb_step ?w1 ?w2" by (rule cb_step.leave) simp
  with r1 have r2: "cb_reach ?b ?w2" by (rule cb_reach.advance)
  have "cb_state (w_breaker ?w2) = OPEN"
    by (simp add: cb_exit_def on_failure_def new_breaker_def Let_def)
  with r2 breaker_reachable_invariant [OF r2] show ?thesis by auto
qed



text \<open>Once the cooldown has passed an open breaker admits calls again; \<open>st\<close> successful
  calls in a row (its success threshold) close it with the failure count cleared, and a failing
  one opens it again for a full cooldown.\<close>

theorem breaker_recovers:
  assumes "cb_state b = OPEN" and "cb_cooldown b \<le> now - cb_last_failure b"
    and "int (length ts) = cb_success_threshold b" and "ts \<noteq> []"
  shows "\<exists>b'. cb_enter now now' b = (Inr (), b') \<and> cb_state b' = HALF_OPEN \<and>
           cb_state (succeed_times ts b') = CLOSED \<and> cb_failures (succeed_times ts b') = 0 \<and>
           cb_state (cb_exit False now b') = OPEN \<and>
           cb_last_failure (cb_exit False now b') = now"
proof -
  let ?b = "maybe_transition now b"
  have h: "cb_state ?b = HALF_OPEN" "cb_successes ?b = 0"
    using assms(1,2) by (simp_all add: maybe_transition_def)
  have "cb_enter now now' b = (Inr (), ?b)"
    using h by (simp add: cb_enter_def Let_def)
  moreover have "cb_state (succeed_times ts ?b) = CLOSED \<and> cb_failures (succeed_times ts ?b) = 0"
    using succeed_times_closes [of ?b ts] h assms(3,4) by simp
  ultimately show ?thesis
    using half_open_failure_reopens [of ?b now] h by (auto simp: cb_exit_def)
qed

theorem breaker_recovers_witness:
  "\<exists>b'. cb_enter 40 40 (fail_times [1] (new_breaker (lit ''b'') 1 30 2)) = (Inr (), b') \<and>
        cb_state (succeed_times [41, 42] b') = CLOSED"
proof -
  let ?b = "fail_times [1] (new_breaker (lit ''b'') 1 30 2)"
  have "cb_state ?b = OPEN" "cb_cooldown ?b \<le> 40 - cb_last_failure ?b"
       "int (length [41::real, 42]) = cb_success_threshold ?b"
    by (simp_all add: guarded_call_def cb_enter_def maybe_transition_def cb_exit_def
        on_failure_def new_breaker_def Let_def)
  from breaker_recovers [OF this, of 40] show ?thesis by auto
qed

text \<open>Half-open does not mean one probe: while a breaker is half-open, any number of calls
  is admitted and in flight at once (\<open>__enter__\<close> keeps no count of probes).\<close>

theorem half_open_admits_any_number_of_probes:
  assumes "cb_state (w_breaker w) = HALF_OPEN"
  shows "cb_step\<^sup>*\<^sup>* w (w\<lparr>w_inflight := w_inflight w + k\<rparr>)"
proof (induction k)
  case 0
  then show ?case by simp
next
  case (Suc k)
  let ?w = "w\<lparr>w_inflight := w_inflight w + k\<rparr>"
  have "cb_enter (w_clock ?w) 0 (w_breaker ?w) = (Inr (), w_breaker ?w)"
    using assms by (simp add: cb_enter_def maybe_transition_def Let_def)
  then have "cb_step ?w (?w\<lparr>w_breaker := w_breaker ?w, w_inflight := Suc (w_inflight ?w)\<rparr>)"
    by (rule cb_step.admit)
  then have "cb_step ?w (w\<lparr>w_inflight := w_inflight w + Suc k\<rparr>)" by simp
  with Suc.IH show ?case by (rule rtranclp.rtrancl_into_rtrancl)
qed

theorem half_open_admits_any_number_of_probes_witness:
  "\<exists>b. cb_state b = HALF_OPEN \<and>
       cb_step\<^sup>*\<^sup>* \<lparr>w_breaker = b, w_clock = 40, w_inflight = 0\<rparr>
                \<lparr>w_breaker = b, w_clock = 40, w_inflight = 3\<rparr>"
proof -
  let ?b = "(new_breaker (lit ''b'') 1 30 1)\<lparr>cb_state := HALF_OPEN\<rparr>"
  let ?w = "\<lparr>w_breaker = ?b, w_clock = 40, w_inflight = 0\<rparr>"
  have "cb_step\<^sup>*\<^sup>* ?w (?w\<lparr>w_inflight := w_inflight ?w + 3\<rparr>)"
    by (rule half_open_admits_any_number_of_probes) simp
  then show ?thesis by (intro exI [of _ ?b]) simp
qed

end
