(* ===== verification/Obs_Audit.thy ===== *)
theory Obs_Audit
  imports Chen_Bytes
begin

text \<open>
  \<open>chen/observability/audit.py\<close>: the append-only, hash-chained audit log.

  The log file is the list of its lines. A line is represented by what \<open>from_jsonl\<close> makes of
  it: an entry, nothing (a blank line), or something that does not parse into an entry's fields.
  The two uses of SHA-256 are parameters: \<open>H\<close> is the digest of the canonical JSON of an entry's
  fields other than \<open>entry_hash\<close> (a function of those fields), \<open>T\<close> the digest of a text's UTF-8
  bytes. The theorems hold for every \<open>H\<close> and \<open>T\<close>; where the argument rests on collision
  resistance the collision is exhibited in the conclusion.
\<close>

section \<open>Entries and lines\<close>

record audit_entry =
  ae_seq :: int
  ae_timestamp :: real
  ae_run_id :: pystr
  ae_prompt_hash :: pystr
  ae_output_hash :: pystr
  ae_tenant_id :: pystr
  ae_prev_hash :: pystr
  ae_entry_hash :: pystr

datatype line = Entry audit_entry | Blank | Garbage

type_synonym log_file = "line list option"

text \<open>The fields that are hashed, in the order \<open>sort_keys\<close> gives them.\<close>

type_synonym audit_fields = "pystr \<times> pystr \<times> pystr \<times> pystr \<times> int \<times> pystr \<times> real"

definition canonical :: "audit_entry \<Rightarrow> audit_fields" where
  "canonical e = (ae_output_hash e, ae_prev_hash e, ae_prompt_hash e, ae_run_id e, ae_seq e,
                  ae_tenant_id e, ae_timestamp e)"

definition compute_hash :: "(audit_fields \<Rightarrow> pystr) \<Rightarrow> audit_entry \<Rightarrow> pystr" where
  "compute_hash H e = H (canonical e)"

section \<open>Operations\<close>

definition non_blank :: "line list \<Rightarrow> line list" where
  "non_blank ls = filter (\<lambda>l. l \<noteq> Blank) ls"

fun parse_line :: "line \<Rightarrow> audit_entry option" where
  "parse_line (Entry e) = Some e"
| "parse_line Blank = None"
| "parse_line Garbage = None"

definition last_entry :: "log_file \<Rightarrow> audit_entry option" where
  "last_entry f =
     (case f of None \<Rightarrow> None
      | Some ls \<Rightarrow> (if non_blank ls = [] then None else parse_line (last (non_blank ls))))"

datatype audit_error = UnicodeEncodeError

text \<open>
  \<open>record\<close>: the entry continues the chain of the last parseable line; nothing is written when a
  text cannot be encoded.
\<close>

definition new_entry ::
  "(audit_fields \<Rightarrow> pystr) \<Rightarrow> real \<Rightarrow> pystr \<Rightarrow> pystr \<Rightarrow> pystr \<Rightarrow> pystr \<Rightarrow>
   audit_entry option \<Rightarrow> audit_entry" where
  "new_entry H now run_id p_hash o_hash tenant lst =
     (let e0 = \<lparr>ae_seq = (case lst of None \<Rightarrow> 0 | Some l \<Rightarrow> ae_seq l + 1),
                ae_timestamp = now, ae_run_id = run_id, ae_prompt_hash = p_hash,
                ae_output_hash = o_hash, ae_tenant_id = tenant,
                ae_prev_hash = (case lst of None \<Rightarrow> [] | Some l \<Rightarrow> ae_entry_hash l),
                ae_entry_hash = []\<rparr>
      in e0\<lparr>ae_entry_hash := compute_hash H e0\<rparr>)"

lemma new_entry_simps [simp]:
  "ae_seq (new_entry H now r p q t lst) = (case lst of None \<Rightarrow> 0 | Some l \<Rightarrow> ae_seq l + 1)"
  "ae_timestamp (new_entry H now r p q t lst) = now"
  "ae_run_id (new_entry H now r p q t lst) = r"
  "ae_prompt_hash (new_entry H now r p q t lst) = p"
  "ae_output_hash (new_entry H now r p q t lst) = q"
  "ae_tenant_id (new_entry H now r p q t lst) = t"
  "ae_prev_hash (new_entry H now r p q t lst) =
     (case lst of None \<Rightarrow> [] | Some l \<Rightarrow> ae_entry_hash l)"
  by (simp_all add: new_entry_def Let_def)

lemma new_entry_hash:
  "ae_entry_hash (new_entry H now r p q t lst) = compute_hash H (new_entry H now r p q t lst)"
  by (simp add: new_entry_def Let_def compute_hash_def canonical_def)

definition record_entry ::
  "(audit_fields \<Rightarrow> pystr) \<Rightarrow> (bytes \<Rightarrow> pystr) \<Rightarrow> real \<Rightarrow> pystr \<Rightarrow> pystr \<Rightarrow> pystr \<Rightarrow> pystr \<Rightarrow>
   log_file \<Rightarrow> (audit_error + audit_entry) \<times> log_file" where
  "record_entry H T now run_id prompt outp tenant f =
     (case (utf8_encode prompt, utf8_encode outp) of
        (Some p, Some q) \<Rightarrow>
          (let e = new_entry H now run_id (T p) (T q) tenant (last_entry f)
           in (Inr e, Some ((case f of None \<Rightarrow> [] | Some ls \<Rightarrow> ls) @ [Entry e])))
      | _ \<Rightarrow> (Inl UnicodeEncodeError, f))"

fun verify_lines :: "(audit_fields \<Rightarrow> pystr) \<Rightarrow> pystr \<Rightarrow> int \<Rightarrow> line list \<Rightarrow> bool" where
  "verify_lines H prev_hash prev_seq [] = True"
| "verify_lines H prev_hash prev_seq (Blank # ls) = verify_lines H prev_hash prev_seq ls"
| "verify_lines H prev_hash prev_seq (Garbage # ls) = False"
| "verify_lines H prev_hash prev_seq (Entry e # ls) =
     (if ae_seq e \<noteq> prev_seq + 1 then False
      else if ae_prev_hash e \<noteq> prev_hash then False
      else if ae_entry_hash e \<noteq> compute_hash H e then False
      else verify_lines H (ae_entry_hash e) (ae_seq e) ls)"

definition verify_log :: "(audit_fields \<Rightarrow> pystr) \<Rightarrow> log_file \<Rightarrow> bool" where
  "verify_log H f = (case f of None \<Rightarrow> True | Some ls \<Rightarrow> verify_lines H [] (-1) ls)"

fun parse_all :: "line list \<Rightarrow> audit_entry list option" where
  "parse_all [] = Some []"
| "parse_all (l # ls) =
     (case parse_line l of None \<Rightarrow> None | Some e \<Rightarrow> map_option (Cons e) (parse_all ls))"

text \<open>\<open>tail(n)\<close>: \<open>lines[-n:]\<close>; \<open>None\<close> where a line does not parse and the call raises.\<close>

definition log_tail :: "int \<Rightarrow> log_file \<Rightarrow> audit_entry list option" where
  "log_tail n f = (case f of None \<Rightarrow> Some [] | Some ls \<Rightarrow> parse_all (py_drop (- n) (non_blank ls)))"

definition log_count :: "log_file \<Rightarrow> nat" where
  "log_count f = (case f of None \<Rightarrow> 0 | Some ls \<Rightarrow> length (non_blank ls))"

section \<open>The chain of entries\<close>

fun chain :: "(audit_fields \<Rightarrow> pystr) \<Rightarrow> pystr \<Rightarrow> int \<Rightarrow> audit_entry list \<Rightarrow> bool" where
  "chain H ph ps [] = True"
| "chain H ph ps (e # es) =
     (ae_seq e = ps + 1 \<and> ae_prev_hash e = ph \<and> ae_entry_hash e = compute_hash H e \<and>
      chain H (ae_entry_hash e) (ae_seq e) es)"

definition log_entries :: "log_file \<Rightarrow> audit_entry list" where
  "log_entries f = (case f of None \<Rightarrow> [] | Some ls \<Rightarrow> List.map_filter parse_line ls)"

definition last_hash :: "pystr \<Rightarrow> audit_entry list \<Rightarrow> pystr" where
  "last_hash ph es = (if es = [] then ph else ae_entry_hash (last es))"

lemma map_filter_parse_simps [simp]:
  "List.map_filter parse_line [] = []"
  "List.map_filter parse_line (Entry e # ls) = e # List.map_filter parse_line ls"
  "List.map_filter parse_line (Blank # ls) = List.map_filter parse_line ls"
  "List.map_filter parse_line (Garbage # ls) = List.map_filter parse_line ls"
  by (simp_all add: List.map_filter_simps)

lemma map_filter_parse_append [simp]:
  "List.map_filter parse_line (ls @ ms) =
   List.map_filter parse_line ls @ List.map_filter parse_line ms"
  by (simp add: List.map_filter_def)

lemma verify_lines_chain:
  "verify_lines H ph ps ls \<longleftrightarrow> Garbage \<notin> set ls \<and> chain H ph ps (List.map_filter parse_line ls)"
  by (induction H ph ps ls rule: verify_lines.induct) auto

lemma verify_log_chain:
  "verify_log H f \<longleftrightarrow>
   (case f of None \<Rightarrow> True | Some ls \<Rightarrow> Garbage \<notin> set ls) \<and> chain H [] (-1) (log_entries f)"
  by (simp add: verify_log_def log_entries_def verify_lines_chain split: option.split)

lemma chain_append:
  "chain H ph ps (es @ [e]) \<longleftrightarrow>
   chain H ph ps es \<and> ae_seq e = ps + int (length es) + 1 \<and>
   ae_prev_hash e = last_hash ph es \<and> ae_entry_hash e = compute_hash H e"
proof (induction es arbitrary: ph ps)
  case Nil
  then show ?case by (simp add: last_hash_def)
next
  case (Cons x es)
  then show ?case by (auto simp: last_hash_def)
qed

lemma chain_take: "chain H ph ps es \<Longrightarrow> chain H ph ps (take n es)"
proof (induction es arbitrary: ph ps n)
  case Nil
  then show ?case by simp
next
  case (Cons e es)
  then show ?case by (cases n) auto
qed

lemma chain_last_seq:
  "chain H ph ps es \<Longrightarrow> es \<noteq> [] \<Longrightarrow> ae_seq (last es) = ps + int (length es)"
  by (cases es rule: rev_cases) (simp_all add: chain_append)

lemma chain_hash_member:
  "chain H ph ps es \<Longrightarrow> e \<in> set es \<Longrightarrow> ae_entry_hash e = compute_hash H e"
  by (induction es arbitrary: ph ps) auto

lemma entry_eqI: "canonical a = canonical b \<Longrightarrow> ae_entry_hash a = ae_entry_hash b \<Longrightarrow> a = b"
  by (simp add: canonical_def)

text \<open>Equal last hashes force equal chains, or two field tuples with the same digest.\<close>

lemma chain_determined:
  assumes "chain H ph ps es" and "chain H ph ps es'"
    and "es \<noteq> []" and "es' \<noteq> []" and "ae_entry_hash (last es) = ae_entry_hash (last es')"
  shows "es = es' \<or> (\<exists>x y. x \<noteq> y \<and> H x = H y)"
  using assms
proof (induction es arbitrary: es' rule: rev_induct)
  case Nil
  then show ?case by simp
next
  case (snoc e es)
  obtain e' fs where fs: "es' = fs @ [e']" using snoc.prems(4) by (metis rev_exhaust)
  note c = snoc.prems(1) [unfolded chain_append] snoc.prems(2) [unfolded fs chain_append]
  show ?case
  proof (cases "canonical e = canonical e'")
    case False
    have "H (canonical e) = H (canonical e')"
      using snoc.prems(5) c fs by (simp add: compute_hash_def)
    with False show ?thesis by blast
  next
    case True
    then have e: "e = e'" using snoc.prems(5) fs by (simp add: entry_eqI)
    with c have len: "length es = length fs" and lh: "last_hash ph es = last_hash ph fs" by auto
    show ?thesis
    proof (cases "es = []")
      case True
      with len e fs show ?thesis by simp
    next
      case False
      with len have "fs \<noteq> []" by auto
      with False lh have "ae_entry_hash (last es) = ae_entry_hash (last fs)"
        by (simp add: last_hash_def)
      with snoc.IH [of fs] c False \<open>fs \<noteq> []\<close> e fs show ?thesis by auto
    qed
  qed
qed

section \<open>Recording keeps the chain\<close>

lemma last_entry_clean:
  assumes "case f of None \<Rightarrow> True | Some ls \<Rightarrow> Garbage \<notin> set ls"
  shows "last_entry f = (if log_entries f = [] then None else Some (last (log_entries f)))"
proof (cases f)
  case None
  then show ?thesis by (simp add: last_entry_def log_entries_def)
next
  case (Some ls)
  with assms have g: "Garbage \<notin> set ls" by simp
  then have "non_blank ls = map Entry (List.map_filter parse_line ls)"
  proof (induction ls)
    case Nil
    then show ?case by (simp add: non_blank_def)
  next
    case (Cons l ls)
    then show ?case by (cases l) (auto simp: non_blank_def)
  qed
  with Some show ?thesis by (simp add: last_entry_def log_entries_def last_map)
qed

lemma record_entry_cases:
  obtains "utf8_encode prompt = None \<or> utf8_encode outp = None"
    "record_entry H T now run_id prompt outp tenant f = (Inl UnicodeEncodeError, f)"
  | e p q where "utf8_encode prompt = Some p" "utf8_encode outp = Some q"
    "record_entry H T now run_id prompt outp tenant f =
       (Inr e, Some ((case f of None \<Rightarrow> [] | Some ls \<Rightarrow> ls) @ [Entry e]))"
    "ae_entry_hash e = compute_hash H e"
    "ae_seq e = (case last_entry f of None \<Rightarrow> 0 | Some l \<Rightarrow> ae_seq l + 1)"
    "ae_prev_hash e = (case last_entry f of None \<Rightarrow> [] | Some l \<Rightarrow> ae_entry_hash l)"
    "ae_prompt_hash e = T p" "ae_output_hash e = T q" "ae_run_id e = run_id"
    "ae_tenant_id e = tenant" "ae_timestamp e = now"
proof (cases "utf8_encode prompt"; cases "utf8_encode outp")
  fix p q
  assume "utf8_encode prompt = Some p" "utf8_encode outp = Some q"
  then show thesis
    by (intro that(2) [of p q "new_entry H now run_id (T p) (T q) tenant (last_entry f)"])
      (simp_all add: record_entry_def Let_def new_entry_hash)
qed (auto intro: that(1) simp: record_entry_def)

lemma record_entry_verify:
  assumes "verify_log H f"
  shows "verify_log H (snd (record_entry H T now run_id prompt outp tenant f))"
proof (cases rule: record_entry_cases [of prompt outp H T now run_id tenant f])
  case 1
  with assms show ?thesis by simp
next
  case (2 e p q)
  let ?ls = "case f of None \<Rightarrow> [] | Some ls \<Rightarrow> ls"
  from assms have clean: "case f of None \<Rightarrow> True | Some ls \<Rightarrow> Garbage \<notin> set ls"
    and ch: "chain H [] (-1) (log_entries f)"
    by (auto simp: verify_log_chain)
  have le: "last_entry f = (if log_entries f = [] then None else Some (last (log_entries f)))"
    by (rule last_entry_clean [OF clean])
  have "chain H [] (-1) (log_entries f @ [e])"
    using ch 2(4-6) chain_last_seq [OF ch] by (simp add: chain_append le last_hash_def)
  moreover have "log_entries (Some (?ls @ [Entry e])) = log_entries f @ [e]"
    by (simp add: log_entries_def split: option.split)
  moreover have "Garbage \<notin> set (?ls @ [Entry e])"
    using clean by (auto split: option.splits)
  ultimately show ?thesis using 2(3) by (simp add: verify_log_chain)
qed

text \<open>A log driven by a sequence of \<open>record\<close> calls.\<close>

type_synonym record_args = "real \<times> pystr \<times> pystr \<times> pystr \<times> pystr"

definition apply_record ::
  "(audit_fields \<Rightarrow> pystr) \<Rightarrow> (bytes \<Rightarrow> pystr) \<Rightarrow> record_args \<Rightarrow> log_file \<Rightarrow> log_file" where
  "apply_record H T args f =
     (case args of (now, run_id, prompt, outp, tenant) \<Rightarrow>
        snd (record_entry H T now run_id prompt outp tenant f))"

interpretation audit: stepper "apply_record H T" "verify_log H" for H T
  by unfold_locales (simp add: apply_record_def record_entry_verify split: prod.split)

section \<open>Properties\<close>

text \<open>C40: A log built by any number of \<open>record\<close> calls from a missing file verifies, and every
  entry a further call adds carries the next sequence number, the previous entry's hash and the
  digests of its own prompt and output.\<close>

theorem audit_recorded_log_verifies:
  assumes "f = foldl (\<lambda>f x. apply_record H T x f) None calls"
    and "record_entry H T now run_id prompt outp tenant f = (Inr e, f')"
  shows "verify_log H f \<and> verify_log H f' \<and>
         log_entries f' = log_entries f @ [e] \<and>
         ae_seq e = int (length (log_entries f)) \<and>
         ae_prev_hash e = last_hash [] (log_entries f) \<and>
         Some (ae_prompt_hash e) = map_option T (utf8_encode prompt) \<and>
         Some (ae_output_hash e) = map_option T (utf8_encode outp)"
proof -
  have v: "verify_log H f"
    unfolding assms(1) by (rule audit.run_inv) (simp add: verify_log_def)
  then have v': "verify_log H f'"
    using record_entry_verify [OF v, of T now run_id prompt outp tenant] assms(2) by simp
  show ?thesis
  proof (cases rule: record_entry_cases [of prompt outp H T now run_id tenant f])
    case 1
    with assms(2) show ?thesis by simp
  next
    case (2 e' p q)
    have f': "f' = Some ((case f of None \<Rightarrow> [] | Some ls \<Rightarrow> ls) @ [Entry e])" and e: "e' = e"
      using 2(3) assms(2) by auto
    have en: "log_entries f' = log_entries f @ [e]"
      by (simp add: f' log_entries_def split: option.split)
    have "chain H [] (-1) (log_entries f @ [e])"
      using v' en by (simp add: verify_log_chain)
    with v v' en 2 e show ?thesis by (simp add: chain_append)
  qed
qed

theorem audit_recorded_log_verifies_witness:
  "\<exists>e f'. record_entry (\<lambda>_. [1]) (\<lambda>_. [2]) 5 (lit ''r'') (lit ''p'') (lit ''o'') [] None = (Inr e, f') \<and>
     verify_log (\<lambda>_. [1]) f' \<and> ae_seq e = 0"
proof -
  let ?r = "record_entry (\<lambda>_. [1]) (\<lambda>_. [2]) 5 (lit ''r'') (lit ''p'') (lit ''o'') []
      (foldl (\<lambda>f x. apply_record (\<lambda>_. [1]) (\<lambda>_. [2]) x f) None [])"
  have "\<exists>e f'. ?r = (Inr e, f')"
    by (simp add: record_entry_def utf8_char_def Let_def)
  then obtain e f' where r: "?r = (Inr e, f')" by blast
  from audit_recorded_log_verifies [OF refl r] r show ?thesis
    by (auto simp: log_entries_def)
qed



text \<open>What the chain does not show: cutting entries off the end of a log that verifies
  leaves a log that verifies, and so does replacing the last entry's run, prompt and output
  digests by any others with the hash recomputed (the digest is not keyed).\<close>

theorem audit_truncation_undetected:
  assumes "verify_log H (Some ls)"
  shows "verify_log H (Some (take n ls)) \<and>
    (\<forall>ls0 e e'. ls = ls0 @ [Entry e] \<longrightarrow>
       e' = e\<lparr>ae_run_id := r, ae_prompt_hash := p, ae_output_hash := q\<rparr> \<longrightarrow>
       verify_log H (Some (ls0 @ [Entry (e'\<lparr>ae_entry_hash := compute_hash H e'\<rparr>)])))"
proof -
  have g: "Garbage \<notin> set ls" and c: "chain H [] (-1) (List.map_filter parse_line ls)"
    using assms by (auto simp: verify_log_chain log_entries_def)
  have "List.map_filter parse_line ls =
        List.map_filter parse_line (take n ls) @ List.map_filter parse_line (drop n ls)"
    using map_filter_parse_append [of "take n ls" "drop n ls"] by simp
  then have "List.map_filter parse_line (take n ls) =
        take (length (List.map_filter parse_line (take n ls))) (List.map_filter parse_line ls)"
    by simp
  with chain_take [OF c] have "chain H [] (-1) (List.map_filter parse_line (take n ls))"
    by metis
  moreover have "Garbage \<notin> set (take n ls)" using g by (auto dest: in_set_takeD)
  moreover have "verify_log H (Some (ls0 @ [Entry (e'\<lparr>ae_entry_hash := compute_hash H e'\<rparr>)]))"
    if "ls = ls0 @ [Entry e]" and "e' = e\<lparr>ae_run_id := r, ae_prompt_hash := p, ae_output_hash := q\<rparr>"
    for ls0 e e'
    using that c g
    by (simp add: verify_log_chain log_entries_def chain_append compute_hash_def canonical_def)
  ultimately show ?thesis by (auto simp: verify_log_chain log_entries_def)
qed

theorem audit_truncation_undetected_witness:
  "verify_log (\<lambda>_. [1])
     (Some (take 1 (case apply_record (\<lambda>_. [1]) (\<lambda>_. [2]) (5, lit ''r'', lit ''p'', lit ''o'', []) None
              of Some ls \<Rightarrow> ls | None \<Rightarrow> [])))"
proof -
  let ?f = "apply_record (\<lambda>_. [1]) (\<lambda>_. [2]) (5, lit ''r'', lit ''p'', lit ''o'', []) None"
  have v: "verify_log (\<lambda>_. [1]) ?f"
    using audit.run_inv [of "\<lambda>_. [1]" None "\<lambda>_. [2]" "[(5, lit ''r'', lit ''p'', lit ''o'', [])]"]
    by (simp add: verify_log_def)
  have "?f \<noteq> None"
    by (simp add: apply_record_def record_entry_def utf8_char_def Let_def)
  then obtain ls where "?f = Some ls" by blast
  with v audit_truncation_undetected [of "\<lambda>_. [1]" ls 1] show ?thesis by simp
qed

text \<open>\<open>tail(n)\<close> of a log that verifies returns its last \<open>n\<close> entries for \<open>n > 0\<close>, but
  \<open>tail(0)\<close> returns the whole log.\<close>

theorem audit_tail:
  assumes "verify_log H f" and "0 \<le> n"
  shows "log_tail n f =
    Some (if n = 0 then log_entries f
          else drop (length (log_entries f) - nat n) (log_entries f))"
proof (cases f)
  case None
  then show ?thesis by (simp add: log_tail_def log_entries_def)
next
  case (Some ls)
  with assms have g: "Garbage \<notin> set ls" by (simp add: verify_log_chain)
  then have nb: "non_blank ls = map Entry (List.map_filter parse_line ls)"
  proof (induction ls)
    case Nil
    then show ?case by (simp add: non_blank_def)
  next
    case (Cons l ls)
    then show ?case by (cases l) (auto simp: non_blank_def)
  qed
  have pa: "parse_all (map Entry es) = Some es" for es
    by (induction es) simp_all
  have nd: "nat (int (length es) - n) = length es - nat n" for es :: "audit_entry list"
    using assms(2) by linarith
  show ?thesis
  proof (cases "n = 0")
    case True
    then show ?thesis by (simp add: log_tail_def nb log_entries_def Some pa)
  next
    case False
    with assms(2) have "\<not> 0 \<le> - n" by simp
    with False show ?thesis
      by (simp add: log_tail_def nb log_entries_def py_drop_def Some drop_map pa nd)
  qed
qed

theorem audit_tail_witness:
  "log_tail 0 (Some [Blank]) = Some [] \<and> verify_log (\<lambda>_. [1]) (Some [Blank])"
proof -
  have v: "verify_log (\<lambda>_. [1]) (Some [Blank])" by (simp add: verify_log_def)
  from audit_tail [OF v, of 0] v show ?thesis by (simp add: log_entries_def)
qed

end
