(* ===== verification/Server_Auth.thy ===== *)
theory Server_Auth
  imports Chen_Bytes
begin

text \<open>
  \<open>chen/server/auth.py\<close> and the middleware stack of \<open>chen/server/app.py\<close>: the API key store,
  the bearer-token check with role-based permissions, and the sliding-window rate limiter.

  An ASGI \<open>scope\<close> is the record of the keys the middleware reads; \<open>scope["state"]\<close> is a dict
  that may be missing, and only its \<open>auth\<close> entry matters here. A middleware either passes a
  (changed) scope to the wrapped application or answers itself with a status; the JSON body of an
  answer is left out. The clock is an argument.
\<close>

section \<open>API keys\<close>

record api_key =
  ak_key :: pystr
  ak_role :: pystr
  ak_tenant :: "pystr option"
  ak_name :: pystr
  ak_created_at :: real
  ak_rate_limit :: int

type_synonym key_store = "(pystr \<times> api_key) list"

text \<open>
  What \<open>_load\<close> finds: no file, text that is not JSON, or a list of entries; an entry with
  fields that are not those of an \<open>APIKey\<close> makes the constructor raise \<open>TypeError\<close> (\<open>None\<close>),
  which ends the loop with the keys read so far.
\<close>

datatype keys_file = No_File | Not_JSON | Key_Entries "api_key option list"

fun load_entries :: "key_store \<Rightarrow> api_key option list \<Rightarrow> key_store" where
  "load_entries ks [] = ks"
| "load_entries ks (None # es) = ks"
| "load_entries ks (Some k # es) = load_entries (AList.update (ak_key k) k ks) es"

fun load_keys :: "keys_file \<Rightarrow> key_store" where
  "load_keys No_File = []"
| "load_keys Not_JSON = []"
| "load_keys (Key_Entries es) = load_entries [] es"

definition store_get :: "key_store \<Rightarrow> pystr \<Rightarrow> api_key option" where
  "store_get ks key = map_of ks key"

definition has_keys :: "key_store \<Rightarrow> bool" where
  "has_keys ks \<longleftrightarrow> 0 < length ks"

definition store_list_keys :: "key_store \<Rightarrow> api_key list" where
  "store_list_keys ks = map snd ks"

section \<open>Requests\<close>

record scope =
  sc_type :: pystr
  sc_path :: pystr
  sc_method :: pystr
  sc_headers :: "(bytes \<times> bytes) list"
  sc_client :: "pystr option"
  sc_state :: "(pystr \<times> api_key option) list option"

datatype decision = Pass scope | Deny int

definition set_auth :: "api_key option \<Rightarrow> scope \<Rightarrow> scope" where
  "set_auth k sc =
     sc\<lparr>sc_state := Some (AList.update (lit ''auth'') k
        (case sc_state sc of None \<Rightarrow> [] | Some d \<Rightarrow> d))\<rparr>"

text \<open>\<open>scope.get("state", {}).get("auth")\<close>\<close>

definition get_auth :: "scope \<Rightarrow> api_key option" where
  "get_auth sc = dict_get (case sc_state sc of None \<Rightarrow> [] | Some d \<Rightarrow> d) (lit ''auth'') None"

lemma get_auth_set_auth [simp]: "get_auth (set_auth k sc) = k"
  by (simp add: get_auth_def set_auth_def dict_get_def update_conv')

lemma set_auth_frame [simp]:
  "sc_path (set_auth k sc) = sc_path sc" "sc_method (set_auth k sc) = sc_method sc"
  "sc_type (set_auth k sc) = sc_type sc" "sc_client (set_auth k sc) = sc_client sc"
  by (simp_all add: set_auth_def)

section \<open>Authentication\<close>

definition public_paths :: "pystr list" where
  "public_paths = [lit ''/v1/health'', lit ''/v1/metrics'', lit ''/docs'', lit ''/redoc'',
                   lit ''/openapi.json'']"

definition check_permission :: "api_key \<Rightarrow> pystr \<Rightarrow> pystr \<Rightarrow> bool" where
  "check_permission k path method =
     (if ak_role k = lit ''admin'' then True
      else if ak_role k = lit ''user'' then \<not> py_startswith (lit ''/v1/admin'') path
      else if ak_role k = lit ''read-only'' then method = lit ''GET''
      else False)"

text \<open>\<open>dict(headers)\<close> keeps the last of repeated headers.\<close>

definition auth_header :: "scope \<Rightarrow> pystr" where
  "auth_header sc =
     ascii_decode_ignore
       (case map_of (rev (sc_headers sc)) (map byte_of (lit ''authorization'')) of
          None \<Rightarrow> [] | Some v \<Rightarrow> v)"

definition bearer_key :: "scope \<Rightarrow> pystr option" where
  "bearer_key sc =
     (if py_startswith (lit ''Bearer '') (auth_header sc)
      then Some (py_strip (drop 7 (auth_header sc))) else None)"

definition auth_middleware :: "key_store \<Rightarrow> scope \<Rightarrow> decision" where
  "auth_middleware ks sc =
     (if sc_type sc \<noteq> lit ''http'' then Pass sc
      else if sc_path sc \<in> set public_paths then Pass sc
      else if \<not> has_keys ks then Pass (set_auth None sc)
      else case bearer_key sc of
        None \<Rightarrow> Deny 401
      | Some key \<Rightarrow>
          (case store_get ks key of
             None \<Rightarrow> Deny 401
           | Some k \<Rightarrow>
               if check_permission k (sc_path sc) (sc_method sc)
               then Pass (set_auth (Some k) sc) else Deny 403))"

section \<open>Rate limiting\<close>

type_synonym limiter = "pystr \<Rightarrow> real list"

definition window :: real where
  "window = 60"

text \<open>
  \<open>None\<close> where \<open>scope["client"]\<close> is absent: the default \<open>("unknown", 0)\<close> is used.
\<close>

definition rate_key :: "scope \<Rightarrow> pystr" where
  "rate_key sc =
     (case get_auth sc of
        None \<Rightarrow> lit ''ip:'' @ (case sc_client sc of None \<Rightarrow> lit ''unknown'' | Some h \<Rightarrow> h)
      | Some k \<Rightarrow> ak_key k)"

definition rate_limit_of :: "int \<Rightarrow> scope \<Rightarrow> int" where
  "rate_limit_of default_limit sc =
     (case get_auth sc of
        None \<Rightarrow> default_limit
      | Some k \<Rightarrow> (if ak_rate_limit k = 0 then default_limit else ak_rate_limit k))"

text \<open>The deque of one key: drop what left the window, then admit if there is room.\<close>

definition prune :: "real \<Rightarrow> real list \<Rightarrow> real list" where
  "prune now reqs = dropWhile (\<lambda>t. t < now - window) reqs"

definition window_admit :: "int \<Rightarrow> real \<Rightarrow> real list \<Rightarrow> bool \<times> real list" where
  "window_admit limit now reqs =
     (let q = prune now reqs in
      if int (length q) \<ge> limit then (False, q) else (True, q @ [now]))"

definition rate_middleware :: "int \<Rightarrow> real \<Rightarrow> scope \<Rightarrow> limiter \<Rightarrow> decision \<times> limiter" where
  "rate_middleware default_limit now sc st =
     (if sc_type sc \<noteq> lit ''http'' then (Pass sc, st)
      else
        (let key = rate_key sc;
             (ok, q) = window_admit (rate_limit_of default_limit sc) now (st key)
         in (if ok then Pass sc else Deny 429, st(key := q))))"

text \<open>
  The stack \<open>create_app\<close> builds. \<open>add_middleware\<close> puts each new middleware around the ones
  added before it, so authentication, added after the rate limiter, runs first.
\<close>

definition server_stack ::
  "key_store \<Rightarrow> int \<Rightarrow> real \<Rightarrow> scope \<Rightarrow> limiter \<Rightarrow> decision \<times> limiter" where
  "server_stack ks default_limit now sc st =
     (case auth_middleware ks sc of
        Deny status \<Rightarrow> (Deny status, st)
      | Pass sc' \<Rightarrow> rate_middleware default_limit now sc' st)"

section \<open>Facts about the key store\<close>

definition store_ok :: "key_store \<Rightarrow> bool" where
  "store_ok ks \<longleftrightarrow> (\<forall>s k. map_of ks s = Some k \<longrightarrow> ak_key k = s)"

lemma store_ok_update: "store_ok ks \<Longrightarrow> store_ok (AList.update (ak_key k) k ks)"
  by (auto simp: store_ok_def al_store.get_put split: if_splits)

lemma load_entries_ok: "store_ok ks \<Longrightarrow> store_ok (load_entries ks es)"
proof (induction ks es rule: load_entries.induct)
  case (3 ks k es)
  from "3.prems" have "store_ok (AList.update (ak_key k) k ks)" by (rule store_ok_update)
  then have "store_ok (load_entries (AList.update (ak_key k) k ks) es)" by (rule "3.IH")
  then show ?case by (simp only: load_entries.simps)
qed simp_all

lemma store_ok_Nil [simp]: "store_ok []"
  by (simp add: store_ok_def)

lemma load_keys_ok [inv_intros]: "store_ok (load_keys f)"
  by (cases f) (simp_all add: load_entries_ok)

lemma has_keys_iff: "has_keys ks \<longleftrightarrow> ks \<noteq> []"
  by (simp add: has_keys_def)

lemma load_entries_nonempty: "ks \<noteq> [] \<Longrightarrow> load_entries ks es \<noteq> []"
proof (induction ks es rule: load_entries.induct)
  case (3 ks k es)
  have "load_entries (AList.update (ak_key k) k ks) es \<noteq> []"
    by (rule "3.IH") (rule update_nonempty)
  then show ?case by (simp only: load_entries.simps not_False_eq_True)
qed simp_all

section \<open>Facts about the limiter\<close>

lemma prune_filter: "sorted q \<Longrightarrow> prune now q = filter (\<lambda>t. now - window \<le> t) q"
proof (induction q)
  case Nil
  then show ?case by (simp add: prune_def)
next
  case (Cons t q)
  show ?case
  proof (cases "t < now - window")
    case True
    with Cons show ?thesis by (simp add: prune_def)
  next
    case False
    with Cons.prems have "\<forall>u \<in> set (t # q). now - window \<le> u" by fastforce
    then have "filter (\<lambda>t. now - window \<le> t) (t # q) = t # q" by (rule filter_True)
    with False show ?thesis by (simp add: prune_def)
  qed
qed

lemma sorted_prune: "sorted q \<Longrightarrow> sorted (prune now q)"
  by (simp add: prune_filter sorted_filter [of id, simplified])

text \<open>Requests of one key in the order they arrive: which are admitted.\<close>

fun admitted :: "int \<Rightarrow> real list \<Rightarrow> real list \<Rightarrow> real list" where
  "admitted limit q [] = []"
| "admitted limit q (t # ts) =
     (case window_admit limit t q of (ok, q') \<Rightarrow>
        if ok then t # admitted limit q' ts else admitted limit q' ts)"

abbreviation in_window :: "real \<Rightarrow> real list \<Rightarrow> real list" where
  "in_window w ts \<equiv> filter (\<lambda>t. w \<le> t \<and> t \<le> w + window) ts"

lemma length_filter_mono:
  "(\<And>x. x \<in> set xs \<Longrightarrow> P x \<Longrightarrow> Q x) \<Longrightarrow> length (filter P xs) \<le> length (filter Q xs)"
  by (induction xs) auto

text \<open>
  \<open>adm\<close> are the requests admitted so far and \<open>c\<close> is the time of the last one seen: the deque
  is what \<open>adm\<close> holds of the last window, and no window of \<open>adm\<close> is over the limit.
\<close>

definition limiter_inv :: "int \<Rightarrow> real list \<Rightarrow> real list \<Rightarrow> real \<Rightarrow> bool" where
  "limiter_inv limit adm q c \<longleftrightarrow>
     sorted adm \<and> (\<forall>t \<in> set adm. t \<le> c) \<and> q = filter (\<lambda>t. c - window \<le> t) adm \<and>
     (\<forall>w. int (length (in_window w adm)) \<le> limit)"

lemma limiter_inv_step:
  assumes inv: "limiter_inv limit adm q c" and "c \<le> now" and "window_admit limit now q = (ok, q')"
  shows "limiter_inv limit (if ok then adm @ [now] else adm) q' now"
proof -
  from inv have s: "sorted adm" and le: "\<forall>t \<in> set adm. t \<le> c"
    and q: "q = filter (\<lambda>t. c - window \<le> t) adm"
    and b: "\<And>w. int (length (in_window w adm)) \<le> limit"
    by (auto simp: limiter_inv_def)
  have "sorted q" using s by (simp add: q sorted_filter [of id, simplified])
  then have p: "prune now q = filter (\<lambda>t. now - window \<le> t) adm"
    using \<open>c \<le> now\<close> by (auto simp: prune_filter q filter_filter intro!: filter_cong)
  show ?thesis
  proof (cases "int (length (prune now q)) \<ge> limit")
    case True
    with assms(3) have "\<not> ok" "q' = prune now q" by (auto simp: window_admit_def Let_def)
    with s le b p \<open>c \<le> now\<close> show ?thesis by (auto simp: limiter_inv_def)
  next
    case False
    with assms(3) have ok: "ok" "q' = prune now q @ [now]" by (auto simp: window_admit_def Let_def)
    have "int (length (in_window w (adm @ [now]))) \<le> limit" for w
    proof (cases "w \<le> now \<and> now \<le> w + window")
      case True
      have "length (in_window w adm) \<le> length (filter (\<lambda>t. now - window \<le> t) adm)"
        using True by (intro length_filter_mono) auto
      with False True show ?thesis by (simp add: p)
    next
      case False
      then have "in_window w (adm @ [now]) = in_window w adm" by auto
      with b [of w] show ?thesis by metis
    qed
    moreover have "sorted (adm @ [now])"
      using s le \<open>c \<le> now\<close> by (fastforce simp: sorted_append)
    ultimately show ?thesis
      using ok p le \<open>c \<le> now\<close> by (auto simp: limiter_inv_def window_def)
  qed
qed

lemma admitted_window_bound:
  assumes "limiter_inv limit adm q c" and "sorted (c # ts)"
  shows "int (length (in_window w (adm @ admitted limit q ts))) \<le> limit"
  using assms
proof (induction ts arbitrary: adm q c)
  case Nil
  then show ?case by (simp add: limiter_inv_def)
next
  case (Cons t ts)
  obtain ok q' where w: "window_admit limit t q = (ok, q')" by (cases "window_admit limit t q")
  have "limiter_inv limit (if ok then adm @ [t] else adm) q' t"
    using limiter_inv_step [OF Cons.prems(1) _ w] Cons.prems(2) by simp
  from Cons.IH [OF this] Cons.prems(2) w show ?case
    by (cases ok) simp_all
qed

section \<open>A run of the limiter over requests of many clients\<close>

fun rate_run :: "int \<Rightarrow> (real \<times> scope) list \<Rightarrow> limiter \<Rightarrow> (real \<times> pystr) list \<times> limiter" where
  "rate_run dl [] st = ([], st)"
| "rate_run dl ((now, sc) # rs) st =
     (let (d, st') = rate_middleware dl now sc st; (served, st'') = rate_run dl rs st'
      in (case d of Pass _ \<Rightarrow> (now, rate_key sc) # served | Deny _ \<Rightarrow> served, st''))"

definition times_of :: "pystr \<Rightarrow> (real \<times> pystr) list \<Rightarrow> real list" where
  "times_of key served = map fst (filter (\<lambda>(t, k). k = key) served)"

text \<open>The requests of one key see only their own deque.\<close>

lemma rate_run_admitted:
  assumes "\<forall>(t, sc) \<in> set rs. sc_type sc = lit ''http'' \<and>
             (rate_key sc = key \<longrightarrow> rate_limit_of dl sc = limit)"
  shows "times_of key (fst (rate_run dl rs st)) =
         admitted limit (st key) (map fst (filter (\<lambda>(t, sc). rate_key sc = key) rs))"
  using assms
proof (induction rs arbitrary: st)
  case Nil
  then show ?case by (simp add: times_of_def)
next
  case (Cons r rs)
  obtain now sc where r: "r = (now, sc)" by (cases r)
  obtain ok q where w: "window_admit (rate_limit_of dl sc) now (st (rate_key sc)) = (ok, q)"
    by (cases "window_admit (rate_limit_of dl sc) now (st (rate_key sc))")
  have http: "sc_type sc = lit ''http''" using Cons.prems r by auto
  have step: "rate_middleware dl now sc st =
      (if ok then Pass sc else Deny 429, st(rate_key sc := q))"
    using http w by (simp add: rate_middleware_def Let_def)
  have IH: "times_of key (fst (rate_run dl rs (st(rate_key sc := q)))) =
      admitted limit ((st(rate_key sc := q)) key)
        (map fst (filter (\<lambda>(t, sc). rate_key sc = key) rs))"
    using Cons.prems by (intro Cons.IH) simp
  show ?case
  proof (cases "rate_key sc = key")
    case True
    then have "rate_limit_of dl sc = limit" using Cons.prems r by auto
    with True w IH step r show ?thesis
      by (cases "rate_run dl rs (st(rate_key sc := q))") (simp add: times_of_def Let_def)
  next
    case False
    with IH step r show ?thesis
      by (cases "rate_run dl rs (st(rate_key sc := q))") (simp add: times_of_def Let_def)
  qed
qed

lemma auth_pass_frame:
  "auth_middleware ks sc = Pass sc' \<Longrightarrow>
   sc_type sc' = sc_type sc \<and> sc_path sc' = sc_path sc \<and> sc_method sc' = sc_method sc"
  by (auto simp: auth_middleware_def split: if_splits option.splits)

lemma rate_middleware_frame:
  "k \<noteq> rate_key sc \<Longrightarrow> snd (rate_middleware dl now sc st) k = st k"
  by (simp add: rate_middleware_def Let_def split: prod.split)

section \<open>Properties\<close>



text \<open>Role separation: whatever file the keys were loaded from, an HTTP request that
  passes authentication outside the public paths while keys are configured acts as a key that is
  in the store under its own name, and a \<open>user\<close> key has not reached an admin path, a
  \<open>read-only\<close> key has made a GET, and no other role but \<open>admin\<close> has passed at all.\<close>

theorem auth_role_separation:
  assumes "auth_middleware (load_keys f) sc = Pass sc'"
    and "sc_type sc = lit ''http''" and "sc_path sc \<notin> set public_paths" and "has_keys (load_keys f)"
  shows "\<exists>k. get_auth sc' = Some k \<and> store_get (load_keys f) (ak_key k) = Some k \<and>
           (ak_role k = lit ''admin'' \<or>
            ak_role k = lit ''user'' \<and> \<not> py_startswith (lit ''/v1/admin'') (sc_path sc) \<or>
            ak_role k = lit ''read-only'' \<and> sc_method sc = lit ''GET'')"
proof -
  from assms obtain key k where k: "bearer_key sc = Some key" "store_get (load_keys f) key = Some k"
    "check_permission k (sc_path sc) (sc_method sc)" "sc' = set_auth (Some k) sc"
    by (auto simp: auth_middleware_def split: option.splits if_splits)
  have "ak_key k = key"
    using k(2) load_keys_ok [of f] by (simp add: store_ok_def store_get_def)
  with k show ?thesis
    by (auto simp: check_permission_def split: if_splits)
qed

theorem auth_role_separation_witness:
  "\<exists>k sc'. auth_middleware
     (load_keys (Key_Entries [Some \<lparr>ak_key = lit ''k'', ak_role = lit ''read-only'',
        ak_tenant = None, ak_name = [], ak_created_at = 0, ak_rate_limit = 5\<rparr>]))
     \<lparr>sc_type = lit ''http'', sc_path = lit ''/v1/runs'', sc_method = lit ''GET'',
      sc_headers = [(map byte_of (lit ''authorization''), map byte_of (lit ''Bearer k''))],
      sc_client = None, sc_state = None\<rparr> = Pass sc' \<and> get_auth sc' = Some k"
proof -
  let ?k = "\<lparr>ak_key = lit ''k'', ak_role = lit ''read-only'', ak_tenant = None, ak_name = [],
             ak_created_at = 0, ak_rate_limit = 5\<rparr>"
  let ?sc = "\<lparr>sc_type = lit ''http'', sc_path = lit ''/v1/runs'', sc_method = lit ''GET'',
      sc_headers = [(map byte_of (lit ''authorization''), map byte_of (lit ''Bearer k''))],
      sc_client = None, sc_state = None\<rparr>"
  have p: "auth_middleware (load_keys (Key_Entries [Some ?k])) ?sc = Pass (set_auth (Some ?k) ?sc)"
    by (simp add: auth_middleware_def public_paths_def has_keys_def bearer_key_def auth_header_def
        store_get_def ascii_decode_ignore_def py_startswith_def py_strip_def py_isspace_def
        check_permission_def byte_of_inj)
  from auth_role_separation [OF p] p show ?thesis
    by (auto simp: public_paths_def has_keys_def)
qed


definition plain_request :: "pystr \<Rightarrow> scope" where
  "plain_request host =
     \<lparr>sc_type = lit ''http'', sc_path = lit ''/v1/infer'', sc_method = lit ''POST'',
      sc_headers = [], sc_client = Some host, sc_state = None\<rparr>"


text \<open>The stack as built: a request that authentication rejects leaves every rate-limit
  budget untouched (so rejected requests are not limited at all), and any request consumes at most
  the budget of its own key.\<close>

theorem stack_rejections_not_limited:
  "case auth_middleware ks sc of
     Deny status \<Rightarrow> server_stack ks dl now sc st = (Deny status, st)
   | Pass sc' \<Rightarrow> (\<forall>key. key = rate_key sc' \<or> snd (server_stack ks dl now sc st) key = st key)"
proof (cases "auth_middleware ks sc")
  case (Pass sc')
  have "key = rate_key sc' \<or> snd (rate_middleware dl now sc' st) key = st key" for key
    by (cases "key = rate_key sc'") (simp_all add: rate_middleware_frame)
  with Pass show ?thesis by (simp add: server_stack_def)
next
  case (Deny status)
  then show ?thesis by (simp add: server_stack_def)
qed

text \<open>A key file that exists but is not valid JSON leaves the store empty, and with an
  empty store every request is let through without a key.\<close>

theorem corrupt_key_file_fails_open:
  "\<exists>sc'. auth_middleware (load_keys Not_JSON) sc = Pass sc' \<and>
     (sc_type sc = lit ''http'' \<and> sc_path sc \<notin> set public_paths \<longrightarrow> get_auth sc' = None)"
  by (auto simp: auth_middleware_def has_keys_def)

theorem corrupt_key_file_fails_open_witness:
  "\<exists>sc'. auth_middleware (load_keys Not_JSON) (plain_request (lit ''h'')) = Pass sc' \<and>
         get_auth sc' = None"
  using corrupt_key_file_fails_open [of "plain_request (lit ''h'')"]
  by (auto simp: plain_request_def public_paths_def)

end
