(* ===== verification/Sec_Crypto.thy ===== *)
theory Sec_Crypto
  imports Chen_Bytes Core_Config
begin

text \<open>
  \<open>chen/security/config.py\<close> and \<open>crypto.py\<close>: the key material, the wire format of an encrypted
  block, the encryptor and the decryptor with their caches of session keys.

  AES-GCM and HKDF come from the package \<open>cryptography\<close> and are arguments, the record
  \<open>crypto_lib\<close>, with \<open>os.urandom\<close> as a reader of the state \<open>'w\<close>. What the code relies on is
  \<open>lib_ok\<close>: a sealed message opens under the same key and nonce, and carries a tag of 16 bytes.
\<close>

section \<open>The libraries\<close>

record 'w crypto_lib =
  cl_urandom :: "nat \<Rightarrow> 'w \<Rightarrow> bytes \<times> 'w"
  cl_hkdf :: "bytes \<Rightarrow> bytes \<Rightarrow> bytes \<Rightarrow> bytes"
  cl_seal :: "bytes \<Rightarrow> bytes \<Rightarrow> bytes \<Rightarrow> py_exc + bytes"
  cl_open :: "bytes \<Rightarrow> bytes \<Rightarrow> bytes \<Rightarrow> bytes option"

definition lib_ok :: "'w crypto_lib \<Rightarrow> bool" where
  "lib_ok lib \<longleftrightarrow>
     (\<forall>n w. length (fst (cl_urandom lib n w)) = n) \<and>
     (\<forall>k n p c. cl_seal lib k n p = Inr c \<longrightarrow> length c = length p + 16 \<and> cl_open lib k n c = Some p)"

definition urandom :: "'w crypto_lib \<Rightarrow> nat \<Rightarrow> ('w, py_exc, bytes) act" where
  "urandom lib n = (\<lambda>w. case cl_urandom lib n w of (bs, w') \<Rightarrow> (Inr bs, w'))"

section \<open>Configuration\<close>

definition hkdf_info :: bytes where
  "hkdf_info = map byte_of (lit ''chen-encryption-v1'')"

record enc_config =
  master_key :: bytes
  ec_key_id :: pystr
  block_size :: int
  algorithm :: pystr

text \<open>\<open>EncryptionConfig(master_key, key_id)\<close> with \<open>__post_init__\<close>.\<close>

definition config_post_init :: "enc_config \<Rightarrow> py_exc + enc_config" where
  "config_post_init c =
     (if length (master_key c) \<noteq> 32 then Inl ValueError
      else if block_size c < 64 then Inl ValueError
      else Inr c)"

definition mk_config :: "bytes \<Rightarrow> pystr \<Rightarrow> py_exc + enc_config" where
  "mk_config mk kid =
     config_post_init \<lparr>master_key = mk, ec_key_id = kid, block_size = 4096, algorithm = lit ''AES-256-GCM''\<rparr>"

definition config_generate :: "'w crypto_lib \<Rightarrow> pystr option \<Rightarrow> ('w, py_exc, enc_config) act" where
  "config_generate lib kid =
     bnd (urandom lib 32) (\<lambda>mk.
     bnd (case kid of
            Some k \<Rightarrow> (if k \<noteq> [] then ret k else bnd (urandom lib 8) (\<lambda>r. ret (hex_of_bytes r)))
          | None \<Rightarrow> bnd (urandom lib 8) (\<lambda>r. ret (hex_of_bytes r))) (\<lambda>k.
     lift_err (mk_config mk k)))"

definition config_from_env :: "'w crypto_lib \<Rightarrow> environ \<Rightarrow> ('w, py_exc, enc_config) act" where
  "config_from_env lib ev =
     (let key_b64 = env_str ev (lit ''CHEN_MASTER_KEY'') [] in
      if key_b64 = [] then config_generate lib None
      else (case b64_decode key_b64 of
              None \<Rightarrow> raise ValueError
            | Some mk \<Rightarrow> lift_err (mk_config mk (env_str ev (lit ''CHEN_KEY_ID'') []))))"

definition to_env_dict :: "enc_config \<Rightarrow> (pystr \<times> pystr) list" where
  "to_env_dict c =
     [(lit ''CHEN_MASTER_KEY'', b64_encode (master_key c)), (lit ''CHEN_KEY_ID'', ec_key_id c)]"

definition derive_session_key :: "'w crypto_lib \<Rightarrow> enc_config \<Rightarrow> bytes \<Rightarrow> bytes" where
  "derive_session_key lib c sid = cl_hkdf lib (master_key c) sid hkdf_info"

record security_settings =
  ss_enabled :: bool
  ss_encrypt_prompts :: bool
  ss_encrypt_responses :: bool
  ss_encrypt_kv_cache :: bool
  ss_encrypt_memory_entries :: bool
  ss_zero_knowledge_routing :: bool
  ss_trusted_backends :: "pystr list"
  ss_config :: "enc_config option"

definition security_disabled :: security_settings where
  "security_disabled =
     \<lparr>ss_enabled = False, ss_encrypt_prompts = True, ss_encrypt_responses = True,
      ss_encrypt_kv_cache = True, ss_encrypt_memory_entries = True,
      ss_zero_knowledge_routing = False, ss_trusted_backends = [lit ''mock''], ss_config = None\<rparr>"

definition is_trusted :: "security_settings \<Rightarrow> pystr \<Rightarrow> bool" where
  "is_trusted s nm \<longleftrightarrow> nm \<in> set (ss_trusted_backends s)"

section \<open>The encrypted block\<close>

record enc_block =
  eb_key_id :: pystr
  eb_nonce :: bytes
  eb_ciphertext :: bytes
  eb_tag :: bytes

definition block_post_init :: "enc_block \<Rightarrow> py_exc + enc_block" where
  "block_post_init b =
     (if length (eb_nonce b) \<noteq> 12 then Inl CryptoError
      else if length (eb_tag b) \<noteq> 16 then Inl CryptoError
      else Inr b)"

definition serialize :: "enc_block \<Rightarrow> py_exc + bytes" where
  "serialize b =
     (case utf8_encode (eb_key_id b) of
        None \<Rightarrow> Inl UnicodeError
      | Some kid \<Rightarrow>
          (if 255 < length kid then Inl CryptoError
           else Inr ([byte_of (length kid)] @ kid @ eb_nonce b @ eb_ciphertext b @ eb_tag b)))"

definition deserialize :: "bytes \<Rightarrow> py_exc + enc_block" where
  "deserialize d =
     (if length d < 1 + 12 + 16 then Inl CryptoError
      else (let n = unat (d ! 0) in
        if length d < 1 + n + 12 + 16 then Inl CryptoError
        else (case utf8_decode (take n (drop 1 d)) of
                None \<Rightarrow> Inl UnicodeError
              | Some kid \<Rightarrow>
                  (let tag_start = length d - 16
                   in block_post_init
                        \<lparr>eb_key_id = kid, eb_nonce = take 12 (drop (1 + n) d),
                         eb_ciphertext = drop (1 + n + 12) (take tag_start d),
                         eb_tag = drop tag_start d\<rparr>))))"

definition block_wf :: "enc_block \<Rightarrow> bool" where
  "block_wf b \<longleftrightarrow> length (eb_nonce b) = 12 \<and> length (eb_tag b) = 16"

lemma block_post_init_Inr [simp]: "block_post_init b = Inr b' \<longleftrightarrow> block_wf b \<and> b' = b"
  by (auto simp: block_post_init_def block_wf_def)

lemma deserialize_serialize:
  assumes "block_wf b" and "serialize b = Inr d"
  shows "deserialize d = Inr b"
proof -
  obtain kid where kid: "utf8_encode (eb_key_id b) = Some kid" and n: "length kid \<le> 255"
    and d: "d = [byte_of (length kid)] @ kid @ eb_nonce b @ eb_ciphertext b @ eb_tag b"
    using assms(2) by (auto simp: serialize_def split: option.splits if_splits)
  have wf: "length (eb_nonce b) = 12" "length (eb_tag b) = 16" using assms(1) by (auto simp: block_wf_def)
  have un: "unat (d ! 0) = length kid" using n by (simp add: d)
  have len: "length d = 1 + length kid + 12 + length (eb_ciphertext b) + 16" by (simp add: d wf)
  define pre where "pre = [byte_of (length kid)] @ kid @ eb_nonce b"
  have pre: "length pre = 1 + length kid + 12" "d = pre @ eb_ciphertext b @ eb_tag b"
    by (simp_all add: pre_def wf d)
  have parts: "take (length kid) (drop 1 d) = kid" "take 12 (drop (1 + length kid) d) = eb_nonce b"
    "drop (length d - 16) d = eb_tag b"
    "drop (1 + length kid + 12) (take (length d - 16) d) = eb_ciphertext b"
  proof -
    show "take (length kid) (drop 1 d) = kid" "take 12 (drop (1 + length kid) d) = eb_nonce b"
      by (simp_all add: d wf)
    have e: "length d - 16 = length (pre @ eb_ciphertext b)" by (simp add: len pre(1))
    show "drop (length d - 16) d = eb_tag b"
      unfolding pre(2) by (simp add: wf)
    show "drop (1 + length kid + 12) (take (length d - 16) d) = eb_ciphertext b"
      unfolding e pre(1) [symmetric] unfolding pre(2) by simp
  qed
  have "block_post_init \<lparr>eb_key_id = eb_key_id b, eb_nonce = eb_nonce b, eb_ciphertext = eb_ciphertext b,
      eb_tag = eb_tag b\<rparr> = Inr b"
    using assms(1) by (simp add: block_wf_def)
  then show ?thesis
    unfolding deserialize_def un Let_def parts utf8.dec_enc [OF kid] using len by simp
qed

text \<open>What parses has this one serialization.\<close>

lemma serialize_deserialize:
  assumes "deserialize d = Inr b"
  shows "block_wf b \<and> serialize b = Inr d"
proof -
  define n where "n = unat (d ! 0)"
  obtain kid where len: "1 + n + 12 + 16 \<le> length d" and kid: "utf8_decode (take n (drop 1 d)) = Some kid"
    and b: "block_wf b" "b = \<lparr>eb_key_id = kid, eb_nonce = take 12 (drop (1 + n) d),
                         eb_ciphertext = drop (1 + n + 12) (take (length d - 16) d),
                         eb_tag = drop (length d - 16) d\<rparr>"
    using assms by (auto simp: deserialize_def n_def Let_def split: if_splits option.splits)
  have enc: "utf8_encode kid = Some (take n (drop 1 d))" by (rule utf8_encode_decode [OF kid])
  have ln: "length (take n (drop 1 d)) = n" using len by simp
  have n255: "n \<le> 255" using unat_byte_lt [of "d ! 0"] unfolding n_def by linarith
  have hd1: "[byte_of n] = take 1 d" using len by (cases d) (simp_all add: n_def)
  have "take 12 (drop (1 + n) d) @ drop (1 + n + 12) (take (length d - 16) d) @ drop (length d - 16) d =
      drop (1 + n) d"
  proof -
    have "drop (1 + n + 12) (take (length d - 16) d) = take (length d - 16 - (1 + n + 12)) (drop (1 + n + 12) d)"
      by (simp add: drop_take)
    moreover have "drop (length d - 16) d = drop (length d - 16 - (1 + n + 12)) (drop (1 + n + 12) d)"
      using len by simp
    moreover have "take 12 (drop (1 + n) d) @ drop (1 + n + 12) d = drop (1 + n) d"
      by (metis add.commute append_take_drop_id drop_drop)
    ultimately show ?thesis by (metis append_take_drop_id)
  qed
  moreover have "take 1 d @ take n (drop 1 d) @ drop (1 + n) d = d"
    by (metis add.commute append_take_drop_id drop_drop)
  ultimately have "[byte_of n] @ take n (drop 1 d) @ take 12 (drop (1 + n) d) @
      drop (1 + n + 12) (take (length d - 16) d) @ drop (length d - 16) d = d"
    unfolding hd1 by (metis append_assoc)
  with b enc ln n255 show ?thesis by (simp add: serialize_def)
qed

definition block_encode :: "enc_block \<Rightarrow> bytes option" where
  "block_encode b = (if block_wf b then (case serialize b of Inl _ \<Rightarrow> None | Inr d \<Rightarrow> Some d) else None)"

definition block_decode :: "bytes \<Rightarrow> enc_block option" where
  "block_decode d = (case deserialize d of Inl _ \<Rightarrow> None | Inr b \<Rightarrow> Some b)"

interpretation block: codec block_encode block_decode
  by unfold_locales
    (auto simp: block_encode_def block_decode_def deserialize_serialize split: if_splits sum.splits)

section \<open>Encryptor\<close>

record encryptor =
  en_config :: enc_config
  en_session_keys :: "(bytes \<times> bytes) list"

definition new_encryptor :: "enc_config \<Rightarrow> encryptor" where
  "new_encryptor c = \<lparr>en_config = c, en_session_keys = []\<rparr>"

definition en_session_key :: "'w crypto_lib \<Rightarrow> bytes \<Rightarrow> (encryptor \<times> 'w, py_exc, bytes) act" where
  "en_session_key lib sid =
     (\<lambda>(e, w). case map_of (en_session_keys e) sid of
        Some k \<Rightarrow> (Inr k, (e, w))
      | None \<Rightarrow> (let k = derive_session_key lib (en_config e) sid
                 in (Inr k, (e\<lparr>en_session_keys := AList.update sid k (en_session_keys e)\<rparr>, w))))"

definition encrypt :: "'w crypto_lib \<Rightarrow> bytes \<Rightarrow> bytes \<Rightarrow> (encryptor \<times> 'w, py_exc, enc_block) act" where
  "encrypt lib plaintext sid =
     bnd (en_session_key lib sid) (\<lambda>key.
     bnd (on_snd (urandom lib 12)) (\<lambda>nonce.
     bnd (lift_err (cl_seal lib key nonce plaintext)) (\<lambda>ct_and_tag. \<lambda>(e, w).
       (block_post_init
          \<lparr>eb_key_id = ec_key_id (en_config e), eb_nonce = nonce,
           eb_ciphertext = py_take (- 16) ct_and_tag, eb_tag = py_drop (- 16) ct_and_tag\<rparr>, (e, w)))))"

definition encrypt_text :: "'w crypto_lib \<Rightarrow> pystr \<Rightarrow> bytes \<Rightarrow> (encryptor \<times> 'w, py_exc, enc_block) act" where
  "encrypt_text lib s sid =
     (case utf8_encode s of None \<Rightarrow> raise UnicodeError | Some bs \<Rightarrow> encrypt lib bs sid)"

text \<open>
  \<open>range(0, len(data), bs)\<close>: empty for a negative step. \<open>block_size or config.block_size\<close> replaces
  None and 0.
\<close>

definition block_size_of :: "int option \<Rightarrow> encryptor \<Rightarrow> int" where
  "block_size_of bs e =
     (case bs of None \<Rightarrow> block_size (en_config e)
      | Some b \<Rightarrow> (if b = 0 then block_size (en_config e) else b))"

function encrypt_from ::
  "'w crypto_lib \<Rightarrow> bytes \<Rightarrow> bytes \<Rightarrow> int \<Rightarrow> int \<Rightarrow> (encryptor \<times> 'w, py_exc, enc_block list) act" where
  "encrypt_from lib d sid bs i =
     (if 0 < bs \<and> i < int (length d)
      then bnd (encrypt lib (take (nat bs) (drop (nat i) d)) sid) (\<lambda>b.
           bnd (encrypt_from lib d sid bs (i + bs)) (\<lambda>rest. ret (b # rest)))
      else ret [])"
  by pat_completeness auto
termination
  by (relation "measure (\<lambda>(lib, d, sid, bs, i). nat (int (length d) - i))") auto

definition encrypt_stream ::
  "'w crypto_lib \<Rightarrow> bytes \<Rightarrow> bytes \<Rightarrow> int option \<Rightarrow> (encryptor \<times> 'w, py_exc, enc_block list) act" where
  "encrypt_stream lib d sid block_sz =
     (\<lambda>(e, w). encrypt_from lib d sid (block_size_of block_sz e) 0 (e, w))"

section \<open>Decryptor\<close>

record decryptor =
  de_keys :: "(pystr \<times> enc_config) list"
  de_session_keys :: "((pystr \<times> bytes) \<times> bytes) list"

definition new_decryptor :: "enc_config \<Rightarrow> decryptor" where
  "new_decryptor c = \<lparr>de_keys = [(ec_key_id c, c)], de_session_keys = []\<rparr>"

definition add_key :: "enc_config \<Rightarrow> decryptor \<Rightarrow> decryptor" where
  "add_key c d = d\<lparr>de_keys := AList.update (ec_key_id c) c (de_keys d)\<rparr>"

definition de_session_key :: "'w crypto_lib \<Rightarrow> pystr \<Rightarrow> bytes \<Rightarrow> (decryptor, py_exc, bytes) act" where
  "de_session_key lib kid sid =
     (\<lambda>d. case map_of (de_session_keys d) (kid, sid) of
        Some k \<Rightarrow> (Inr k, d)
      | None \<Rightarrow>
          (case map_of (de_keys d) kid of
             None \<Rightarrow> (Inl CryptoError, d)
           | Some c \<Rightarrow>
               (let k = derive_session_key lib c sid
                in (Inr k, d\<lparr>de_session_keys := AList.update (kid, sid) k (de_session_keys d)\<rparr>))))"

definition decrypt :: "'w crypto_lib \<Rightarrow> enc_block \<Rightarrow> bytes \<Rightarrow> (decryptor, py_exc, bytes) act" where
  "decrypt lib b sid =
     bnd (de_session_key lib (eb_key_id b) sid) (\<lambda>key.
     (case cl_open lib key (eb_nonce b) (eb_ciphertext b @ eb_tag b) of
        None \<Rightarrow> raise CryptoError
      | Some p \<Rightarrow> ret p))"

definition decrypt_text :: "'w crypto_lib \<Rightarrow> enc_block \<Rightarrow> bytes \<Rightarrow> (decryptor, py_exc, pystr) act" where
  "decrypt_text lib b sid =
     bnd (decrypt lib b sid) (\<lambda>bs. case utf8_decode bs of None \<Rightarrow> raise UnicodeError | Some s \<Rightarrow> ret s)"

fun decrypt_stream :: "'w crypto_lib \<Rightarrow> enc_block list \<Rightarrow> bytes \<Rightarrow> (decryptor, py_exc, bytes) act" where
  "decrypt_stream lib [] sid = ret []"
| "decrypt_stream lib (b # bs) sid =
     bnd (decrypt lib b sid) (\<lambda>p. bnd (decrypt_stream lib bs sid) (\<lambda>rest. ret (p @ rest)))"

section \<open>The caches hold derived keys\<close>

definition enc_ok :: "'w crypto_lib \<Rightarrow> encryptor \<Rightarrow> bool" where
  "enc_ok lib e \<longleftrightarrow>
     (\<forall>sid k. map_of (en_session_keys e) sid = Some k \<longrightarrow> k = derive_session_key lib (en_config e) sid)"

definition dec_ok :: "'w crypto_lib \<Rightarrow> decryptor \<Rightarrow> bool" where
  "dec_ok lib d \<longleftrightarrow>
     (\<forall>kid sid k. map_of (de_session_keys d) (kid, sid) = Some k \<longrightarrow>
        (\<exists>c. map_of (de_keys d) kid = Some c \<and> k = derive_session_key lib c sid))"

text \<open>The block opens to \<open>p\<close> for whoever holds the key of \<open>c\<close> for the session.\<close>

definition opens :: "'w crypto_lib \<Rightarrow> enc_config \<Rightarrow> bytes \<Rightarrow> enc_block \<Rightarrow> bytes \<Rightarrow> bool" where
  "opens lib c sid b p \<longleftrightarrow>
     block_wf b \<and> eb_key_id b = ec_key_id c \<and> length (eb_ciphertext b) = length p \<and>
     cl_open lib (derive_session_key lib c sid) (eb_nonce b) (eb_ciphertext b @ eb_tag b) = Some p"

lemma new_encryptor_ok [simp]: "enc_ok lib (new_encryptor c)" "en_config (new_encryptor c) = c"
  by (simp_all add: enc_ok_def new_encryptor_def)

lemma new_decryptor_ok [simp]:
  "dec_ok lib (new_decryptor c)" "map_of (de_keys (new_decryptor c)) (ec_key_id c) = Some c"
  by (simp_all add: dec_ok_def new_decryptor_def)

lemma en_session_key_ok:
  assumes "enc_ok lib e"
  shows "\<exists>e'. en_session_key lib sid (e, w) = (Inr (derive_session_key lib (en_config e) sid), (e', w)) \<and>
              enc_ok lib e' \<and> en_config e' = en_config e"
  using assms by (auto simp: en_session_key_def enc_ok_def Let_def update_conv' split: option.splits)

lemma de_session_key_ok:
  assumes "dec_ok lib d" and "map_of (de_keys d) kid = Some c"
  shows "\<exists>d'. de_session_key lib kid sid d = (Inr (derive_session_key lib c sid), d') \<and>
              dec_ok lib d' \<and> de_keys d' = de_keys d"
  using assms by (fastforce simp: de_session_key_def dec_ok_def Let_def update_conv' split: option.splits)

lemma split_tag:
  "length ct = n + 16 \<Longrightarrow> length (py_take (- 16) ct) = n \<and> length (py_drop (- 16) ct) = 16 \<and>
     py_take (- 16) ct @ py_drop (- 16) ct = ct"
  by (simp add: py_take_def py_drop_def)

lemma encrypt_opens:
  assumes "lib_ok lib" and "enc_ok lib e" and "encrypt lib p sid (e, w) = (Inr b, (e', w'))"
  shows "opens lib (en_config e) sid b p \<and> enc_ok lib e' \<and> en_config e' = en_config e"
proof -
  let ?k = "derive_session_key lib (en_config e) sid"
  obtain e1 where k: "en_session_key lib sid (e, w) = (Inr ?k, (e1, w))"
    and e1: "enc_ok lib e1" "en_config e1 = en_config e"
    using en_session_key_ok [OF assms(2)] by blast
  obtain nonce w1 where n: "cl_urandom lib 12 w = (nonce, w1)" by fastforce
  with assms(1) have ln: "length nonce = 12" unfolding lib_ok_def by (metis fst_conv)
  obtain ct where ct: "cl_seal lib ?k nonce p = Inr ct"
    using assms(3) by (cases "cl_seal lib ?k nonce p") (simp_all add: encrypt_def bnd_apply k on_snd_apply urandom_def n)
  have c: "length ct = length p + 16" "cl_open lib ?k nonce ct = Some p"
    using assms(1) ct by (auto simp: lib_ok_def)
  have b: "b = \<lparr>eb_key_id = ec_key_id (en_config e), eb_nonce = nonce,
               eb_ciphertext = py_take (- 16) ct, eb_tag = py_drop (- 16) ct\<rparr>" and "block_wf b" and "e' = e1"
    using assms(3) by (simp_all add: encrypt_def bnd_apply k on_snd_apply urandom_def n ct e1(2))
  with e1 c split_tag [OF c(1)] show ?thesis by (simp add: opens_def)
qed

lemma encrypt_runs:
  assumes "lib_ok lib" and "enc_ok lib e" and "\<forall>k n. \<exists>c. cl_seal lib k n p = Inr c"
  shows "\<exists>b s'. encrypt lib p sid (e, w) = (Inr b, s')"
proof -
  let ?k = "derive_session_key lib (en_config e) sid"
  obtain e1 where k: "en_session_key lib sid (e, w) = (Inr ?k, (e1, w))"
    using en_session_key_ok [OF assms(2)] by blast
  obtain nonce w1 where n: "cl_urandom lib 12 w = (nonce, w1)" by fastforce
  with assms(1) have ln: "length nonce = 12" unfolding lib_ok_def by (metis fst_conv)
  obtain ct where ct: "cl_seal lib ?k nonce p = Inr ct" using assms(3) by blast
  then have "length ct = length p + 16" using assms(1) by (auto simp: lib_ok_def)
  with split_tag ln show ?thesis
    by (auto simp: encrypt_def bnd_apply k on_snd_apply urandom_def n ct block_wf_def)
qed

lemma decrypt_opens:
  assumes "dec_ok lib d" and "map_of (de_keys d) (ec_key_id c) = Some c" and "opens lib c sid b p"
  shows "\<exists>d'. decrypt lib b sid d = (Inr p, d') \<and> dec_ok lib d' \<and> de_keys d' = de_keys d"
proof -
  have kid: "eb_key_id b = ec_key_id c" and o: "cl_open lib (derive_session_key lib c sid) (eb_nonce b) (eb_ciphertext b @ eb_tag b) = Some p"
    using assms(3) by (auto simp: opens_def)
  obtain d' where "de_session_key lib (ec_key_id c) sid d = (Inr (derive_session_key lib c sid), d')"
    "dec_ok lib d'" "de_keys d' = de_keys d"
    using de_session_key_ok [OF assms(1,2)] by blast
  then show ?thesis by (simp add: decrypt_def bnd_apply kid o)
qed

lemma decrypt_keeps:
  assumes "dec_ok lib d" and "decrypt lib b sid d = (r, d')"
  shows "dec_ok lib d' \<and> de_keys d' = de_keys d"
proof (cases "map_of (de_keys d) (eb_key_id b)")
  case None
  with assms(1) have "map_of (de_session_keys d) (eb_key_id b, sid) = None"
    by (cases "map_of (de_session_keys d) (eb_key_id b, sid)") (fastforce simp: dec_ok_def)+
  with None assms show ?thesis by (auto simp: decrypt_def bnd_apply de_session_key_def)
next
  case (Some c)
  obtain d1 where "de_session_key lib (eb_key_id b) sid d = (Inr (derive_session_key lib c sid), d1)"
    "dec_ok lib d1" "de_keys d1 = de_keys d"
    using de_session_key_ok [OF assms(1) Some] by blast
  with assms(2) show ?thesis by (auto simp: decrypt_def bnd_apply split: option.splits)
qed

lemma decrypt_stream_opens:
  assumes "dec_ok lib d" and "map_of (de_keys d) (ec_key_id c) = Some c" and "list_all2 (opens lib c sid) bs ps"
  shows "\<exists>d'. decrypt_stream lib bs sid d = (Inr (concat ps), d') \<and> dec_ok lib d' \<and> de_keys d' = de_keys d"
  using assms(3,1,2)
proof (induction bs ps arbitrary: d rule: list_all2_induct)
  case Nil
  then show ?case by simp
next
  case (Cons b bs p ps)
  obtain d1 where d1: "decrypt lib b sid d = (Inr p, d1)" "dec_ok lib d1" "de_keys d1 = de_keys d"
    using decrypt_opens [OF Cons.prems Cons.hyps(1)] by blast
  from Cons.IH [OF d1(2)] d1(3) Cons.prems(2) obtain d2 where
    "decrypt_stream lib bs sid d1 = (Inr (concat ps), d2)" "dec_ok lib d2" "de_keys d2 = de_keys d1" by auto
  with d1 show ?case by (simp add: bnd_apply)
qed

text \<open>A key under a new id leaves the invariant and the keys of the other ids alone.\<close>

lemma add_key_ok:
  assumes "dec_ok lib d" and "map_of (de_keys d) (ec_key_id c) = None"
  shows "dec_ok lib (add_key c d)" and "map_of (de_keys (add_key c d)) (ec_key_id c) = Some c"
    and "kid \<noteq> ec_key_id c \<Longrightarrow> map_of (de_keys (add_key c d)) kid = map_of (de_keys d) kid"
  using assms by (fastforce simp: dec_ok_def add_key_def update_conv')+

section \<open>A small instance\<close>

text \<open>A cipher that appends 16 zero bytes, for the concrete runs below.\<close>

definition plain_lib :: "unit crypto_lib" where
  "plain_lib =
     \<lparr>cl_urandom = (\<lambda>n w. (replicate n 7, w)), cl_hkdf = (\<lambda>mk salt info. mk),
      cl_seal = (\<lambda>k n p. Inr (p @ replicate 16 0)),
      cl_open = (\<lambda>k n c. if drop (length c - 16) c = replicate 16 0 then Some (take (length c - 16) c) else None)\<rparr>"

lemma plain_lib_ok: "lib_ok plain_lib"
  by (simp add: lib_ok_def plain_lib_def)

definition key_config :: "nat \<Rightarrow> enc_config" where
  "key_config i = \<lparr>master_key = replicate 32 (byte_of i), ec_key_id = [107, 48 + i], block_size = 64,
                   algorithm = lit ''AES-256-GCM''\<rparr>"

section \<open>Properties\<close>

text \<open>The wire format of an encrypted block is exact in both directions: a byte string parses to a
  block if and only if that block has a 12 byte nonce and a 16 byte tag and serializes, without an
  error, to that very byte string.\<close>

theorem block_wire_format: "deserialize d = Inr b \<longleftrightarrow> block_wf b \<and> serialize b = Inr d"
  using deserialize_serialize serialize_deserialize by blast



text \<open>Key rotation: after \<open>add_key\<close> with a new id, the decryptor opens what was encrypted under
  the old key and what is encrypted under the new one.\<close>

theorem rotation_keeps_old_data:
  assumes "dec_ok lib d" and "map_of (de_keys d) (ec_key_id c) = Some c"
    and "map_of (de_keys d) (ec_key_id c') = None"
    and "opens lib c sid b p" and "opens lib c' sid b' p'"
  shows "fst (decrypt lib b sid (add_key c' d)) = Inr p \<and> fst (decrypt lib b' sid (add_key c' d)) = Inr p' \<and>
         dec_ok lib (add_key c' d)"
proof -
  have ne: "ec_key_id c \<noteq> ec_key_id c'" using assms(2,3) by auto
  note a = add_key_ok [OF assms(1,3)]
  have c: "map_of (de_keys (add_key c' d)) (ec_key_id c) = Some c" using a(3) [OF ne] assms(2) by simp
  show ?thesis
    using decrypt_opens [OF a(1) c assms(4)] decrypt_opens [OF a(1,2) assms(5)] a(1) by auto
qed

definition zero_block :: "nat \<Rightarrow> enc_block" where
  "zero_block i = \<lparr>eb_key_id = [107, 48 + i], eb_nonce = replicate 12 0, eb_ciphertext = [byte_of i],
                   eb_tag = replicate 16 0\<rparr>"

lemma zero_block_opens: "opens plain_lib (key_config i) sid (zero_block i) [byte_of i]"
  by (simp add: opens_def zero_block_def key_config_def block_wf_def plain_lib_def)

lemma rotation_keeps_old_data_witness:
  "fst (decrypt plain_lib (zero_block 1) [1] (add_key (key_config 2) (new_decryptor (key_config 1)))) = Inr [1] \<and>
   fst (decrypt plain_lib (zero_block 2) [1] (add_key (key_config 2) (new_decryptor (key_config 1)))) = Inr [2]"
proof -
  have "map_of (de_keys (new_decryptor (key_config 1))) (ec_key_id (key_config 2)) = None"
    by (simp add: new_decryptor_def key_config_def)
  from rotation_keeps_old_data [OF new_decryptor_ok(1,2) this zero_block_opens zero_block_opens]
  show ?thesis by (simp add: byte_of_def)
qed

text \<open>The cache of session keys is not dropped when a key is replaced: after a session key was
  derived, \<open>add_key\<close> with another master key under the same id leaves the old session key in use,
  so that \<open>decrypt\<close> answers as before the replacement.\<close>

theorem replaced_key_stays_cached:
  assumes "decrypt lib b sid d = (Inr p, d')" and "ec_key_id c = eb_key_id b"
  shows "map_of (de_keys (add_key c d')) (eb_key_id b) = Some c \<and>
         decrypt lib b sid (add_key c d') = (Inr p, add_key c d')"
proof -
  obtain k where k: "de_session_key lib (eb_key_id b) sid d = (Inr k, d')"
    and o: "cl_open lib k (eb_nonce b) (eb_ciphertext b @ eb_tag b) = Some p"
    using assms(1) by (auto simp: decrypt_def split: option.splits)
  have "map_of (de_session_keys d') (eb_key_id b, sid) = Some k"
    using k by (auto simp: de_session_key_def Let_def update_conv' split: option.splits)
  then have "de_session_key lib (eb_key_id b) sid (add_key c d') = (Inr k, add_key c d')"
    by (simp add: de_session_key_def add_key_def)
  with o show ?thesis by (simp add: decrypt_def bnd_apply add_key_def assms(2) update_conv')
qed

lemma replaced_key_stays_cached_witness:
  "\<exists>d'. decrypt plain_lib (zero_block 1) [1] (new_decryptor (key_config 1)) = (Inr [1], d') \<and>
     fst (decrypt plain_lib (zero_block 1) [1] (add_key ((key_config 1)\<lparr>master_key := replicate 32 9\<rparr>) d')) = Inr [1]"
proof -
  obtain d' where d': "decrypt plain_lib (zero_block 1) [1] (new_decryptor (key_config 1)) = (Inr [byte_of 1], d')"
    using decrypt_opens [OF new_decryptor_ok(1,2) zero_block_opens] by blast
  from d' replaced_key_stays_cached [OF d', of "(key_config 1)\<lparr>master_key := replicate 32 9\<rparr>"] show ?thesis
    by (simp add: key_config_def zero_block_def byte_of_def)
qed

text \<open>\<open>from_env\<close> reads back what \<open>to_env_dict\<close> wrote, the master key and its id, except the block
  size, which is not written and becomes 4096 again.\<close>

theorem config_env_round_trip:
  assumes "length (master_key c) = 32" and "ev (lit ''CHEN_MASTER_KEY'') = map_of (to_env_dict c) (lit ''CHEN_MASTER_KEY'')"
    and "ev (lit ''CHEN_KEY_ID'') = map_of (to_env_dict c) (lit ''CHEN_KEY_ID'')"
  shows "config_from_env lib ev w =
     (Inr \<lparr>master_key = master_key c, ec_key_id = ec_key_id c, block_size = 4096, algorithm = lit ''AES-256-GCM''\<rparr>, w)"
proof -
  have k: "env_str ev (lit ''CHEN_MASTER_KEY'') [] = b64_encode (master_key c)"
    "env_str ev (lit ''CHEN_KEY_ID'') [] = ec_key_id c"
    using assms(2,3) by (simp_all add: env_str_def to_env_dict_def)
  have "b64_encode (master_key c) \<noteq> []" using assms(1) by (metis b64_encode.simps(1) b64_decode_encode list.size(3) option.inject zero_neq_numeral)
  then show ?thesis
    unfolding config_from_env_def k Let_def by (simp add: mk_config_def config_post_init_def assms(1))
qed

lemma config_env_round_trip_witness:
  "config_from_env plain_lib (map_of (to_env_dict (key_config 1))) () = (Inr ((key_config 1)\<lparr>block_size := 4096\<rparr>), ())"
  using config_env_round_trip [of "key_config 1" "map_of (to_env_dict (key_config 1))" plain_lib "()"]
  by (simp add: key_config_def)

end
