(* ===== verification/Sec_Stream.thy ===== *)
theory Sec_Stream
  imports Sec_Crypto
begin

text \<open>
  \<open>chen/security/stream.py\<close>: data cut into blocks, each encrypted on its own, and the framing of
  a list of blocks as one byte string.

  The framing is parsed by \<open>deserialize_stream\<close>, which takes the bytes left to read instead of an
  offset into the whole.
\<close>

section \<open>Blocks of a stream\<close>

record stream_block =
  sb_index :: int
  sb_block :: enc_block
  sb_is_last :: bool

function stream_from ::
  "'w crypto_lib \<Rightarrow> bytes \<Rightarrow> bytes \<Rightarrow> int \<Rightarrow> int \<Rightarrow> (encryptor \<times> 'w, py_exc, stream_block list) act" where
  "stream_from lib d sid bs i =
     (if 0 < bs \<and> i < int (length d)
      then bnd (encrypt lib (take (nat bs) (drop (nat i) d)) sid) (\<lambda>b.
           bnd (stream_from lib d sid bs (i + bs)) (\<lambda>rest.
           ret (\<lparr>sb_index = i div bs, sb_block = b, sb_is_last = (int (length d) \<le> i + bs)\<rparr> # rest)))
      else ret [])"
  by pat_completeness auto
termination
  by (relation "measure (\<lambda>(lib, d, sid, bs, i). nat (int (length d) - i))") auto

definition encrypt_to_stream ::
  "'w crypto_lib \<Rightarrow> bytes \<Rightarrow> bytes \<Rightarrow> int option \<Rightarrow> (encryptor \<times> 'w, py_exc, stream_block list) act" where
  "encrypt_to_stream lib d sid block_sz =
     (\<lambda>(e, w).
        if d = [] then bnd (encrypt lib [] sid) (\<lambda>b. ret [\<lparr>sb_index = 0, sb_block = b, sb_is_last = True\<rparr>]) (e, w)
        else stream_from lib d sid (block_size_of block_sz e) 0 (e, w))"

text \<open>\<open>stream_iter\<close> run to its end.\<close>

function iter_from ::
  "'w crypto_lib \<Rightarrow> bytes \<Rightarrow> bytes \<Rightarrow> int \<Rightarrow> int \<Rightarrow> (encryptor \<times> 'w, py_exc, stream_block list) act" where
  "iter_from lib d sid bs i =
     (let total_len = int (length d) in
      if 0 < bs \<and> i < max total_len 1
      then bnd (encrypt lib (if i < total_len then take (nat bs) (drop (nat i) d) else []) sid) (\<lambda>b.
           (let is_last = (total_len \<le> i + bs \<or> i = 0 \<and> total_len = 0);
                sb = \<lparr>sb_index = i div bs, sb_block = b, sb_is_last = is_last\<rparr>
            in if is_last then ret [sb]
               else bnd (iter_from lib d sid bs (i + bs)) (\<lambda>rest. ret (sb # rest))))
      else ret [])"
  by pat_completeness auto
termination
  by (relation "measure (\<lambda>(lib, d, sid, bs, i). nat (max (int (length d)) 1 - i))") (auto simp: Let_def)

definition stream_iter ::
  "'w crypto_lib \<Rightarrow> bytes \<Rightarrow> bytes \<Rightarrow> int option \<Rightarrow> (encryptor \<times> 'w, py_exc, stream_block list) act" where
  "stream_iter lib d sid block_sz = (\<lambda>(e, w). iter_from lib d sid (block_size_of block_sz e) 0 (e, w))"

definition decrypt_blocks ::
  "'w crypto_lib \<Rightarrow> stream_block list \<Rightarrow> bytes \<Rightarrow> (decryptor, py_exc, bytes) act" where
  "decrypt_blocks lib blocks sid = decrypt_stream lib (map sb_block (sort_key sb_index blocks)) sid"

section \<open>Framing\<close>

definition frame :: "stream_block \<Rightarrow> py_exc + bytes" where
  "frame sb =
     (case serialize (sb_block sb) of
        Inl e \<Rightarrow> Inl e
      | Inr bs \<Rightarrow>
          (case be32_encode (length bs) of
             None \<Rightarrow> Inl OtherError
           | Some hdr \<Rightarrow> Inr (hdr @ bs @ [if sb_is_last sb then 1 else 0])))"

fun serialize_stream :: "stream_block list \<Rightarrow> py_exc + bytes" where
  "serialize_stream [] = Inr []"
| "serialize_stream (sb # sbs) =
     (case frame sb of
        Inl e \<Rightarrow> Inl e
      | Inr f \<Rightarrow> (case serialize_stream sbs of Inl e \<Rightarrow> Inl e | Inr rest \<Rightarrow> Inr (f @ rest)))"

definition be32_value :: "bytes \<Rightarrow> nat" where
  "be32_value bs = (case be32_decode bs of None \<Rightarrow> 0 | Some n \<Rightarrow> n)"

function deserialize_stream :: "int \<Rightarrow> bytes \<Rightarrow> py_exc + stream_block list" where
  "deserialize_stream idx d =
     (if d = [] \<or> length d < 4 then Inr []
      else (let n = be32_value (take 4 d) in
        if length d < 4 + n + 1 then Inr []
        else (case deserialize (take n (drop 4 d)) of
                Inl e \<Rightarrow> Inl e
              | Inr b \<Rightarrow>
                  (case deserialize_stream (idx + 1) (drop (4 + n + 1) d) of
                     Inl e \<Rightarrow> Inl e
                   | Inr rest \<Rightarrow>
                       Inr (\<lparr>sb_index = idx, sb_block = b, sb_is_last = (d ! (4 + n) \<noteq> 0)\<rparr> # rest)))))"
  by pat_completeness auto
termination
  by (relation "measure (\<lambda>(idx, d). length d)") auto

declare stream_from.simps [simp del] iter_from.simps [simp del] deserialize_stream.simps [simp del]

section \<open>What the encryption of a stream yields\<close>

text \<open>Blocks numbered from \<open>k\<close>, only the final one marked, and the pieces they open to.\<close>

fun numbered :: "int \<Rightarrow> stream_block list \<Rightarrow> bool" where
  "numbered k [] = True"
| "numbered k (sb # sbs) \<longleftrightarrow> sb_index sb = k \<and> (sb_is_last sb \<longleftrightarrow> sbs = []) \<and> numbered (k + 1) sbs"

definition stream_of ::
  "'w crypto_lib \<Rightarrow> enc_config \<Rightarrow> bytes \<Rightarrow> stream_block list \<Rightarrow> bytes list \<Rightarrow> bool" where
  "stream_of lib c sid sbs ps \<longleftrightarrow> list_all2 (opens lib c sid) (map sb_block sbs) ps"

lemma stream_from_opens:
  assumes "lib_ok lib" and "enc_ok lib e" and "0 < bs" and "0 \<le> i" and "bs dvd i"
    and "stream_from lib d sid bs i (e, w) = (Inr sbs, (e', w'))"
  shows "numbered (i div bs) sbs \<and> (sbs = [] \<longleftrightarrow> int (length d) \<le> i) \<and> enc_ok lib e' \<and> en_config e' = en_config e \<and>
         (\<exists>ps. stream_of lib (en_config e) sid sbs ps \<and> concat ps = drop (nat i) d \<and>
               (\<forall>p\<in>set ps. int (length p) \<le> bs))"
  using assms
proof (induction lib d sid bs i arbitrary: e w sbs e' w' rule: stream_from.induct)
  case (1 lib d sid bs i)
  show ?case
  proof (cases "i < int (length d)")
    case False
    then have "sbs = [] \<and> e' = e" using "1.prems" by (simp add: stream_from.simps [of lib d])
    with False "1.prems" show ?thesis by (auto simp: stream_of_def)
  next
    case True
    let ?p = "take (nat bs) (drop (nat i) d)"
    obtain b e1 w1 rest where b: "encrypt lib ?p sid (e, w) = (Inr b, (e1, w1))"
      and rest: "stream_from lib d sid bs (i + bs) (e1, w1) = (Inr rest, (e', w'))"
      and sbs: "sbs = \<lparr>sb_index = i div bs, sb_block = b, sb_is_last = (int (length d) \<le> i + bs)\<rparr> # rest"
      using "1.prems"(3,6) True by (fastforce simp: stream_from.simps [of lib d sid bs i])
    note en = encrypt_opens [OF "1.prems"(1,2) b]
    have i': "0 \<le> i + bs" "bs dvd i + bs" "(i + bs) div bs = i div bs + 1" using "1.prems"(3,4,5) by auto
    have ih: "numbered (i div bs + 1) rest \<and> (rest = [] \<longleftrightarrow> int (length d) \<le> i + bs) \<and> enc_ok lib e' \<and>
        en_config e' = en_config e1 \<and> (\<exists>ps. stream_of lib (en_config e1) sid rest ps \<and> concat ps = drop (nat (i + bs)) d \<and>
              (\<forall>p\<in>set ps. int (length p) \<le> bs))"
      using "1.IH" [OF _ "1.prems"(1) _ "1.prems"(3) i'(1,2) rest] True "1.prems"(3) en unfolding i'(3) by blast
    then obtain ps where ps: "stream_of lib (en_config e) sid rest ps" "concat ps = drop (nat (i + bs)) d"
      "\<forall>p\<in>set ps. int (length p) \<le> bs"
      using en by auto
    have "nat (i + bs) = nat bs + nat i" using "1.prems"(3,4) by simp
    then have "?p @ drop (nat (i + bs)) d = drop (nat i) d"
      by (metis append_take_drop_id drop_drop)
    with ps en have "stream_of lib (en_config e) sid sbs (?p # ps) \<and> concat (?p # ps) = drop (nat i) d \<and>
        (\<forall>p\<in>set (?p # ps). int (length p) \<le> bs)"
      using "1.prems"(3) by (auto simp: stream_of_def sbs)
    then have "\<exists>ps. stream_of lib (en_config e) sid sbs ps \<and> concat ps = drop (nat i) d \<and>
        (\<forall>p\<in>set ps. int (length p) \<le> bs)" by blast
    moreover have "numbered (i div bs) sbs" using ih sbs by auto
    ultimately show ?thesis using ih en sbs True by simp
  qed
qed

lemma encrypt_to_stream_opens:
  assumes "lib_ok lib" and "enc_ok lib e" and "0 < block_size_of bs e"
    and "encrypt_to_stream lib d sid bs (e, w) = (Inr sbs, (e', w'))"
  shows "numbered 0 sbs \<and> sbs \<noteq> [] \<and> enc_ok lib e' \<and> en_config e' = en_config e \<and>
         (\<exists>ps. stream_of lib (en_config e) sid sbs ps \<and> concat ps = d \<and>
               (\<forall>p\<in>set ps. int (length p) \<le> block_size_of bs e))"
proof (cases "d = []")
  case True
  then obtain b where b: "encrypt lib [] sid (e, w) = (Inr b, (e', w'))"
    and sbs: "sbs = [\<lparr>sb_index = 0, sb_block = b, sb_is_last = True\<rparr>]"
    using assms(4) by (auto simp: encrypt_to_stream_def)
  from encrypt_opens [OF assms(1,2) b] True assms(3) show ?thesis
    by (auto simp: sbs stream_of_def intro!: exI [of _ "[[]]"])
next
  case False
  then have "stream_from lib d sid (block_size_of bs e) 0 (e, w) = (Inr sbs, (e', w'))"
    using assms(4) by (simp add: encrypt_to_stream_def)
  from stream_from_opens [OF assms(1,2,3) _ _ this] False show ?thesis by auto
qed

lemma numbered_sorted:
  "numbered k sbs \<Longrightarrow> sorted (map sb_index sbs) \<and> distinct (map sb_index sbs) \<and> (\<forall>sb\<in>set sbs. k \<le> sb_index sb)"
  by (induction sbs arbitrary: k) force+

section \<open>Parsing the frames\<close>

fun indexed :: "int \<Rightarrow> stream_block list \<Rightarrow> bool" where
  "indexed k [] = True"
| "indexed k (sb # sbs) \<longleftrightarrow> sb_index sb = k \<and> indexed (k + 1) sbs"

lemma numbered_indexed: "numbered k sbs \<Longrightarrow> indexed k sbs"
  by (induction sbs arbitrary: k) auto

lemma indexed_take: "indexed k sbs \<Longrightarrow> indexed k (take n sbs)"
  by (induction sbs arbitrary: k n) (auto simp: take_Cons split: nat.splits)

lemma deserialize_frame:
  assumes "block_wf (sb_block sb)" and "sb_index sb = k" and "frame sb = Inr f"
  shows "deserialize_stream k (f @ more_bytes) =
    (case deserialize_stream (k + 1) more_bytes of Inl e \<Rightarrow> Inl e | Inr rest \<Rightarrow> Inr (sb # rest))"
proof -
  obtain bs hdr where bs: "serialize (sb_block sb) = Inr bs" and hdr: "be32_encode (length bs) = Some hdr"
    and f: "f = hdr @ bs @ [if sb_is_last sb then 1 else 0]"
    using assms(3) by (auto simp: frame_def split: sum.splits option.splits)
  have lh: "length hdr = 4" by (rule length_be32 [OF hdr])
  define d where "d = f @ more_bytes"
  have d4: "take 4 d = hdr" "drop 4 d = bs @ (if sb_is_last sb then 1 else 0) # more_bytes"
    by (simp_all add: d_def f lh)
  have n: "be32_value (take 4 d) = length bs" unfolding d4(1) by (simp add: be32_value_def be32.dec_enc [OF hdr])
  have len: "length d = 4 + length bs + 1 + length more_bytes" by (simp add: d_def f lh)
  have fl: "d ! (4 + length bs) = (if sb_is_last sb then 1 else 0)"
    by (simp add: d_def f lh nth_append)
  have dr: "drop (4 + length bs + 1) d = more_bytes" by (simp add: d_def f lh)
  have des: "deserialize (take (length bs) (drop 4 d)) = Inr (sb_block sb)"
    unfolding d4(2) using deserialize_serialize [OF assms(1) bs] by simp
  have sbe: "\<lparr>sb_index = k, sb_block = sb_block sb, sb_is_last = (d ! (4 + length bs) \<noteq> 0)\<rparr> = sb"
    unfolding fl using assms(2) by (cases sb) simp
  have ne: "\<not> (d = [] \<or> length d < 4)" "\<not> length d < 4 + length bs + 1" using len by auto
  show ?thesis
    unfolding d_def [symmetric] deserialize_stream.simps [of k d] n Let_def des dr sum.case sbe
    using ne by simp
qed

lemma deserialize_stream_append:
  assumes "\<forall>sb\<in>set sbs. block_wf (sb_block sb)" and "indexed k sbs" and "serialize_stream sbs = Inr wire"
    and "deserialize_stream (k + int (length sbs)) tail = Inr rest"
  shows "deserialize_stream k (wire @ tail) = Inr (sbs @ rest)"
  using assms
proof (induction sbs arbitrary: k wire)
  case Nil
  then show ?case by simp
next
  case (Cons sb sbs)
  obtain f rst where f: "frame sb = Inr f" and rst: "serialize_stream sbs = Inr rst" and wire: "wire = f @ rst"
    using Cons.prems(3) by (auto split: sum.splits)
  have e: "k + int (length (sb # sbs)) = k + 1 + int (length sbs)" by simp
  have "deserialize_stream (k + 1) (rst @ tail) = Inr (sbs @ rest)"
    by (rule Cons.IH [OF _ _ rst Cons.prems(4) [unfolded e]]) (use Cons.prems(1,2) in auto)
  then show ?case
    using deserialize_frame [OF _ _ f, of k "rst @ tail"] Cons.prems(1,2) by (simp add: wire)
qed

text \<open>Fewer bytes than the next frame announces: the reader stops without an error.\<close>

definition partial_frame :: "bytes \<Rightarrow> bool" where
  "partial_frame t \<longleftrightarrow> length t < 4 \<or> length t < 4 + be32_value (take 4 t) + 1"

lemma deserialize_partial: "partial_frame t \<Longrightarrow> deserialize_stream k t = Inr []"
  by (auto simp: deserialize_stream.simps [of k t] partial_frame_def Let_def)

lemma deserialize_serialize_stream:
  assumes "\<forall>sb\<in>set sbs. block_wf (sb_block sb)" and "indexed k sbs" and "serialize_stream sbs = Inr wire"
  shows "deserialize_stream k wire = Inr sbs"
  using deserialize_stream_append [OF assms, of "[]" "[]"] deserialize_partial [of "[]"]
  by (simp add: partial_frame_def)

definition stream_encode :: "stream_block list \<Rightarrow> bytes option" where
  "stream_encode sbs =
     (if indexed 0 sbs \<and> (\<forall>sb\<in>set sbs. block_wf (sb_block sb))
      then (case serialize_stream sbs of Inl _ \<Rightarrow> None | Inr d \<Rightarrow> Some d) else None)"

definition stream_decode :: "bytes \<Rightarrow> stream_block list option" where
  "stream_decode d = (case deserialize_stream 0 d of Inl _ \<Rightarrow> None | Inr sbs \<Rightarrow> Some sbs)"

interpretation stream: codec stream_encode stream_decode
  by unfold_locales
    (auto simp: stream_encode_def stream_decode_def deserialize_serialize_stream split: if_splits sum.splits)

section \<open>Decryption\<close>

lemma stream_of_wf: "stream_of lib c sid sbs ps \<Longrightarrow> \<forall>sb\<in>set sbs. block_wf (sb_block sb)"
  by (auto simp: stream_of_def list_all2_conv_all_nth opens_def in_set_conv_nth)

lemma decrypt_blocks_stream:
  assumes "dec_ok lib d" and "map_of (de_keys d) (ec_key_id c) = Some c" and "stream_of lib c sid sbs ps"
    and "numbered k sbs" and "mset sbs' = mset sbs"
  shows "\<exists>d'. decrypt_blocks lib sbs' sid d = (Inr (concat ps), d') \<and> dec_ok lib d'"
proof -
  note n = numbered_sorted [OF assms(4)]
  have "inj_on sb_index (set sbs')"
    using n assms(5) by (metis distinct_map set_mset_mset)
  then have "sort_key sb_index sbs' = sbs"
    using n assms(5) by (intro sort_key_inj_key_eq) auto
  then show ?thesis
    using decrypt_stream_opens [OF assms(1,2) assms(3) [unfolded stream_of_def]] by (auto simp: decrypt_blocks_def)
qed

section \<open>Runs without an error\<close>

definition seals_below :: "'w crypto_lib \<Rightarrow> nat \<Rightarrow> bool" where
  "seals_below lib n \<longleftrightarrow> (\<forall>k nonce p. length p < n \<longrightarrow> (\<exists>c. cl_seal lib k nonce p = Inr c))"

lemma encrypt_runs_below:
  assumes "lib_ok lib" and "enc_ok lib e" and "seals_below lib n" and "length p < n"
  shows "\<exists>b e' w'. encrypt lib p sid (e, w) = (Inr b, (e', w')) \<and> enc_ok lib e' \<and> en_config e' = en_config e"
proof -
  have "\<forall>k nonce. \<exists>c. cl_seal lib k nonce p = Inr c" using assms(3,4) by (simp add: seals_below_def)
  then obtain b s' where "encrypt lib p sid (e, w) = (Inr b, s')" using encrypt_runs [OF assms(1,2)] by blast
  with encrypt_opens [OF assms(1,2)] show ?thesis by (cases s') blast
qed

lemma stream_from_runs:
  assumes "lib_ok lib" and "seals_below lib (2 ^ 31)" and "bs < 2 ^ 31" and "enc_ok lib e"
  shows "\<exists>sbs s'. stream_from lib d sid bs i (e, w) = (Inr sbs, s')"
  using assms
proof (induction lib d sid bs i arbitrary: e w rule: stream_from.induct)
  case (1 lib d sid bs i)
  show ?case
  proof (cases "0 < bs \<and> i < int (length d)")
    case False
    then show ?thesis by (simp only: stream_from.simps [of lib d sid bs i] if_False) (simp add: ret_def)
  next
    case True
    have "length (take (nat bs) (drop (nat i) d)) < 2 ^ 31" using "1.prems"(3) True by simp
    then obtain b e' w' where b: "encrypt lib (take (nat bs) (drop (nat i) d)) sid (e, w) = (Inr b, (e', w'))"
      and e': "enc_ok lib e'"
      using encrypt_runs_below [OF "1.prems"(1,4,2)] by blast
    obtain sbs s' where "stream_from lib d sid bs (i + bs) (e', w') = (Inr sbs, s')"
      using "1.IH" [OF True "1.prems"(1,2,3) e'] by blast
    with True b show ?thesis by (simp add: stream_from.simps [of lib d sid bs i] bnd_apply)
  qed
qed

lemma encrypt_to_stream_runs:
  assumes "lib_ok lib" and "enc_ok lib e" and "0 < block_size_of bs e" and "seals_below lib (2 ^ 31)"
    and "block_size_of bs e < 2 ^ 31"
  shows "\<exists>sbs s'. encrypt_to_stream lib d sid bs (e, w) = (Inr sbs, s')"
proof (cases "d = []")
  case True
  obtain b e' w' where "encrypt lib [] sid (e, w) = (Inr b, (e', w'))"
    using encrypt_runs_below [OF assms(1,2,4), of "[]" sid w] by auto
  with True show ?thesis by (simp add: encrypt_to_stream_def bnd_apply)
next
  case False
  then show ?thesis using stream_from_runs [OF assms(1,4,5,2)] by (simp add: encrypt_to_stream_def)
qed

lemma frame_runs:
  assumes "opens lib c sid (sb_block sb) p" and "utf8_encode (ec_key_id c) = Some kid" and "length kid \<le> 255"
    and "length p < 2 ^ 31"
  shows "\<exists>f. frame sb = Inr f"
proof -
  have kid: "utf8_encode (eb_key_id (sb_block sb)) = Some kid" and wf: "block_wf (sb_block sb)"
    and ct: "length (eb_ciphertext (sb_block sb)) = length p"
    using assms(1,2) by (auto simp: opens_def)
  have "1 + length kid + 12 + length p + 16 < 2 ^ 32" using assms(3,4) by simp
  with kid wf ct assms(3) show ?thesis
    by (simp add: frame_def serialize_def block_wf_def be32_encode_def)
qed

lemma serialize_stream_runs:
  assumes "stream_of lib c sid sbs ps" and "utf8_encode (ec_key_id c) = Some kid" and "length kid \<le> 255"
    and "\<forall>p\<in>set ps. length p < 2 ^ 31"
  shows "\<exists>wire. serialize_stream sbs = Inr wire"
  using assms
proof (induction sbs arbitrary: ps)
  case Nil
  then show ?case by simp
next
  case (Cons sb sbs)
  from Cons.prems(1) obtain p ps' where p: "ps = p # ps'" "opens lib c sid (sb_block sb) p" "stream_of lib c sid sbs ps'"
    by (auto simp: stream_of_def list_all2_Cons1)
  obtain f where "frame sb = Inr f" using frame_runs [OF p(2) Cons.prems(2,3)] Cons.prems(4) p(1) by auto
  moreover obtain wire where "serialize_stream sbs = Inr wire"
    using Cons.IH [OF p(3) Cons.prems(2,3)] Cons.prems(4) p(1) by auto
  ultimately show ?case by simp
qed

section \<open>Properties\<close>


text \<open>The blocks may arrive in any order: every permutation of a stream decrypts to the data.\<close>

theorem stream_order_irrelevant:
  assumes "lib_ok lib" and "enc_ok lib e" and "dec_ok lib dd" and "0 < block_size_of bs e"
    and "map_of (de_keys dd) (ec_key_id (en_config e)) = Some (en_config e)"
    and "encrypt_to_stream lib d sid bs (e, w) = (Inr sbs, s')" and "mset sbs' = mset sbs"
  shows "fst (decrypt_blocks lib sbs' sid dd) = Inr d"
proof -
  obtain e' w' where s': "s' = (e', w')" by fastforce
  obtain ps where n: "numbered 0 sbs" and ps: "stream_of lib (en_config e) sid sbs ps" "concat ps = d"
    using encrypt_to_stream_opens [OF assms(1,2,4) assms(6) [unfolded s']] by blast
  from decrypt_blocks_stream [OF assms(3,5) ps(1) n assms(7)] ps(2) show ?thesis by auto
qed

text \<open>Truncation is not noticed: when only the first \<open>n\<close> frames of a stream arrive, with or
  without a part of the next frame, parsing and decryption succeed and give a prefix of the data,
  although no block that arrived is marked as the last one.\<close>

theorem stream_truncation_undetected:
  assumes "lib_ok lib" and "enc_ok lib e" and "dec_ok lib dd" and "0 < block_size_of bs e"
    and "map_of (de_keys dd) (ec_key_id (en_config e)) = Some (en_config e)"
    and "encrypt_to_stream lib d sid bs (e, w) = (Inr sbs, s')" and "n < length sbs"
    and "serialize_stream (take n sbs) = Inr wire" and "partial_frame t"
  shows "\<exists>d' p. deserialize_stream 0 (wire @ t) = Inr (take n sbs) \<and> (\<forall>sb\<in>set (take n sbs). \<not> sb_is_last sb) \<and>
                decrypt_blocks lib (take n sbs) sid dd = (Inr p, d') \<and> (\<exists>r. d = p @ r)"
proof -
  obtain e' w' where s': "s' = (e', w')" by fastforce
  obtain ps where n: "numbered 0 sbs" and ps: "stream_of lib (en_config e) sid sbs ps" "concat ps = d"
    using encrypt_to_stream_opens [OF assms(1,2,4) assms(6) [unfolded s']] by blast
  have tk: "stream_of lib (en_config e) sid (take n sbs) (take n ps)"
    using ps(1) by (simp add: stream_of_def take_map [symmetric] list_all2_takeI)
  have des: "deserialize_stream 0 (wire @ t) = Inr (take n sbs @ [])"
    by (rule deserialize_stream_append [OF stream_of_wf [OF tk] indexed_take [OF numbered_indexed [OF n]] assms(8)])
      (rule deserialize_partial [OF assms(9)])
  have nolast: "\<not> sb_is_last sb" if "numbered k xs" "m < length xs" "sb \<in> set (take m xs)" for k m xs sb
    using that by (induction xs arbitrary: k m) (auto simp: take_Cons split: nat.splits)
  have srt: "sort_key sb_index (take n sbs) = take n sbs"
    using numbered_sorted [OF n] by (metis sort_key_id_if_sorted sorted_wrt_take take_map)
  obtain d' where "decrypt_blocks lib (take n sbs) sid dd = (Inr (concat (take n ps)), d')"
    using decrypt_stream_opens [OF assms(3,5) tk [unfolded stream_of_def]] by (auto simp: decrypt_blocks_def srt)
  moreover have "d = concat (take n ps) @ concat (drop n ps)"
    unfolding ps(2) [symmetric] by (metis append_take_drop_id concat_append)
  ultimately show ?thesis using des nolast [OF n assms(7)] by auto
qed

lemma iter_from_eq:
  "0 < bs \<Longrightarrow> 0 \<le> i \<Longrightarrow> d \<noteq> [] \<Longrightarrow> iter_from lib d sid bs i = stream_from lib d sid bs i"
proof (induction lib d sid bs i rule: stream_from.induct)
  case (1 lib d sid bs i)
  have ex: "stream_from lib d sid bs j = ret []" if "int (length d) \<le> j" for j
    using that by (simp add: stream_from.simps [of lib d sid bs j])
  have l: "1 \<le> int (length d)" using "1.prems"(3) by (cases d) auto
  then have m: "max (int (length d)) 1 = int (length d)" "\<not> int (length d) = 0" by auto
  show ?case
  proof (cases "i < int (length d)")
    case False
    then show ?thesis by (simp add: iter_from.simps [of lib d sid bs i] stream_from.simps [of lib d sid bs i] m Let_def)
  next
    case True
    show ?thesis
      unfolding iter_from.simps [of lib d sid bs i] stream_from.simps [of lib d sid bs i] Let_def m(1)
      using True "1.prems" "1.IH" m(2)
      by (cases "int (length d) \<le> i + bs") (simp_all add: ex ret_def bnd_def del: of_nat_eq_0_iff)
  qed
qed

text \<open>The lazy \<open>stream_iter\<close> yields the stream that \<open>encrypt_to_stream\<close> returns, with the same
  effects, whenever the block size is positive.\<close>

theorem stream_iter_same:
  assumes "0 < block_size_of bs e"
  shows "stream_iter lib d sid bs (e, w) = encrypt_to_stream lib d sid bs (e, w)"
proof (cases "d = []")
  case True
  then show ?thesis using assms
    by (simp add: stream_iter_def encrypt_to_stream_def iter_from.simps [of lib "[]"] Let_def)
next
  case False
  then show ?thesis using iter_from_eq [OF assms, of 0 d lib sid] by (simp add: stream_iter_def encrypt_to_stream_def)
qed

text \<open>A negative block size is accepted and loses the data: the stream of any data that is not empty
  has no blocks, nothing is raised, and it decrypts to the empty string.\<close>

theorem negative_block_size_drops_data:
  assumes "n < 0" and "d \<noteq> []"
  shows "encrypt_to_stream lib d sid (Some n) (e, w) = (Inr [], (e, w)) \<and>
         decrypt_blocks lib [] sid dd = (Inr [], dd)"
  using assms by (simp add: encrypt_to_stream_def block_size_of_def stream_from.simps [of lib d] decrypt_blocks_def)

section \<open>Concrete streams\<close>

definition demo_encryptor :: encryptor where
  "demo_encryptor = new_encryptor (key_config 2)"

definition demo_decryptor :: decryptor where
  "demo_decryptor = new_decryptor (key_config 2)"

definition demo_data :: bytes where
  "demo_data = replicate 70 5"

lemma demo_ok:
  "enc_ok plain_lib demo_encryptor" "dec_ok plain_lib demo_decryptor"
  "0 < block_size_of None demo_encryptor" "block_size_of None demo_encryptor < 2 ^ 31"
  "map_of (de_keys demo_decryptor) (ec_key_id (en_config demo_encryptor)) = Some (en_config demo_encryptor)"
  "seals_below plain_lib (2 ^ 31)" "utf8_encode (ec_key_id (en_config demo_encryptor)) = Some [107, 50]"
  "length ([107, 50] :: bytes) \<le> 255" "block_size_of None demo_encryptor = 64"
  unfolding demo_encryptor_def demo_decryptor_def
  by (simp_all add: block_size_of_def seals_below_def plain_lib_def)
    (simp_all add: key_config_def utf8_char_def byte_of_def)


lemma demo_stream:
  "\<exists>sbs s' wire. encrypt_to_stream plain_lib demo_data [1] None (demo_encryptor, ()) = (Inr sbs, s') \<and>
     2 \<le> length sbs \<and> serialize_stream (take 1 sbs) = Inr wire"
proof -
  obtain sbs e' w' where run: "encrypt_to_stream plain_lib demo_data [1] None (demo_encryptor, ()) = (Inr sbs, (e', w'))"
    using encrypt_to_stream_runs [OF plain_lib_ok demo_ok(1,3,6,4)] by (metis surj_pair)
  obtain ps where ps: "stream_of plain_lib (en_config demo_encryptor) [1] sbs ps" "concat ps = demo_data"
    and len: "\<forall>p\<in>set ps. int (length p) \<le> 64"
    using encrypt_to_stream_opens [OF plain_lib_ok demo_ok(1,3) run] unfolding demo_ok(9) by blast
  have l: "length sbs = length ps" using ps(1) list_all2_lengthD by (fastforce simp: stream_of_def)
  have "length (concat ps) \<le> 64 * length ps"
    using len by (induction ps) auto
  then have "2 \<le> length sbs" unfolding l ps(2) by (simp add: demo_data_def)
  moreover have "stream_of plain_lib (en_config demo_encryptor) [1] (take 1 sbs) (take 1 ps)"
    using ps(1) unfolding stream_of_def take_map [symmetric] by (rule list_all2_takeI)
  moreover have "\<forall>p\<in>set (take 1 ps). length p < 2 ^ 31"
    using len by (fastforce dest: in_set_takeD)
  ultimately show ?thesis using run serialize_stream_runs [OF _ demo_ok(7,8)] by blast
qed

lemma stream_order_irrelevant_witness:
  "\<exists>sbs s'. encrypt_to_stream plain_lib demo_data [1] None (demo_encryptor, ()) = (Inr sbs, s') \<and>
     fst (decrypt_blocks plain_lib (rev sbs) [1] demo_decryptor) = Inr demo_data"
proof -
  obtain sbs s' where run: "encrypt_to_stream plain_lib demo_data [1] None (demo_encryptor, ()) = (Inr sbs, s')"
    using demo_stream by blast
  with stream_order_irrelevant [OF plain_lib_ok demo_ok(1-3,5) run mset_rev] show ?thesis by blast
qed

lemma stream_truncation_undetected_witness:
  "\<exists>sbs s' wire d' p. encrypt_to_stream plain_lib demo_data [1] None (demo_encryptor, ()) = (Inr sbs, s') \<and>
     2 \<le> length sbs \<and> deserialize_stream 0 (wire @ [0, 0]) = Inr (take 1 sbs) \<and>
     decrypt_blocks plain_lib (take 1 sbs) [1] demo_decryptor = (Inr p, d')"
proof -
  obtain sbs s' wire where run: "encrypt_to_stream plain_lib demo_data [1] None (demo_encryptor, ()) = (Inr sbs, s')"
    and l: "2 \<le> length sbs" and wire: "serialize_stream (take 1 sbs) = Inr wire"
    using demo_stream by blast
  have "1 < length sbs" "partial_frame [0, 0]" using l by (simp_all add: partial_frame_def)
  from run l stream_truncation_undetected [OF plain_lib_ok demo_ok(1-3,5) run this(1) wire this(2)]
  show ?thesis by blast
qed

lemma stream_iter_same_witness:
  "stream_iter plain_lib demo_data [1] None (demo_encryptor, ()) =
   encrypt_to_stream plain_lib demo_data [1] None (demo_encryptor, ())"
  by (rule stream_iter_same [OF demo_ok(3)])

lemma negative_block_size_drops_data_witness:
  "encrypt_to_stream plain_lib [1, 2] [1] (Some (- 8)) (demo_encryptor, ()) = (Inr [], (demo_encryptor, ()))"
  using negative_block_size_drops_data [of "- 8" "[1, 2]" plain_lib "[1]" demo_encryptor "()" demo_decryptor] by simp

end
