(* ===== verification/Sec_Keys.thy ===== *)
theory Sec_Keys
  imports Sec_Crypto
begin

text \<open>
  \<open>chen/security/keys.py\<close>: the directory of key files and the pointer to the active key.

  The directory is an association list from file names to contents. A content is what
  \<open>json.loads\<close> makes of the file: the fields of a key, an object with an \<open>active_key_id\<close> or
  without one, another JSON value, or no JSON at all. Key ids do not contain \<open>/\<close>.
\<close>

section \<open>Key files\<close>

record key_meta =
  km_key_id :: pystr
  km_created_at :: pystr
  km_status :: pystr
  km_master_key_b64 :: pystr
  km_rotation_of :: "pystr option"

datatype key_content = MetaFile key_meta | ActiveFile "pystr option" | OtherJson | NotJson

type_synonym key_files = "(pystr \<times> key_content) list"

definition active_st :: pystr where "active_st = lit ''active''"
definition retired_st :: pystr where "retired_st = lit ''retired''"
definition revoked_st :: pystr where "revoked_st = lit ''revoked''"

lemma status_distinct [simp]:
  "retired_st \<noteq> active_st" "active_st \<noteq> retired_st" "revoked_st \<noteq> active_st" "active_st \<noteq> revoked_st"
  "retired_st \<noteq> revoked_st" "revoked_st \<noteq> retired_st"
  by (simp_all add: active_st_def retired_st_def revoked_st_def)

definition to_config :: "key_meta \<Rightarrow> py_exc + enc_config" where
  "to_config m =
     (case b64_decode (km_master_key_b64 m) of
        None \<Rightarrow> Inl ValueError
      | Some mk \<Rightarrow> mk_config mk (km_key_id m))"

definition from_config ::
  "('w \<Rightarrow> pystr \<times> 'w) \<Rightarrow> enc_config \<Rightarrow> pystr option \<Rightarrow> ('w, py_exc, key_meta) act" where
  "from_config now c rotation_of =
     (\<lambda>w. case now w of (t, w') \<Rightarrow>
        (Inr \<lparr>km_key_id = ec_key_id c, km_created_at = t, km_status = active_st,
              km_master_key_b64 = b64_encode (master_key c), km_rotation_of = rotation_of\<rparr>, w'))"

definition key_file :: "pystr \<Rightarrow> pystr" where
  "key_file kid = lit ''key_'' @ kid @ lit ''.json''"

definition active_file :: pystr where
  "active_file = lit ''active.json''"

section \<open>The key store\<close>

definition save_key :: "key_meta \<Rightarrow> key_files \<Rightarrow> key_files" where
  "save_key m fs = AList.update (key_file (km_key_id m)) (MetaFile m) fs"

definition generate_key ::
  "'w crypto_lib \<Rightarrow> ('w \<Rightarrow> pystr \<times> 'w) \<Rightarrow> pystr option \<Rightarrow> (key_files \<times> 'w, py_exc, key_meta) act" where
  "generate_key lib now rotation_of =
     bnd (on_snd (config_generate lib None)) (\<lambda>c.
     bnd (on_snd (from_config now c rotation_of)) (\<lambda>m. \<lambda>(fs, w). (Inr m, (save_key m fs, w))))"

text \<open>\<open>KeyMetadata.from_dict(json.loads(text))\<close>; \<open>JSONDecodeError\<close> is a \<open>ValueError\<close>.\<close>

definition load_key :: "pystr \<Rightarrow> key_files \<Rightarrow> py_exc + key_meta option" where
  "load_key kid fs =
     (case map_of fs (key_file kid) of
        None \<Rightarrow> Inr None
      | Some (MetaFile m) \<Rightarrow> Inr (Some m)
      | Some NotJson \<Rightarrow> Inl ValueError
      | Some _ \<Rightarrow> Inl TypeError)"

definition is_key_file :: "pystr \<Rightarrow> bool" where
  "is_key_file nm \<longleftrightarrow> 9 \<le> length nm \<and> take 4 nm = lit ''key_'' \<and> drop (length nm - 5) nm = lit ''.json''"

definition list_keys :: "key_files \<Rightarrow> key_meta list" where
  "list_keys fs =
     concat (map (\<lambda>x. case snd x of MetaFile m \<Rightarrow> [m] | _ \<Rightarrow> [])
       (sort_key fst (filter (\<lambda>x. is_key_file (fst x)) fs)))"

definition get_active :: "key_files \<Rightarrow> py_exc + key_meta option" where
  "get_active fs =
     (case map_of fs active_file of
        None \<Rightarrow> Inr None
      | Some NotJson \<Rightarrow> Inr None
      | Some OtherJson \<Rightarrow> Inl OtherError
      | Some (MetaFile _) \<Rightarrow> Inr None
      | Some (ActiveFile None) \<Rightarrow> Inr None
      | Some (ActiveFile (Some kid)) \<Rightarrow>
          (if kid = [] then Inr None
           else (case load_key kid fs of Inl ValueError \<Rightarrow> Inr None | r \<Rightarrow> r)))"

definition retire_others :: "pystr \<Rightarrow> key_meta list \<Rightarrow> key_files \<Rightarrow> key_files" where
  "retire_others kid ks fs =
     foldl (\<lambda>fs k. if km_key_id k \<noteq> kid \<and> km_status k = active_st
                   then save_key (k\<lparr>km_status := retired_st\<rparr>) fs else fs) fs ks"

definition activate :: "pystr \<Rightarrow> (key_files \<times> 'w, py_exc, unit) act" where
  "activate kid =
     (\<lambda>(fs, w). case load_key kid fs of
        Inl e \<Rightarrow> (Inl e, (fs, w))
      | Inr None \<Rightarrow> (Inl KeyError, (fs, w))
      | Inr (Some m) \<Rightarrow>
          (let fs = retire_others kid (list_keys fs) fs;
               fs = save_key (m\<lparr>km_status := active_st\<rparr>) fs
           in (Inr (), (AList.update active_file (ActiveFile (Some kid)) fs, w))))"

definition rotate_key ::
  "'w crypto_lib \<Rightarrow> ('w \<Rightarrow> pystr \<times> 'w) \<Rightarrow> (key_files \<times> 'w, py_exc, key_meta) act" where
  "rotate_key lib now =
     bnd (\<lambda>(fs, w). (get_active fs, (fs, w))) (\<lambda>current.
     bnd (generate_key lib now (map_option km_key_id current)) (\<lambda>m.
     bnd (activate (km_key_id m)) (\<lambda>_. ret m)))"

definition revoke :: "pystr \<Rightarrow> (key_files \<times> 'w, py_exc, unit) act" where
  "revoke kid =
     (\<lambda>(fs, w). case load_key kid fs of
        Inl e \<Rightarrow> (Inl e, (fs, w))
      | Inr None \<Rightarrow> (Inl KeyError, (fs, w))
      | Inr (Some m) \<Rightarrow> (Inr (), (save_key (m\<lparr>km_status := revoked_st\<rparr>) fs, w)))"

definition get_active_config ::
  "'w crypto_lib \<Rightarrow> ('w \<Rightarrow> pystr \<times> 'w) \<Rightarrow> (key_files \<times> 'w, py_exc, enc_config) act" where
  "get_active_config lib now =
     bnd (\<lambda>(fs, w). (get_active fs, (fs, w))) (\<lambda>current.
     bnd (case current of
            Some m \<Rightarrow> ret m
          | None \<Rightarrow> bnd (generate_key lib now None) (\<lambda>m. bnd (activate (km_key_id m)) (\<lambda>_. ret m)))
       (\<lambda>m. lift_err (to_config m)))"

fun configs_of :: "key_meta list \<Rightarrow> py_exc + enc_config list" where
  "configs_of [] = Inr []"
| "configs_of (m # ms) =
     (case to_config m of
        Inl e \<Rightarrow> Inl e
      | Inr c \<Rightarrow> (case configs_of ms of Inl e \<Rightarrow> Inl e | Inr cs \<Rightarrow> Inr (c # cs)))"

definition get_decryptor_keys :: "key_files \<Rightarrow> py_exc + enc_config list" where
  "get_decryptor_keys fs = configs_of (filter (\<lambda>m. km_status m \<noteq> revoked_st) (list_keys fs))"

section \<open>The directory as a map from ids to keys\<close>

definition get_meta :: "key_files \<Rightarrow> pystr \<Rightarrow> key_meta option" where
  "get_meta fs kid = (case map_of fs (key_file kid) of Some (MetaFile m) \<Rightarrow> Some m | _ \<Rightarrow> None)"

definition put_meta :: "pystr \<Rightarrow> key_meta \<Rightarrow> key_files \<Rightarrow> key_files" where
  "put_meta kid m fs = AList.update (key_file kid) (MetaFile m) fs"

lemma key_file_inj [simp]: "key_file a = key_file b \<longleftrightarrow> a = b"
  by (simp add: key_file_def)

lemma is_key_file_key_file [simp]: "is_key_file (key_file kid)"
  by (simp add: is_key_file_def key_file_def)

lemma active_file_other [simp]: "\<not> is_key_file active_file" "key_file kid \<noteq> active_file" "active_file \<noteq> key_file kid"
  by (simp_all add: is_key_file_def active_file_def key_file_def)

interpretation key_dir: keyed_store put_meta get_meta
  by unfold_locales (simp_all add: put_meta_def get_meta_def update_conv')

lemma save_key_put: "save_key m fs = put_meta (km_key_id m) m fs"
  by (simp add: save_key_def put_meta_def)

text \<open>Every key file holds a key and is named after it.\<close>

definition dir_ok :: "key_files \<Rightarrow> bool" where
  "dir_ok fs \<longleftrightarrow> distinct (map fst fs) \<and>
     (\<forall>nm c. map_of fs nm = Some c \<and> is_key_file nm \<longrightarrow> (\<exists>m. c = MetaFile m \<and> nm = key_file (km_key_id m)))"

lemma dir_ok_save [simp]: "dir_ok fs \<Longrightarrow> dir_ok (save_key m fs)"
  by (simp add: dir_ok_def save_key_def update_conv' distinct_update)

lemma dir_ok_put: "dir_ok fs \<Longrightarrow> km_key_id m = kid \<Longrightarrow> dir_ok (put_meta kid m fs)"
  using dir_ok_save [of fs m] by (simp add: save_key_put)

lemma dir_ok_pointer [simp]: "dir_ok fs \<Longrightarrow> dir_ok (AList.update active_file c fs)"
  by (simp add: dir_ok_def update_conv' distinct_update)

lemma get_meta_pointer [simp]: "get_meta (AList.update active_file c fs) kid = get_meta fs kid"
  by (simp add: get_meta_def update_conv')

lemma pointer_save [simp]: "map_of (save_key m fs) active_file = map_of fs active_file"
  by (simp add: save_key_def update_conv')

lemma load_key_get_meta: "get_meta fs kid = Some m \<Longrightarrow> load_key kid fs = Inr (Some m)"
  by (auto simp: get_meta_def load_key_def split: option.splits key_content.splits)

lemma load_key_Some: "load_key kid fs = Inr (Some m) \<longleftrightarrow> get_meta fs kid = Some m"
  by (auto simp: get_meta_def load_key_def split: option.splits key_content.splits)

lemma get_meta_id: "dir_ok fs \<Longrightarrow> get_meta fs kid = Some m \<Longrightarrow> km_key_id m = kid"
  by (fastforce simp: dir_ok_def get_meta_def split: option.splits key_content.splits)

lemma set_list_keys:
  assumes "dir_ok fs"
  shows "m \<in> set (list_keys fs) \<longleftrightarrow> get_meta fs (km_key_id m) = Some m"
proof
  assume "m \<in> set (list_keys fs)"
  then obtain nm where "(nm, MetaFile m) \<in> set fs" "is_key_file nm"
    by (auto simp: list_keys_def split: key_content.splits)
  moreover from this have "map_of fs nm = Some (MetaFile m)" using assms by (simp add: dir_ok_def)
  moreover from calculation have "nm = key_file (km_key_id m)"
    using assms unfolding dir_ok_def by (metis key_content.inject(1))
  ultimately have "map_of fs nm = Some (MetaFile m)" "nm = key_file (km_key_id m)" by blast+
  then show "get_meta fs (km_key_id m) = Some m" by (simp add: get_meta_def)
next
  assume "get_meta fs (km_key_id m) = Some m"
  then have "(key_file (km_key_id m), MetaFile m) \<in> set fs"
    by (auto simp: get_meta_def dest: map_of_SomeD split: option.splits key_content.splits)
  then show "m \<in> set (list_keys fs)"
    by (force simp: list_keys_def)
qed

lemma retire_others_ok [simp]: "dir_ok fs \<Longrightarrow> dir_ok (retire_others kid ks fs)"
  unfolding retire_others_def by (induction ks arbitrary: fs) auto

lemma retire_others_meta:
  assumes "\<forall>k\<in>set ks. get_meta fs0 (km_key_id k) = Some k"
    and "\<forall>i. get_meta fs i = get_meta fs0 i \<or> i \<noteq> kid \<and> (\<exists>m. get_meta fs0 i = Some m \<and> km_status m = active_st \<and>
             get_meta fs i = Some (m\<lparr>km_status := retired_st\<rparr>))"
  shows "get_meta (retire_others kid ks fs) i =
     (if i \<noteq> kid \<and> (\<exists>k\<in>set ks. km_key_id k = i \<and> km_status k = active_st)
      then map_option (\<lambda>m. m\<lparr>km_status := retired_st\<rparr>) (get_meta fs0 i) else get_meta fs i)"
  using assms
proof (induction ks arbitrary: fs)
  case Nil
  then show ?case by (simp add: retire_others_def)
next
  case (Cons k ks)
  let ?fs = "if km_key_id k \<noteq> kid \<and> km_status k = active_st then save_key (k\<lparr>km_status := retired_st\<rparr>) fs else fs"
  have k: "get_meta fs0 (km_key_id k) = Some k" using Cons.prems(1) by simp
  have "\<forall>i. get_meta ?fs i = get_meta fs0 i \<or> i \<noteq> kid \<and> (\<exists>m. get_meta fs0 i = Some m \<and> km_status m = active_st \<and>
             get_meta ?fs i = Some (m\<lparr>km_status := retired_st\<rparr>))"
    using Cons.prems(2) k by (auto simp: save_key_put key_dir.get_put)
  from Cons.IH [OF _ this] Cons.prems(1)
  have "get_meta (retire_others kid (k # ks) fs) i =
     (if i \<noteq> kid \<and> (\<exists>k\<in>set ks. km_key_id k = i \<and> km_status k = active_st)
      then map_option (\<lambda>m. m\<lparr>km_status := retired_st\<rparr>) (get_meta fs0 i) else get_meta ?fs i)"
    by (simp add: retire_others_def)
  then show ?case using k by (auto simp: save_key_put key_dir.get_put)
qed

lemma retire_all_meta:
  assumes "dir_ok fs"
  shows "get_meta (retire_others kid (list_keys fs) fs) i =
     map_option (\<lambda>m. if i \<noteq> kid \<and> km_status m = active_st then m\<lparr>km_status := retired_st\<rparr> else m) (get_meta fs i)"
proof -
  have "\<forall>k\<in>set (list_keys fs). get_meta fs (km_key_id k) = Some k"
    using set_list_keys [OF assms] by blast
  note r = retire_others_meta [OF this, of fs kid i, simplified]
  show ?thesis
  proof (cases "get_meta fs i")
    case None
    then show ?thesis using r by simp
  next
    case (Some m)
    then have "m \<in> set (list_keys fs)" using set_list_keys [OF assms, of m] get_meta_id [OF assms Some] by simp
    moreover have "k = m" if "k \<in> set (list_keys fs)" "km_key_id k = i" for k
      using that set_list_keys [OF assms, of k] Some by simp
    ultimately have "(\<exists>k\<in>set (list_keys fs). km_key_id k = i \<and> km_status k = active_st) \<longleftrightarrow> km_status m = active_st"
      using get_meta_id [OF assms Some] by metis
    then show ?thesis unfolding r Some by simp
  qed
qed

text \<open>What activating \<open>kid\<close> makes of the key with id \<open>i\<close>.\<close>

definition activated :: "pystr \<Rightarrow> pystr \<Rightarrow> key_meta \<Rightarrow> key_meta" where
  "activated kid i m =
     (if i = kid then m\<lparr>km_status := active_st\<rparr>
      else if km_status m = active_st then m\<lparr>km_status := retired_st\<rparr> else m)"

lemma activated_status [simp]: "km_status (activated kid i m) = active_st \<longleftrightarrow> i = kid"
  by (simp add: activated_def)

lemma activate_run:
  assumes "dir_ok fs" and "get_meta fs kid = Some m"
  shows "\<exists>fs'. activate kid (fs, w) = (Inr (), (fs', w)) \<and> dir_ok fs' \<and>
           map_of fs' active_file = Some (ActiveFile (Some kid)) \<and>
           (\<forall>i. get_meta fs' i = map_option (activated kid i) (get_meta fs i))"
proof -
  have id: "km_key_id m = kid" by (rule get_meta_id [OF assms])
  define fs1 where "fs1 = retire_others kid (list_keys fs) fs"
  define fs2 where "fs2 = put_meta kid (m\<lparr>km_status := active_st\<rparr>) fs1"
  have ok: "dir_ok fs2" unfolding fs2_def fs1_def by (intro dir_ok_put retire_others_ok assms(1)) (simp add: id)
  have "get_meta fs2 i = map_option (activated kid i) (get_meta fs i)" for i
    unfolding fs2_def fs1_def key_dir.get_put retire_all_meta [OF assms(1)]
    using assms(2) by (cases "get_meta fs i") (auto simp: activated_def)
  moreover have "activate kid (fs, w) = (Inr (), (AList.update active_file (ActiveFile (Some kid)) fs2, w))"
    by (simp add: activate_def load_key_get_meta [OF assms(2)] Let_def save_key_put id fs2_def fs1_def)
  ultimately show ?thesis using ok by (simp add: update_conv')
qed

lemma get_active_pointer:
  "map_of fs active_file = Some (ActiveFile (Some kid)) \<Longrightarrow> kid \<noteq> [] \<Longrightarrow> get_meta fs kid = Some m \<Longrightarrow>
   get_active fs = Inr (Some m)"
  by (simp add: get_active_def load_key_get_meta)

lemma hex_of_bytes_length [simp]: "length (hex_of_bytes bs) = 2 * length bs"
  by (induction bs) (simp_all add: hex_of_bytes_def numeral_2_eq_2)

lemma config_generate_run:
  assumes "lib_ok lib"
  shows "\<exists>c w'. config_generate lib None w = (Inr c, w') \<and> length (master_key c) = 32 \<and>
           ec_key_id c \<noteq> [] \<and> mk_config (master_key c) (ec_key_id c) = Inr c"
proof -
  obtain mk w1 where mk: "cl_urandom lib 32 w = (mk, w1)" by fastforce
  obtain r w2 where r: "cl_urandom lib 8 w1 = (r, w2)" by fastforce
  have "length mk = 32" "length r = 8" using assms mk r unfolding lib_ok_def by (metis fst_conv)+
  moreover from this have "hex_of_bytes r \<noteq> []"
    by (metis hex_of_bytes_length list.size(3) mult_eq_0_iff numeral_neq_zero)
  ultimately show ?thesis
    by (simp add: config_generate_def bnd_apply urandom_def mk r mk_config_def config_post_init_def)
qed

lemma generate_key_run:
  assumes "lib_ok lib"
  shows "\<exists>m c w'. generate_key lib now ro (fs, w) = (Inr m, (save_key m fs, w')) \<and> km_status m = active_st \<and>
           km_key_id m \<noteq> [] \<and> km_rotation_of m = ro \<and> to_config m = Inr c"
proof -
  obtain c w1 where c: "config_generate lib None w = (Inr c, w1)" "ec_key_id c \<noteq> []"
    "mk_config (master_key c) (ec_key_id c) = Inr c"
    using config_generate_run [OF assms] by blast
  obtain t w2 where "now w1 = (t, w2)" by fastforce
  with c show ?thesis
    by (simp add: generate_key_def bnd_apply on_snd_apply from_config_def to_config_def)
qed

lemma to_config_status [simp]: "to_config (m\<lparr>km_status := st\<rparr>) = to_config m"
  by (simp add: to_config_def split: option.split)

lemma to_config_id: "to_config m = Inr c \<Longrightarrow> ec_key_id c = km_key_id m"
  by (auto simp: to_config_def mk_config_def config_post_init_def split: option.splits if_splits)

lemma configs_of_mem: "configs_of ms = Inr cs \<Longrightarrow> c \<in> set cs \<Longrightarrow> \<exists>m\<in>set ms. to_config m = Inr c"
  by (induction ms arbitrary: cs) (auto split: sum.splits)

section \<open>Properties\<close>

text \<open>C13: Activating a stored key, revoked ones included, makes it the one active key: \<open>get_active\<close>
  returns it, it alone among the listed keys has the status \<open>active\<close>, no key material changes, and
  the directory stays well formed.\<close>

theorem activation_switches_key:
  assumes "dir_ok fs" and "get_meta fs kid = Some m" and "kid \<noteq> []"
  shows "\<exists>fs'. activate kid (fs, w) = (Inr (), (fs', w)) \<and> dir_ok fs' \<and>
           get_active fs' = Inr (Some (m\<lparr>km_status := active_st\<rparr>)) \<and>
           (\<forall>k\<in>set (list_keys fs'). km_status k = active_st \<longleftrightarrow> km_key_id k = kid) \<and>
           (\<forall>i. map_option km_master_key_b64 (get_meta fs' i) = map_option km_master_key_b64 (get_meta fs i))"
proof -
  obtain fs' where run: "activate kid (fs, w) = (Inr (), (fs', w))" and ok: "dir_ok fs'"
    and ptr: "map_of fs' active_file = Some (ActiveFile (Some kid))"
    and get: "\<forall>i. get_meta fs' i = map_option (activated kid i) (get_meta fs i)"
    using activate_run [OF assms(1,2), where w = w] by blast
  have "get_active fs' = Inr (Some (m\<lparr>km_status := active_st\<rparr>))"
    by (rule get_active_pointer [OF ptr assms(3)]) (simp add: get assms(2) activated_def)
  moreover have "km_status k = active_st \<longleftrightarrow> km_key_id k = kid" if k: "k \<in> set (list_keys fs')" for k
    using k [unfolded set_list_keys [OF ok]] get by (metis activated_status map_option_eq_Some)
  moreover have "map_option km_master_key_b64 (get_meta fs' i) = map_option km_master_key_b64 (get_meta fs i)" for i
    using get by (cases "get_meta fs i") (auto simp: activated_def)
  ultimately show ?thesis using run ok by blast
qed

definition demo_meta :: "nat \<Rightarrow> pystr \<Rightarrow> key_meta" where
  "demo_meta i st = \<lparr>km_key_id = [48 + i], km_created_at = [], km_status = st,
     km_master_key_b64 = b64_encode (replicate 32 (byte_of i)), km_rotation_of = None\<rparr>"

definition demo_dir :: key_files where
  "demo_dir = [(active_file, ActiveFile (Some [48 + 2])), (key_file [48 + 2], MetaFile (demo_meta 2 active_st)),
               (key_file [48 + 3], MetaFile (demo_meta 3 revoked_st))]"

lemma demo_dir_ok:
  "dir_ok demo_dir" "get_meta demo_dir [48 + 2] = Some (demo_meta 2 active_st)"
  "get_meta demo_dir [48 + 3] = Some (demo_meta 3 revoked_st)"
  "map_of demo_dir active_file = Some (ActiveFile (Some [48 + 2]))"
proof -
  have "\<exists>m. c = MetaFile m \<and> nm = key_file (km_key_id m)" if "map_of demo_dir nm = Some c" "is_key_file nm" for nm c
    using that by (auto simp: demo_dir_def demo_meta_def split: if_splits)
  moreover have "distinct (map fst demo_dir)" by (simp add: demo_dir_def)
  ultimately show "dir_ok demo_dir" unfolding dir_ok_def by blast
qed (simp_all add: get_meta_def demo_dir_def)

lemma activation_switches_key_witness:
  "\<exists>fs'. activate [48 + 3] (demo_dir, ()) = (Inr (), (fs', ())) \<and> get_active fs' = Inr (Some (demo_meta 3 active_st))"
  using activation_switches_key [OF demo_dir_ok(1,3), of "()"] by (auto simp: demo_meta_def)

text \<open>Rotation does not fail on a well-formed directory with a readable pointer; the new key is
  active, records the key it replaces and has a valid configuration, and, unless its random id was
  taken, every old key that was not revoked is still listed, not revoked, with its key material, so
  that a decryptor keeps it.\<close>

theorem rotation_keeps_old_keys:
  assumes "lib_ok lib" and "dir_ok fs" and "get_active fs = Inr cur"
  shows "\<exists>m c fs' w'. rotate_key lib now (fs, w) = (Inr m, (fs', w')) \<and> get_active fs' = Inr (Some m) \<and>
           km_rotation_of m = map_option km_key_id cur \<and> to_config m = Inr c \<and>
           (get_meta fs (km_key_id m) = None \<longrightarrow>
            (\<forall>k\<in>set (list_keys fs). km_status k \<noteq> revoked_st \<longrightarrow>
               (\<exists>k'\<in>set (list_keys fs'). km_status k' \<noteq> revoked_st \<and> to_config k' = to_config k)))"
proof -
  obtain m c w' where gen: "generate_key lib now (map_option km_key_id cur) (fs, w) = (Inr m, (save_key m fs, w'))"
    and m: "km_status m = active_st" "km_key_id m \<noteq> []" "km_rotation_of m = map_option km_key_id cur" "to_config m = Inr c"
    using generate_key_run [OF assms(1)] by blast
  have g: "get_meta (save_key m fs) (km_key_id m) = Some m" by (simp add: save_key_put key_dir.get_put)
  obtain fs' where run: "activate (km_key_id m) (save_key m fs, w') = (Inr (), (fs', w'))" and ok: "dir_ok fs'"
    and ptr: "map_of fs' active_file = Some (ActiveFile (Some (km_key_id m)))"
    and get: "\<forall>i. get_meta fs' i = map_option (activated (km_key_id m) i) (get_meta (save_key m fs) i)"
    using activate_run [OF dir_ok_save [OF assms(2)] g, where w = w'] by blast
  have "m\<lparr>km_status := active_st\<rparr> = m" using m(1) by simp
  then have "get_active fs' = Inr (Some m)"
    using get_active_pointer [OF ptr m(2), of m] get g by (simp add: activated_def)
  moreover have "rotate_key lib now (fs, w) = (Inr m, (fs', w'))"
    by (simp add: rotate_key_def bnd_apply assms(3) gen run)
  moreover have "\<exists>k'\<in>set (list_keys fs'). km_status k' \<noteq> revoked_st \<and> to_config k' = to_config k"
    if fresh: "get_meta fs (km_key_id m) = None" and k: "k \<in> set (list_keys fs)" "km_status k \<noteq> revoked_st" for k
  proof -
    have gk: "get_meta fs (km_key_id k) = Some k" using k(1) set_list_keys [OF assms(2)] by blast
    then have ne: "km_key_id k \<noteq> km_key_id m" using fresh by auto
    let ?k' = "if km_status k = active_st then k\<lparr>km_status := retired_st\<rparr> else k"
    have "get_meta fs' (km_key_id k) = Some ?k'"
      using get ne gk by (simp add: save_key_put key_dir.get_put activated_def)
    then have "?k' \<in> set (list_keys fs')" using set_list_keys [OF ok, of ?k'] by simp
    then show ?thesis using k(2) by (intro bexI [of _ ?k']) auto
  qed
  ultimately show ?thesis using m by blast
qed

lemma rotation_keeps_old_keys_witness:
  "\<exists>m fs' w'. rotate_key plain_lib (\<lambda>w. ([], w)) (demo_dir, ()) = (Inr m, (fs', w')) \<and>
     get_active fs' = Inr (Some m) \<and> km_rotation_of m = Some [48 + 2]"
proof -
  have "get_active demo_dir = Inr (Some (demo_meta 2 active_st))"
    by (rule get_active_pointer [OF demo_dir_ok(4) _ demo_dir_ok(2)]) simp
  from rotation_keeps_old_keys [OF plain_lib_ok demo_dir_ok(1) this, of "\<lambda>w. ([], w)" "()"]
  show ?thesis by (auto simp: demo_meta_def)
qed

text \<open>Revoking the active key does not take it out of use: it stays the active key, so
  \<open>get_active_config\<close> still hands it out for encryption, while \<open>get_decryptor_keys\<close> no longer
  contains it, so that what is encrypted from then on cannot be decrypted.\<close>

theorem revoked_key_stays_active:
  assumes "dir_ok fs" and "map_of fs active_file = Some (ActiveFile (Some kid))" and "kid \<noteq> []"
    and "get_meta fs kid = Some m" and "to_config m = Inr c"
  shows "\<exists>fs'. revoke kid (fs, w) = (Inr (), (fs', w)) \<and>
           get_active_config lib now (fs', w) = (Inr c, (fs', w)) \<and>
           (\<forall>cs. get_decryptor_keys fs' = Inr cs \<longrightarrow> c \<notin> set cs)"
proof -
  let ?m = "m\<lparr>km_status := revoked_st\<rparr>"
  define fs' where "fs' = save_key ?m fs"
  have id: "km_key_id m = kid" by (rule get_meta_id [OF assms(1,4)])
  have run: "revoke kid (fs, w) = (Inr (), (fs', w))"
    by (simp add: revoke_def load_key_get_meta [OF assms(4)] fs'_def)
  have g: "get_meta fs' kid = Some ?m" by (simp add: fs'_def save_key_put key_dir.get_put id)
  have ptr: "map_of fs' active_file = Some (ActiveFile (Some kid))" by (simp add: fs'_def assms(2))
  have ok: "dir_ok fs'" unfolding fs'_def by (rule dir_ok_save [OF assms(1)])
  have "get_active fs' = Inr (Some ?m)" by (rule get_active_pointer [OF ptr assms(3) g])
  then have "get_active_config lib now (fs', w) = (Inr c, (fs', w))"
    by (simp add: get_active_config_def bnd_apply assms(5))
  moreover have "c \<notin> set cs" if cs: "get_decryptor_keys fs' = Inr cs" for cs
  proof
    assume "c \<in> set cs"
    then obtain k where k: "k \<in> set (list_keys fs')" "km_status k \<noteq> revoked_st" "to_config k = Inr c"
      using configs_of_mem [OF cs [unfolded get_decryptor_keys_def]] by auto
    have "km_key_id k = kid" using to_config_id [OF k(3)] to_config_id [OF assms(5)] id by simp
    with k(1) set_list_keys [OF ok] g have "k = ?m" by auto
    with k(2) show False by simp
  qed
  ultimately show ?thesis using run by blast
qed

lemma revoked_key_stays_active_witness:
  "\<exists>fs' c. revoke [48 + 2] (demo_dir, ()) = (Inr (), (fs', ())) \<and>
     get_active_config plain_lib (\<lambda>w. ([], w)) (fs', ()) = (Inr c, (fs', ()))"
proof -
  have "\<exists>c. to_config (demo_meta 2 active_st) = Inr c"
    by (simp add: to_config_def demo_meta_def mk_config_def config_post_init_def)
  then obtain c where "to_config (demo_meta 2 active_st) = Inr c" by blast
  from revoked_key_stays_active [OF demo_dir_ok(1,4) _ demo_dir_ok(2) this, of "()" plain_lib "\<lambda>w. ([], w)"]
  show ?thesis by auto
qed

text \<open>\<open>generate_key\<close>, which is documented not to activate, stores the new key with the status
  \<open>active\<close> but leaves the pointer alone: another key stays the active one.\<close>

theorem generated_key_marked_active:
  assumes "lib_ok lib" and "get_active fs = Inr (Some a)" and "map_of fs active_file = Some (ActiveFile (Some (km_key_id a)))"
  shows "\<exists>m fs' w'. generate_key lib now None (fs, w) = (Inr m, (fs', w')) \<and>
           get_meta fs' (km_key_id m) = Some m \<and> km_status m = active_st \<and>
           (km_key_id m \<noteq> km_key_id a \<longrightarrow> get_active fs' = Inr (Some a))"
proof -
  obtain m c w' where gen: "generate_key lib now None (fs, w) = (Inr m, (save_key m fs, w'))" and m: "km_status m = active_st"
    using generate_key_run [OF assms(1)] by blast
  have "load_key (km_key_id a) fs = Inr (Some a)" "km_key_id a \<noteq> []"
    using assms(2) by (auto simp: get_active_def assms(3) split: if_splits sum.splits option.splits py_exc.splits)
  then have "get_active (save_key m fs) = Inr (Some a)" if "km_key_id m \<noteq> km_key_id a"
    using that assms(3) get_active_pointer [of "save_key m fs" "km_key_id a" a]
    by (simp add: load_key_Some) (simp add: save_key_put key_dir.get_put)
  moreover have "get_meta (save_key m fs) (km_key_id m) = Some m" by (simp add: save_key_put key_dir.get_put)
  ultimately show ?thesis using gen m by blast
qed

lemma generated_key_marked_active_witness:
  "\<exists>m fs' w'. generate_key plain_lib (\<lambda>w. ([], w)) None (demo_dir, ()) = (Inr m, (fs', w')) \<and> km_status m = active_st"
proof -
  have a: "get_active demo_dir = Inr (Some (demo_meta 2 active_st))"
    by (rule get_active_pointer [OF demo_dir_ok(4) _ demo_dir_ok(2)]) simp
  have p: "map_of demo_dir active_file = Some (ActiveFile (Some (km_key_id (demo_meta 2 active_st))))"
    unfolding demo_dir_ok(4) by (simp add: demo_meta_def)
  from generated_key_marked_active [OF plain_lib_ok a p, of "\<lambda>w. ([], w)" "()"] show ?thesis by blast
qed

end
