(* ===== verification/Sec_Backend.thy ===== *)
theory Sec_Backend
  imports Sec_Crypto Core_Expert
begin

text \<open>
  \<open>chen/security/backends.py\<close>: the backend that encrypts what it hands to another backend.

  Its state is the encryptor, the decryptor and the state of the inner backend, which \<open>os.urandom\<close>
  reads as well.
\<close>

section \<open>The wrapper\<close>

record 'w enc_backend =
  xb_inner :: "'w backend"
  xb_session_id :: bytes
  xb_skip :: bool

type_synonym 'w xstate = "encryptor \<times> decryptor \<times> 'w"

definition on_enc :: "(encryptor \<times> 'w, 'e, 'a) act \<Rightarrow> ('w xstate, 'e, 'a) act" where
  "on_enc m = (\<lambda>(e, d, w). case m (e, w) of (r, (e', w')) \<Rightarrow> (r, (e', d, w')))"

definition on_dec :: "(decryptor, 'e, 'a) act \<Rightarrow> ('w xstate, 'e, 'a) act" where
  "on_dec m = (\<lambda>(e, d, w). case m d of (r, d') \<Rightarrow> (r, (e, d', w)))"

definition on_inner :: "('w, 'e, 'a) act \<Rightarrow> ('w xstate, 'e, 'a) act" where
  "on_inner m = (\<lambda>(e, d, w). case m w of (r, w') \<Rightarrow> (r, (e, d, w')))"

definition xb_encrypt_text :: "'w crypto_lib \<Rightarrow> 'w enc_backend \<Rightarrow> pystr \<Rightarrow> ('w xstate, py_exc, pystr) act" where
  "xb_encrypt_text lib xb s =
     (if xb_skip xb then ret s
      else bnd (on_enc (encrypt_text lib s (xb_session_id xb))) (\<lambda>b.
           bnd (lift_err (serialize b)) (\<lambda>bs. ret (b64_encode bs))))"

text \<open>Whatever fails, the text is returned as it came.\<close>

definition xb_decrypt_text :: "'w crypto_lib \<Rightarrow> 'w enc_backend \<Rightarrow> pystr \<Rightarrow> ('w xstate, py_exc, pystr) act" where
  "xb_decrypt_text lib xb s =
     (if xb_skip xb then ret s
      else try_except
        (bnd (lift_err (case b64_decode s of None \<Rightarrow> Inl ValueError | Some raw \<Rightarrow> Inr raw)) (\<lambda>raw.
         bnd (lift_err (deserialize raw)) (\<lambda>b.
         on_dec (decrypt_text lib b (xb_session_id xb)))))
        (\<lambda>_. ret s))"

definition xb_generate ::
  "'w crypto_lib \<Rightarrow> 'w enc_backend \<Rightarrow> pystr \<Rightarrow> int \<Rightarrow> ('w xstate, py_exc, pystr) act" where
  "xb_generate lib xb prompt max_tokens =
     bnd (xb_encrypt_text lib xb prompt) (\<lambda>enc.
     bnd (on_inner (bk_generate (xb_inner xb) enc max_tokens)) (xb_decrypt_text lib xb))"

definition xb_encode :: "'w crypto_lib \<Rightarrow> 'w enc_backend \<Rightarrow> pystr \<Rightarrow> ('w xstate, py_exc, kv_cache) act" where
  "xb_encode lib xb prompt =
     bnd (xb_encrypt_text lib xb prompt) (\<lambda>enc. on_inner (bk_encode (xb_inner xb) enc))"

text \<open>\<open>dataclasses.replace\<close> builds a new cache and runs \<open>__post_init__\<close> again.\<close>

definition xb_decode ::
  "'w crypto_lib \<Rightarrow> 'w enc_backend \<Rightarrow> kv_cache \<Rightarrow> int \<Rightarrow> ('w xstate, py_exc, pystr) act" where
  "xb_decode lib xb c max_tokens =
     bnd (xb_decrypt_text lib xb (source_text c)) (\<lambda>plain.
     bnd (lift_err (kv_post_init (c\<lparr>source_text := plain\<rparr>))) (\<lambda>c'.
     bnd (on_inner (bk_decode (xb_inner xb) c' max_tokens)) (xb_decrypt_text lib xb)))"

definition xb_transfer_cache :: "'w enc_backend \<Rightarrow> kv_cache \<Rightarrow> ('w xstate, py_exc, kv_cache) act" where
  "xb_transfer_cache xb c = on_inner (bk_transfer_cache (xb_inner xb) c)"

definition xb_count_tokens :: "'w enc_backend \<Rightarrow> pystr \<Rightarrow> ('w xstate, py_exc, int) act" where
  "xb_count_tokens xb s =
     (case bk_count_tokens (xb_inner xb) of
        Some f \<Rightarrow> on_inner (f s)
      | None \<Rightarrow> ret (estimate_tokens s))"

definition xb_capabilities :: "'w enc_backend \<Rightarrow> capabilities" where
  "xb_capabilities xb = (bk_capabilities (xb_inner xb))\<lparr>deterministic := False\<rparr>"

definition xb_model_id :: "'w enc_backend \<Rightarrow> pystr" where
  "xb_model_id xb = lit ''encrypted('' @ bk_model_id (xb_inner xb) @ lit '')''"

text \<open>What an expert sees of it; there is no \<open>resolved_params_m\<close>.\<close>

definition xb_backend :: "'w crypto_lib \<Rightarrow> 'w enc_backend \<Rightarrow> 'w xstate backend" where
  "xb_backend lib xb =
     \<lparr>bk_params_m = bk_params_m (xb_inner xb), bk_resolved_params_m = NoAttr,
      bk_capabilities = xb_capabilities xb, bk_model_id = xb_model_id xb,
      bk_generate = xb_generate lib xb, bk_encode = xb_encode lib xb, bk_decode = xb_decode lib xb,
      bk_transfer_cache = xb_transfer_cache xb, bk_count_tokens = Some (xb_count_tokens xb)\<rparr>"

text \<open>
  \<open>wrap_with_encryption\<close>: None where the backend is returned unwrapped. The name is what precedes
  the first \<open>-\<close> of the model id.
\<close>

definition wrap_with_encryption ::
  "unicode \<Rightarrow> 'w crypto_lib \<Rightarrow> 'w backend \<Rightarrow> enc_config \<Rightarrow> bytes option \<Rightarrow> bool \<Rightarrow> pystr list \<Rightarrow>
   ('w, py_exc, ('w enc_backend \<times> encryptor \<times> decryptor) option) act" where
  "wrap_with_encryption u lib b c session skip_if_trusted trusted =
     (let nm = py_lower u (takeWhile (\<lambda>ch. ch \<noteq> 45) (bk_model_id b)) in
      if skip_if_trusted \<and> nm \<in> set trusted then ret None
      else bnd (case session of
                  Some s \<Rightarrow> (if s \<noteq> [] then ret s else urandom lib 16)
                | None \<Rightarrow> urandom lib 16) (\<lambda>sid.
           ret (Some (\<lparr>xb_inner = b, xb_session_id = sid, xb_skip = False\<rparr>,
                      new_encryptor c, new_decryptor c))))"

section \<open>Sealed texts\<close>

text \<open>A text that the holder of the key of \<open>c\<close> reads as \<open>s\<close>.\<close>

definition sealed :: "'w crypto_lib \<Rightarrow> enc_config \<Rightarrow> bytes \<Rightarrow> pystr \<Rightarrow> pystr \<Rightarrow> bool" where
  "sealed lib c sid s t \<longleftrightarrow>
     (\<exists>raw b bs. b64_decode t = Some raw \<and> deserialize raw = Inr b \<and> opens lib c sid b bs \<and>
                 utf8_decode bs = Some s)"

lemma on_enc_Inr:
  "on_enc m (e, d, w) = (Inr x, s') \<longleftrightarrow> (\<exists>e' w'. m (e, w) = (Inr x, (e', w')) \<and> s' = (e', d, w'))"
  by (auto simp: on_enc_def split: prod.splits)

lemma xb_encrypt_text_sealed:
  assumes "lib_ok lib" and "enc_ok lib e" and "\<not> xb_skip xb"
    and "xb_encrypt_text lib xb s (e, d, w) = (Inr t, s')"
  shows "sealed lib (en_config e) (xb_session_id xb) s t \<and>
         (\<exists>e' w'. s' = (e', d, w') \<and> enc_ok lib e' \<and> en_config e' = en_config e)"
proof -
  obtain b e' w' raw where b: "encrypt_text lib s (xb_session_id xb) (e, w) = (Inr b, (e', w'))"
    and raw: "serialize b = Inr raw" and t: "t = b64_encode raw" and s': "s' = (e', d, w')"
    using assms(3,4) by (auto simp: xb_encrypt_text_def on_enc_Inr)
  obtain bs where bs: "utf8_encode s = Some bs" "encrypt lib bs (xb_session_id xb) (e, w) = (Inr b, (e', w'))"
    using b by (auto simp: encrypt_text_def split: option.splits)
  note en = encrypt_opens [OF assms(1,2) bs(2)]
  then have "deserialize raw = Inr b" using raw deserialize_serialize by (auto simp: opens_def)
  with en utf8.dec_enc [OF bs(1)] s' t show ?thesis by (auto simp: sealed_def)
qed

lemma xb_decrypt_text_sealed:
  assumes "dec_ok lib d" and "map_of (de_keys d) (ec_key_id c) = Some c" and "\<not> xb_skip xb"
    and "sealed lib c (xb_session_id xb) s t"
  shows "\<exists>d'. xb_decrypt_text lib xb t (e, d, w) = (Inr s, (e, d', w)) \<and> dec_ok lib d' \<and> de_keys d' = de_keys d"
proof -
  obtain raw b bs where t: "b64_decode t = Some raw" "deserialize raw = Inr b"
    and o: "opens lib c (xb_session_id xb) b bs" and bs: "utf8_decode bs = Some s"
    using assms(4) by (auto simp: sealed_def)
  obtain d' where "decrypt lib b (xb_session_id xb) d = (Inr bs, d')" "dec_ok lib d'" "de_keys d' = de_keys d"
    using decrypt_opens [OF assms(1,2) o] by blast
  then show ?thesis
    using t bs assms(3)
    by (simp add: xb_decrypt_text_def try_except_def bnd_apply on_dec_def decrypt_text_def)
qed

lemma xb_decrypt_text_total: "\<exists>r d'. xb_decrypt_text lib xb t (e, d, w) = (Inr r, (e, d', w))"
proof -
  have "\<exists>r' d'. on_dec m (e, d, w) = (r', (e, d', w))" for m :: "(decryptor, py_exc, pystr) act"
    by (cases "m d") (simp add: on_dec_def)
  then obtain g h where "\<And>m :: (decryptor, py_exc, pystr) act. on_dec m (e, d, w) = (g m, (e, h m, w))" by metis
  then show ?thesis
    by (auto simp: xb_decrypt_text_def try_except_def bnd_apply split: option.splits sum.splits)
qed

lemma xb_decrypt_text_plain:
  "b64_decode t = None \<Longrightarrow> xb_decrypt_text lib xb t s = (Inr t, s)"
  by (simp add: xb_decrypt_text_def try_except_def bnd_apply)

section \<open>The wrapped backend keeps the cache protocol\<close>

text \<open>
  \<open>transfer_cache\<close> keeps the text of a cache when the inner backend does; \<open>encode\<close> records the
  sealed prompt instead of the prompt.
\<close>

lemma xb_transfer_text:
  assumes "latent_backend (bk_encode (xb_inner xb)) (bk_transfer_cache (xb_inner xb))"
    and "kv_wf c" and "xb_transfer_cache xb c s = (Inr c', s')"
  shows "source_text c' = source_text c \<and> kv_wf c'"
proof -
  obtain e d w where s: "s = (e, d, w)" by (cases s)
  obtain w' where "bk_transfer_cache (xb_inner xb) c w = (Inr c', w')"
    using assms(3) by (auto simp: xb_transfer_cache_def on_inner_def s split: prod.splits)
  from latent_backend.transfer_text [OF assms(1,2) this] show ?thesis .
qed

lemma xb_encode_sealed:
  assumes "latent_backend (bk_encode (xb_inner xb)) (bk_transfer_cache (xb_inner xb))"
    and "lib_ok lib" and "enc_ok lib e" and "\<not> xb_skip xb"
    and "xb_encode lib xb p (e, d, w) = (Inr c, s')"
  shows "sealed lib (en_config e) (xb_session_id xb) p (source_text c) \<and> kv_wf c"
proof -
  obtain t e1 w1 w2 where t: "xb_encrypt_text lib xb p (e, d, w) = (Inr t, (e1, d, w1))"
    and c: "bk_encode (xb_inner xb) t w1 = (Inr c, w2)"
    using assms(5) xb_encrypt_text_sealed [OF assms(2-4)]
    by (fastforce simp: xb_encode_def on_inner_def split: prod.splits)
  from latent_backend.encode_text [OF assms(1) c] xb_encrypt_text_sealed [OF assms(2-4) t] show ?thesis by simp
qed

section \<open>Properties\<close>


definition echo_backend :: "unit backend" where
  "echo_backend =
     \<lparr>bk_params_m = IsInt 1, bk_resolved_params_m = NoAttr,
      bk_capabilities = \<lparr>supports_kv_cache = True, supports_streaming = False, supports_batching = False,
                         deterministic = True\<rparr>,
      bk_model_id = lit ''mock-1B'', bk_generate = (\<lambda>p _. ret p),
      bk_encode = (\<lambda>p. ret \<lparr>kv_keys = [], kv_values = [], source_model = [], source_layer_count = 0,
                           source_hidden_size = 0, source_n_heads = 0, source_text = p, last_token_id = 0,
                           position = 0, kv_metadata = []\<rparr>),
      bk_decode = (\<lambda>c _. ret (source_text c)), bk_transfer_cache = (\<lambda>c. ret c), bk_count_tokens = None\<rparr>"

definition echo_wrapped :: "unit enc_backend" where
  "echo_wrapped = \<lparr>xb_inner = echo_backend, xb_session_id = [1], xb_skip = False\<rparr>"

lemma echo_latent: "latent_backend (bk_encode (xb_inner echo_wrapped)) (bk_transfer_cache (xb_inner echo_wrapped))"
  by unfold_locales (auto simp: echo_wrapped_def echo_backend_def kv_wf_def)

lemma echo_encrypts:
  "\<exists>ct e1 w1. xb_encrypt_text plain_lib echo_wrapped (lit ''hi'')
     (new_encryptor (key_config 2), new_decryptor (key_config 2), ()) = (Inr ct, (e1, new_decryptor (key_config 2), w1))"
proof -
  have u: "utf8_encode (lit ''hi'') = Some [104, 105]" by (simp add: utf8_char_def byte_of_def)
  obtain b e1 w1 where b: "encrypt plain_lib [104, 105] [1] (new_encryptor (key_config 2), ()) = (Inr b, (e1, w1))"
    using encrypt_runs [OF plain_lib_ok, of "new_encryptor (key_config 2)" "[104, 105]" "[1]" "()"]
    by (auto simp: plain_lib_def)
  from encrypt_opens [OF plain_lib_ok _ b] have "eb_key_id b = [107, 50]" by (simp add: opens_def key_config_def)
  then obtain raw where "serialize b = Inr raw" by (simp add: serialize_def utf8_char_def)
  with u b show ?thesis
    by (simp add: xb_encrypt_text_def echo_wrapped_def encrypt_text_def on_enc_def bnd_apply del: lit_Cons)
qed


text \<open>\<open>encode\<close> gives the inner backend the sealed prompt, but \<open>decode\<close> of the cache it made, moved
  along any number of transfers, gives it the prompt itself: against the description of the module,
  the inner backend sees the plaintext.\<close>

theorem encrypted_decode_reveals_prompt:
  assumes "latent_backend (bk_encode (xb_inner xb)) (bk_transfer_cache (xb_inner xb))"
    and "lib_ok lib" and "enc_ok lib e" and "dec_ok lib d" and "\<not> xb_skip xb"
    and "map_of (de_keys d) (ec_key_id (en_config e)) = Some (en_config e)"
    and "xb_encode lib xb p (e, d, w) = (Inr c, s1)"
    and "xb_transfer_cache xb c s2 = (Inr c', s3)"
  shows "sealed lib (en_config e) (xb_session_id xb) p (source_text c') \<and>
         (\<exists>d'. xb_decode lib xb c' mt (e', d, w3) =
            bnd (on_inner (bk_decode (xb_inner xb) (c'\<lparr>source_text := p\<rparr>) mt)) (xb_decrypt_text lib xb) (e', d', w3))"
proof -
  note c = xb_encode_sealed [OF assms(1,2,3,5,7)]
  note c' = xb_transfer_text [OF assms(1) c [THEN conjunct2] assms(8)]
  have sealed: "sealed lib (en_config e) (xb_session_id xb) p (source_text c')" using c c' by simp
  obtain d' where dt: "xb_decrypt_text lib xb (source_text c') (e', d, w3) = (Inr p, (e', d', w3))"
    using xb_decrypt_text_sealed [OF assms(4,6,5) sealed, of e' w3] by blast
  have "kv_post_init (c'\<lparr>source_text := p\<rparr>) = Inr (c'\<lparr>source_text := p\<rparr>)"
    using c' by (auto simp: kv_post_init_def kv_wf_def)
  then have "xb_decode lib xb c' mt (e', d, w3) =
      bnd (on_inner (bk_decode (xb_inner xb) (c'\<lparr>source_text := p\<rparr>) mt)) (xb_decrypt_text lib xb) (e', d', w3)"
    by (simp add: xb_decode_def bnd_apply dt)
  then show ?thesis using sealed by blast
qed

lemma encrypted_decode_reveals_prompt_witness:
  "\<exists>c s1 d'. xb_encode plain_lib echo_wrapped (lit ''hi'')
       (new_encryptor (key_config 2), new_decryptor (key_config 2), ()) = (Inr c, s1) \<and>
     xb_decode plain_lib echo_wrapped c 9 (new_encryptor (key_config 2), new_decryptor (key_config 2), ()) =
     bnd (on_inner (bk_decode echo_backend (c\<lparr>source_text := lit ''hi''\<rparr>) 9)) (xb_decrypt_text plain_lib echo_wrapped)
       (new_encryptor (key_config 2), d', ())"
proof -
  let ?s = "(new_encryptor (key_config 2), new_decryptor (key_config 2), ())"
  have k: "map_of (de_keys (new_decryptor (key_config 2))) (ec_key_id (en_config (new_encryptor (key_config 2)))) =
    Some (en_config (new_encryptor (key_config 2)))" by simp
  have n: "\<not> xb_skip echo_wrapped" "xb_inner echo_wrapped = echo_backend" by (simp_all add: echo_wrapped_def)
  obtain c s1 where c: "xb_encode plain_lib echo_wrapped (lit ''hi'') ?s = (Inr c, s1)"
    using echo_encrypts by (auto simp: xb_encode_def bnd_apply on_inner_def n(2) echo_backend_def simp del: lit_Cons)
  have t: "xb_transfer_cache echo_wrapped c ?s = (Inr c, ?s)"
    by (simp add: xb_transfer_cache_def on_inner_def n(2) echo_backend_def)
  from c encrypted_decode_reveals_prompt [OF echo_latent plain_lib_ok new_encryptor_ok(1) new_decryptor_ok(1) n(1) k c t,
      of 9 "new_encryptor (key_config 2)" "()"]
  show ?thesis unfolding n(2) by blast
qed

text \<open>Trust is decided by the spelling of the model id: with the default settings every backend
  whose id begins with \<open>mock-\<close>, whatever it is, is returned unwrapped, and every backend whose name
  is not trusted is wrapped under a fresh session, with a decryptor for the encryptor's key.\<close>

theorem wrapping_by_model_name:
  assumes "lib_ok lib" and "nm = py_lower u (takeWhile (\<lambda>ch. ch \<noteq> 45) (bk_model_id b))"
  shows "(nm = lit ''mock'' \<longrightarrow> wrap_with_encryption u lib b c session True [lit ''mock''] w = (Inr None, w)) \<and>
         (nm \<notin> set trusted \<longrightarrow> (\<exists>xb e d w'.
            wrap_with_encryption u lib b c session skip trusted w = (Inr (Some (xb, e, d)), w') \<and>
            xb_inner xb = b \<and> xb_session_id xb \<noteq> [] \<and> \<not> xb_skip xb \<and> enc_ok lib e \<and> dec_ok lib d \<and>
            map_of (de_keys d) (ec_key_id (en_config e)) = Some (en_config e)))"
proof -
  obtain r w1 where r: "cl_urandom lib 16 w = (r, w1)" by fastforce
  with assms(1) have "length r = 16" unfolding lib_ok_def by (metis fst_conv)
  then have "r \<noteq> []" by auto
  then show ?thesis
    by (auto simp: wrap_with_encryption_def assms(2) Let_def bnd_apply urandom_def r simp del: lit_Cons split: option.split)
qed

lemma wrapping_by_model_name_witness:
  "wrap_with_encryption \<lparr>u_lower = (\<lambda>c. [c]), u_word = (\<lambda>_. False), u_digit = (\<lambda>_. False), u_printable = (\<lambda>_. True)\<rparr>
     plain_lib echo_backend (key_config 2) None True [lit ''mock''] () = (Inr None, ())"
proof -
  let ?u = "\<lparr>u_lower = (\<lambda>c. [c]), u_word = (\<lambda>_. False), u_digit = (\<lambda>_. False), u_printable = (\<lambda>_. True)\<rparr>"
  have "py_lower ?u (takeWhile (\<lambda>ch. ch \<noteq> 45) (bk_model_id echo_backend)) = lit ''mock''"
    by (simp add: echo_backend_def py_lower_def)
  with wrapping_by_model_name [OF plain_lib_ok refl, of ?u echo_backend] show ?thesis by (simp del: lit_Cons)
qed

end
