(* ===== verification/Persist_Tenant.thy ===== *)
theory Persist_Tenant
  imports Core_Memory
begin

text \<open>
  \<open>chen/persistence/tenant_memory.py\<close>: one in-memory store per tenant, with a quota and a time to
  live. Entries are values here: a caller that writes one entry object to two tenants shares it
  between them, which is outside the model. The clock is an argument of every operation.
\<close>

section \<open>State\<close>

record tenant_config =
  tc_max_entries :: int
  tc_ttl_seconds :: real

record tenant_state =
  ts_tenants :: "(pystr \<times> mem_state) list"
  ts_entry_times :: "(pystr \<times> (pystr \<times> real) list) list"

definition no_tenants :: tenant_state where
  "no_tenants = \<lparr>ts_tenants = [], ts_entry_times = []\<rparr>"

definition default_tid :: pystr where
  "default_tid = lit ''__default__''"

text \<open>\<open>tenant_id or "__default__"\<close>\<close>

definition tid_of :: "pystr option \<Rightarrow> pystr" where
  "tid_of t = (case t of None \<Rightarrow> default_tid | Some n \<Rightarrow> (if n = [] then default_tid else n))"

definition get_tenant_memory :: "pystr option \<Rightarrow> tenant_state \<Rightarrow> mem_state \<times> tenant_state" where
  "get_tenant_memory t s =
     (let tid = tid_of t in
      case map_of (ts_tenants s) tid of
        Some m \<Rightarrow> (m, s)
      | None \<Rightarrow> (mem_empty, s\<lparr>ts_tenants := AList.update tid mem_empty (ts_tenants s),
                             ts_entry_times := AList.update tid [] (ts_entry_times s)\<rparr>))"

text \<open>\<open>{e.id: e for e in kept}\<close>: the places of the entries stand for the entries.\<close>

definition reindex :: "(bytes \<Rightarrow> bytes \<Rightarrow> nat \<Rightarrow> bytes) \<Rightarrow> memory_entry list \<Rightarrow> (pystr \<times> nat) list" where
  "reindex blake es =
     dict_of (List.map_filter (\<lambda>(i, e). map_option (\<lambda>k. (k, i)) (entry_id blake e)) (List.enumerate 0 es))"

definition expired_ids :: "tenant_config \<Rightarrow> real \<Rightarrow> (pystr \<times> real) list \<Rightarrow> pystr list" where
  "expired_ids cfg now tms = map fst (filter (\<lambda>(eid, t). now - t > tc_ttl_seconds cfg) tms)"

definition unexpired :: "(bytes \<Rightarrow> bytes \<Rightarrow> nat \<Rightarrow> bytes) \<Rightarrow> pystr list \<Rightarrow> memory_entry \<Rightarrow> bool" where
  "unexpired blake expired e \<longleftrightarrow> (case entry_id blake e of None \<Rightarrow> True | Some k \<Rightarrow> k \<notin> set expired)"

definition gc_tenant ::
  "(bytes \<Rightarrow> bytes \<Rightarrow> nat \<Rightarrow> bytes) \<Rightarrow> tenant_config \<Rightarrow> real \<Rightarrow> pystr option \<Rightarrow> tenant_state \<Rightarrow> tenant_state" where
  "gc_tenant blake cfg now t s =
     (if tc_ttl_seconds cfg \<le> 0 then s
      else
      (let tid = tid_of t;
           tms = dict_get (ts_entry_times s) tid [];
           expired = expired_ids cfg now tms
       in case map_of (ts_tenants s) tid of
            None \<Rightarrow> s
          | Some m \<Rightarrow>
              (if expired = [] then s
               else (let kept = filter (unexpired blake expired) (ms_entries m)
                     in s\<lparr>ts_tenants := AList.update tid \<lparr>ms_entries = kept, ms_index = reindex blake kept\<rparr> (ts_tenants s),
                          ts_entry_times := AList.update tid (filter (\<lambda>x. fst x \<notin> set expired) tms) (ts_entry_times s)\<rparr>))))"

definition over_quota :: "tenant_config \<Rightarrow> pystr option \<Rightarrow> tenant_state \<Rightarrow> bool" where
  "over_quota cfg t s \<longleftrightarrow>
     0 < tc_max_entries cfg \<and>
     (case map_of (ts_tenants s) (tid_of t) of None \<Rightarrow> False | Some m \<Rightarrow> tc_max_entries cfg \<le> int (mem_count m))"

section \<open>Operations\<close>

text \<open>The tms of the garbage collection and of the entry are read one after the other.\<close>

definition tenant_write ::
  "(bytes \<Rightarrow> bytes \<Rightarrow> nat \<Rightarrow> bytes) \<Rightarrow> (pystr \<Rightarrow> py_exc + real list) \<Rightarrow> tenant_config \<Rightarrow> real \<Rightarrow> real \<Rightarrow>
   memory_entry \<Rightarrow> pystr option \<Rightarrow> (tenant_state, py_exc, pystr) act" where
  "tenant_write blake emb cfg now now' e t = (\<lambda>s0.
     let s1 = gc_tenant blake cfg now t s0 in
     if over_quota cfg t s1 then (Inl QuotaExceeded, s1)
     else (case get_tenant_memory t s1 of (m, s2) \<Rightarrow>
       (case mem_write blake emb e m of (r, m') \<Rightarrow>
         let tid = tid_of t; s3 = s2\<lparr>ts_tenants := AList.update tid m' (ts_tenants s2)\<rparr> in
         (case r of
            Inl x \<Rightarrow> (Inl x, s3)
          | Inr eid \<Rightarrow>
              (case map_of (ts_entry_times s3) tid of
                 None \<Rightarrow> (Inl KeyError, s3)
               | Some tms \<Rightarrow>
                   (Inr eid, s3\<lparr>ts_entry_times := AList.update tid (AList.update eid now' tms) (ts_entry_times s3)\<rparr>))))))"

definition tenant_retrieve ::
  "(bytes \<Rightarrow> bytes \<Rightarrow> nat \<Rightarrow> bytes) \<Rightarrow> (pystr \<Rightarrow> py_exc + real list) \<Rightarrow> tenant_config \<Rightarrow> real \<Rightarrow>
   pystr \<Rightarrow> int \<Rightarrow> pystr option \<Rightarrow> pystr option \<Rightarrow> real \<Rightarrow> (tenant_state, py_exc, memory_entry list) act" where
  "tenant_retrieve blake emb cfg now query k t role min_conf = (\<lambda>s0.
     case get_tenant_memory t (gc_tenant blake cfg now t s0) of (m, s2) \<Rightarrow>
       (case mem_retrieve emb query k role min_conf m of (r, m') \<Rightarrow>
          (r, s2\<lparr>ts_tenants := AList.update (tid_of t) m' (ts_tenants s2)\<rparr>)))"

definition tenant_count :: "pystr option \<Rightarrow> tenant_state \<Rightarrow> nat \<times> tenant_state" where
  "tenant_count t s = (case get_tenant_memory t s of (m, s') \<Rightarrow> (mem_count m, s'))"

definition tenant_clear :: "pystr option \<Rightarrow> tenant_state \<Rightarrow> tenant_state" where
  "tenant_clear t s =
     (case t of
        None \<Rightarrow> \<lparr>ts_tenants = map (\<lambda>(k, m). (k, mem_clear m)) (ts_tenants s), ts_entry_times = []\<rparr>
      | Some _ \<Rightarrow>
          (let tid = tid_of t in
           s\<lparr>ts_tenants := (case map_of (ts_tenants s) tid of
                              None \<Rightarrow> ts_tenants s
                            | Some m \<Rightarrow> AList.update tid (mem_clear m) (ts_tenants s)),
             ts_entry_times := AList.delete tid (ts_entry_times s)\<rparr>))"

definition list_tenants :: "tenant_state \<Rightarrow> pystr list" where
  "list_tenants s = filter (\<lambda>t. t \<noteq> default_tid) (map fst (ts_tenants s))"

definition total_entries :: "tenant_state \<Rightarrow> nat" where
  "total_entries s = sum_list (map (\<lambda>x. mem_count (snd x)) (ts_tenants s))"

text \<open>A call with its clock readings, for runs.\<close>

datatype tenant_op =
    TWrite real real memory_entry "pystr option"
  | TRetrieve real pystr int "pystr option" "pystr option" real
  | TCount "pystr option"
  | TClear "pystr option"

fun tenant_step ::
  "(bytes \<Rightarrow> bytes \<Rightarrow> nat \<Rightarrow> bytes) \<Rightarrow> (pystr \<Rightarrow> py_exc + real list) \<Rightarrow> tenant_config \<Rightarrow>
   tenant_op \<Rightarrow> tenant_state \<Rightarrow> tenant_state" where
  "tenant_step blake emb cfg (TWrite now now' e t) s = snd (tenant_write blake emb cfg now now' e t s)"
| "tenant_step blake emb cfg (TRetrieve now q k t role mc) s =
     snd (tenant_retrieve blake emb cfg now q k t role mc s)"
| "tenant_step blake emb cfg (TCount t) s = snd (tenant_count t s)"
| "tenant_step blake emb cfg (TClear t) s = tenant_clear t s"

text \<open>The tenants a call may touch.\<close>

fun op_touches :: "tenant_op \<Rightarrow> pystr \<Rightarrow> bool" where
  "op_touches (TWrite _ _ _ t) b \<longleftrightarrow> tid_of t = b"
| "op_touches (TRetrieve _ _ _ t _ _) b \<longleftrightarrow> tid_of t = b"
| "op_touches (TCount t) b \<longleftrightarrow> tid_of t = b"
| "op_touches (TClear t) b \<longleftrightarrow> t = None \<or> tid_of t = b"

section \<open>Frame and size of each operation\<close>

definition mem_of :: "tenant_state \<Rightarrow> pystr \<Rightarrow> mem_state option" where
  "mem_of s b = map_of (ts_tenants s) b"

text \<open>What an operation on behalf of a tenant can see: its memory and the times of its entries.\<close>

definition view_of :: "pystr \<Rightarrow> tenant_state \<Rightarrow> mem_state option \<times> (pystr \<times> real) list option" where
  "view_of b s = (mem_of s b, map_of (ts_entry_times s) b)"

lemma get_tenant_memory_mem: "mem_of s (tid_of t) = Some m \<Longrightarrow> get_tenant_memory t s = (m, s)"
  by (simp add: get_tenant_memory_def mem_of_def)

lemma get_tenant_memory_new:
  "mem_of s (tid_of t) = None \<Longrightarrow>
   get_tenant_memory t s =
     (mem_empty, s\<lparr>ts_tenants := AList.update (tid_of t) mem_empty (ts_tenants s),
                   ts_entry_times := AList.update (tid_of t) [] (ts_entry_times s)\<rparr>)"
  by (simp add: get_tenant_memory_def mem_of_def Let_def)

lemma view_upd [simp]:
  "b \<noteq> k \<Longrightarrow> view_of b (s\<lparr>ts_tenants := AList.update k m l\<rparr>) = view_of b (s\<lparr>ts_tenants := l\<rparr>)"
  "b \<noteq> k \<Longrightarrow> view_of b (s\<lparr>ts_entry_times := AList.update k x d\<rparr>) = view_of b (s\<lparr>ts_entry_times := d\<rparr>)"
  "b \<noteq> k \<Longrightarrow> view_of b (s\<lparr>ts_tenants := l, ts_entry_times := AList.update k x d\<rparr>) =
     view_of b (s\<lparr>ts_tenants := l, ts_entry_times := d\<rparr>)"
  by (simp_all add: view_of_def mem_of_def update_conv')

lemma view_upd_tenants [simp]:
  "b \<noteq> k \<Longrightarrow> view_of b (s\<lparr>ts_tenants := AList.update k m l, ts_entry_times := d\<rparr>) =
     view_of b (s\<lparr>ts_tenants := l, ts_entry_times := d\<rparr>)"
  by (simp add: view_of_def mem_of_def update_conv')

lemma gc_view: "b \<noteq> tid_of t \<Longrightarrow> view_of b (gc_tenant blake cfg now t s) = view_of b s"
  by (simp add: gc_tenant_def Let_def split: option.split)

lemma get_tenant_memory_view: "b \<noteq> tid_of t \<Longrightarrow> view_of b (snd (get_tenant_memory t s)) = view_of b s"
  by (cases "mem_of s (tid_of t)") (simp_all add: get_tenant_memory_mem get_tenant_memory_new)

lemma gc_mem_None: "mem_of (gc_tenant blake cfg now t s) b = None \<longleftrightarrow> mem_of s b = None"
  by (auto simp: gc_tenant_def mem_of_def Let_def update_conv' split: option.split)

lemma gc_shrinks:
  "mem_of (gc_tenant blake cfg now t s) b = Some m' \<Longrightarrow>
   \<exists>m. mem_of s b = Some m \<and> mem_count m' \<le> mem_count m"
  by (auto simp: gc_tenant_def mem_of_def Let_def update_conv' mem_count_def length_filter_le
      split: option.splits if_splits)

lemma mem_write_count:
  assumes "mem_write blake emb e m = (r, m')"
  shows "mem_count m \<le> mem_count m' \<and> mem_count m' \<le> mem_count m + 1"
  using assms by (auto simp: mem_write_def mem_count_def Let_def split: sum.splits option.splits)

lemma mem_retrieve_count:
  assumes "mem_retrieve emb q k role mc m = (r, m')"
  shows "mem_count m' = mem_count m"
proof -
  have "length (snd (score_entries emb v role mc (ms_entries m))) = length (ms_entries m)" for v
    using arg_cong [OF score_entries_keys [of emb v role mc "ms_entries m"], of length] by simp
  then have l: "score_entries emb v role mc (ms_entries m) = (r, es) \<Longrightarrow> length es = length (ms_entries m)" for v r es
    by (metis snd_conv)
  show ?thesis
    using assms by (auto simp: mem_retrieve_def mem_count_def l split: if_splits sum.splits prod.splits)
qed

section \<open>Frames\<close>

lemma write_frame:
  assumes "tid_of t \<noteq> b"
  shows "view_of b (snd (tenant_write blake emb cfg now now' e t s)) = view_of b s"
proof -
  let ?s = "gc_tenant blake cfg now t s"
  obtain m s2 where g: "get_tenant_memory t ?s = (m, s2)" by fastforce
  obtain r m' where w: "mem_write blake emb e m = (r, m')" by fastforce
  have "view_of b s2 = view_of b s"
    using get_tenant_memory_view [of b t ?s] gc_view [of b t] assms g by simp
  then show ?thesis
    using assms by (simp add: tenant_write_def Let_def g w gc_view split: option.split sum.split)
qed

lemma retrieve_frame:
  assumes "tid_of t \<noteq> b"
  shows "view_of b (snd (tenant_retrieve blake emb cfg now q k t role mc s)) = view_of b s"
proof -
  let ?s = "gc_tenant blake cfg now t s"
  obtain m s2 where g: "get_tenant_memory t ?s = (m, s2)" by fastforce
  obtain r m' where w: "mem_retrieve emb q k role mc m = (r, m')" by fastforce
  have "view_of b s2 = view_of b s"
    using get_tenant_memory_view [of b t ?s] gc_view [of b t] assms g by simp
  then show ?thesis
    using assms by (simp add: tenant_retrieve_def Let_def g w)
qed

lemma step_frame:
  assumes "\<not> op_touches x b"
  shows "view_of b (tenant_step blake emb cfg x s) = view_of b s"
proof (cases x)
  case (TCount t)
  with assms show ?thesis
    using get_tenant_memory_view [of b t s] by (auto simp: tenant_count_def split: prod.split)
next
  case (TClear t)
  with assms show ?thesis
    by (auto simp: tenant_clear_def view_of_def mem_of_def Let_def update_conv' delete_conv' split: option.split)
qed (use assms in \<open>simp_all add: write_frame retrieve_frame\<close>)

lemma run_frame:
  "\<forall>x\<in>set xs. \<not> op_touches x b \<Longrightarrow>
   view_of b (foldl (\<lambda>s x. tenant_step blake emb cfg x s) s xs) = view_of b s"
  by (induction xs arbitrary: s) (auto simp: step_frame)

lemma gc_by_view:
  assumes "view_of (tid_of t) s = view_of (tid_of t) s'"
  shows "mem_of (gc_tenant blake cfg now t s) (tid_of t) = mem_of (gc_tenant blake cfg now t s') (tid_of t)"
proof -
  have "map_of (ts_tenants s) (tid_of t) = map_of (ts_tenants s') (tid_of t)"
    and "map_of (ts_entry_times s) (tid_of t) = map_of (ts_entry_times s') (tid_of t)"
    using assms by (simp_all add: view_of_def mem_of_def)
  then show ?thesis
    by (simp add: gc_tenant_def mem_of_def dict_get_def Let_def update_conv' split: option.split)
qed

lemma retrieve_by_view:
  assumes "view_of (tid_of t) s = view_of (tid_of t) s'"
  shows "fst (tenant_retrieve blake emb cfg now q k t role mc s) =
         fst (tenant_retrieve blake emb cfg now q k t role mc s')"
proof -
  have r: "fst (tenant_retrieve blake emb cfg now q k t role mc s) =
        fst (mem_retrieve emb q k role mc
          (case mem_of (gc_tenant blake cfg now t s) (tid_of t) of None \<Rightarrow> mem_empty | Some m \<Rightarrow> m))" for s
    by (simp add: tenant_retrieve_def get_tenant_memory_def mem_of_def Let_def split: option.split prod.split)
  show ?thesis by (simp only: r gc_by_view [OF assms])
qed

section \<open>Sizes\<close>

definition within_quota :: "tenant_config \<Rightarrow> tenant_state \<Rightarrow> bool" where
  "within_quota cfg s \<longleftrightarrow> (\<forall>b m. mem_of s b = Some m \<longrightarrow> int (mem_count m) \<le> tc_max_entries cfg)"

lemma within_quotaD: "within_quota cfg s \<Longrightarrow> mem_of s b = Some m \<Longrightarrow> int (mem_count m) \<le> tc_max_entries cfg"
  by (simp add: within_quota_def)

lemma within_quota_upd:
  assumes "within_quota cfg s" and "int (mem_count m) \<le> tc_max_entries cfg"
  shows "within_quota cfg (s\<lparr>ts_tenants := AList.update k m (ts_tenants s)\<rparr>)"
    and "within_quota cfg (s\<lparr>ts_tenants := AList.update k m (ts_tenants s), ts_entry_times := d\<rparr>)"
  using assms by (auto simp: within_quota_def mem_of_def update_conv')

lemma within_quota_times [simp]: "within_quota cfg (s\<lparr>ts_entry_times := d\<rparr>) = within_quota cfg s"
  by (simp add: within_quota_def mem_of_def)

lemma gc_within: "within_quota cfg s \<Longrightarrow> within_quota cfg (gc_tenant blake cfg now t s)"
  unfolding within_quota_def by (fastforce dest: gc_shrinks)

lemma get_tenant_memory_within:
  assumes "0 < tc_max_entries cfg" and "within_quota cfg s" and "get_tenant_memory t s = (m, s')"
  shows "within_quota cfg s' \<and> int (mem_count m) \<le> tc_max_entries cfg"
proof (cases "mem_of s (tid_of t)")
  case None
  then have "m = mem_empty" "s' = s\<lparr>ts_tenants := AList.update (tid_of t) mem_empty (ts_tenants s),
      ts_entry_times := AList.update (tid_of t) [] (ts_entry_times s)\<rparr>"
    using assms(3) by (simp_all add: get_tenant_memory_new)
  then show ?thesis
    using within_quota_upd [OF assms(2), of mem_empty] assms(1) by (simp add: mem_empty_def mem_count_def)
next
  case (Some m0)
  then show ?thesis using assms by (auto simp: get_tenant_memory_mem dest: within_quotaD)
qed

lemma step_within:
  assumes q: "0 < tc_max_entries cfg" and w: "within_quota cfg s"
  shows "within_quota cfg (tenant_step blake emb cfg x s)"
proof (cases x)
  case (TWrite now now' e t)
  let ?s = "gc_tenant blake cfg now t s"
  show ?thesis
  proof (cases "over_quota cfg t ?s")
    case True
    with TWrite gc_within [OF w] show ?thesis by (simp add: tenant_write_def Let_def)
  next
    case False
    obtain m s2 where g: "get_tenant_memory t ?s = (m, s2)" by fastforce
    obtain r m' where r: "mem_write blake emb e m = (r, m')" by fastforce
    have s2: "within_quota cfg s2" using get_tenant_memory_within [OF q gc_within [OF w] g] by simp
    have "int (mem_count m) < tc_max_entries cfg"
      using False q g by (auto simp: over_quota_def get_tenant_memory_def Let_def mem_empty_def mem_count_def
          split: option.splits)
    then have "int (mem_count m') \<le> tc_max_entries cfg" using mem_write_count [OF r] by linarith
    then show ?thesis
      using TWrite False within_quota_upd [OF s2]
      by (simp add: tenant_write_def Let_def g r split: option.split sum.split)
  qed
next
  case (TRetrieve now qq k t role mc)
  let ?s = "gc_tenant blake cfg now t s"
  obtain m s2 where g: "get_tenant_memory t ?s = (m, s2)" by fastforce
  obtain r m' where r: "mem_retrieve emb qq k role mc m = (r, m')" by fastforce
  have "within_quota cfg s2 \<and> int (mem_count m') \<le> tc_max_entries cfg"
    using get_tenant_memory_within [OF q gc_within [OF w] g] mem_retrieve_count [OF r] by simp
  then show ?thesis
    using TRetrieve within_quota_upd by (simp add: tenant_retrieve_def Let_def g r)
next
  case (TCount t)
  obtain m s' where "get_tenant_memory t s = (m, s')" by fastforce
  with get_tenant_memory_within [OF q w this] TCount show ?thesis by (simp add: tenant_count_def)
next
  case (TClear t)
  have c: "mem_count (mem_clear m) = 0" for m by (simp add: mem_clear_def mem_count_def)
  show ?thesis
  proof (cases t)
    case None
    then show ?thesis
      using q by (auto simp: TClear tenant_clear_def within_quota_def mem_of_def map_of_map c)
  next
    case (Some n)
    then show ?thesis
      using w q within_quota_upd [OF w] by (simp add: TClear tenant_clear_def Let_def c split: option.split)
  qed
qed

text \<open>The limit is an invariant of the operations: an instance of the stepping interface, whose
  invariant carries the side condition that there is a limit.\<close>

interpretation tenant_quota: stepper "tenant_step blake emb cfg" "\<lambda>s. 0 < tc_max_entries cfg \<longrightarrow> within_quota cfg s"
  by unfold_locales (simp add: step_within)

lemma within_quota_no_tenants: "within_quota cfg no_tenants"
  by (simp add: within_quota_def mem_of_def no_tenants_def)

section \<open>Collection\<close>

lemma map_fst_reindex:
  "map fst (List.map_filter (\<lambda>(i, e). map_option (\<lambda>k. (k, i)) (f e)) (List.enumerate n es)) = List.map_filter f es"
  by (induction es arbitrary: n) (auto simp: List.map_filter_simps split: option.split)

lemma set_map_filter: "set (List.map_filter f xs) = {y. \<exists>x\<in>set xs. f x = Some y}"
  by (induction xs) (auto simp: List.map_filter_simps split: option.split)

lemma distinct_map_filter: "distinct (map f es) \<Longrightarrow> distinct (List.map_filter f es)"
proof (induction es)
  case (Cons e es)
  have "y \<in> set (List.map_filter f es) \<Longrightarrow> Some y \<in> f ` set es" for y
    by (force simp: List.map_filter_def)
  with Cons show ?case by (force simp: List.map_filter_simps split: option.split)
qed (simp add: List.map_filter_simps)

lemma distinct_map_filter_sub: "distinct (map f es) \<Longrightarrow> distinct (map f (filter P es))"
  by (induction es) auto

lemma reindex_inv:
  assumes "distinct (map (entry_id blake) es)"
    and "\<forall>e\<in>set es. me_embedding e \<noteq> None \<and> entry_id blake e \<noteq> None"
  shows "mem_inv blake \<lparr>ms_entries = es, ms_index = reindex blake es\<rparr>"
proof -
  let ?kvs = "List.map_filter (\<lambda>(i, e). map_option (\<lambda>k. (k, i)) (entry_id blake e)) (List.enumerate 0 es)"
  have d: "distinct (map fst (rev ?kvs))"
    unfolding rev_map [symmetric] distinct_rev map_fst_reindex using assms(1) by (rule distinct_map_filter)
  have "map_of (reindex blake es) k = Some i \<longleftrightarrow> i < length es \<and> entry_id blake (es ! i) = Some k" for k i
  proof -
    have "map_of (reindex blake es) k = Some i \<longleftrightarrow> (k, i) \<in> set (rev ?kvs)"
      unfolding reindex_def map_of_dict_of using d by (rule map_of_eq_Some_iff)
    also have "\<dots> \<longleftrightarrow> i < length es \<and> entry_id blake (es ! i) = Some k"
      by (auto simp: set_map_filter in_set_enumerate_eq intro!: bexI [of _ "(i, es ! i)"])
    finally show ?thesis .
  qed
  with assms(2) show ?thesis by (simp add: mem_inv_def)
qed

section \<open>Properties\<close>



text \<open>C16: The limit per tenant holds in every state a run of calls can reach: with a positive limit no
  tenant ever has more entries than it, whatever mixture of writes, retrievals, counts and clears was made.\<close>

theorem tenant_limit_invariant:
  assumes "0 < tc_max_entries cfg"
  shows "\<forall>b m. mem_of (foldl (\<lambda>s x. tenant_step blake emb cfg x s) no_tenants xs) b = Some m \<longrightarrow>
           int (mem_count m) \<le> tc_max_entries cfg"
  using tenant_quota.run_inv [of cfg no_tenants blake emb xs] assms within_quota_no_tenants [of cfg]
  by (simp add: within_quota_def)

theorem tenant_limit_invariant_witness:
  "case mem_of (foldl (\<lambda>s x. tenant_step (\<lambda>bs _ _. bs) (\<lambda>_. Inr [1]) \<lparr>tc_max_entries = 1, tc_ttl_seconds = 0\<rparr> x s)
        no_tenants
        [TWrite 0 0 (mk_entry (lit ''a'') (lit ''user'') (lit ''user'') 1 0) None,
         TWrite 1 1 (mk_entry (lit ''b'') (lit ''user'') (lit ''user'') 1 0) None]) default_tid of
     None \<Rightarrow> True | Some m \<Rightarrow> mem_count m \<le> 1"
  using tenant_limit_invariant [of "\<lparr>tc_max_entries = 1, tc_ttl_seconds = 0\<rparr>" "\<lambda>bs _ _. bs" "\<lambda>_. Inr [1]"
      "[TWrite 0 0 (mk_entry (lit ''a'') (lit ''user'') (lit ''user'') 1 0) None,
        TWrite 1 1 (mk_entry (lit ''b'') (lit ''user'') (lit ''user'') 1 0) None]"]
  by (auto simp del: tenant_step.simps foldl_Cons foldl_Nil lit_Cons split: option.split)

text \<open>Collection removes exactly the entries that are too old. Of a well-formed store it keeps, in their
  order, the entries without a recorded time older than the time to live; the index is rebuilt so
  that the store stays well-formed.\<close>

theorem tenant_collection:
  assumes "mem_of s (tid_of t) = Some m" and "mem_inv blake m" and "0 < tc_ttl_seconds cfg"
    and "map_of (ts_entry_times s) (tid_of t) = Some tms" and "distinct (map fst tms)"
  shows "\<exists>m'. mem_of (gc_tenant blake cfg now t s) (tid_of t) = Some m' \<and> mem_inv blake m' \<and>
     ms_entries m' =
       filter (\<lambda>e. \<not> (\<exists>k w. entry_id blake e = Some k \<and> map_of tms k = Some w \<and> tc_ttl_seconds cfg < now - w))
         (ms_entries m)"
proof -
  let ?ex = "expired_ids cfg now tms"
  have ex: "k \<in> set ?ex \<longleftrightarrow> (\<exists>w. map_of tms k = Some w \<and> tc_ttl_seconds cfg < now - w)" for k
    using assms(5) by (force simp: expired_ids_def)
  have un: "unexpired blake ?ex e \<longleftrightarrow>
      \<not> (\<exists>k w. entry_id blake e = Some k \<and> map_of tms k = Some w \<and> tc_ttl_seconds cfg < now - w)" for e
    by (auto simp: unexpired_def ex split: option.split)
  let ?kept = "filter (unexpired blake ?ex) (ms_entries m)"
  have F: "(\<lambda>e. \<not> (\<exists>k w. entry_id blake e = Some k \<and> map_of tms k = Some w \<and> tc_ttl_seconds cfg < now - w)) =
      unexpired blake ?ex"
    by (rule ext) (simp only: un)
  show ?thesis
  proof (cases "?ex = []")
    case True
    then have "unexpired blake ?ex = (\<lambda>_. True)" by (auto simp: unexpired_def split: option.split)
    then have "?kept = ms_entries m" by simp
    moreover have "mem_of (gc_tenant blake cfg now t s) (tid_of t) = Some m"
      using assms(1,3,4) True by (simp add: gc_tenant_def mem_of_def dict_get_def Let_def)
    ultimately show ?thesis unfolding F using assms(2) by simp
  next
    case False
    have "distinct (map (entry_id blake) ?kept)"
      using mem_inv_distinct [OF assms(2)] by (rule distinct_map_filter_sub)
    moreover have "\<forall>e\<in>set ?kept. me_embedding e \<noteq> None \<and> entry_id blake e \<noteq> None"
      using assms(2) by (simp add: mem_inv_def)
    ultimately have "mem_inv blake \<lparr>ms_entries = ?kept, ms_index = reindex blake ?kept\<rparr>"
      by (rule reindex_inv)
    moreover have "mem_of (gc_tenant blake cfg now t s) (tid_of t) =
        Some \<lparr>ms_entries = ?kept, ms_index = reindex blake ?kept\<rparr>"
      using assms(1,3,4) False by (simp add: gc_tenant_def mem_of_def dict_get_def Let_def update_conv')
    ultimately show ?thesis unfolding F by simp
  qed
qed

theorem tenant_collection_witness:
  "let blake = (\<lambda>bs _ _. bs); e = mk_entry (lit ''a'') (lit ''u'') (lit ''v'') 1 0;
       m = \<lparr>ms_entries = [e\<lparr>me_embedding := Some [1]\<rparr>], ms_index = [(the (entry_id blake e), 0)]\<rparr>;
       s = \<lparr>ts_tenants = [(default_tid, m)], ts_entry_times = [(default_tid, [(the (entry_id blake e), 0)])]\<rparr>
   in map_option ms_entries (mem_of (gc_tenant blake \<lparr>tc_max_entries = 0, tc_ttl_seconds = 5\<rparr> 6 None s) default_tid) = Some []"
proof -
  let ?blake = "\<lambda>bs _ _. bs" and ?e = "mk_entry (lit ''a'') (lit ''u'') (lit ''v'') 1 0"
  obtain k where k: "entry_id ?blake ?e = Some k"
    by (simp add: entry_id_def entry_key_def mk_entry_def utf8_char_def)
  let ?m = "\<lparr>ms_entries = [?e\<lparr>me_embedding := Some [1]\<rparr>], ms_index = [(k, 0)]\<rparr>"
  let ?s = "\<lparr>ts_tenants = [(default_tid, ?m)], ts_entry_times = [(default_tid, [(k, 0)])]\<rparr>"
  have inv: "mem_inv ?blake ?m" using k by (auto simp: mem_inv_def)
  have 1: "mem_of ?s (tid_of None) = Some ?m" "0 < tc_ttl_seconds \<lparr>tc_max_entries = 0, tc_ttl_seconds = 5\<rparr>"
    "map_of (ts_entry_times ?s) (tid_of None) = Some [(k, 0)]"
    by (simp_all add: mem_of_def tid_of_def)
  from tenant_collection [OF 1(1) inv 1(2,3), of 6] k show ?thesis
    by (auto simp: Let_def tid_of_def)
qed

text \<open>Clearing a tenant breaks it. The clear removes the table of the tenant's times but keeps
  the tenant, so the next write stores its entry and then raises \<open>KeyError\<close>.\<close>

theorem cleared_tenant_write_raises:
  assumes "mem_of s (tid_of (Some n)) \<noteq> None" and "emb (me_text e) = Inr v" and "entry_id blake e = Some eid"
    and "me_embedding e = None"
  shows "let (r, s') = tenant_write blake emb cfg now now' e (Some n) (tenant_clear (Some n) s) in
     r = Inl KeyError \<and> map_option ms_entries (mem_of s' (tid_of (Some n))) = Some [e\<lparr>me_embedding := Some v\<rparr>]"
proof -
  let ?t = "tid_of (Some n)" and ?s = "tenant_clear (Some n) s"
  from assms(1) obtain m where m: "map_of (ts_tenants s) ?t = Some m" by (auto simp: mem_of_def)
  have t: "map_of (ts_tenants ?s) ?t = Some (mem_clear m)" "map_of (ts_entry_times ?s) ?t = None"
    by (simp_all add: tenant_clear_def Let_def m update_conv' delete_conv')
  have g: "gc_tenant blake cfg now (Some n) ?s = ?s"
    by (simp add: gc_tenant_def Let_def t dict_get_def expired_ids_def)
  have q: "\<not> over_quota cfg (Some n) ?s"
    by (simp add: over_quota_def t mem_count_def mem_clear_def)
  have gt: "get_tenant_memory (Some n) ?s = (mem_clear m, ?s)"
    by (simp add: get_tenant_memory_def Let_def t)
  have w: "mem_write blake emb e (mem_clear m) =
      (Inr eid, \<lparr>ms_entries = [e\<lparr>me_embedding := Some v\<rparr>], ms_index = [(eid, 0)]\<rparr>)"
    by (simp add: mem_write_def assms(2-4) Let_def mem_clear_def)
  show ?thesis
    by (simp add: tenant_write_def Let_def g q gt w t mem_of_def update_conv')
qed

theorem cleared_tenant_write_raises_witness:
  "fst (tenant_write (\<lambda>bs _ _. bs) (\<lambda>_. Inr [1]) \<lparr>tc_max_entries = 9, tc_ttl_seconds = 0\<rparr> 1 1
      (mk_entry (lit ''a'') (lit ''u'') (lit ''v'') 1 0) (Some (lit ''A''))
      (tenant_clear (Some (lit ''A'')) (snd (tenant_count (Some (lit ''A'')) no_tenants)))) = Inl KeyError"
proof -
  let ?e = "mk_entry (lit ''a'') (lit ''u'') (lit ''v'') 1 0"
  obtain k where k: "entry_id (\<lambda>bs _ _. bs) ?e = Some k"
    by (simp add: entry_id_def entry_key_def mk_entry_def utf8_char_def)
  have "mem_of (snd (tenant_count (Some (lit ''A'')) no_tenants)) (tid_of (Some (lit ''A''))) \<noteq> None"
    by (simp add: tenant_count_def get_tenant_memory_def mem_of_def no_tenants_def Let_def del: lit_Cons)
  from cleared_tenant_write_raises [OF this, where emb = "\<lambda>_. Inr [1]" and e = ?e and v = "[1]", OF _ k]
  show ?thesis by (simp add: mk_entry_def case_prod_beta del: lit_Cons)
qed

end
