(* ===== verification/Chen_Json.thy ===== *)
theory Chen_Json
  imports Chen_Bytes Core_Config
begin

text \<open>
  The part of the \<open>json\<close> module the program stores and hashes: \<open>json.dumps\<close> with the default
  separators and \<open>ensure_ascii\<close>, and \<open>json.loads\<close>. Floats are left out of the values: their decimal
  rendering is not modelled, and reading one is \<open>None\<close> here, as an error is.
\<close>

section \<open>Values\<close>

datatype json =
    JNull
  | JBool bool
  | JInt int
  | JStr pystr
  | JList "json list"
  | JObj "(pystr \<times> json) list"

section \<open>Writing\<close>

definition json_escape :: "nat \<Rightarrow> pystr" where
  "json_escape c =
     (if c = 34 \<or> c = 92 then [92, c]
      else if c = 10 then [92, 110] else if c = 13 then [92, 114] else if c = 9 then [92, 116]
      else if c = 8 then [92, 98] else if c = 12 then [92, 102]
      else if 32 \<le> c \<and> c \<le> 126 then [c]
      else if c < 65536 then [92, 117] @ hex_pad 4 c
      else [92, 117] @ hex_pad 4 (55296 + (c - 65536) div 1024) @
           [92, 117] @ hex_pad 4 (56320 + (c - 65536) mod 1024))"

definition json_string :: "pystr \<Rightarrow> pystr" where
  "json_string s = [34] @ concat (map json_escape s) @ [34]"

fun json_dumps :: "json \<Rightarrow> pystr"
  and json_elems :: "json list \<Rightarrow> pystr"
  and json_members :: "(pystr \<times> json) list \<Rightarrow> pystr" where
  "json_dumps JNull = lit ''null''"
| "json_dumps (JBool b) = (if b then lit ''true'' else lit ''false'')"
| "json_dumps (JInt k) = py_str_int k"
| "json_dumps (JStr s) = json_string s"
| "json_dumps (JList js) = [91] @ json_elems js @ [93]"
| "json_dumps (JObj kvs) = [123] @ json_members kvs @ [125]"
| "json_elems [] = []"
| "json_elems [j] = json_dumps j"
| "json_elems (j # k # js) = json_dumps j @ [44, 32] @ json_elems (k # js)"
| "json_members [] = []"
| "json_members [(n, j)] = json_string n @ [58, 32] @ json_dumps j"
| "json_members ((n, j) # p # ps) = json_string n @ [58, 32] @ json_dumps j @ [44, 32] @ json_members (p # ps)"

text \<open>\<open>sort_keys=True\<close>\<close>

fun json_sort :: "json \<Rightarrow> json" where
  "json_sort (JList js) = JList (map json_sort js)"
| "json_sort (JObj kvs) = JObj (sort_key fst (map (\<lambda>p. (fst p, json_sort (snd p))) kvs))"
| "json_sort j = j"

section \<open>Reading\<close>

definition hex_val :: "nat \<Rightarrow> nat option" where
  "hex_val c =
     (if 48 \<le> c \<and> c \<le> 57 then Some (c - 48)
      else if 97 \<le> c \<and> c \<le> 102 then Some (c - 87)
      else if 65 \<le> c \<and> c \<le> 70 then Some (c - 55) else None)"

fun scan_hex4 :: "pystr \<Rightarrow> (nat \<times> pystr) option" where
  "scan_hex4 (a # b # c # d # s) =
     (case (hex_val a, hex_val b, hex_val c, hex_val d) of
        (Some x, Some y, Some z, Some w) \<Rightarrow> Some (((x * 16 + y) * 16 + z) * 16 + w, s)
      | _ \<Rightarrow> None)"
| "scan_hex4 s = None"

text \<open>After a backslash and a u: four digits, and the low half when they are a high surrogate.\<close>

definition scan_u :: "pystr \<Rightarrow> (nat \<times> pystr) option" where
  "scan_u s =
     (case scan_hex4 s of
        None \<Rightarrow> None
      | Some (n, r) \<Rightarrow>
          (if 55296 \<le> n \<and> n \<le> 56319 \<and> take 2 r = [92, 117]
           then (case scan_hex4 (drop 2 r) of
                   None \<Rightarrow> None
                 | Some (m, r') \<Rightarrow>
                     (if 56320 \<le> m \<and> m \<le> 57343 then Some (65536 + (n - 55296) * 1024 + (m - 56320), r')
                      else Some (n, r)))
           else Some (n, r)))"

definition unescape :: "nat \<Rightarrow> nat option" where
  "unescape c =
     (if c = 34 \<or> c = 92 \<or> c = 47 then Some c
      else if c = 98 then Some 8 else if c = 102 then Some 12 else if c = 110 then Some 10
      else if c = 114 then Some 13 else if c = 116 then Some 9 else None)"

lemma scan_hex4_length: "scan_hex4 s = Some (n, r) \<Longrightarrow> length r < length s"
  by (induction s rule: scan_hex4.induct) (auto split: option.splits)

lemma scan_u_length: "scan_u s = Some (n, r) \<Longrightarrow> length r < length s"
  by (fastforce simp: scan_u_def split: option.splits prod.splits if_splits dest: scan_hex4_length)

definition cons_fst :: "'a \<Rightarrow> ('a list \<times> 'b) option \<Rightarrow> ('a list \<times> 'b) option" where
  "cons_fst x = map_option (\<lambda>(xs, r). (x # xs, r))"

lemma cons_fst_Some [simp]: "cons_fst x (Some (xs, r)) = Some (x # xs, r)"
  by (simp add: cons_fst_def)

text \<open>The rest of a string after its opening quote.\<close>

function scan_string :: "pystr \<Rightarrow> (pystr \<times> pystr) option" where
  "scan_string [] = None"
| "scan_string (c # s) =
     (if c = 34 then Some ([], s)
      else if c = 92 then
        (case s of
           [] \<Rightarrow> None
         | e # s' \<Rightarrow>
             (if e = 117
              then (case scan_u s' of None \<Rightarrow> None | Some (n, r) \<Rightarrow> cons_fst n (scan_string r))
              else (case unescape e of None \<Rightarrow> None | Some d \<Rightarrow> cons_fst d (scan_string s'))))
      else if c < 32 then None
      else cons_fst c (scan_string s))"
  by pat_completeness auto
termination
  by (relation "measure length") (auto dest: scan_u_length)

definition skip_ws :: "pystr \<Rightarrow> pystr" where
  "skip_ws = dropWhile (\<lambda>c. c = 32 \<or> c = 9 \<or> c = 10 \<or> c = 13)"

definition is_digit :: "nat \<Rightarrow> bool" where
  "is_digit c \<longleftrightarrow> 48 \<le> c \<and> c \<le> 57"

text \<open>The digits of an integer literal: a zero, or digits that do not start with one.\<close>

definition int_token :: "pystr \<Rightarrow> pystr" where
  "int_token u = (if u \<noteq> [] \<and> hd u = 48 then [48] else takeWhile is_digit u)"

text \<open>An integer literal; a fraction or an exponent after it would make a float.\<close>

definition scan_int :: "pystr \<Rightarrow> (int \<times> pystr) option" where
  "scan_int s =
     (let neg = (s \<noteq> [] \<and> hd s = 45);
          u = (if neg then tl s else s);
          ds = int_token u;
          r = drop (length ds) u
      in if ds = [] \<or> (r \<noteq> [] \<and> (hd r = 46 \<or> hd r = 101 \<or> hd r = 69)) then None
         else Some ((if neg then - int (undigits ds) else int (undigits ds)), r))"

fun scan_value :: "nat \<Rightarrow> pystr \<Rightarrow> (json \<times> pystr) option"
  and scan_elems :: "nat \<Rightarrow> pystr \<Rightarrow> (json list \<times> pystr) option"
  and scan_members :: "nat \<Rightarrow> pystr \<Rightarrow> ((pystr \<times> json) list \<times> pystr) option" where
  "scan_value 0 s = None"
| "scan_value (Suc n) s =
     (case s of
        [] \<Rightarrow> None
      | c # r \<Rightarrow>
          (if c = 34 then map_option (\<lambda>(t, r'). (JStr t, r')) (scan_string r)
           else if c = 91 then
             (if take 1 (skip_ws r) = [93] then Some (JList [], drop 1 (skip_ws r))
              else map_option (\<lambda>(js, r'). (JList js, r')) (scan_elems n (skip_ws r)))
           else if c = 123 then
             (if take 1 (skip_ws r) = [125] then Some (JObj [], drop 1 (skip_ws r))
              else map_option (\<lambda>(kvs, r'). (JObj (dict_of kvs), r')) (scan_members n (skip_ws r)))
           else if take 4 s = lit ''null'' then Some (JNull, drop 4 s)
           else if take 4 s = lit ''true'' then Some (JBool True, drop 4 s)
           else if take 5 s = lit ''false'' then Some (JBool False, drop 5 s)
           else map_option (\<lambda>(k, r'). (JInt k, r')) (scan_int s)))"
| "scan_elems 0 s = None"
| "scan_elems (Suc n) s =
     (case scan_value n s of
        None \<Rightarrow> None
      | Some (j, r) \<Rightarrow>
          (case skip_ws r of
             [] \<Rightarrow> None
           | c # r' \<Rightarrow> (if c = 93 then Some ([j], r')
                       else if c = 44 then cons_fst j (scan_elems n (skip_ws r')) else None)))"
| "scan_members 0 s = None"
| "scan_members (Suc n) s =
     (if take 1 s \<noteq> [34] then None
      else case scan_string (drop 1 s) of
        None \<Rightarrow> None
      | Some (k, r) \<Rightarrow>
          (if take 1 (skip_ws r) \<noteq> [58] then None
           else case scan_value n (skip_ws (drop 1 (skip_ws r))) of
             None \<Rightarrow> None
           | Some (j, r') \<Rightarrow>
               (case skip_ws r' of
                  [] \<Rightarrow> None
                | c # t \<Rightarrow> (if c = 125 then Some ([(k, j)], t)
                           else if c = 44 then cons_fst (k, j) (scan_members n (skip_ws t)) else None))))"

text \<open>Two units of fuel per character: a value and the list it stands in.\<close>

definition json_loads :: "pystr \<Rightarrow> json option" where
  "json_loads s =
     (case scan_value (2 * length s + 2) (skip_ws s) of
        Some (j, r) \<Rightarrow> (if skip_ws r = [] then Some j else None)
      | None \<Rightarrow> None)"

section \<open>Reading back what was written\<close>

definition json_char :: "nat \<Rightarrow> bool" where
  "json_char c \<longleftrightarrow> c < 1114112 \<and> \<not> is_surrogate c"

fun json_ok :: "json \<Rightarrow> bool" where
  "json_ok (JStr s) \<longleftrightarrow> list_all json_char s"
| "json_ok (JList js) \<longleftrightarrow> list_all json_ok js"
| "json_ok (JObj kvs) \<longleftrightarrow>
     distinct (map fst kvs) \<and> list_all (\<lambda>p. list_all json_char (fst p) \<and> json_ok (snd p)) kvs"
| "json_ok j \<longleftrightarrow> True"

lemma hex_val_digit [simp]: "n < 16 \<Longrightarrow> hex_val (hex_digit n) = Some n"
  by (simp add: hex_val_def hex_digit_def)

lemma hex_pad_4: "hex_pad 4 n = [hex_digit (n div 4096 mod 16), hex_digit (n div 256 mod 16),
    hex_digit (n div 16 mod 16), hex_digit (n mod 16)]"
proof -
  have "hex_pad (Suc (Suc (Suc (Suc 0)))) n = [hex_digit (n div 4096 mod 16), hex_digit (n div 256 mod 16),
      hex_digit (n div 16 mod 16), hex_digit (n mod 16)]"
    by (simp add: div_mult2_eq [symmetric])
  moreover have "(4 :: nat) = Suc (Suc (Suc (Suc 0)))" by simp
  ultimately show ?thesis by (simp only:)
qed

lemma hex_value:
  assumes "n < 65536"
  shows "((n div 4096 mod 16 * 16 + n div 256 mod 16) * 16 + n div 16 mod 16) * 16 + n mod 16 = (n :: nat)"
proof -
  have 1: "n div 4096 mod 16 = n div 4096" using assms by (simp add: less_mult_imp_div_less)
  have 2: "n div 4096 * 16 + n div 256 mod 16 = n div 256"
    using div_mult_mod_eq [of "n div 256" 16] by (simp add: div_mult2_eq [symmetric])
  have 3: "n div 256 * 16 + n div 16 mod 16 = n div 16"
    using div_mult_mod_eq [of "n div 16" 16] by (simp add: div_mult2_eq [symmetric])
  show ?thesis unfolding 1 2 3 by (rule div_mult_mod_eq)
qed

lemma scan_hex4_pad [simp]: "n < 65536 \<Longrightarrow> scan_hex4 (hex_pad 4 n @ r) = Some (n, r)"
  using hex_value [of n] by (simp add: hex_pad_4)

lemma scan_u_pad [simp]:
  "n < 65536 \<Longrightarrow> \<not> (55296 \<le> n \<and> n \<le> 56319) \<Longrightarrow> scan_u (hex_pad 4 n @ r) = Some (n, r)"
  by (auto simp: scan_u_def)

lemma scan_u_pair:
  assumes "65536 \<le> c" "c < 1114112"
  shows "scan_u (hex_pad 4 (55296 + (c - 65536) div 1024) @ 92 # 117 # hex_pad 4 (56320 + (c - 65536) mod 1024) @ r) =
     Some (c, r)"
proof -
  let ?h = "(c - 65536) div 1024" and ?l = "(c - 65536) mod 1024"
  have h: "?h < 1024" "?l < 1024" using assms by (auto simp: less_mult_imp_div_less)
  have "65536 + ?h * 1024 + ?l = c"
    using assms div_mult_mod_eq [of "c - 65536" 1024] by simp
  with h show ?thesis by (simp add: scan_u_def)
qed

lemma scan_escape:
  assumes "json_char c"
  shows "scan_string (json_escape c @ t) = cons_fst c (scan_string t)"
proof -
  consider "c \<in> {34, 92, 10, 13, 9, 8, 12}" | "c \<notin> {34, 92}" "32 \<le> c" "c \<le> 126"
    | "c \<notin> {34, 92, 10, 13, 9, 8, 12}" "\<not> (32 \<le> c \<and> c \<le> 126)" "c < 65536"
    | "c \<notin> {34, 92, 10, 13, 9, 8, 12}" "65536 \<le> c" by fastforce
  then show ?thesis
  proof cases
    case 1
    then show ?thesis by (auto simp: json_escape_def unescape_def)
  next
    case 2
    then show ?thesis by (auto simp: json_escape_def)
  next
    case 3
    with assms have "\<not> (55296 \<le> c \<and> c \<le> 56319)" by (auto simp: json_char_def is_surrogate_def)
    with 3 show ?thesis by (simp add: json_escape_def)
  next
    case 4
    with assms have "c < 1114112" by (simp add: json_char_def)
    with 4 show ?thesis by (simp add: json_escape_def scan_u_pair)
  qed
qed

lemma scan_string_body:
  "list_all json_char s \<Longrightarrow> scan_string (concat (map json_escape s) @ 34 # r) = Some (s, r)"
  by (induction s) (simp_all add: scan_escape)

lemma digits10_head: "hd (digits10 n) = 48 \<longleftrightarrow> n = 0"
proof (induction n rule: digits10.induct)
  case (1 n)
  show ?case
  proof (cases "n < 10")
    case True
    then show ?thesis by (simp add: digits10.simps [of n])
  next
    case False
    then have "digits10 n = digits10 (n div 10) @ [48 + n mod 10]" by (subst digits10.simps) simp
    with 1 False show ?thesis by (simp add: div_eq_0_iff)
  qed
qed

definition json_stop :: "pystr \<Rightarrow> bool" where
  "json_stop r \<longleftrightarrow> r = [] \<or> hd r \<in> {44, 93, 125}"

lemma take_digits: "json_stop r \<Longrightarrow> takeWhile is_digit (digits10 n @ r) = digits10 n"
proof -
  assume r: "json_stop r"
  have "\<forall>c\<in>set (digits10 n). is_digit c" using digits10_digit by (auto simp: is_digit_def)
  moreover have "takeWhile is_digit r = []"
    using r by (cases r) (auto simp: json_stop_def is_digit_def)
  ultimately show ?thesis by simp
qed

lemma int_token_digits: "json_stop r \<Longrightarrow> int_token (digits10 n @ r) = digits10 n"
  by (simp add: int_token_def take_digits digits10_head digits10.simps [of 0])

lemma scan_int_str: "json_stop r \<Longrightarrow> scan_int (py_str_int k @ r) = Some (k, r)"
proof -
  assume r: "json_stop r"
  have nr: "\<not> (r \<noteq> [] \<and> (hd r = 46 \<or> hd r = 101 \<or> hd r = 69))"
    using r by (auto simp: json_stop_def)
  have h: "hd (digits10 n) \<noteq> 45" for n
    using digits10_digit [of "hd (digits10 n)" n] by auto
  show ?thesis
    using nr h by (cases "k < 0") (simp_all add: scan_int_def Let_def py_str_int_def int_token_digits [OF r])
qed

text \<open>What a written value starts with: no white space, no closing bracket, so the readers know it for a value.\<close>

lemma json_dumps_head:
  "\<exists>c t. json_dumps j = c # t \<and> c \<notin> {32, 9, 10, 13, 93, 125, 44, 58}"
proof (cases j)
  case (JInt k)
  have "hd (digits10 n) \<notin> {32, 9, 10, 13, 93, 125, 44, 58}" for n
    using digits10_digit [of "hd (digits10 n)" n] by auto
  then have "\<exists>c t. digits10 n = c # t \<and> c \<notin> {32, 9, 10, 13, 93, 125, 44, 58}" for n
    by (metis digits10_not_Nil list.collapse)
  with JInt show ?thesis by (auto simp: py_str_int_def)
qed (auto simp: json_string_def)

lemma skip_ws_dumps [simp]: "skip_ws (json_dumps j @ r) = json_dumps j @ r"
  using json_dumps_head [of j] by (auto simp: skip_ws_def)

lemma take1_dumps [simp]: "take (Suc 0) (json_dumps j @ r) \<noteq> [93]"
  using json_dumps_head [of j] by auto

lemma json_elems_head:
  assumes "js \<noteq> []"
  shows "\<exists>c t. json_elems js = c # t \<and> c \<notin> {32, 9, 10, 13, 93, 125, 44, 58}"
proof -
  obtain j ks where js: "js = j # ks" using assms by (cases js) auto
  obtain c t where "json_dumps j = c # t \<and> c \<notin> {32, 9, 10, 13, 93, 125, 44, 58}"
    using json_dumps_head by blast
  then show ?thesis by (cases ks) (auto simp: js)
qed

lemma skip_ws_elems [simp]: "js \<noteq> [] \<Longrightarrow> skip_ws (json_elems js @ r) = json_elems js @ r"
  using json_elems_head [of js] by (auto simp: skip_ws_def)

lemma take1_elems [simp]: "js \<noteq> [] \<Longrightarrow> take (Suc 0) (json_elems js @ r) \<noteq> [93]"
  using json_elems_head [of js] by auto

lemma json_members_head: "kvs \<noteq> [] \<Longrightarrow> \<exists>t. json_members kvs = 34 # t"
  by (cases kvs rule: json_members.cases) (auto simp: json_string_def)

lemma skip_ws_members [simp]: "kvs \<noteq> [] \<Longrightarrow> skip_ws (json_members kvs @ r) = json_members kvs @ r"
  using json_members_head [of kvs] by (auto simp: skip_ws_def)

lemma take1_members [simp]: "kvs \<noteq> [] \<Longrightarrow> take (Suc 0) (json_members kvs @ r) \<noteq> [125]"
  using json_members_head [of kvs] by auto

lemma skip_ws_simps [simp]:
  "skip_ws [] = []" "skip_ws (32 # s) = skip_ws s" "skip_ws (44 # s) = 44 # s" "skip_ws (93 # s) = 93 # s"
  "skip_ws (125 # s) = 125 # s" "skip_ws (58 # s) = 58 # s"
  by (simp_all add: skip_ws_def)

lemma scan_int_char: "scan_string (concat (map json_escape s) @ 34 # r) = Some (s, r) \<Longrightarrow>
   scan_string (drop 1 (json_string s @ r)) = Some (s, r)"
  by (simp add: json_string_def)

lemma dict_of_distinct: "distinct (map fst kvs) \<Longrightarrow> dict_of kvs = kvs"
proof -
  have "distinct (map fst (d @ kvs)) \<Longrightarrow> foldl (\<lambda>d (k, v). AList.update k v d) d kvs = d @ kvs" for d
  proof (induction kvs arbitrary: d)
    case (Cons p kvs)
    obtain k v where p: "p = (k, v)" by (cases p)
    have "k \<notin> fst ` set d" using Cons.prems p by auto
    then have "AList.update k v d = d @ [(k, v)]" by (induction d) auto
    with Cons.IH [of "d @ [(k, v)]"] Cons.prems p show ?case by simp
  qed simp
  from this [of "[]"] show "distinct (map fst kvs) \<Longrightarrow> ?thesis" by (simp add: dict_of_def)
qed

lemma scan_value_int:
  assumes "json_stop r"
  shows "scan_value (Suc n) (py_str_int k @ r) = Some (JInt k, r)"
proof -
  have "hd (digits10 m) \<in> {48..57}" for m using digits10_digit [of "hd (digits10 m)" m] by auto
  then have d: "\<exists>c t. digits10 m = c # t \<and> 48 \<le> c \<and> c \<le> 57" for m
    by (metis atLeastAtMost_iff digits10_not_Nil list.collapse)
  obtain c t where "py_str_int k = c # t" "c \<noteq> 34 \<and> c \<noteq> 91 \<and> c \<noteq> 123 \<and> c \<noteq> 110 \<and> c \<noteq> 116 \<and> c \<noteq> 102"
  proof (cases "k < 0")
    case True
    then show ?thesis using that [of 45 "digits10 (nat (- k))"] by (simp add: py_str_int_def)
  next
    case False
    obtain c t where "digits10 (nat k) = c # t" "48 \<le> c \<and> c \<le> 57" using d by blast
    with False show ?thesis using that [of c t] by (simp add: py_str_int_def)
  qed
  with scan_int_str [OF assms, of k] show ?thesis by simp
qed

lemma scan_value_dumps:
  "json_ok j \<Longrightarrow> json_stop r \<Longrightarrow> 2 * length (json_dumps j) \<le> n \<Longrightarrow> scan_value n (json_dumps j @ r) = Some (j, r)"
  "js \<noteq> [] \<Longrightarrow> list_all json_ok js \<Longrightarrow> 2 * length (json_elems js) + 1 \<le> n \<Longrightarrow>
     scan_elems n (json_elems js @ 93 # r) = Some (js, r)"
  "kvs \<noteq> [] \<Longrightarrow> list_all (\<lambda>p. list_all json_char (fst p) \<and> json_ok (snd p)) kvs \<Longrightarrow>
     2 * length (json_members kvs) + 1 \<le> n \<Longrightarrow> scan_members n (json_members kvs @ 125 # r) = Some (kvs, r)"
proof (induction j and js and kvs arbitrary: r n and r n and r n rule: json_dumps_json_elems_json_members.induct)
  case 1
  then obtain m where "n = Suc m" by (cases n) auto
  then show ?case by simp
next
  case (2 b)
  then obtain m where "n = Suc m" by (cases n) (auto split: if_splits)
  then show ?case by simp
next
  case (3 k)
  obtain c t where "json_dumps (JInt k) = c # t" using json_dumps_head by blast
  with 3 obtain m where "n = Suc m" by (cases n) auto
  with scan_value_int [OF 3(2)] show ?case by (simp only: json_dumps.simps)
next
  case (4 s)
  then obtain m where "n = Suc m" by (cases n) (auto simp: json_string_def)
  with 4 show ?case by (simp add: json_string_def scan_string_body)
next
  case (5 js)
  then obtain m where m: "n = Suc m" by (cases n) auto
  show ?case
  proof (cases "js = []")
    case True
    with m show ?thesis by simp
  next
    case False
    with 5 m take1_elems [of js "93 # r"] show ?thesis by simp
  qed
next
  case (6 kvs)
  then obtain m where m: "n = Suc m" by (cases n) auto
  show ?case
  proof (cases "kvs = []")
    case True
    with m show ?thesis by (simp add: dict_of_def)
  next
    case False
    with 6 m take1_members [of kvs "125 # r"] show ?thesis by (simp add: dict_of_distinct)
  qed
next
  case 7
  then show ?case by simp
next
  case (8 j)
  then obtain m where "n = Suc m" by (cases n) auto
  with 8 show ?case by (simp add: json_stop_def)
next
  case (9 j k js)
  then obtain m where "n = Suc m" by (cases n) auto
  with 9 show ?case by (simp add: json_stop_def)
next
  case 10
  then show ?case by simp
next
  case (11 k j)
  then obtain m where "n = Suc m" by (cases n) auto
  with 11 show ?case by (simp add: json_stop_def json_string_def scan_string_body)
next
  case (12 k j p ps)
  then obtain m where "n = Suc m" by (cases n) auto
  with 12 show ?case by (simp add: json_stop_def json_string_def scan_string_body)
qed

lemma json_loads_dumps: "json_ok j \<Longrightarrow> json_loads (json_dumps j) = Some j"
  using scan_value_dumps(1) [of j "[]" "2 * length (json_dumps j) + 2"] skip_ws_dumps [of j "[]"]
  by (simp add: json_loads_def json_stop_def)

text \<open>So a valid value is determined by its text.\<close>

lemma json_dumps_inj: "json_ok j \<Longrightarrow> json_ok k \<Longrightarrow> json_dumps j = json_dumps k \<Longrightarrow> j = k"
  by (metis json_loads_dumps option.inject)

end
