(* ===== verification/Persist_RunStore.thy ===== *)
theory Persist_RunStore
  imports Chen_Json
begin

text \<open>
  \<open>chen/persistence/run_store.py\<close> and \<open>pg_store.py\<close>: the runs kept in SQLite and in PostgreSQL.

  A table is an association list from primary keys to rows in the order of their rowids; a \<open>NULL\<close> is
  \<open>None\<close>. SQL leaves the order of rows with equal sort keys open: the order the engine meets them in is
  an argument \<open>arr\<close>. The lock serialises the operations, so a run of calls is a list of them.
\<close>

section \<open>RunRecord\<close>

record run_record =
  rr_run_id :: pystr
  rr_config_hash :: pystr
  rr_prompt :: pystr
  rr_output :: pystr
  rr_phase :: int
  rr_backend :: pystr
  rr_router :: pystr
  rr_experts :: json
  rr_tokens :: int
  rr_cost :: real
  rr_latency :: real
  rr_epu :: real
  rr_kv :: int
  rr_timestamp :: pystr
  rr_trace_id :: pystr
  rr_tenant_id :: pystr

record run_row =
  rw_config_hash :: pystr
  rw_timestamp :: pystr
  rw_prompt :: pystr
  rw_output :: pystr
  rw_phase :: int
  rw_backend :: pystr
  rw_router :: "pystr option"
  rw_experts :: pystr
  rw_tokens :: int
  rw_cost :: real
  rw_latency :: real
  rw_epu :: "real option"
  rw_kv :: "int option"
  rw_trace :: "pystr option"
  rw_tenant :: "pystr option"

definition to_row :: "run_record \<Rightarrow> run_row" where
  "to_row r =
     \<lparr>rw_config_hash = rr_config_hash r, rw_timestamp = rr_timestamp r, rw_prompt = rr_prompt r,
      rw_output = rr_output r, rw_phase = rr_phase r, rw_backend = rr_backend r,
      rw_router = Some (rr_router r), rw_experts = json_dumps (rr_experts r), rw_tokens = rr_tokens r,
      rw_cost = rr_cost r, rw_latency = rr_latency r, rw_epu = Some (rr_epu r), rw_kv = Some (rr_kv r),
      rw_trace = Some (rr_trace_id r), rw_tenant = Some (rr_tenant_id r)\<rparr>"

text \<open>\<open>x or ""\<close> for a column that may be \<open>NULL\<close>.\<close>

definition or_empty :: "pystr option \<Rightarrow> pystr" where
  "or_empty v = (case v of None \<Rightarrow> [] | Some s \<Rightarrow> s)"

definition trace_column :: pystr where
  "trace_column = lit ''trace_id''"

definition tenant_column :: pystr where
  "tenant_column = lit ''tenant_id''"

definition from_row :: "pystr list \<Rightarrow> pystr \<times> run_row \<Rightarrow> py_exc + run_record" where
  "from_row cols p =
     (case json_loads (rw_experts (snd p)) of
        None \<Rightarrow> Inl ValueError
      | Some js \<Rightarrow>
          (let w = snd p in
           Inr \<lparr>rr_run_id = fst p, rr_config_hash = rw_config_hash w, rr_prompt = rw_prompt w,
                rr_output = rw_output w, rr_phase = rw_phase w, rr_backend = rw_backend w,
                rr_router = or_empty (rw_router w), rr_experts = js, rr_tokens = rw_tokens w,
                rr_cost = rw_cost w, rr_latency = rw_latency w,
                rr_epu = (case rw_epu w of None \<Rightarrow> 0 | Some x \<Rightarrow> x),
                rr_kv = (case rw_kv w of None \<Rightarrow> 0 | Some k \<Rightarrow> k), rr_timestamp = rw_timestamp w,
                rr_trace_id = (if trace_column \<in> set cols then or_empty (rw_trace w) else []),
                rr_tenant_id = (if tenant_column \<in> set cols then or_empty (rw_tenant w) else [])\<rparr>))"

section \<open>The database\<close>

record 'r sql_db =
  db_columns :: "pystr list option"
  db_indexes :: "pystr list"
  db_rows :: "(pystr \<times> 'r) list"

type_synonym run_db = "run_row sql_db"

definition first_columns :: "pystr list" where
  "first_columns = map lit [''run_id'', ''config_hash'', ''timestamp'', ''prompt'', ''output'', ''phase'',
     ''backend'', ''router'', ''selected_experts'', ''total_tokens'', ''total_cost_usd'', ''total_latency_ms'',
     ''epu'', ''kv_transfers'']"

definition sqlite_columns :: "pystr list" where
  "sqlite_columns = first_columns @ [trace_column, tenant_column]"

text \<open>The indexes of the schema, with the column each one is on.\<close>

definition sqlite_indexes :: "(pystr \<times> pystr) list" where
  "sqlite_indexes = [(lit ''idx_runs_timestamp'', lit ''timestamp''),
     (lit ''idx_runs_config_hash'', lit ''config_hash''), (lit ''idx_runs_phase'', lit ''phase''),
     (lit ''idx_runs_trace_id'', trace_column), (lit ''idx_runs_tenant'', tenant_column)]"

text \<open>\<open>CREATE INDEX IF NOT EXISTS\<close>: an index on a column the table does not have is an error.\<close>

fun create_indexes :: "(pystr \<times> pystr) list \<Rightarrow> ('r sql_db, py_exc, unit) act" where
  "create_indexes [] = ret ()"
| "create_indexes ((n, c) # ics) = (\<lambda>db.
     if n \<in> set (db_indexes db) then create_indexes ics db
     else if c \<notin> set (case db_columns db of None \<Rightarrow> [] | Some cs \<Rightarrow> cs) then (Inl OtherError, db)
     else create_indexes ics (db\<lparr>db_indexes := db_indexes db @ [n]\<rparr>))"

definition create_table :: "pystr list \<Rightarrow> 'r sql_db \<Rightarrow> 'r sql_db" where
  "create_table cols db =
     (case db_columns db of
        None \<Rightarrow> db\<lparr>db_columns := Some cols, db_rows := []\<rparr>
      | Some _ \<Rightarrow> db)"

definition add_column :: "pystr \<Rightarrow> 'r sql_db \<Rightarrow> 'r sql_db" where
  "add_column c db =
     (case db_columns db of
        None \<Rightarrow> db
      | Some cols \<Rightarrow> (if c \<in> set cols then db else db\<lparr>db_columns := Some (cols @ [c])\<rparr>))"

definition run_migrate :: "run_db \<Rightarrow> run_db" where
  "run_migrate db = add_column tenant_column (add_column trace_column db)"

text \<open>\<open>RunStore(path)\<close> on the database found at the path: every statement commits by itself.\<close>

definition open_store :: "(run_db, py_exc, unit) act" where
  "open_store = (\<lambda>db. bnd (create_indexes sqlite_indexes) (\<lambda>_ db'. (Inr (), run_migrate db'))
                     (create_table sqlite_columns db))"

definition default_store_path :: "environ \<Rightarrow> pystr" where
  "default_store_path ev = env_str ev (lit ''CHEN_RUN_STORE_PATH'') (lit ''./chen_data/runs.sqlite3'')"

definition new_db :: "'r sql_db" where
  "new_db = \<lparr>db_columns = None, db_indexes = [], db_rows = []\<rparr>"

section \<open>Operations\<close>

definition int64 :: "int \<Rightarrow> bool" where
  "int64 k \<longleftrightarrow> - (2 ^ 63) \<le> k \<and> k < 2 ^ 63"

definition encodable :: "pystr \<Rightarrow> bool" where
  "encodable s \<longleftrightarrow> utf8_encode s \<noteq> None"

definition bindable :: "run_record \<Rightarrow> bool" where
  "bindable r \<longleftrightarrow>
     list_all encodable [rr_run_id r, rr_config_hash r, rr_prompt r, rr_output r, rr_backend r, rr_router r,
       rr_timestamp r, rr_trace_id r, rr_tenant_id r]"

text \<open>\<open>INSERT OR REPLACE\<close>: the old row goes, the new one gets the highest rowid.\<close>

definition insert_or_replace :: "pystr \<Rightarrow> run_row \<Rightarrow> run_db \<Rightarrow> run_db" where
  "insert_or_replace k w db = db\<lparr>db_rows := AList.delete k (db_rows db) @ [(k, w)]\<rparr>"

definition columns_of :: "'r sql_db \<Rightarrow> pystr list" where
  "columns_of db = (case db_columns db of None \<Rightarrow> [] | Some cs \<Rightarrow> cs)"

definition run_save :: "run_record \<Rightarrow> (run_db, py_exc, unit) act" where
  "run_save r = (\<lambda>db.
     if \<not> set sqlite_columns \<subseteq> set (columns_of db) then (Inl OtherError, db)
     else if \<not> bindable r then (Inl UnicodeError, db)
     else if \<not> (int64 (rr_phase r) \<and> int64 (rr_tokens r) \<and> int64 (rr_kv r)) then (Inl OtherError, db)
     else (Inr (), insert_or_replace (rr_run_id r) (to_row r) db))"

definition run_get :: "pystr \<Rightarrow> run_db \<Rightarrow> py_exc + run_record option" where
  "run_get rid db =
     (if db_columns db = None then Inl OtherError
      else if \<not> encodable rid then Inl UnicodeError
      else case map_of (db_rows db) rid of
             None \<Rightarrow> Inr None
           | Some w \<Rightarrow> (case from_row (columns_of db) (rid, w) of Inl e \<Rightarrow> Inl e | Inr r \<Rightarrow> Inr (Some r)))"

fun collect :: "('a \<Rightarrow> py_exc + 'b) \<Rightarrow> 'a list \<Rightarrow> py_exc + 'b list" where
  "collect f [] = Inr []"
| "collect f (x # xs) =
     (case f x of Inl e \<Rightarrow> Inl e | Inr y \<Rightarrow> (case collect f xs of Inl e \<Rightarrow> Inl e | Inr ys \<Rightarrow> Inr (y # ys)))"

text \<open>\<open>ORDER BY timestamp DESC\<close> on texts: descending in the order of code points.\<close>

definition by_time_desc :: "(pystr \<times> run_row) list \<Rightarrow> (pystr \<times> run_row) list" where
  "by_time_desc ps = rev (sort_key (\<lambda>p. rw_timestamp (snd p)) ps)"

text \<open>\<open>LIMIT\<close>: a negative one is no limit in SQLite.\<close>

definition sql_limit :: "int \<Rightarrow> 'a list \<Rightarrow> 'a list" where
  "sql_limit n xs = (if n < 0 then xs else take (nat n) xs)"

definition in_phase :: "int option \<Rightarrow> pystr \<times> run_row \<Rightarrow> bool" where
  "in_phase ph p \<longleftrightarrow> (case ph of None \<Rightarrow> True | Some k \<Rightarrow> rw_phase (snd p) = k)"

definition run_list ::
  "((pystr \<times> run_row) list \<Rightarrow> (pystr \<times> run_row) list) \<Rightarrow> int \<Rightarrow> int option \<Rightarrow> run_db \<Rightarrow> py_exc + run_record list" where
  "run_list arr n ph db =
     (if db_columns db = None then Inl OtherError
      else if \<not> int64 n \<or> (case ph of None \<Rightarrow> False | Some k \<Rightarrow> \<not> int64 k) then Inl OtherError
      else collect (from_row (columns_of db)) (sql_limit n (by_time_desc (arr (filter (in_phase ph) (db_rows db))))))"

definition run_count :: "run_db \<Rightarrow> nat" where
  "run_count db = length (db_rows db)"

section \<open>The table as a keyed store\<close>

definition row_of :: "'r sql_db \<Rightarrow> pystr \<Rightarrow> 'r option" where
  "row_of db k = map_of (db_rows db) k"

interpretation runs: keyed_store insert_or_replace "row_of :: run_db \<Rightarrow> pystr \<Rightarrow> run_row option"
  by unfold_locales (auto simp: insert_or_replace_def row_of_def map_add_def delete_conv' split: option.split)

lemma distinct_map_filter': "distinct (map f xs) \<Longrightarrow> distinct (map f (filter P xs))"
  by (induction xs) auto

definition storable :: "run_record \<Rightarrow> bool" where
  "storable r \<longleftrightarrow> bindable r \<and> int64 (rr_phase r) \<and> int64 (rr_tokens r) \<and> int64 (rr_kv r) \<and> json_ok (rr_experts r)"

definition opened :: "run_db \<Rightarrow> bool" where
  "opened db \<longleftrightarrow> set sqlite_columns \<subseteq> set (columns_of db) \<and> distinct (map fst (db_rows db))"

text \<open>Saving keeps the primary keys distinct and the columns in place.\<close>

lemma insert_or_replace_opened: "opened db \<Longrightarrow> opened (insert_or_replace k w db)"
  by (auto simp: opened_def insert_or_replace_def columns_of_def AList.delete_eq distinct_map_filter')

interpretation store_steps: stepper "\<lambda>r db. snd (run_save r db)" opened
  by unfold_locales (simp add: run_save_def insert_or_replace_opened)

lemma from_row_to_row:
  "json_ok (rr_experts r) \<Longrightarrow> set sqlite_columns \<subseteq> set cols \<Longrightarrow> from_row cols (rr_run_id r, to_row r) = Inr r"
  by (simp add: from_row_def to_row_def json_loads_dumps or_empty_def sqlite_columns_def)

lemma run_save_storable:
  "storable r \<Longrightarrow> opened db \<Longrightarrow> run_save r db = (Inr (), insert_or_replace (rr_run_id r) (to_row r) db)"
  by (simp add: run_save_def storable_def opened_def)

lemma save_all_rows:
  "\<forall>r\<in>set rs. storable r \<Longrightarrow> opened db \<Longrightarrow>
   foldl (\<lambda>d r. snd (run_save r d)) db rs =
     foldl (\<lambda>d (k, v). insert_or_replace k v d) db (map (\<lambda>r. (rr_run_id r, to_row r)) rs)"
  by (induction rs arbitrary: db) (simp_all add: run_save_storable insert_or_replace_opened)

lemma insert_all_keys:
  "fst ` set (db_rows (foldl (\<lambda>d (k, v). insert_or_replace k v d) db kvs)) =
   fst ` set (db_rows db) \<union> fst ` set kvs"
proof (induction kvs arbitrary: db)
  case (Cons p kvs)
  have "fst ` set (db_rows (insert_or_replace k v db)) = insert k (fst ` set (db_rows db))" for k v
    by (force simp: insert_or_replace_def AList.delete_eq)
  with Cons show ?case by (cases p) auto
qed simp

lemma insert_all_columns:
  "db_columns (foldl (\<lambda>d (k, v). insert_or_replace k v d) db kvs) = db_columns db"
  by (induction kvs arbitrary: db) (auto simp: insert_or_replace_def)

lemma open_new:
  "fst (open_store new_db) = Inr () \<and> opened (snd (open_store new_db)) \<and> db_rows (snd (open_store new_db)) = []"
  by (simp add: open_store_def new_db_def create_table_def sqlite_indexes_def bnd_apply opened_def columns_of_def
      run_migrate_def add_column_def sqlite_columns_def first_columns_def trace_column_def tenant_column_def)

lemma open_new_columns: "columns_of (snd (open_store new_db)) = sqlite_columns"
  by (simp add: open_store_def new_db_def create_table_def sqlite_indexes_def bnd_apply columns_of_def
      run_migrate_def add_column_def sqlite_columns_def first_columns_def trace_column_def tenant_column_def)

lemma map_of_rows:
  "map_of (rev (map (\<lambda>r. (rr_run_id r, to_row r)) rs)) k =
   map_option to_row (map_of (rev (map (\<lambda>r. (rr_run_id r, r)) rs)) k)"
  by (induction rs) (auto simp: map_add_def split: option.split)

lemma map_of_ids: "map_of (rev (map (\<lambda>r. (rr_run_id r, r)) rs)) k = Some r \<Longrightarrow> r \<in> set rs \<and> rr_run_id r = k"
  by (auto dest!: map_of_SomeD)

section \<open>Listing\<close>

lemma collect_Inr: "collect f xs = Inr ys \<Longrightarrow> list_all2 (\<lambda>x y. f x = Inr y) xs ys"
  by (induction xs arbitrary: ys) (auto split: sum.splits)

lemma from_row_fields:
  "from_row cols p = Inr r \<Longrightarrow> rr_run_id r = fst p \<and> rr_timestamp r = rw_timestamp (snd p) \<and> rr_phase r = rw_phase (snd p)"
  by (auto simp: from_row_def Let_def split: option.splits)

lemma set_sql_limit: "set (sql_limit n xs) \<subseteq> set xs"
  by (auto simp: sql_limit_def dest: in_set_takeD)

lemma sorted_by_time_desc: "sorted_wrt (\<ge>) (map (\<lambda>p. rw_timestamp (snd p)) (by_time_desc ps))"
proof -
  have "sorted (map (\<lambda>p. rw_timestamp (snd p)) (sort_key (\<lambda>p. rw_timestamp (snd p)) ps))" by simp
  then show ?thesis by (simp add: by_time_desc_def sorted_wrt_rev rev_map [symmetric])
qed

lemma set_by_time_desc [simp]: "set (by_time_desc ps) = set ps"
  by (simp add: by_time_desc_def)

lemma length_by_time_desc [simp]: "length (by_time_desc ps) = length ps"
  by (simp add: by_time_desc_def)

lemma sorted_wrt_sql_limit: "sorted_wrt R xs \<Longrightarrow> sorted_wrt R (sql_limit n xs)"
  by (simp add: sql_limit_def sorted_wrt_take)

lemma sql_limit_map: "map f (sql_limit n xs) = sql_limit n (map f xs)"
  by (simp add: sql_limit_def take_map)

lemma sql_limit_rest:
  assumes "sorted_wrt R xs" and "x \<in> set xs" and "x \<notin> set (sql_limit n xs)" and "y \<in> set (sql_limit n xs)"
  shows "R y x"
proof -
  have "0 \<le> n" using assms(2,3) by (auto simp: sql_limit_def split: if_splits)
  then have l: "sql_limit n xs = take (nat n) xs" by (simp add: sql_limit_def)
  have "x \<in> set (drop (nat n) xs)"
    using assms(2,3) l by (metis Un_iff append_take_drop_id set_append)
  moreover have "sorted_wrt R (take (nat n) xs @ drop (nat n) xs)" using assms(1) by simp
  ultimately show ?thesis using assms(4) unfolding l sorted_wrt_append by blast
qed

section \<open>PostgreSQL\<close>

text \<open>
  The driver and the server are the record \<open>pg_lib\<close>: \<open>datetime.fromisoformat\<close> and the text of the time
  the driver returns, the normalisation of a JSONB value (\<open>None\<close>: rejected), whether the server takes a record's
  values, and whether the statements of one \<open>execute\<close> call form one transaction.
\<close>

record pg_lib =
  pg_parse :: "pystr \<Rightarrow> real option"
  pg_show :: "real \<Rightarrow> pystr"
  pg_jsonb :: "pystr \<Rightarrow> pystr option"
  pg_takes :: "run_record \<Rightarrow> bool"
  pg_atomic :: bool

record pg_row =
  pw_config_hash :: pystr
  pw_time :: real
  pw_prompt :: pystr
  pw_output :: pystr
  pw_phase :: int
  pw_backend :: pystr
  pw_router :: "pystr option"
  pw_experts :: pystr
  pw_tokens :: int
  pw_cost :: real
  pw_latency :: real
  pw_epu :: "real option"
  pw_kv :: "int option"

record pg_state =
  ps_pool :: bool
  ps_db :: "pg_row sql_db"

definition pg_indexes :: "(pystr \<times> pystr) list" where
  "pg_indexes = [(lit ''idx_runs_timestamp'', lit ''timestamp''),
     (lit ''idx_runs_config_hash'', lit ''config_hash''), (lit ''idx_runs_phase'', lit ''phase''),
     (lit ''idx_runs_tenant'', tenant_column)]"

definition pg_schema :: "pg_lib \<Rightarrow> (pg_row sql_db, py_exc, unit) act" where
  "pg_schema L = (\<lambda>d.
     case create_indexes pg_indexes (create_table first_columns d) of
       (Inl e, d') \<Rightarrow> (Inl e, if pg_atomic L then d else d')
     | (Inr _, d') \<Rightarrow> (Inr (), d'))"

text \<open>\<open>conn\<close> is what importing the driver and \<open>create_pool\<close> come to.\<close>

definition ensure_pool :: "pg_lib \<Rightarrow> py_exc + unit \<Rightarrow> (pg_state, py_exc, unit) act" where
  "ensure_pool L conn = (\<lambda>s.
     if ps_pool s then (Inr (), s)
     else (case conn of
             Inl e \<Rightarrow> (Inl e, s)
           | Inr _ \<Rightarrow> (case pg_schema L (ps_db s) of (r, d) \<Rightarrow> (r, s\<lparr>ps_pool := True, ps_db := d\<rparr>))))"

definition pg_row_of :: "run_record \<Rightarrow> real \<Rightarrow> pystr \<Rightarrow> pg_row" where
  "pg_row_of r t es =
     \<lparr>pw_config_hash = rr_config_hash r, pw_time = t, pw_prompt = rr_prompt r, pw_output = rr_output r,
      pw_phase = rr_phase r, pw_backend = rr_backend r, pw_router = Some (rr_router r), pw_experts = es,
      pw_tokens = rr_tokens r, pw_cost = rr_cost r, pw_latency = rr_latency r, pw_epu = Some (rr_epu r),
      pw_kv = Some (rr_kv r)\<rparr>"

text \<open>\<open>ON CONFLICT (run_id) DO UPDATE\<close>: seven columns take the new values.\<close>

definition pg_merge :: "pg_row \<Rightarrow> pg_row \<Rightarrow> pg_row" where
  "pg_merge old new =
     old\<lparr>pw_time := pw_time new, pw_output := pw_output new, pw_tokens := pw_tokens new, pw_cost := pw_cost new,
         pw_latency := pw_latency new, pw_epu := pw_epu new, pw_kv := pw_kv new\<rparr>"

definition pg_upsert :: "pystr \<Rightarrow> pg_row \<Rightarrow> pg_row sql_db \<Rightarrow> pg_row sql_db" where
  "pg_upsert k w d =
     d\<lparr>db_rows := (case map_of (db_rows d) k of
                     None \<Rightarrow> db_rows d @ [(k, w)]
                   | Some old \<Rightarrow> AList.update k (pg_merge old w) (db_rows d))\<rparr>"

definition pg_save :: "pg_lib \<Rightarrow> py_exc + unit \<Rightarrow> run_record \<Rightarrow> (pg_state, py_exc, unit) act" where
  "pg_save L conn r =
     bnd (ensure_pool L conn) (\<lambda>_ s.
       case pg_parse L (rr_timestamp r) of
         None \<Rightarrow> (Inl ValueError, s)
       | Some t \<Rightarrow>
           (if db_columns (ps_db s) = None \<or> \<not> pg_takes L r then (Inl OtherError, s)
            else case pg_jsonb L (json_dumps (rr_experts r)) of
              None \<Rightarrow> (Inl OtherError, s)
            | Some es \<Rightarrow> (Inr (), s\<lparr>ps_db := pg_upsert (rr_run_id r) (pg_row_of r t es) (ps_db s)\<rparr>)))"

definition row_to_record :: "pg_lib \<Rightarrow> pystr \<times> pg_row \<Rightarrow> py_exc + run_record" where
  "row_to_record L p =
     (case json_loads (pw_experts (snd p)) of
        None \<Rightarrow> Inl ValueError
      | Some js \<Rightarrow>
          (let w = snd p in
           Inr \<lparr>rr_run_id = fst p, rr_config_hash = pw_config_hash w, rr_prompt = pw_prompt w,
                rr_output = pw_output w, rr_phase = pw_phase w, rr_backend = pw_backend w,
                rr_router = or_empty (pw_router w), rr_experts = js, rr_tokens = pw_tokens w,
                rr_cost = pw_cost w, rr_latency = pw_latency w,
                rr_epu = (case pw_epu w of None \<Rightarrow> 0 | Some x \<Rightarrow> x),
                rr_kv = (case pw_kv w of None \<Rightarrow> 0 | Some k \<Rightarrow> k), rr_timestamp = pg_show L (pw_time w),
                rr_trace_id = [], rr_tenant_id = []\<rparr>))"

definition pg_get :: "pg_lib \<Rightarrow> py_exc + unit \<Rightarrow> pystr \<Rightarrow> (pg_state, py_exc, run_record option) act" where
  "pg_get L conn rid =
     bnd (ensure_pool L conn) (\<lambda>_ s.
       if db_columns (ps_db s) = None then (Inl OtherError, s)
       else (case map_of (db_rows (ps_db s)) rid of
               None \<Rightarrow> (Inr None, s)
             | Some w \<Rightarrow> (case row_to_record L (rid, w) of Inl e \<Rightarrow> (Inl e, s) | Inr r \<Rightarrow> (Inr (Some r), s))))"

text \<open>A negative \<open>LIMIT\<close> is an error here.\<close>

definition pg_list ::
  "pg_lib \<Rightarrow> ((pystr \<times> pg_row) list \<Rightarrow> (pystr \<times> pg_row) list) \<Rightarrow> py_exc + unit \<Rightarrow> int \<Rightarrow> int option \<Rightarrow>
   (pg_state, py_exc, run_record list) act" where
  "pg_list L arr conn n ph =
     bnd (ensure_pool L conn) (\<lambda>_ s.
       if db_columns (ps_db s) = None \<or> n < 0 then (Inl OtherError, s)
       else (collect (row_to_record L)
               (take (nat n) (rev (sort_key (\<lambda>p. pw_time (snd p))
                  (arr (filter (\<lambda>p. ph = None \<or> ph = Some (pw_phase (snd p))) (db_rows (ps_db s))))))), s))"

definition pg_count :: "pg_lib \<Rightarrow> py_exc + unit \<Rightarrow> (pg_state, py_exc, nat) act" where
  "pg_count L conn =
     bnd (ensure_pool L conn) (\<lambda>_ s.
       if db_columns (ps_db s) = None then (Inl OtherError, s) else (Inr (length (db_rows (ps_db s))), s))"

definition pg_close :: "pg_state \<Rightarrow> pg_state" where
  "pg_close s = s\<lparr>ps_pool := False\<rparr>"

datatype pg_op = PgSave run_record | PgGet pystr | PgList int "int option" | PgCount | PgClose

fun pg_step ::
  "pg_lib \<Rightarrow> ((pystr \<times> pg_row) list \<Rightarrow> (pystr \<times> pg_row) list) \<Rightarrow> (py_exc + unit) \<times> pg_op \<Rightarrow> pg_state \<Rightarrow> pg_state" where
  "pg_step L arr (conn, PgSave r) s = snd (pg_save L conn r s)"
| "pg_step L arr (conn, PgGet k) s = snd (pg_get L conn k s)"
| "pg_step L arr (conn, PgList n ph) s = snd (pg_list L arr conn n ph s)"
| "pg_step L arr (conn, PgCount) s = snd (pg_count L conn s)"
| "pg_step L arr (conn, PgClose) s = pg_close s"

datatype store_kind = SqliteStore pystr | PostgresStore pystr

definition get_run_store :: "unicode \<Rightarrow> environ \<Rightarrow> store_kind" where
  "get_run_store u ev =
     (if py_lower u (env_str ev (lit ''CHEN_RUN_STORE_BACKEND'') (lit ''sqlite'')) = lit ''postgres''
      then PostgresStore (env_str ev (lit ''CHEN_RUN_STORE_DSN'') (lit ''postgresql://localhost:5432/chen''))
      else SqliteStore (default_store_path ev))"

text \<open>A database without the table, on a server where a failing schema leaves nothing behind.\<close>

definition pg_no_table :: "pg_state \<Rightarrow> bool" where
  "pg_no_table s \<longleftrightarrow> db_columns (ps_db s) = None \<and> db_indexes (ps_db s) = []"

lemma create_indexes_missing:
  "(n, c) \<in> set ics \<Longrightarrow> distinct (map fst ics) \<Longrightarrow> n \<notin> set (db_indexes db) \<Longrightarrow> c \<notin> set (columns_of db) \<Longrightarrow>
   \<exists>d. create_indexes ics db = (Inl OtherError, d) \<and> db_columns d = db_columns db \<and> db_rows d = db_rows db"
proof (induction ics arbitrary: db)
  case (Cons p ics)
  obtain n' c' where p: "p = (n', c')" by (cases p)
  show ?case
  proof (cases "n' = n")
    case True
    with Cons.prems p have "c' = c" by (force dest: eq_key_imp_eq_value)
    with True Cons.prems p show ?thesis by (simp add: columns_of_def)
  next
    case False
    with Cons.prems p have m: "(n, c) \<in> set ics" "distinct (map fst ics)" by auto
    let ?db = "db\<lparr>db_indexes := db_indexes db @ [n']\<rparr>"
    have "\<exists>d. create_indexes ics ?db = (Inl OtherError, d) \<and> db_columns d = db_columns ?db \<and> db_rows d = db_rows ?db"
      using False Cons.prems by (intro Cons.IH m) (simp_all add: columns_of_def)
    with Cons.IH [OF m Cons.prems(3,4)] p show ?thesis by (auto simp: columns_of_def)
  qed
qed simp

lemma pg_schema_fresh:
  assumes "pg_atomic L" and "db_columns d = None" and "db_indexes d = []"
  shows "pg_schema L d = (Inl OtherError, d)"
proof -
  let ?d = "create_table first_columns d"
  have "columns_of ?d = first_columns" "db_indexes ?d = []"
    using assms by (simp_all add: create_table_def columns_of_def)
  moreover have "tenant_column \<notin> set first_columns" "distinct (map fst pg_indexes)"
    "(lit ''idx_runs_tenant'', tenant_column) \<in> set pg_indexes"
    by (simp_all add: tenant_column_def first_columns_def pg_indexes_def)
  ultimately obtain d' where "create_indexes pg_indexes ?d = (Inl OtherError, d')"
    using create_indexes_missing [of "lit ''idx_runs_tenant''" tenant_column pg_indexes ?d] by auto
  with assms(1) show ?thesis by (simp add: pg_schema_def)
qed

lemma ensure_pool_fresh:
  assumes "pg_atomic L" and "pg_no_table s"
  shows "pg_no_table (snd (ensure_pool L conn s)) \<and> db_rows (ps_db (snd (ensure_pool L conn s))) = db_rows (ps_db s) \<and>
    (ps_pool s \<or> fst (ensure_pool L conn s) \<noteq> Inr ())"
  using assms pg_schema_fresh [OF assms(1), of "ps_db s"]
  by (auto simp: ensure_pool_def pg_no_table_def split: sum.splits)

lemma on_pool:
  "bnd (ensure_pool L conn) f s =
   (case ensure_pool L conn s of (Inl e, s') \<Rightarrow> (Inl e, s') | (Inr _, s') \<Rightarrow> f () s')"
  by (simp add: bnd_def split: prod.split sum.split)

lemma ensure_pool_ready: "ps_pool s \<Longrightarrow> ensure_pool L conn s = (Inr (), s)"
  by (simp add: ensure_pool_def)

lemma pg_step_no_table:
  assumes "pg_atomic L" and "pg_no_table s"
  shows "pg_no_table (pg_step L arr x s)"
proof -
  obtain conn q where x: "x = (conn, q)" by (cases x)
  obtain r s' where p: "ensure_pool L conn s = (r, s')" by fastforce
  have s': "pg_no_table s'" using ensure_pool_fresh [OF assms, of conn] p by simp
  then show ?thesis
    using assms(2) x p
    by (cases q; cases r) (auto simp: pg_save_def pg_get_def pg_list_def pg_count_def on_pool pg_no_table_def
        pg_close_def split: option.split)
qed

interpretation pg_steps: stepper "pg_step L arr" "\<lambda>s. pg_atomic L \<longrightarrow> pg_no_table s"
  by unfold_locales (simp add: pg_step_no_table)

lemma pg_save_no_table:
  assumes "pg_atomic L" and "pg_no_table s"
  shows "\<exists>e. fst (pg_save L conn r s) = Inl e" "\<exists>e. fst (pg_get L conn k s) = Inl e"
    "\<exists>e. fst (pg_list L arr conn n ph s) = Inl e" "\<exists>e. fst (pg_count L conn s) = Inl e"
proof -
  obtain q s' where p: "ensure_pool L conn s = (q, s')" by fastforce
  have s': "db_columns (ps_db s') = None"
    using ensure_pool_fresh [OF assms, of conn] p by (simp add: pg_no_table_def)
  show "\<exists>e. fst (pg_save L conn r s) = Inl e" "\<exists>e. fst (pg_get L conn k s) = Inl e"
    "\<exists>e. fst (pg_list L arr conn n ph s) = Inl e" "\<exists>e. fst (pg_count L conn s) = Inl e"
    using s' by (cases q; simp add: pg_save_def pg_get_def pg_list_def pg_count_def on_pool p split: option.split)+
qed

section \<open>Properties\<close>

text \<open>C17: The run store is a map from run ids to records. After any sequence of saves of storable records into a
  new store, looking up an id gives exactly the record saved last under it (every field, the expert
  list through its JSON text included) or nothing, and the number of runs is the number of ids saved.\<close>

theorem run_store_is_map:
  assumes "\<forall>r\<in>set rs. storable r"
  shows "let db = foldl (\<lambda>d r. snd (run_save r d)) (snd (open_store new_db)) rs in
     (\<forall>k. encodable k \<longrightarrow> run_get k db = Inr (map_of (rev (map (\<lambda>r. (rr_run_id r, r)) rs)) k)) \<and>
     run_count db = card (rr_run_id ` set rs)"
proof -
  let ?o = "snd (open_store new_db)" and ?kv = "map (\<lambda>r. (rr_run_id r, to_row r)) rs"
  let ?m = "map_of (rev (map (\<lambda>r. (rr_run_id r, r)) rs))"
  define db where "db = foldl (\<lambda>d r. snd (run_save r d)) ?o rs"
  have o: "opened ?o" "db_rows ?o = []" using open_new by auto
  have db: "db = foldl (\<lambda>d (k, v). insert_or_replace k v d) ?o ?kv"
    unfolding db_def by (rule save_all_rows [OF assms o(1)])
  have inv: "opened db" unfolding db_def by (rule store_steps.run_inv [OF o(1)])
  have cols: "columns_of db = sqlite_columns" "db_columns db \<noteq> None"
    using open_new_columns insert_all_columns [of ?o ?kv] unfolding db columns_of_def
    by (auto simp: sqlite_columns_def split: option.splits)
  have row: "map_of (db_rows db) k = map_option to_row (?m k)" for k
    using runs.get_fold_put [of ?o ?kv k] o(2) unfolding db row_of_def map_of_rows
    by (simp split: option.split)
  have get: "run_get k db = Inr (?m k)" if "encodable k" for k
  proof (cases "?m k")
    case None
    with that cols row [of k] show ?thesis by (simp add: run_get_def)
  next
    case (Some r)
    with map_of_ids have r: "r \<in> set rs" "rr_run_id r = k" by auto
    then have "from_row (columns_of db) (k, to_row r) = Inr r"
      using assms from_row_to_row [of r "columns_of db"] cols(1) by (auto simp: storable_def)
    with Some that cols row [of k] show ?thesis by (simp add: run_get_def)
  qed
  have "fst ` set (db_rows db) = rr_run_id ` set rs"
    using insert_all_keys [of ?o ?kv] o(2) unfolding db by force
  then have "run_count db = card (rr_run_id ` set rs)"
    using inv by (metis distinct_card length_map list.set_map opened_def run_count_def)
  with get show ?thesis unfolding db_def by (simp add: Let_def)
qed

definition sample_run :: "pystr \<Rightarrow> pystr \<Rightarrow> run_record" where
  "sample_run k out =
     \<lparr>rr_run_id = k, rr_config_hash = k, rr_prompt = lit ''p'', rr_output = out, rr_phase = 1,
      rr_backend = lit ''mock'', rr_router = [], rr_experts = JList [JStr (lit ''analyst'')], rr_tokens = 3,
      rr_cost = 0, rr_latency = 0, rr_epu = 1, rr_kv = 0, rr_timestamp = out, rr_trace_id = [], rr_tenant_id = []\<rparr>"

lemma sample_run_storable [simp]:
  "list_all encodable [k, out] \<Longrightarrow> storable (sample_run k out)"
  by (simp add: storable_def bindable_def sample_run_def int64_def json_char_def is_surrogate_def encodable_def
      utf8_char_def)

theorem run_store_is_map_witness:
  "let db = foldl (\<lambda>d r. snd (run_save r d)) (snd (open_store new_db))
              [sample_run (lit ''a'') (lit ''1''), sample_run (lit ''b'') (lit ''2''), sample_run (lit ''a'') (lit ''3'')]
   in run_get (lit ''a'') db = Inr (Some (sample_run (lit ''a'') (lit ''3''))) \<and> run_count db = 2"
proof -
  let ?rs = "[sample_run (lit ''a'') (lit ''1''), sample_run (lit ''b'') (lit ''2''), sample_run (lit ''a'') (lit ''3'')]"
  have e: "encodable (lit ''a'')" "encodable (lit ''b'')" "encodable (lit ''1'')" "encodable (lit ''2'')"
    "encodable (lit ''3'')"
    by (simp_all add: encodable_def utf8_char_def)
  then have ok: "\<forall>r\<in>set ?rs. storable r" by (simp del: lit_Cons)
  have "rr_run_id (sample_run k out) = k" for k out by (simp add: sample_run_def)
  with run_store_is_map [OF ok] e show ?thesis
    unfolding Let_def by (auto simp: card_insert_if simp del: foldl_Cons foldl_Nil)
qed

text \<open>Listing is newest first. Whatever order the engine meets rows of equal time in, the records returned are
  those of stored rows of the phase asked for, in descending order of time, and no row left out is
  newer than one returned; at most \<open>limit\<close> of them, and all of them when \<open>limit\<close> is negative.\<close>

theorem run_list_newest_first:
  assumes "\<forall>ps. set (arr ps) = set ps \<and> length (arr ps) = length ps" and "run_list arr n ph db = Inr rs"
  shows "sorted_wrt (\<ge>) (map rr_timestamp rs) \<and>
     length rs = (let m = length (filter (in_phase ph) (db_rows db)) in if n < 0 then m else min (nat n) m) \<and>
     (\<forall>r\<in>set rs. \<exists>w. (rr_run_id r, w) \<in> set (db_rows db) \<and> from_row (columns_of db) (rr_run_id r, w) = Inr r \<and>
        (case ph of None \<Rightarrow> True | Some k \<Rightarrow> rr_phase r = k)) \<and>
     (\<forall>p\<in>set (filter (in_phase ph) (db_rows db)). from_row (columns_of db) p \<notin> Inr ` set rs \<longrightarrow>
        (\<forall>r\<in>set rs. rw_timestamp (snd p) \<le> rr_timestamp r))"
proof -
  let ?F = "filter (in_phase ph) (db_rows db)" and ?from = "from_row (columns_of db)"
  let ?S = "by_time_desc (arr ?F)"
  let ?sel = "sql_limit n ?S"
  have "collect ?from ?sel = Inr rs" using assms(2) by (auto simp: run_list_def split: if_splits)
  then have sel: "list_all2 (\<lambda>p r. ?from p = Inr r) ?sel rs" by (rule collect_Inr)
  then have ts: "map rr_timestamp rs = map (\<lambda>p. rw_timestamp (snd p)) ?sel"
    by (induction rule: list_all2_induct) (auto dest: from_row_fields)
  have mem: "\<exists>p\<in>set ?sel. ?from p = Inr r" if "r \<in> set rs" for r
    using sel that by (induction rule: list_all2_induct) auto
  have mem': "\<exists>r\<in>set rs. ?from p = Inr r" if "p \<in> set ?sel" for p
    using sel that by (induction rule: list_all2_induct) auto
  have 1: "sorted_wrt (\<ge>) (map rr_timestamp rs)"
    unfolding ts sql_limit_map by (rule sorted_wrt_sql_limit [OF sorted_by_time_desc])
  have 2: "length rs = (if n < 0 then length ?F else min (nat n) (length ?F))"
    using list_all2_lengthD [OF sel, symmetric] assms(1) by (simp add: sql_limit_def min.commute)
  have 3: "\<exists>w. (rr_run_id r, w) \<in> set (db_rows db) \<and> ?from (rr_run_id r, w) = Inr r \<and>
      (case ph of None \<Rightarrow> True | Some k \<Rightarrow> rr_phase r = k)" if r: "r \<in> set rs" for r
  proof -
    obtain p where p: "p \<in> set ?sel" "?from p = Inr r" using mem [OF r] by blast
    then have "p \<in> set ?F" using set_sql_limit [of n ?S] assms(1) by auto
    with p(2) from_row_fields [OF p(2)] show ?thesis
      by (intro exI [of _ "snd p"]) (auto simp: in_phase_def split: option.splits)
  qed
  have 4: "rw_timestamp (snd p) \<le> rr_timestamp r"
    if p: "p \<in> set ?F" and out: "?from p \<notin> Inr ` set rs" and r: "r \<in> set rs" for p r
  proof -
    obtain q where q: "q \<in> set ?sel" "?from q = Inr r" using mem [OF r] by blast
    have "p \<notin> set ?sel" using mem' out by fastforce
    moreover have "p \<in> set ?S" using p assms(1) by simp
    moreover have "sorted_wrt (\<lambda>a b. rw_timestamp (snd a) \<ge> rw_timestamp (snd b)) ?S"
      using sorted_by_time_desc [of "arr ?F"] by (simp add: sorted_wrt_map)
    ultimately have "rw_timestamp (snd q) \<ge> rw_timestamp (snd p)" using q(1) by (blast dest: sql_limit_rest)
    with from_row_fields [OF q(2)] show ?thesis by simp
  qed
  show ?thesis using 1 2 3 4 by (auto simp: Let_def)
qed

definition two_runs :: run_db where
  "two_runs = \<lparr>db_columns = Some sqlite_columns, db_indexes = [],
     db_rows = [(lit ''a'', to_row (sample_run (lit ''a'') (lit ''1''))),
                (lit ''b'', to_row (sample_run (lit ''b'') (lit ''2'')))]\<rparr>"

lemma two_runs_list: "run_list id 1 None two_runs = Inr [sample_run (lit ''b'') (lit ''2'')]"
proof -
  have f: "from_row sqlite_columns (k, to_row (sample_run k out)) = Inr (sample_run k out)" for k out
    using from_row_to_row [of "sample_run k out" sqlite_columns]
    by (simp add: sample_run_def json_char_def is_surrogate_def)
  have "rw_timestamp (to_row (sample_run k out)) = out" for k out
    by (simp add: to_row_def sample_run_def)
  then have s: "sql_limit 1 (by_time_desc (db_rows two_runs)) = [(lit ''b'', to_row (sample_run (lit ''b'') (lit ''2'')))]"
    by (simp add: sql_limit_def by_time_desc_def two_runs_def)
  have c: "columns_of two_runs = sqlite_columns" "db_columns two_runs \<noteq> None"
    "filter (in_phase None) (db_rows two_runs) = db_rows two_runs"
    by (simp_all add: two_runs_def columns_of_def in_phase_def)
  show ?thesis
    unfolding run_list_def c(1,3) id_apply s using c(2) f by (simp add: int64_def del: lit_Cons)
qed

theorem run_list_newest_first_witness:
  "\<exists>rs. run_list id 1 None two_runs = Inr rs \<and> sorted_wrt (\<ge>) (map rr_timestamp rs) \<and> length rs = 1"
  using run_list_newest_first [OF _ two_runs_list] two_runs_list by simp



text \<open>The PostgreSQL store cannot create its table. Its schema has an index on a column \<open>tenant_id\<close> that its table
  does not define; on a server where the statements of one call form one transaction the table is rolled back with
  it, while the pool is kept, so the schema is never tried again before a close. On a database without the table every
  save, get, list and count raises, after any sequence of calls.\<close>

theorem pg_fresh_database_unusable:
  assumes "pg_atomic L" and "pg_no_table s"
  shows "let s' = foldl (\<lambda>s x. pg_step L arr x s) s xs in
     (\<exists>e. fst (pg_save L conn r s') = Inl e) \<and> (\<exists>e. fst (pg_get L conn k s') = Inl e) \<and>
     (\<exists>e. fst (pg_list L arr conn n ph s') = Inl e) \<and> (\<exists>e. fst (pg_count L conn s') = Inl e)"
  using pg_save_no_table [OF assms(1)] pg_steps.run_inv [of L s arr xs] assms by (simp add: Let_def)

definition sample_pg :: pg_lib where
  "sample_pg = \<lparr>pg_parse = (\<lambda>_. Some 0), pg_show = (\<lambda>_. []), pg_jsonb = Some, pg_takes = (\<lambda>_. True), pg_atomic = True\<rparr>"

theorem pg_fresh_database_unusable_witness:
  "\<exists>e. fst (pg_save sample_pg (Inr ()) (sample_run (lit ''a'') (lit ''1''))
     (pg_step sample_pg id (Inr (), PgCount) \<lparr>ps_pool = False, ps_db = new_db\<rparr>)) = Inl e"
  using pg_fresh_database_unusable [of sample_pg "\<lparr>ps_pool = False, ps_db = new_db\<rparr>" id "[(Inr (), PgCount)]" "Inr ()"
      "sample_run (lit ''a'') (lit ''1'')"]
  by (simp add: sample_pg_def pg_no_table_def new_db_def Let_def)

text \<open>Saving a second run under an id already in the PostgreSQL store mixes two runs. The time, the output and the
  counters become the new run's; the prompt, the configuration hash, the phase, the backend, the router and
  the experts stay the old run's. (The SQLite store replaces the record.)\<close>

theorem pg_save_mixes_runs:
  assumes "ps_pool s" and "db_columns (ps_db s) \<noteq> None" and "map_of (db_rows (ps_db s)) (rr_run_id r) = Some w"
    and "pg_parse L (rr_timestamp r) = Some t" and "pg_takes L r"
    and "pg_jsonb L (json_dumps (rr_experts r)) = Some es" and "json_loads (pw_experts w) = Some js"
  shows "\<exists>s' r'. pg_save L conn r s = (Inr (), s') \<and> pg_get L conn (rr_run_id r) s' = (Inr (Some r'), s') \<and>
     rr_output r' = rr_output r \<and> rr_tokens r' = rr_tokens r \<and> rr_timestamp r' = pg_show L t \<and>
     rr_prompt r' = pw_prompt w \<and> rr_config_hash r' = pw_config_hash w \<and> rr_phase r' = pw_phase w \<and>
     rr_backend r' = pw_backend w \<and> rr_experts r' = js"
proof -
  let ?w = "pg_merge w (pg_row_of r t es)" and ?k = "rr_run_id r"
  let ?s = "s\<lparr>ps_db := pg_upsert ?k (pg_row_of r t es) (ps_db s)\<rparr>"
  obtain cols where "db_columns (ps_db s) = Some cols" using assms(2) by blast
  then have save: "pg_save L conn r s = (Inr (), ?s)"
    using assms by (simp add: pg_save_def on_pool ensure_pool_ready)
  have row: "map_of (db_rows (ps_db ?s)) ?k = Some ?w"
    using assms(3) by (simp add: pg_upsert_def update_conv')
  obtain r' where r': "row_to_record L (?k, ?w) = Inr r'"
    using assms(7) by (simp add: row_to_record_def pg_merge_def Let_def)
  have "ps_pool ?s" "db_columns (ps_db ?s) \<noteq> None" using assms(1,2) by (simp_all add: pg_upsert_def)
  with row r' have get: "pg_get L conn ?k ?s = (Inr (Some r'), ?s)"
    by (simp add: pg_get_def on_pool ensure_pool_ready)
  from r' assms(7) have "rr_output r' = rr_output r \<and> rr_tokens r' = rr_tokens r \<and> rr_timestamp r' = pg_show L t \<and>
     rr_prompt r' = pw_prompt w \<and> rr_config_hash r' = pw_config_hash w \<and> rr_phase r' = pw_phase w \<and>
     rr_backend r' = pw_backend w \<and> rr_experts r' = js"
    by (auto simp: row_to_record_def pg_merge_def pg_row_of_def Let_def)
  with save get show ?thesis by blast
qed

theorem pg_save_mixes_runs_witness:
  "\<exists>s' r'. pg_get sample_pg (Inr ()) (lit ''a'') s' = (Inr (Some r'), s') \<and> rr_output r' = lit ''new'' \<and> rr_prompt r' = lit ''old''"
proof -
  let ?old = "(pg_row_of (sample_run (lit ''a'') (lit ''out'')) 0 (json_dumps (JList [])))\<lparr>pw_prompt := lit ''old''\<rparr>"
  let ?s = "\<lparr>ps_pool = True, ps_db = \<lparr>db_columns = Some first_columns, db_indexes = [], db_rows = [(lit ''a'', ?old)]\<rparr>\<rparr>"
  let ?r = "sample_run (lit ''a'') (lit ''new'')"
  have id: "rr_run_id ?r = lit ''a''" "rr_output ?r = lit ''new''" by (simp_all add: sample_run_def)
  have h: "ps_pool ?s" "db_columns (ps_db ?s) \<noteq> None" "map_of (db_rows (ps_db ?s)) (rr_run_id ?r) = Some ?old"
    "pg_parse sample_pg (rr_timestamp ?r) = Some 0" "pg_takes sample_pg ?r"
    "pg_jsonb sample_pg (json_dumps (rr_experts ?r)) = Some (json_dumps (rr_experts ?r))"
    "json_loads (pw_experts ?old) = Some (JList [])"
    using json_loads_dumps [of "JList []"] by (simp_all add: id sample_pg_def pg_row_of_def del: lit_Cons)
  from pg_save_mixes_runs [OF h, of "Inr ()"] show ?thesis
    unfolding id by (auto simp del: lit_Cons)
qed

end
