(* ===== verification/Repro.thy ===== *)
theory Repro
  imports Chen_Json
begin

text \<open>
  \<open>chen/reproducibility\<close>: the hash of a configuration and the context that brackets a run. SHA-256 is an
  argument; a log is the list of its events.
\<close>

section \<open>Configuration hashes\<close>

text \<open>The JSON text is ASCII, so encoding it as UTF-8 cannot fail (\<open>json_text_ascii\<close>).\<close>

definition config_bytes :: "json \<Rightarrow> bytes" where
  "config_bytes cfg = map byte_of (json_dumps (json_sort cfg))"

definition hash_config :: "(bytes \<Rightarrow> bytes) \<Rightarrow> json \<Rightarrow> pystr" where
  "hash_config sha cfg = hex_of_bytes (sha (config_bytes cfg))"

lemma hex_digit_ascii: "n < 16 \<Longrightarrow> hex_digit n < 128"
  by (simp add: hex_digit_def)

lemma hex_pad_ascii: "\<forall>c\<in>set (hex_pad k n). c < 128"
  by (induction k arbitrary: n) (auto simp: hex_digit_ascii)

lemma json_escape_ascii: "x \<in> set (json_escape c) \<Longrightarrow> x < 128"
  using hex_pad_ascii [of 4]
  by (auto simp: json_escape_def simp del: hex_pad.simps split: if_splits)

lemma json_string_ascii: "x \<in> set (json_string s) \<Longrightarrow> x < 128"
  by (auto simp: json_string_def dest: json_escape_ascii)

lemma digits10_ascii: "c \<in> set (digits10 n) \<Longrightarrow> c < 128"
  by (drule digits10_digit) simp

lemma py_str_int_ascii: "x \<in> set (py_str_int k) \<Longrightarrow> x < 128"
  by (auto simp: py_str_int_def dest: digits10_ascii split: if_splits)

lemma json_text_ascii:
  "\<forall>c\<in>set (json_dumps j). c < 128"
  "\<forall>c\<in>set (json_elems js). c < 128"
  "\<forall>c\<in>set (json_members kvs). c < 128"
proof (induction j and js and kvs rule: json_dumps_json_elems_json_members.induct)
qed (auto dest: json_string_ascii py_str_int_ascii)

lemma config_bytes_utf8: "utf8_encode (json_dumps (json_sort cfg)) = Some (config_bytes cfg)"
  using json_text_ascii(1) by (simp add: config_bytes_def utf8_encode_ascii)

lemma hex_digit_inj: "m < 16 \<Longrightarrow> n < 16 \<Longrightarrow> hex_digit m = hex_digit n \<longleftrightarrow> m = n"
  by (auto simp: hex_digit_def split: if_splits)

lemma hex_pad_2: "hex_pad 2 n = [hex_digit (n div 16 mod 16), hex_digit (n mod 16)]"
proof -
  have "hex_pad (Suc (Suc 0)) n = [hex_digit (n div 16 mod 16), hex_digit (n mod 16)]" by simp
  moreover have "(2 :: nat) = Suc (Suc 0)" by simp
  ultimately show ?thesis by (simp only:)
qed

lemma hex_pad_2_inj:
  assumes "m < 256" and "n < 256" and "hex_pad 2 m = hex_pad 2 n"
  shows "m = n"
proof -
  have "m div 16 mod 16 = n div 16 mod 16" "m mod 16 = n mod 16"
    using assms(3) by (simp_all add: hex_pad_2 hex_digit_inj)
  moreover have "m div 16 < 16" "n div 16 < 16" using assms(1,2) by (auto simp: less_mult_imp_div_less)
  ultimately show ?thesis by (metis div_mult_mod_eq mod_less)
qed

lemma hex_of_bytes_inj: "hex_of_bytes a = hex_of_bytes b \<longleftrightarrow> a = b"
proof
  show "hex_of_bytes a = hex_of_bytes b \<Longrightarrow> a = b"
  proof (induction a arbitrary: b)
    case Nil
    then show ?case by (cases b) (auto simp: hex_of_bytes_def hex_pad_2)
  next
    case (Cons x a)
    then obtain y b' where b: "b = y # b'" by (cases b) (auto simp: hex_of_bytes_def hex_pad_2)
    have "hex_pad 2 (unat x) @ hex_of_bytes a = hex_pad 2 (unat y) @ hex_of_bytes b'"
      using Cons.prems b by (simp add: hex_of_bytes_def)
    then have "hex_pad 2 (unat x) = hex_pad 2 (unat y)" "hex_of_bytes a = hex_of_bytes b'"
      by (auto simp: hex_pad_2)
    with hex_pad_2_inj [of "unat x" "unat y"] Cons.IH b show ?case by (metis byte_of_unat unat_byte_lt)
  qed
qed simp

lemma length_hex_of_bytes: "length (hex_of_bytes bs) = 2 * length bs"
  by (induction bs) (simp_all add: hex_of_bytes_def hex_pad_2)

section \<open>Sorting keeps a valid value\<close>

lemma set_sort_members [simp]: "set (sort_key fst (map f kvs)) = f ` set kvs"
  by simp

lemma json_sort_ok: "json_ok j \<Longrightarrow> json_ok (json_sort j)"
proof (induction j rule: json_sort.induct)
  case (2 kvs)
  let ?f = "\<lambda>p. (fst p, json_sort (snd p))"
  have "mset (map fst (sort_key fst (map ?f kvs))) = mset (map fst kvs)"
    by (simp add: image_mset.compositionality comp_def)
  then have "distinct (map fst (sort_key fst (map ?f kvs)))"
    using "2.prems" by (metis json_ok.simps(3) mset_eq_imp_distinct_iff)
  moreover have "\<forall>p\<in>set kvs. json_ok (json_sort (snd p))"
    using 2 by (auto simp: list_all_iff)
  ultimately show ?case using "2.prems" by (auto simp: list_all_iff)
qed (auto simp: list_all_iff)

text \<open>Two dicts with the same entries, in whatever order they were built, sort to the same list.\<close>

lemma map_of_sorted_members:
  "distinct (map fst kvs) \<Longrightarrow>
   map_of (sort_key fst (map (\<lambda>p. (fst p, f (snd p))) kvs)) k = map_option f (map_of kvs k)"
proof -
  assume d: "distinct (map fst kvs)"
  let ?kvs = "map (\<lambda>p. (fst p, f (snd p))) kvs"
  have "mset (map fst (sort_key fst ?kvs)) = mset (map fst kvs)"
    by (simp add: image_mset.compositionality comp_def)
  then have d': "distinct (map fst (sort_key fst ?kvs))" using d by (metis mset_eq_imp_distinct_iff)
  have 1: "map_of (sort_key fst ?kvs) = map_of ?kvs"
    using d d' by (intro map_of_inject_set [THEN iffD2]) (simp_all add: comp_def)
  have "map_of ?kvs k = map_option f (map_of kvs k)" by (induction kvs) auto
  then show "map_of (sort_key fst ?kvs) k = map_option f (map_of kvs k)" by (simp only: 1)
qed

lemma sorted_members_eq:
  assumes "distinct (map fst a)" and "distinct (map fst b)" and "map_of a = map_of b"
  shows "sort_key fst a = sort_key fst (b :: ('k :: linorder \<times> 'v) list)"
proof -
  have "set a = set b" using assms by (simp add: map_of_inject_set)
  moreover have "distinct a" "distinct b" using assms(1,2) by (auto simp: distinct_map)
  ultimately have "mset a = mset b" by (simp add: set_eq_iff_mset_eq_distinct)
  moreover have "inj_on fst (set a)" using assms(1) by (simp add: distinct_map)
  ultimately show ?thesis by (intro sort_key_inj_key_eq) auto
qed

section \<open>Runs\<close>

record run_context =
  rc_config :: json
  rc_config_hash :: pystr
  rc_seed :: int

definition context_from_config :: "(bytes \<Rightarrow> bytes) \<Rightarrow> json \<Rightarrow> int \<Rightarrow> run_context" where
  "context_from_config sha cfg seed = \<lparr>rc_config = cfg, rc_config_hash = hash_config sha cfg, rc_seed = seed\<rparr>"

text \<open>
  The generators the program seeds. \<open>None\<close> in the library record: not installed; otherwise which seeds
  the library takes (\<open>ValueError\<close> or \<open>RuntimeError\<close> for the others).
\<close>

record rng_lib =
  rl_numpy :: "(int \<Rightarrow> bool) option"
  rl_torch :: "(int \<Rightarrow> bool) option"
  rl_cuda :: bool

record rng_state =
  rg_python :: "int option"
  rg_hashseed :: "pystr option"
  rg_numpy :: "int option"
  rg_torch :: "int option"
  rg_cuda :: "int option"

datatype run_event = SeedSet int | RunStart pystr int json | RunFailed pystr | RunEnd pystr

record repro_state =
  rp_rng :: rng_state
  rp_log :: "run_event list"

definition log_event :: "run_event \<Rightarrow> repro_state \<Rightarrow> repro_state" where
  "log_event ev s = s\<lparr>rp_log := rp_log s @ [ev]\<rparr>"

definition seed_numpy :: "rng_lib \<Rightarrow> int \<Rightarrow> (repro_state, py_exc, unit) act" where
  "seed_numpy lib seed = (\<lambda>s.
     case rl_numpy lib of
       None \<Rightarrow> (Inr (), s)
     | Some ok \<Rightarrow> (if ok seed then (Inr (), s\<lparr>rp_rng := (rp_rng s)\<lparr>rg_numpy := Some seed\<rparr>\<rparr>) else (Inl ValueError, s)))"

definition seed_torch :: "rng_lib \<Rightarrow> int \<Rightarrow> (repro_state, py_exc, unit) act" where
  "seed_torch lib seed = (\<lambda>s.
     case rl_torch lib of
       None \<Rightarrow> (Inr (), s)
     | Some ok \<Rightarrow>
         (if ok seed
          then (Inr (), s\<lparr>rp_rng := (rp_rng s)\<lparr>rg_torch := Some seed,
                                              rg_cuda := (if rl_cuda lib then Some seed else rg_cuda (rp_rng s))\<rparr>\<rparr>)
          else (Inl RuntimeError, s)))"

definition seed_everything :: "rng_lib \<Rightarrow> int \<Rightarrow> (repro_state, py_exc, unit) act" where
  "seed_everything lib seed = (\<lambda>s.
     bnd (seed_numpy lib seed) (\<lambda>_. bnd (seed_torch lib seed) (\<lambda>_ s'. (Inr (), log_event (SeedSet seed) s')))
       (s\<lparr>rp_rng := (rp_rng s)\<lparr>rg_python := Some seed, rg_hashseed := Some (py_str_int seed)\<rparr>\<rparr>))"

text \<open>The context manager around a body that acts on the world and the log.\<close>

definition track_run ::
  "rng_lib \<Rightarrow> (bytes \<Rightarrow> bytes) \<Rightarrow> json \<Rightarrow> int \<Rightarrow> (run_context \<Rightarrow> ('w \<times> repro_state, py_exc, 'a) act) \<Rightarrow>
   ('w \<times> repro_state, py_exc, 'a) act" where
  "track_run lib sha cfg seed body = (\<lambda>(w, s).
     let ctx = context_from_config sha cfg seed; h = rc_config_hash ctx in
     case seed_everything lib seed s of
       (Inl e, s') \<Rightarrow> (Inl e, (w, s'))
     | (Inr _, s') \<Rightarrow>
         (case body ctx (w, log_event (RunStart h seed cfg) s') of
            (Inl e, (w', s2)) \<Rightarrow> (Inl e, (w', log_event (RunEnd h) (log_event (RunFailed h) s2)))
          | (Inr x, (w', s2)) \<Rightarrow> (Inr x, (w', log_event (RunEnd h) s2))))"

text \<open>The body starts from seeded generators, its result or its exception comes out, and the end is logged after
  whatever it logged, the failure before it.\<close>

lemma track_run_brackets:
  assumes "seed_everything lib seed s = (Inr (), s1)"
    and "body (context_from_config sha cfg seed) (w, log_event (RunStart (hash_config sha cfg) seed cfg) s1) = (r, (w', s2))"
  shows "track_run lib sha cfg seed body (w, s) =
     (r, (w', s2\<lparr>rp_log := rp_log s2 @ (case r of Inl _ \<Rightarrow> [RunFailed (hash_config sha cfg)] | Inr _ \<Rightarrow> []) @
                           [RunEnd (hash_config sha cfg)]\<rparr>)) \<and>
     rg_python (rp_rng s1) = Some seed \<and> rg_hashseed (rp_rng s1) = Some (py_str_int seed) \<and>
     (rl_numpy lib \<noteq> None \<longrightarrow> rg_numpy (rp_rng s1) = Some seed) \<and> rp_log s1 = rp_log s @ [SeedSet seed]"
  using assms
  by (auto simp: track_run_def Let_def context_from_config_def log_event_def seed_everything_def seed_numpy_def
      seed_torch_def bnd_apply split: option.splits if_splits sum.split)

section \<open>Property\<close>

text \<open>A configuration hash identifies the configuration. For configurations of valid values on whose texts the
  hash function does not collide, two hashes are equal exactly when the two dicts have the same keys with the same
  values (inner dicts again up to order); the order in which the entries were added does not matter.\<close>

theorem config_hash_identifies:
  assumes "json_ok (JObj a)" and "json_ok (JObj b)"
    and "sha (config_bytes (JObj a)) = sha (config_bytes (JObj b)) \<Longrightarrow> config_bytes (JObj a) = config_bytes (JObj b)"
  shows "hash_config sha (JObj a) = hash_config sha (JObj b) \<longleftrightarrow>
     (\<forall>k. map_option json_sort (map_of a k) = map_option json_sort (map_of b k))"
proof -
  let ?s = "\<lambda>kvs. sort_key fst (map (\<lambda>p. (fst p, json_sort (snd p))) kvs)"
  have d: "distinct (map fst a)" "distinct (map fst b)" using assms(1,2) by auto
  have m: "map_of (?s kvs) k = map_option json_sort (map_of kvs k)" if "distinct (map fst kvs)" for kvs k
    by (rule map_of_sorted_members [OF that])
  show ?thesis
  proof
    assume "hash_config sha (JObj a) = hash_config sha (JObj b)"
    then have "config_bytes (JObj a) = config_bytes (JObj b)"
      using assms(3) by (simp add: hash_config_def hex_of_bytes_inj)
    then have "json_dumps (json_sort (JObj a)) = json_dumps (json_sort (JObj b))"
      by (metis config_bytes_utf8 utf8_decode_encode option.inject)
    then have "json_sort (JObj a) = json_sort (JObj b)"
      using json_sort_ok [OF assms(1)] json_sort_ok [OF assms(2)] by (blast dest: json_dumps_inj)
    then have "?s a = ?s b" by simp
    with m [OF d(1)] m [OF d(2)] show "\<forall>k. map_option json_sort (map_of a k) = map_option json_sort (map_of b k)"
      by metis
  next
    assume e: "\<forall>k. map_option json_sort (map_of a k) = map_option json_sort (map_of b k)"
    let ?a = "map (\<lambda>p. (fst p, json_sort (snd p))) a" and ?b = "map (\<lambda>p. (fst p, json_sort (snd p))) b"
    have mo: "map_of (map (\<lambda>p. (fst p, json_sort (snd p))) kvs) k = map_option json_sort (map_of kvs k)" for kvs k
      by (induction kvs) auto
    have "map_of ?a = map_of ?b" using e by (auto simp: mo fun_eq_iff)
    then have "?s a = ?s b" using d by (intro sorted_members_eq) (simp_all add: comp_def)
    then show "hash_config sha (JObj a) = hash_config sha (JObj b)"
      by (simp add: hash_config_def config_bytes_def)
  qed
qed

theorem config_hash_identifies_witness:
  "hash_config id (JObj [(lit ''phase'', JInt 1), (lit ''backend'', JStr (lit ''hf''))]) =
   hash_config id (JObj [(lit ''backend'', JStr (lit ''hf'')), (lit ''phase'', JInt 1)]) \<and>
   hash_config id (JObj [(lit ''phase'', JInt 1)]) \<noteq> hash_config id (JObj [(lit ''phase'', JInt 2)])"
proof
  have "json_ok (JObj [(lit ''phase'', JInt 1), (lit ''backend'', JStr (lit ''hf''))])"
    "json_ok (JObj [(lit ''backend'', JStr (lit ''hf'')), (lit ''phase'', JInt 1)])"
    by (simp_all add: json_char_def is_surrogate_def)
  from config_hash_identifies [OF this, of id]
  show "hash_config id (JObj [(lit ''phase'', JInt 1), (lit ''backend'', JStr (lit ''hf''))]) =
    hash_config id (JObj [(lit ''backend'', JStr (lit ''hf'')), (lit ''phase'', JInt 1)])"
    by simp
next
  have "json_ok (JObj [(lit ''phase'', JInt 1)])" "json_ok (JObj [(lit ''phase'', JInt 2)])"
    by (simp_all add: json_char_def is_surrogate_def)
  from config_hash_identifies [OF this, of id]
  show "hash_config id (JObj [(lit ''phase'', JInt 1)]) \<noteq> hash_config id (JObj [(lit ''phase'', JInt 2)])"
    by simp
qed

end
