(* ===== verification/Server_Routes.thy ===== *)
theory Server_Routes
  imports Persist_RunStore Repro Phases Core_Router
begin

text \<open>
  \<open>chen/server/routes.py\<close> and the parts of \<open>chen/cli/commands\<close> that build and run a pipeline: from a request to
  the experts, the pipeline, the stored run and the response.

  The state is the run store's database and the world the backends live in. The constructors of the backends,
  the memory, the clocks and the environment are the record \<open>server\<close>; the logger and the Prometheus
  counters are left out. An exception in a handler is status 500, a request that fails the validation of
  its fields 422.
\<close>

section \<open>Requests and responses\<close>

record infer_request =
  iq_prompt :: pystr
  iq_phase :: int
  iq_backend :: pystr
  iq_max_tokens :: int
  iq_router :: pystr
  iq_save_run :: bool
  iq_stream :: bool
  iq_tenant_id :: "pystr option"
  iq_analyst_model :: "pystr option"
  iq_reasoner_model :: "pystr option"
  iq_coder_model :: "pystr option"
  iq_synthesizer_model :: "pystr option"
  iq_trace_id :: "pystr option"

definition short :: "nat \<Rightarrow> pystr option \<Rightarrow> bool" where
  "short n v \<longleftrightarrow> (case v of None \<Rightarrow> True | Some s \<Rightarrow> length s \<le> n)"

text \<open>The constraints of the fields.\<close>

definition valid_request :: "infer_request \<Rightarrow> bool" where
  "valid_request q \<longleftrightarrow>
     1 \<le> length (iq_prompt q) \<and> length (iq_prompt q) \<le> 100000 \<and> 1 \<le> iq_phase q \<and> iq_phase q \<le> 3 \<and>
     1 \<le> iq_max_tokens q \<and> iq_max_tokens q \<le> 4096 \<and> short 128 (iq_tenant_id q) \<and>
     short 256 (iq_analyst_model q) \<and> short 256 (iq_reasoner_model q) \<and> short 256 (iq_coder_model q) \<and>
     short 256 (iq_synthesizer_model q) \<and> short 128 (iq_trace_id q)"

record expert_metrics_model =
  xm_expert_name :: pystr
  xm_role :: pystr
  xm_params_m :: int
  xm_input_tokens :: int
  xm_output_tokens :: int
  xm_latency_ms :: real
  xm_used_kv_cache :: bool

record infer_response =
  ir_output :: pystr
  ir_selected :: "pystr list"
  ir_per_expert :: "expert_metrics_model list"
  ir_total_tokens :: int
  ir_total_cost :: real
  ir_total_latency :: real
  ir_epu :: real
  ir_kv_transfers :: int
  ir_run_id :: "pystr option"
  ir_config_hash :: pystr
  ir_trace_id :: "pystr option"

record run_summary =
  su_run_id :: pystr
  su_timestamp :: pystr
  su_phase :: int
  su_backend :: pystr
  su_prompt_preview :: pystr
  su_total_tokens :: int
  su_total_cost :: real
  su_epu :: real

record run_detail = run_summary +
  sd_config_hash :: pystr
  sd_router :: pystr
  sd_experts :: json
  sd_output :: pystr
  sd_latency :: real
  sd_kv :: int

datatype 'a http = Reply 'a | Status nat

section \<open>Building the pipeline\<close>

record 'w server =
  sv_mock :: "int \<Rightarrow> pystr \<Rightarrow> 'w backend"
  sv_hf :: "pystr \<Rightarrow> int \<Rightarrow> 'w backend"
  sv_vllm :: "pystr \<Rightarrow> int \<Rightarrow> 'w backend"
  sv_llama :: "int \<Rightarrow> 'w backend"
  sv_memory :: "'w memory_ops"
  sv_clocks :: "'w clocks"
  sv_cost :: cost_model
  sv_environ :: environ
  sv_unicode :: unicode
  sv_sha :: "bytes \<Rightarrow> bytes"
  sv_now :: "'w \<Rightarrow> pystr \<times> 'w"

definition hf_models :: "environ \<Rightarrow> (pystr \<times> pystr) list" where
  "hf_models ev =
     [(lit ''analyst'', env_str ev (lit ''CHEN_HF_ANALYST_MODEL'') (lit ''HuggingFaceTB/SmolLM2-1.7B-Instruct'')),
      (lit ''reasoner'', env_str ev (lit ''CHEN_HF_REASONER_MODEL'') (lit ''Qwen/Qwen2.5-3B-Instruct'')),
      (lit ''coder'', env_str ev (lit ''CHEN_HF_CODER_MODEL'') (lit ''Qwen/Qwen2.5-3B-Instruct'')),
      (lit ''synthesizer'', env_str ev (lit ''CHEN_HF_SYNTHESIZER_MODEL'') (lit ''HuggingFaceTB/SmolLM2-1.7B-Instruct''))]"

definition build_backend :: "'w server \<Rightarrow> pystr \<Rightarrow> pystr \<Rightarrow> int \<Rightarrow> py_exc + 'w backend" where
  "build_backend sv backend role_hint params_m =
     (if backend = lit ''mock'' then Inr (sv_mock sv params_m role_hint)
      else if backend = lit ''hf'' then
        (let models = hf_models (sv_environ sv);
             model_id = dict_get models role_hint (dict_get models (lit ''synthesizer'') [])
         in Inr (sv_hf sv model_id params_m))
      else if backend = lit ''vllm'' then
        Inr (sv_vllm sv (env_str (sv_environ sv) (lit ''CHEN_VLLM_MODEL'') (lit ''meta-llama/Meta-Llama-3-8B-Instruct'')) params_m)
      else if backend = lit ''llama_cpp'' then Inr (sv_llama sv params_m)
      else Inl ValueError)"

definition mk_expert :: "pystr \<Rightarrow> expert_role \<Rightarrow> 'w backend \<Rightarrow> 'w expert" where
  "mk_expert n role b = \<lparr>ex_name = n, ex_role = role, ex_backend = b, ex_description = [], ex_tags = []\<rparr>"

text \<open>The four experts, with their sizes.\<close>

definition garage :: "(pystr \<times> expert_role \<times> int) list" where
  "garage = [(lit ''analyst'', ANALYST, 3000), (lit ''reasoner'', REASONER, 8000), (lit ''coder'', CODER, 7000),
             (lit ''synthesizer'', SYNTHESIZER, 3000)]"

definition build_experts :: "'w server \<Rightarrow> pystr \<Rightarrow> py_exc + 'w expert list" where
  "build_experts sv backend =
     collect (\<lambda>(n, role, p). case build_backend sv backend n p of Inl e \<Rightarrow> Inl e | Inr b \<Rightarrow> Inr (mk_expert n role b)) garage"

datatype 'w runnable =
    Cascade "'w pipeline"
  | KVPass "'w pipeline"
  | Routing "'w pipeline" "'w router_fun" bool

definition base_pipeline :: "'w server \<Rightarrow> 'w expert list \<Rightarrow> pystr list \<Rightarrow> int \<Rightarrow> 'w pipeline" where
  "base_pipeline sv experts sq max_tokens =
     \<lparr>pl_experts = experts, pl_memory = sv_memory sv, pl_cost = sv_cost sv, pl_clocks = sv_clocks sv,
      pl_sequence = sq, pl_max_tokens = max_tokens, pl_write_memory = False, pl_retrieve_k = 0, pl_fallback = True\<rparr>"

definition logistic_router_fun :: "'w server \<Rightarrow> 'w router_fun" where
  "logistic_router_fun sv = (\<lambda>prompt es. ret (logistic_route (sv_unicode sv) default_logistic prompt es))"

definition map_sum_r :: "('a \<Rightarrow> 'b) \<Rightarrow> py_exc + 'a \<Rightarrow> py_exc + 'b" where
  "map_sum_r f r = (case r of Inl e \<Rightarrow> Inl e | Inr x \<Rightarrow> Inr (f x))"

text \<open>The constructor of a routing pipeline only checks that there are experts.\<close>

definition routing_pipeline :: "'w pipeline \<Rightarrow> 'w router_fun \<Rightarrow> bool \<Rightarrow> py_exc + 'w runnable" where
  "routing_pipeline pl rt text_handoff =
     (if pl_experts pl = [] then Inl ValueError else Inr (Routing pl rt text_handoff))"

definition make_pipeline :: "'w server \<Rightarrow> int \<Rightarrow> pystr \<Rightarrow> 'w expert list \<Rightarrow> int \<Rightarrow> py_exc + 'w runnable" where
  "make_pipeline sv phase router_kind experts max_tokens =
     (let two = [lit ''analyst'', lit ''synthesizer''] in
      if phase = 1 then map_sum_r Cascade (pipeline_init (base_pipeline sv experts two max_tokens))
      else if phase = 2 then map_sum_r KVPass (pipeline_init (base_pipeline sv experts two max_tokens))
      else if phase = 3 then routing_pipeline (base_pipeline sv experts [] max_tokens) (logistic_router_fun sv) True
      else Inl ValueError)"

definition run_pipeline :: "'w runnable \<Rightarrow> pystr \<Rightarrow> int option \<Rightarrow> ('w, py_exc, pipeline_result) act" where
  "run_pipeline p prompt kwarg =
     (case p of
        Cascade pl \<Rightarrow> cascade_run pl prompt kwarg
      | KVPass pl \<Rightarrow> kv_run pl prompt kwarg
      | Routing pl rt th \<Rightarrow> routing_run pl rt th prompt kwarg)"

section \<open>POST /v1/infer\<close>

type_synonym 'w app_state = "run_db \<times> 'w"

definition on_fst :: "('m, 'e, 'a) act \<Rightarrow> ('m \<times> 'w, 'e, 'a) act" where
  "on_fst m = (\<lambda>(s, w). case m s of (r, s') \<Rightarrow> (r, (s', w)))"

definition stamp :: "'w server \<Rightarrow> ('w, py_exc, pystr) act" where
  "stamp sv = (\<lambda>w. case sv_now sv w of (t, w') \<Rightarrow> (Inr t, w'))"

definition run_config :: "int \<Rightarrow> pystr \<Rightarrow> pystr \<Rightarrow> int \<Rightarrow> pystr list \<Rightarrow> json" where
  "run_config phase backend router_kind max_tokens selected =
     JObj [(lit ''phase'', JInt phase), (lit ''backend'', JStr backend), (lit ''router'', JStr router_kind),
           (lit ''max_tokens'', JInt max_tokens), (lit ''sequence'', JList (map JStr selected))]"

definition result_hash :: "'w server \<Rightarrow> infer_request \<Rightarrow> pipeline_result \<Rightarrow> pystr" where
  "result_hash sv q r =
     hash_config (sv_sha sv) (run_config (iq_phase q) (iq_backend q) (iq_router q) (iq_max_tokens q) (pr_selected r))"

text \<open>The record of a run: its id is the start of the configuration's hash; no trace, no tenant.\<close>

definition record_of ::
  "pystr \<Rightarrow> pystr \<Rightarrow> int \<Rightarrow> pystr \<Rightarrow> pystr \<Rightarrow> pipeline_result \<Rightarrow> pystr \<Rightarrow> run_record" where
  "record_of h prompt phase backend router_kind r now =
     \<lparr>rr_run_id = take 16 h, rr_config_hash = h, rr_prompt = prompt, rr_output = pr_output r, rr_phase = phase,
      rr_backend = backend, rr_router = router_kind, rr_experts = JList (map JStr (pr_selected r)),
      rr_tokens = agg_total_tokens (pr_metrics r), rr_cost = ag_cost_usd (pr_metrics r),
      rr_latency = ag_latency_ms (pr_metrics r), rr_epu = epu (pr_metrics r), rr_kv = ag_kv_transfers (pr_metrics r),
      rr_timestamp = now, rr_trace_id = [], rr_tenant_id = []\<rparr>"

definition save_result :: "'w server \<Rightarrow> infer_request \<Rightarrow> pipeline_result \<Rightarrow> ('w app_state, py_exc, unit) act" where
  "save_result sv q r =
     (if iq_save_run q
      then bnd (on_snd (stamp sv)) (\<lambda>now.
           on_fst (run_save (record_of (result_hash sv q r) (iq_prompt q) (iq_phase q) (iq_backend q) (iq_router q) r now)))
      else ret ())"

definition metrics_model :: "expert_metrics \<Rightarrow> expert_metrics_model" where
  "metrics_model m =
     \<lparr>xm_expert_name = em_name m, xm_role = role_value (em_role m), xm_params_m = em_params_m m,
      xm_input_tokens = em_input_tokens m, xm_output_tokens = em_output_tokens m, xm_latency_ms = em_latency_ms m,
      xm_used_kv_cache = em_used_kv m\<rparr>"

definition response_of :: "'w server \<Rightarrow> infer_request \<Rightarrow> pipeline_result \<Rightarrow> infer_response" where
  "response_of sv q r =
     \<lparr>ir_output = pr_output r, ir_selected = pr_selected r, ir_per_expert = map metrics_model (pr_per_expert r),
      ir_total_tokens = agg_total_tokens (pr_metrics r), ir_total_cost = ag_cost_usd (pr_metrics r),
      ir_total_latency = ag_latency_ms (pr_metrics r), ir_epu = epu (pr_metrics r),
      ir_kv_transfers = ag_kv_transfers (pr_metrics r), ir_run_id = Some (take 16 (result_hash sv q r)),
      ir_config_hash = result_hash sv q r, ir_trace_id = None\<rparr>"

text \<open>The experts, the pipeline and its run: the start both endpoints share.\<close>

definition run_request :: "'w server \<Rightarrow> infer_request \<Rightarrow> ('w app_state, py_exc, pipeline_result) act" where
  "run_request sv q =
     bnd (lift_err (build_experts sv (iq_backend q))) (\<lambda>experts.
     bnd (lift_err (make_pipeline sv (iq_phase q) (iq_router q) experts (iq_max_tokens q))) (\<lambda>pipe.
     on_snd (run_pipeline pipe (iq_prompt q) None)))"

definition infer :: "'w server \<Rightarrow> infer_request \<Rightarrow> ('w app_state, py_exc, infer_response) act" where
  "infer sv q =
     bnd (run_request sv q) (\<lambda>r. bnd (save_result sv q r) (\<lambda>_. ret (response_of sv q r)))"

definition handle :: "('s, py_exc, 'a) act \<Rightarrow> 's \<Rightarrow> 'a http \<times> 's" where
  "handle m s = (case m s of (Inl _, s') \<Rightarrow> (Status 500, s') | (Inr x, s') \<Rightarrow> (Reply x, s'))"

definition post_infer :: "'w server \<Rightarrow> infer_request \<Rightarrow> 'w app_state \<Rightarrow> infer_response http \<times> 'w app_state" where
  "post_infer sv q s = (if valid_request q then handle (infer sv q) s else (Status 422, s))"

section \<open>POST /v1/infer/stream\<close>

text \<open>The events of the stream. The wall clock's elapsed time in the last one is left out.\<close>

datatype sse =
    SseExpert nat pystr pystr real int
  | SseDone pystr "pystr list" int real real real int pystr pystr

definition expert_events :: "pipeline_result \<Rightarrow> sse list" where
  "expert_events r =
     map (\<lambda>(i, m). SseExpert i (em_name m) (role_value (em_role m)) (em_latency_ms m)
                     (em_input_tokens m + em_output_tokens m))
       (List.enumerate 0 (pr_per_expert r))"

definition done_event :: "'w server \<Rightarrow> infer_request \<Rightarrow> pipeline_result \<Rightarrow> sse" where
  "done_event sv q r =
     SseDone (pr_output r) (pr_selected r) (agg_total_tokens (pr_metrics r)) (ag_cost_usd (pr_metrics r))
       (ag_latency_ms (pr_metrics r)) (epu (pr_metrics r)) (ag_kv_transfers (pr_metrics r))
       (take 16 (result_hash sv q r)) (result_hash sv q r)"

text \<open>The generator: the events sent, and the exception that broke the stream off if there was one.\<close>

definition infer_stream :: "'w server \<Rightarrow> infer_request \<Rightarrow> 'w app_state \<Rightarrow> (sse list \<times> py_exc option) \<times> 'w app_state" where
  "infer_stream sv q s =
     (case run_request sv q s of
        (Inl e, s') \<Rightarrow> (([], Some e), s')
      | (Inr r, s') \<Rightarrow>
          (case save_result sv q r s' of
             (Inl e, s'') \<Rightarrow> ((expert_events r, Some e), s'')
           | (Inr _, s'') \<Rightarrow> ((expert_events r @ [done_event sv q r], None), s'')))"

section \<open>GET /v1/runs and /v1/runs/{run_id}\<close>

definition summary_of :: "run_record \<Rightarrow> run_summary" where
  "summary_of r =
     \<lparr>su_run_id = rr_run_id r, su_timestamp = rr_timestamp r, su_phase = rr_phase r, su_backend = rr_backend r,
      su_prompt_preview = take 80 (rr_prompt r), su_total_tokens = rr_tokens r, su_total_cost = rr_cost r,
      su_epu = rr_epu r\<rparr>"

definition detail_of :: "run_record \<Rightarrow> run_detail" where
  "detail_of r =
     \<lparr>su_run_id = rr_run_id r, su_timestamp = rr_timestamp r, su_phase = rr_phase r, su_backend = rr_backend r,
      su_prompt_preview = take 80 (rr_prompt r), su_total_tokens = rr_tokens r, su_total_cost = rr_cost r,
      su_epu = rr_epu r, sd_config_hash = rr_config_hash r, sd_router = rr_router r, sd_experts = rr_experts r,
      sd_output = rr_output r, sd_latency = rr_latency r, sd_kv = rr_kv r\<rparr>"

definition list_runs ::
  "((pystr \<times> run_row) list \<Rightarrow> (pystr \<times> run_row) list) \<Rightarrow> int \<Rightarrow> int option \<Rightarrow> run_db \<Rightarrow> run_summary list http" where
  "list_runs arr n ph db =
     (case run_list arr n ph db of Inl _ \<Rightarrow> Status 500 | Inr rs \<Rightarrow> Reply (map summary_of rs))"

definition get_run :: "pystr \<Rightarrow> run_db \<Rightarrow> run_detail http" where
  "get_run rid db =
     (case run_get rid db of
        Inl _ \<Rightarrow> Status 500
      | Inr None \<Rightarrow> Status 404
      | Inr (Some r) \<Rightarrow> Reply (detail_of r))"

section \<open>The command line\<close>

text \<open>\<open>chen run\<close>: its own experts, routers and pipelines. The cosine and hybrid routers keep their state in the world, so
  their constructors are arguments.\<close>

record 'w cli_routers =
  cr_cosine :: "'w expert list \<Rightarrow> py_exc + 'w router_fun"
  cr_hybrid :: "'w expert list \<Rightarrow> py_exc + 'w router_fun"

definition cli_hf_garage :: "(pystr \<times> expert_role \<times> pystr \<times> int) list" where
  "cli_hf_garage =
     [(lit ''analyst'', ANALYST, lit ''HuggingFaceTB/SmolLM2-1.7B-Instruct'', 1700),
      (lit ''reasoner'', REASONER, lit ''Qwen/Qwen2.5-3B-Instruct'', 3000),
      (lit ''coder'', CODER, lit ''Qwen/Qwen2.5-3B-Instruct'', 3000),
      (lit ''synthesizer'', SYNTHESIZER, lit ''HuggingFaceTB/SmolLM2-1.7B-Instruct'', 1700)]"

definition mock_experts :: "'w server \<Rightarrow> 'w expert list" where
  "mock_experts sv = map (\<lambda>(n, role, p). mk_expert n role (sv_mock sv p n)) garage"

definition cli_build_experts :: "'w server \<Rightarrow> pystr \<Rightarrow> py_exc + 'w expert list" where
  "cli_build_experts sv backend =
     (if backend = lit ''mock'' then Inr (mock_experts sv)
      else if backend = lit ''hf''
      then Inr (map (\<lambda>(n, role, model_id, p). mk_expert n role (sv_hf sv model_id p)) cli_hf_garage)
      else Inl ValueError)"

definition make_router :: "'w server \<Rightarrow> 'w cli_routers \<Rightarrow> pystr \<Rightarrow> 'w expert list \<Rightarrow> py_exc + 'w router_fun" where
  "make_router sv cr kind experts =
     (if kind = lit ''logistic'' then Inr (logistic_router_fun sv)
      else if kind = lit ''cosine'' then cr_cosine cr experts
      else if kind = lit ''hybrid'' then cr_hybrid cr experts
      else Inl ValueError)"

definition cli_build_pipeline ::
  "'w server \<Rightarrow> 'w cli_routers \<Rightarrow> int \<Rightarrow> pystr \<Rightarrow> 'w expert list \<Rightarrow> int \<Rightarrow> py_exc + 'w runnable" where
  "cli_build_pipeline sv cr phase kind experts max_tokens =
     (let three = [lit ''analyst'', lit ''reasoner'', lit ''synthesizer''] in
      if phase = 1 then map_sum_r Cascade (pipeline_init (base_pipeline sv experts three max_tokens))
      else if phase = 2 then map_sum_r KVPass (pipeline_init (base_pipeline sv experts three max_tokens))
      else if phase = 3 then
        (case make_router sv cr kind experts of
           Inl e \<Rightarrow> Inl e
         | Inr rt \<Rightarrow> routing_pipeline (base_pipeline sv experts [] max_tokens) rt True)
      else Inl ValueError)"

text \<open>\<open>run_command\<close> without what it prints; the store is opened when the run is saved.\<close>

definition run_command ::
  "'w server \<Rightarrow> 'w cli_routers \<Rightarrow> pystr \<Rightarrow> int \<Rightarrow> pystr \<Rightarrow> int \<Rightarrow> pystr \<Rightarrow> bool \<Rightarrow>
   ('w app_state, py_exc, pipeline_result) act" where
  "run_command sv cr prompt phase backend max_tokens kind save_run =
     bnd (lift_err (cli_build_experts sv backend)) (\<lambda>experts.
     bnd (lift_err (cli_build_pipeline sv cr phase kind experts max_tokens)) (\<lambda>pipe.
     bnd (on_snd (run_pipeline pipe prompt None)) (\<lambda>r.
     bnd (if save_run
          then bnd (on_fst open_store) (\<lambda>_.
               let h = hash_config (sv_sha sv) (run_config phase backend kind max_tokens (pr_selected r)) in
               bnd (on_snd (stamp sv)) (\<lambda>now. on_fst (run_save (record_of h prompt phase backend kind r now))))
          else ret ()) (\<lambda>_. ret r))))"

section \<open>Building never fails for a known backend\<close>

definition known_backend :: "pystr \<Rightarrow> bool" where
  "known_backend b \<longleftrightarrow> b \<in> {lit ''mock'', lit ''hf'', lit ''vllm'', lit ''llama_cpp''}"

lemma build_backend_known: "known_backend b \<longleftrightarrow> (\<exists>x. build_backend sv b n p = Inr x)"
  by (auto simp: known_backend_def build_backend_def Let_def)

lemma build_backend_unknown: "\<not> known_backend b \<Longrightarrow> build_backend sv b n p = Inl ValueError"
  by (simp add: known_backend_def build_backend_def)

lemma build_experts_unknown: "\<not> known_backend b \<Longrightarrow> build_experts sv b = Inl ValueError"
  by (simp add: build_experts_def garage_def build_backend_unknown)

definition garage_names :: "pystr list" where
  "garage_names = [lit ''analyst'', lit ''reasoner'', lit ''coder'', lit ''synthesizer'']"

lemma build_experts_known:
  assumes "known_backend b"
  obtains es where "build_experts sv b = Inr es" "map ex_name es = garage_names"
    "map (\<lambda>e. Inr (ex_backend e)) es = map (\<lambda>(n, _, p). build_backend sv b n p) garage"
proof -
  have x: "\<exists>x. build_backend sv b n p = Inr x" for n p using assms build_backend_known by blast
  obtain x1 where 1: "build_backend sv b (lit ''analyst'') 3000 = Inr x1" using x by blast
  obtain x2 where 2: "build_backend sv b (lit ''reasoner'') 8000 = Inr x2" using x by blast
  obtain x3 where 3: "build_backend sv b (lit ''coder'') 7000 = Inr x3" using x by blast
  obtain x4 where 4: "build_backend sv b (lit ''synthesizer'') 3000 = Inr x4" using x by blast
  show ?thesis
    by (rule that [of "[mk_expert (lit ''analyst'') ANALYST x1, mk_expert (lit ''reasoner'') REASONER x2,
        mk_expert (lit ''coder'') CODER x3, mk_expert (lit ''synthesizer'') SYNTHESIZER x4]"])
      (simp_all add: build_experts_def garage_def garage_names_def 1 2 3 4 mk_expert_def del: lit_Cons)
qed

lemma pipeline_init_garage:
  assumes "map ex_name es = garage_names" and "set sq \<subseteq> set garage_names" and "sq \<noteq> []"
  shows "pipeline_init (base_pipeline sv es sq mt) = Inr (base_pipeline sv es sq mt)"
proof -
  have "ex_name ` set es = set garage_names" using assms(1) by (metis list.set_map)
  then have "\<forall>n\<in>set sq. find_expert es n \<noteq> None" using assms(2) find_expert_Some_iff [of es] by blast
  moreover have "es \<noteq> []" using assms(1) by (auto simp: garage_names_def)
  ultimately show ?thesis using assms(3) by (auto simp: pipeline_init_def base_pipeline_def Let_def)
qed

section \<open>The memory of a server's pipeline is never used\<close>

text \<open>Every pipeline the server builds neither writes to memory nor retrieves from it, so its runs do not depend on it.\<close>

definition no_memory_use :: "'w pipeline \<Rightarrow> bool" where
  "no_memory_use pl \<longleftrightarrow> \<not> pl_write_memory pl \<and> pl_retrieve_k pl = 0"

lemma base_pipeline_no_memory [simp]: "no_memory_use (base_pipeline sv es sq mt)"
  by (simp add: no_memory_use_def base_pipeline_def)

abbreviation with_memory :: "'w pipeline \<Rightarrow> 'w memory_ops \<Rightarrow> 'w pipeline" where
  "with_memory pl m \<equiv> pl\<lparr>pl_memory := m\<rparr>"

lemma step_without_memory:
  assumes "no_memory_use pl"
  shows "remember_prompt (with_memory pl m) p = remember_prompt pl p"
    and "remember_step (with_memory pl m) e l t = remember_step pl e l t"
    and "invoke_expert (with_memory pl m) e t mt 0 = invoke_expert pl e t mt 0"
    and "step_tokens (with_memory pl m) s = step_tokens pl s"
    and "start_state (with_memory pl m) p tm kw = start_state pl p tm kw"
    and "result_of (with_memory pl m) ns s = result_of pl ns s"
    and "count_written (with_memory pl m) a = count_written pl a"
  using assms
  by (simp_all add: no_memory_use_def remember_prompt_def remember_step_def invoke_expert_def step_tokens_def
      start_state_def result_of_def named_experts_def count_written_def cong: option.case_cong if_cong)

lemma phases_without_memory:
  assumes "no_memory_use pl"
  shows "cascade_step (with_memory pl m) n l s = cascade_step pl n l s"
    and "kv_first (with_memory pl m) e p mt = kv_first pl e p mt"
    and "kv_later (with_memory pl m) e mt c t tm = kv_later pl e mt c t tm"
    and "kv_finish_step (with_memory pl m) e l s r c tm rd = kv_finish_step pl e l s r c tm rd"
    and "routing_first (with_memory pl m) e p mt tm = routing_first pl e p mt tm"
proof -
  have k: "pl_retrieve_k pl = 0" using assms by (simp add: no_memory_use_def)
  note st = step_without_memory [OF assms, of m]
  show "cascade_step (with_memory pl m) n l s = cascade_step pl n l s"
    by (simp add: cascade_step_def k st cong: if_cong)
  show "kv_first (with_memory pl m) e p mt = kv_first pl e p mt"
    by (simp add: kv_first_def k)
  show "kv_later (with_memory pl m) e mt c t tm = kv_later pl e mt c t tm"
    by (simp add: kv_later_def st cong: if_cong)
  show "kv_finish_step (with_memory pl m) e l s r c tm rd = kv_finish_step pl e l s r c tm rd"
    by (simp add: kv_finish_step_def st cong: if_cong)
  show "routing_first (with_memory pl m) e p mt tm = routing_first pl e p mt tm"
    by (simp add: routing_first_def k st cong: if_cong)
qed

lemma loops_without_memory:
  assumes "no_memory_use pl"
  shows "cascade_loop (with_memory pl m) ns s = cascade_loop pl ns s"
    and "kv_loop (with_memory pl m) p f ns s = kv_loop pl p f ns s"
    and "routing_loop (with_memory pl m) p f ns s = routing_loop pl p f ns s"
proof -
  note st = step_without_memory [OF assms, of m] phases_without_memory [OF assms, of m]
  have kv: "kv_step (with_memory pl m) p f n l s = kv_step pl p f n l s" for f n l s
    by (simp add: kv_step_def st cong: if_cong)
  have rt: "routing_step (with_memory pl m) p f n l s = routing_step pl p f n l s" for f n l s
    by (simp add: routing_step_def st cong: if_cong)
  show "cascade_loop (with_memory pl m) ns s = cascade_loop pl ns s"
  proof (induction ns arbitrary: s)
    case (Cons n ns)
    then have "cascade_loop (with_memory pl m) ns = cascade_loop pl ns" by (rule ext)
    then show ?case by (simp add: st)
  qed simp
  show "kv_loop (with_memory pl m) p f ns s = kv_loop pl p f ns s"
  proof (induction ns arbitrary: f s)
    case (Cons n ns)
    then have "kv_loop (with_memory pl m) p False ns = kv_loop pl p False ns" by (simp add: fun_eq_iff)
    then show ?case by (simp add: kv)
  qed simp
  show "routing_loop (with_memory pl m) p f ns s = routing_loop pl p f ns s"
  proof (induction ns arbitrary: f s)
    case (Cons n ns)
    then have "routing_loop (with_memory pl m) p False ns = routing_loop pl p False ns" by (simp add: fun_eq_iff)
    then show ?case by (simp add: rt)
  qed simp
qed

lemma runs_without_memory:
  assumes "no_memory_use pl"
  shows "cascade_run (with_memory pl m) p kw = cascade_run pl p kw"
    and "kv_run (with_memory pl m) p kw = kv_run pl p kw"
    and "routing_run (with_memory pl m) rt th p kw = routing_run pl rt th p kw"
  by (simp_all add: cascade_run_def kv_run_def routing_run_def step_without_memory [OF assms]
      loops_without_memory [OF assms] cong: if_cong)

definition idle_memory :: "'w memory_ops" where
  "idle_memory = \<lparr>mo_write = (\<lambda>_. ret []), mo_retrieve = (\<lambda>_ _. ret [])\<rparr>"

definition answering :: "'w backend \<Rightarrow> bool" where
  "answering b \<longleftrightarrow> (\<forall>mt. (\<forall>p. nofail (bk_generate b p mt)) \<and> (\<forall>c. nofail (bk_decode b c mt)))"

lemma nofail_runs:
  assumes "\<forall>e\<in>set es. answering (ex_backend e)" and "set sq \<subseteq> ex_name ` set es"
  shows "nofail (cascade_run (base_pipeline sv es sq mt) p kw)" and "nofail (kv_run (base_pipeline sv es sq mt) p kw)"
proof -
  let ?pl = "with_memory (base_pipeline sv es sq mt) idle_memory"
  have mem: "memory_total ?pl" by (simp add: memory_total_def idle_memory_def nofail_ret)
  have mod: "models_total ?pl" using assms(1) by (auto simp: models_total_def answering_def base_pipeline_def)
  have fb: "pl_fallback ?pl" and names: "set (pl_sequence ?pl) \<subseteq> ex_name ` set (pl_experts ?pl)"
    using assms(2) by (simp_all add: base_pipeline_def)
  have "nofail (cascade_run ?pl p kw)" "nofail (kv_run ?pl p kw)"
    unfolding cascade_run_def kv_run_def
    by (intro nofail_intros nofail_remember_prompt nofail_kv_loop nofail_cascade_loop mem mod fb names)+
  then show "nofail (cascade_run (base_pipeline sv es sq mt) p kw)" "nofail (kv_run (base_pipeline sv es sq mt) p kw)"
    by (simp_all add: runs_without_memory)
qed

lemma nofail_routing:
  assumes "\<forall>e\<in>set es. answering (ex_backend e)" and "es \<noteq> []"
  shows "nofail (routing_run (base_pipeline sv es sq mt) (logistic_router_fun sv) th p kw)"
proof -
  let ?pl = "with_memory (base_pipeline sv es sq mt) idle_memory"
  have mem: "memory_total ?pl" by (simp add: memory_total_def idle_memory_def nofail_ret)
  have mod: "models_total ?pl" using assms(1) by (auto simp: models_total_def answering_def base_pipeline_def)
  have fb: "pl_fallback ?pl" and es: "pl_experts ?pl = es" by (simp_all add: base_pipeline_def)
  let ?ns = "logistic_route (sv_unicode sv) default_logistic p es"
  have known: "set ?ns \<subseteq> ex_name ` set es" "?ns \<noteq> []"
    using logistic_select_props(1,2) [of es default_logistic] assms(2)
    by (auto simp: logistic_route_def names_of_def)
  have "nofail (routing_run ?pl (logistic_router_fun sv) th p kw)"
    unfolding routing_run_def logistic_router_fun_def bnd_ret es Let_def
    using known
    by (simp del: fun_upd_apply) (intro nofail_intros nofail_remember_prompt nofail_routing_loop mem mod fb, simp add: es)
  then show ?thesis by (simp add: runs_without_memory)
qed

section \<open>What the endpoints do to the store\<close>

lemma run_request_db: "run_request sv q (db, w) = (x, (db', w')) \<Longrightarrow> db' = db"
  by (auto simp: run_request_def bnd_apply on_snd_apply lift_err_def split: sum.splits prod.splits)

lemma run_save_Inr:
  "run_save r db = (Inr (), db') \<Longrightarrow>
   db' = insert_or_replace (rr_run_id r) (to_row r) db \<and> bindable r \<and> int64 (rr_phase r) \<and> int64 (rr_tokens r) \<and> int64 (rr_kv r)"
  by (auto simp: run_save_def split: if_splits)

lemma save_result_Inr:
  assumes "save_result sv q r (db, w) = (Inr u, (db', w'))" and "iq_save_run q"
  obtains now where "run_save (record_of (result_hash sv q r) (iq_prompt q) (iq_phase q) (iq_backend q) (iq_router q) r now) db
      = (Inr (), db')"
  using assms by (auto simp: save_result_def bnd_apply on_snd_apply on_fst_def stamp_def split: sum.splits prod.splits)

lemma bnd_const_ret:
  assumes "bnd m (\<lambda>_. ret y) w = (Inr z, w')"
  shows "m w = (Inr (), w')" and "z = y"
proof -
  obtain x v where m: "m w = (x, v)" by (cases "m w")
  show "m w = (Inr (), w')" "z = y"
    using assms by (cases x; simp add: bnd_def m)+
qed

lemma infer_Inr:
  assumes "infer sv q (db, w) = (Inr resp, (db', w'))" and "iq_save_run q"
  obtains r now where "resp = response_of sv q r"
    and "run_save (record_of (result_hash sv q r) (iq_prompt q) (iq_phase q) (iq_backend q) (iq_router q) r now) db
      = (Inr (), db')"
proof -
  from assms(1) obtain r s1 where 1: "run_request sv q (db, w) = (Inr r, s1)"
    and m: "bnd (save_result sv q r) (\<lambda>_. ret (response_of sv q r)) s1 = (Inr resp, (db', w'))"
    unfolding infer_def by (rule bnd_InrE)
  have 2: "save_result sv q r s1 = (Inr (), (db', w'))" and r: "resp = response_of sv q r"
    by (rule bnd_const_ret [OF m])+
  obtain d w1 where s1: "s1 = (d, w1)" by (cases s1)
  have "d = db" using 1 unfolding s1 by (rule run_request_db)
  with 2 s1 have "save_result sv q r (db, w1) = (Inr (), (db', w'))" by simp
  then obtain now where
    "run_save (record_of (result_hash sv q r) (iq_prompt q) (iq_phase q) (iq_backend q) (iq_router q) r now) db = (Inr (), db')"
    using assms(2) by (rule save_result_Inr)
  with r show ?thesis by (rule that)
qed

lemma get_run_saved:
  assumes "opened db" and "json_ok (rr_experts r)" and "run_save r db = (Inr (), db')"
  shows "get_run (rr_run_id r) db' = Reply (detail_of r)" and "opened db'"
    and "k \<noteq> rr_run_id r \<Longrightarrow> get_run k db' = get_run k db"
    and "run_count db' = (if rr_run_id r \<in> fst ` set (db_rows db) then run_count db else run_count db + 1)"
proof -
  have s: "db' = insert_or_replace (rr_run_id r) (to_row r) db" "storable r"
    using run_save_Inr [OF assms(3)] assms(2) by (auto simp: storable_def)
  have c: "columns_of db' = columns_of db" "db_columns db' = db_columns db"
    by (simp_all add: s(1) insert_or_replace_def columns_of_def)
  have cols: "set sqlite_columns \<subseteq> set (columns_of db)" using assms(1) by (simp add: opened_def)
  then have ne: "db_columns db \<noteq> None" by (cases "db_columns db") (auto simp: columns_of_def sqlite_columns_def)
  have row: "map_of (db_rows db') k = (if k = rr_run_id r then Some (to_row r) else map_of (db_rows db) k)" for k
    using runs.get_put [of "rr_run_id r" "to_row r" db k] s(1) by (simp add: row_of_def)
  have e: "encodable (rr_run_id r)" using s(2) by (simp add: storable_def bindable_def)
  show "get_run (rr_run_id r) db' = Reply (detail_of r)"
    using row [of "rr_run_id r"] e ne c from_row_to_row [OF assms(2) cols] by (simp add: get_run_def run_get_def)
  show "opened db'" unfolding s(1) by (rule insert_or_replace_opened [OF assms(1)])
  show "k \<noteq> rr_run_id r \<Longrightarrow> get_run k db' = get_run k db"
    using row [of k] c by (cases "map_of (db_rows db) k") (simp_all add: get_run_def run_get_def)
  have d: "distinct (map fst (db_rows db))" using assms(1) by (simp add: opened_def)
  have "length (AList.delete (rr_run_id r) (db_rows db)) =
      (if rr_run_id r \<in> fst ` set (db_rows db) then length (db_rows db) - 1 else length (db_rows db))"
  proof -
    have "map fst (AList.delete (rr_run_id r) (db_rows db)) = removeAll (rr_run_id r) (map fst (db_rows db))"
      by (simp add: AList.delete_eq removeAll_filter_not_eq filter_map comp_def case_prod_beta')
    then have "length (AList.delete (rr_run_id r) (db_rows db)) = length (removeAll (rr_run_id r) (map fst (db_rows db)))"
      by (metis length_map)
    also have "\<dots> = (if rr_run_id r \<in> fst ` set (db_rows db) then length (db_rows db) - 1 else length (db_rows db))"
      using d by (simp add: distinct_remove1_removeAll [symmetric] length_remove1)
    finally show ?thesis .
  qed
  then show "run_count db' = (if rr_run_id r \<in> fst ` set (db_rows db) then run_count db else run_count db + 1)"
    by (cases "db_rows db") (auto simp: run_count_def s(1) insert_or_replace_def)
qed

lemma json_ok_names: "list_all (list_all json_char) ns \<Longrightarrow> json_ok (JList (map JStr ns))"
  by (simp add: list_all_iff)

section \<open>What was selected\<close>

lemma cascade_selected: "cascade_run pl p kw w = (Inr r, w') \<Longrightarrow> pr_selected r = pl_sequence pl"
  by (auto simp: cascade_run_def result_of_def)

lemma kv_selected: "kv_run pl p kw w = (Inr r, w') \<Longrightarrow> pr_selected r = pl_sequence pl"
  by (auto simp: kv_run_def result_of_def)

lemma routing_selected:
  assumes "routing_run pl (logistic_router_fun sv) th p kw w = (Inr r, w')" and "pl_experts pl \<noteq> []"
  shows "pr_selected r = logistic_route (sv_unicode sv) default_logistic p (pl_experts pl)"
proof -
  have "logistic_route (sv_unicode sv) default_logistic p (pl_experts pl) \<noteq> []"
    using logistic_select_props(2) [OF assms(2)] by (simp add: logistic_route_def)
  with assms(1) show ?thesis
    by (auto simp: routing_run_def logistic_router_fun_def Let_def result_of_def)
qed

lemma nofail_run_request:
  assumes "known_backend (iq_backend q)" and "1 \<le> iq_phase q" and "iq_phase q \<le> 3"
    and "\<And>n p b. build_backend sv (iq_backend q) n p = Inr b \<Longrightarrow> answering b"
  obtains r w' where "run_request sv q (db, w) = (Inr r, (db, w'))" and "set (pr_selected r) \<subseteq> set garage_names"
    and "pr_selected r \<noteq> []" and "iq_phase q \<noteq> 3 \<longrightarrow> pr_selected r = [lit ''analyst'', lit ''synthesizer'']"
proof -
  obtain es where es: "build_experts sv (iq_backend q) = Inr es" "map ex_name es = garage_names"
    "map (\<lambda>e. Inr (ex_backend e)) es = map (\<lambda>(n, _, p). build_backend sv (iq_backend q) n p) garage"
    using build_experts_known [OF assms(1)] .
  have ans: "\<forall>e\<in>set es. answering (ex_backend e)"
  proof
    fix e
    assume "e \<in> set es"
    then have "Inr (ex_backend e) \<in> set (map (\<lambda>(n, _, p). build_backend sv (iq_backend q) n p) garage)"
      unfolding es(3) [symmetric] by simp
    then obtain n p where "build_backend sv (iq_backend q) n p = Inr (ex_backend e)" by auto
    then show "answering (ex_backend e)" by (rule assms(4))
  qed
  have names: "ex_name ` set es = set garage_names" using es(2) by (metis list.set_map)
  have ne: "es \<noteq> []" using es(2) by (auto simp: garage_names_def)
  let ?two = "[lit ''analyst'', lit ''synthesizer'']" and ?mt = "iq_max_tokens q"
  let ?pl = "\<lambda>sq. base_pipeline sv es sq ?mt"
  have two: "set ?two \<subseteq> set garage_names" "?two \<noteq> []" by (auto simp: garage_names_def)
  note init = pipeline_init_garage [OF es(2) two, of sv ?mt]
  have rr: "run_request sv q (db, w) =
      (case make_pipeline sv (iq_phase q) (iq_router q) es ?mt of Inl e \<Rightarrow> (Inl e, (db, w))
       | Inr pipe \<Rightarrow> (case run_pipeline pipe (iq_prompt q) None w of (x, w') \<Rightarrow> (x, (db, w'))))"
    by (simp add: run_request_def es(1) bnd_apply on_snd_apply split: sum.split)
  consider "iq_phase q = 1" | "iq_phase q = 2" | "iq_phase q = 3" using assms(2,3) by linarith
  then show ?thesis
  proof cases
    case 1
    obtain r w' where r: "cascade_run (?pl ?two) (iq_prompt q) None w = (Inr r, w')"
      using nofailE [OF nofail_runs(1) [OF ans]] two(1) names by metis
    have "run_request sv q (db, w) = (Inr r, (db, w'))"
      by (simp add: rr make_pipeline_def 1 init map_sum_r_def run_pipeline_def r del: lit_Cons)
    moreover have "pr_selected r = ?two" using cascade_selected [OF r] by (simp add: base_pipeline_def)
    ultimately show ?thesis using that [of r w'] two by simp
  next
    case 2
    obtain r w' where r: "kv_run (?pl ?two) (iq_prompt q) None w = (Inr r, w')"
      using nofailE [OF nofail_runs(2) [OF ans]] two(1) names by metis
    have "run_request sv q (db, w) = (Inr r, (db, w'))"
      by (simp add: rr make_pipeline_def 2 init map_sum_r_def run_pipeline_def r del: lit_Cons)
    moreover have "pr_selected r = ?two" using kv_selected [OF r] by (simp add: base_pipeline_def)
    ultimately show ?thesis using that [of r w'] two by simp
  next
    case 3
    obtain r w' where r: "routing_run (?pl []) (logistic_router_fun sv) True (iq_prompt q) None w = (Inr r, w')"
      using nofailE [OF nofail_routing [OF ans ne]] by metis
    have pe: "pl_experts (?pl []) = es" by (simp add: base_pipeline_def)
    have "run_request sv q (db, w) = (Inr r, (db, w'))"
      by (simp add: rr make_pipeline_def 3 routing_pipeline_def pe ne run_pipeline_def r)
    moreover have "pr_selected r = logistic_route (sv_unicode sv) default_logistic (iq_prompt q) es"
      using routing_selected [OF r] ne pe by simp
    ultimately show ?thesis
      using that [of r w'] logistic_select_props(1,2) [OF ne] 3 names by (simp add: logistic_route_def names_of_def)
  qed
qed

section \<open>Properties\<close>

text \<open>Every valid request is answered. When the backends of the chosen kind answer every prompt and decode every
  cache, a valid request that is not to be saved gets a reply in every phase, whatever encoding, cache transfer, memory
  and routing do; the run store is untouched and the experts named in the reply are among the four.\<close>

theorem infer_answers:
  assumes "valid_request q" and "known_backend (iq_backend q)" and "\<not> iq_save_run q"
    and "\<And>n p b. build_backend sv (iq_backend q) n p = Inr b \<Longrightarrow> answering b"
  shows "\<exists>resp w'. post_infer sv q (db, w) = (Reply resp, (db, w')) \<and> ir_selected resp \<noteq> [] \<and>
     set (ir_selected resp) \<subseteq> set garage_names \<and>
     (iq_phase q \<noteq> 3 \<longrightarrow> ir_selected resp = [lit ''analyst'', lit ''synthesizer''])"
proof -
  have ph: "1 \<le> iq_phase q" "iq_phase q \<le> 3" using assms(1) by (simp_all add: valid_request_def)
  obtain r w' where r: "run_request sv q (db, w) = (Inr r, (db, w'))" "set (pr_selected r) \<subseteq> set garage_names"
    "pr_selected r \<noteq> []" "iq_phase q \<noteq> 3 \<longrightarrow> pr_selected r = [lit ''analyst'', lit ''synthesizer'']"
    using nofail_run_request [OF assms(2) ph assms(4), where db = db and w = w] .
  have "post_infer sv q (db, w) = (Reply (response_of sv q r), (db, w'))"
    using assms(1,3) r(1) by (simp add: post_infer_def handle_def infer_def bnd_apply save_result_def)
  with r(2-4) show ?thesis by (simp add: response_of_def del: lit_Cons)
qed


text \<open>A run overwrites the run before it. The id of a run is the hash of its phase, backend, router, token budget and
  selected experts, not of its prompt: of two saved requests that agree on these the second replaces the
  first, and fetching the id the first caller was given returns the second caller's prompt and output.\<close>

theorem infer_overwrites:
  assumes "infer sv q1 (db, w) = (Inr r1, (db1, w1))" and "infer sv q2 (db1, w1') = (Inr r2, (db2, w2))"
    and "iq_save_run q1" and "iq_save_run q2" and "opened db"
    and "iq_phase q2 = iq_phase q1" and "iq_backend q2 = iq_backend q1" and "iq_router q2 = iq_router q1"
    and "iq_max_tokens q2 = iq_max_tokens q1" and "ir_selected r2 = ir_selected r1"
    and "list_all (list_all json_char) (ir_selected r1)"
  shows "ir_run_id r2 = ir_run_id r1 \<and> run_count db2 = run_count db1 \<and>
     (\<exists>d. get_run (the (ir_run_id r1)) db2 = Reply d \<and> sd_output d = ir_output r2 \<and>
          su_prompt_preview d = take 80 (iq_prompt q2))"
proof -
  obtain x now where x: "r1 = response_of sv q1 x"
    and s1: "run_save (record_of (result_hash sv q1 x) (iq_prompt q1) (iq_phase q1) (iq_backend q1) (iq_router q1) x now) db
      = (Inr (), db1)"
    using infer_Inr [OF assms(1,3)] .
  obtain y now' where y: "r2 = response_of sv q2 y"
    and s2: "run_save (record_of (result_hash sv q2 y) (iq_prompt q2) (iq_phase q2) (iq_backend q2) (iq_router q2) y now') db1
      = (Inr (), db2)"
    using infer_Inr [OF assms(2,4)] .
  let ?a = "record_of (result_hash sv q1 x) (iq_prompt q1) (iq_phase q1) (iq_backend q1) (iq_router q1) x now"
  let ?b = "record_of (result_hash sv q2 y) (iq_prompt q2) (iq_phase q2) (iq_backend q2) (iq_router q2) y now'"
  have sel: "pr_selected y = pr_selected x" using assms(10) by (simp add: x y response_of_def)
  have h: "result_hash sv q2 y = result_hash sv q1 x" by (simp add: result_hash_def assms(6-9) sel)
  have ja: "json_ok (rr_experts ?a)" "json_ok (rr_experts ?b)"
    using assms(11) sel by (simp_all add: x response_of_def record_of_def list_all_iff)
  have o1: "opened db1" by (rule get_run_saved(2) [OF assms(5) ja(1) s1])
  have ids: "rr_run_id ?b = rr_run_id ?a" by (simp add: record_of_def h)
  have "rr_run_id ?a \<in> fst ` set (db_rows db1)"
    using run_save_Inr [OF s1] by (force simp: insert_or_replace_def)
  then have c: "run_count db2 = run_count db1"
    using get_run_saved(4) [OF o1 ja(2) s2] ids by simp
  have "get_run (rr_run_id ?b) db2 = Reply (detail_of ?b)" by (rule get_run_saved(1) [OF o1 ja(2) s2])
  moreover have "ir_run_id r1 = Some (rr_run_id ?b)" "ir_run_id r2 = ir_run_id r1"
    by (simp_all add: x y response_of_def record_of_def h)
  moreover have "sd_output (detail_of ?b) = ir_output r2" "su_prompt_preview (detail_of ?b) = take 80 (iq_prompt q2)"
    by (simp_all add: y response_of_def record_of_def detail_of_def)
  ultimately show ?thesis using c by simp
qed


text \<open>The errors of the endpoints. A request whose fields break a constraint is answered 422 and one for an unknown backend
  500, both without touching the state; an id that was never saved is answered 404.\<close>

theorem endpoint_errors:
  "(\<not> valid_request q \<longrightarrow> post_infer sv q s = (Status 422, s)) \<and>
   (valid_request q \<and> \<not> known_backend (iq_backend q) \<longrightarrow> post_infer sv q s = (Status 500, s)) \<and>
   (db_columns db \<noteq> None \<and> encodable k \<and> k \<notin> fst ` set (db_rows db) \<longrightarrow> get_run k db = Status 404)"
proof (intro conjI impI)
  show "\<not> valid_request q \<Longrightarrow> post_infer sv q s = (Status 422, s)" by (simp add: post_infer_def)
  show "valid_request q \<and> \<not> known_backend (iq_backend q) \<Longrightarrow> post_infer sv q s = (Status 500, s)"
    by (simp add: post_infer_def handle_def infer_def run_request_def build_experts_unknown bnd_apply)
  assume k: "db_columns db \<noteq> None \<and> encodable k \<and> k \<notin> fst ` set (db_rows db)"
  then have "map_of (db_rows db) k = None" by (simp add: map_of_eq_None_iff)
  with k show "get_run k db = Status 404" by (simp add: get_run_def run_get_def)
qed

text \<open>The router of a request is ignored. The server always routes with the logistic router, so changing the field of an
  unsaved request changes nothing but the hash and the id in the reply.\<close>

theorem router_field_ignored:
  assumes "\<not> iq_save_run q"
  shows "\<exists>h. infer sv (q\<lparr>iq_router := x\<rparr>) s =
     (case infer sv q s of
        (Inl e, s') \<Rightarrow> (Inl e, s')
      | (Inr resp, s') \<Rightarrow> (Inr (resp\<lparr>ir_run_id := Some (take 16 (h resp)), ir_config_hash := h resp\<rparr>), s'))"
proof -
  have rr: "run_request sv (q\<lparr>iq_router := x\<rparr>) s = run_request sv q s"
    by (simp add: run_request_def make_pipeline_def)
  define h where "h resp = hash_config (sv_sha sv) (run_config (iq_phase q) (iq_backend q) x (iq_max_tokens q) (ir_selected resp))"
    for resp :: infer_response
  show ?thesis
    by (rule exI [of _ h])
      (use assms in \<open>simp add: infer_def rr bnd_apply save_result_def response_of_def h_def result_hash_def split: sum.split prod.split\<close>)
qed

section \<open>A server on a small backend\<close>

definition unit_server :: "unit server" where
  "unit_server =
     \<lparr>sv_mock = (\<lambda>_ n. tag_backend False n), sv_hf = (\<lambda>m _. tag_backend False m), sv_vllm = (\<lambda>m _. tag_backend False m),
      sv_llama = (\<lambda>_. tag_backend False []), sv_memory = idle_memory,
      sv_clocks = \<lparr>ck_perf = (\<lambda>w. (0, w)), ck_wall = (\<lambda>w. (0, w))\<rparr>,
      sv_cost = \<lparr>input_per_1m = 1, output_per_1m = 1, per_1m_params_per_1k_tokens = 0\<rparr>, sv_environ = (\<lambda>_. None),
      sv_unicode = \<lparr>u_lower = (\<lambda>c. [c]), u_word = (\<lambda>_. False), u_digit = (\<lambda>_. False), u_printable = (\<lambda>_. True)\<rparr>,
      sv_sha = (\<lambda>_. [1]), sv_now = (\<lambda>w. (lit ''t'', w))\<rparr>"

definition unit_request :: "pystr \<Rightarrow> bool \<Rightarrow> infer_request" where
  "unit_request p save =
     \<lparr>iq_prompt = p, iq_phase = 1, iq_backend = lit ''mock'', iq_max_tokens = 128, iq_router = lit ''logistic'',
      iq_save_run = save, iq_stream = False, iq_tenant_id = None, iq_analyst_model = None, iq_reasoner_model = None,
      iq_coder_model = None, iq_synthesizer_model = None, iq_trace_id = None\<rparr>"

lemma unit_request_simps [simp]:
  "iq_prompt (unit_request p b) = p" "iq_phase (unit_request p b) = 1" "iq_backend (unit_request p b) = lit ''mock''"
  "iq_max_tokens (unit_request p b) = 128" "iq_router (unit_request p b) = lit ''logistic''"
  "iq_save_run (unit_request p b) = b" "known_backend (lit ''mock'')"
  by (simp_all add: unit_request_def known_backend_def)

lemma unit_request_valid: "p \<noteq> [] \<Longrightarrow> length p \<le> 9 \<Longrightarrow> valid_request (unit_request p b)"
  by (cases p) (simp_all add: valid_request_def unit_request_def short_def)

lemma answering_tag [simp]: "answering (tag_backend f n)"
  by (simp add: answering_def nofail_ret)

lemma unit_backends: "build_backend unit_server b n p = Inr x \<Longrightarrow> answering x"
  by (auto simp: build_backend_def unit_server_def Let_def split: if_splits)

theorem infer_answers_witness:
  "\<exists>resp w'. post_infer unit_server (unit_request (lit ''hi'') False) (new_db, ()) = (Reply resp, (new_db, w')) \<and>
     ir_selected resp = [lit ''analyst'', lit ''synthesizer'']"
proof -
  let ?q = "unit_request (lit ''hi'') False"
  have v: "valid_request ?q" by (rule unit_request_valid) simp_all
  have k: "known_backend (iq_backend ?q)" "\<not> iq_save_run ?q" by (simp_all del: lit_Cons)
  have "\<exists>resp w'. post_infer unit_server ?q (new_db, ()) = (Reply resp, (new_db, w')) \<and> ir_selected resp \<noteq> [] \<and>
     set (ir_selected resp) \<subseteq> set garage_names \<and>
     (iq_phase ?q \<noteq> 3 \<longrightarrow> ir_selected resp = [lit ''analyst'', lit ''synthesizer''])"
    by (rule infer_answers [OF v k]) (rule unit_backends)
  then show ?thesis by (auto simp del: lit_Cons)
qed

definition unit_experts :: "unit expert list" where
  "unit_experts = map (\<lambda>(n, role, _). mk_expert n role (tag_backend False n)) garage"

lemma unit_build: "build_experts unit_server (lit ''mock'') = Inr unit_experts"
  by (simp add: build_experts_def garage_def build_backend_def unit_server_def unit_experts_def del: lit_Cons)

lemma unit_cascade:
  assumes "length p = 2"
  shows "\<exists>r. cascade_run (base_pipeline unit_server unit_experts [lit ''analyst'', lit ''synthesizer''] 128) p kw () = (Inr r, ()) \<and>
     pr_output r = p @ lit ''analystsynthesizer'' \<and> pr_selected r = [lit ''analyst'', lit ''synthesizer''] \<and>
     int64 (agg_total_tokens (pr_metrics r)) \<and> ag_kv_transfers (pr_metrics r) = 0 \<and>
     (\<forall>m\<in>set (pr_per_expert r). 0 \<le> em_input_tokens m \<and> 0 \<le> em_output_tokens m)"
proof -
  have g: "get_expert unit_experts (lit ''analyst'') = Inr (mk_expert (lit ''analyst'') ANALYST (tag_backend False (lit ''analyst'')))"
    "get_expert unit_experts (lit ''synthesizer'') =
       Inr (mk_expert (lit ''synthesizer'') SYNTHESIZER (tag_backend False (lit ''synthesizer'')))"
    by (simp_all add: get_expert_def find_expert_def map_of_dict_of unit_experts_def garage_def mk_expert_def)
  show ?thesis
    by (simp add: cascade_run_def remember_prompt_def cascade_step_def g base_pipeline_def bnd_apply invoke_expert_def
        remember_step_def step_tokens_def start_state_def expert_invoke_def invoke_tail_def transfer_in_def
        output_cache_def count_both_def mk_expert_def ex_supports_kv_def try_except_def tick_def unit_server_def
        result_of_def agg_finalize_def agg_add_def new_aggregate_def count_written_def agg_total_tokens_def
        estimate_tokens_def assms int64_def Let_def del: lit_Cons) simp
qed

lemma unit_run_request:
  assumes "length p = 2"
  shows "\<exists>r. run_request unit_server (unit_request p b) (db, ()) = (Inr r, (db, ())) \<and>
     pr_output r = p @ lit ''analystsynthesizer'' \<and> pr_selected r = [lit ''analyst'', lit ''synthesizer''] \<and>
     int64 (agg_total_tokens (pr_metrics r)) \<and> ag_kv_transfers (pr_metrics r) = 0 \<and>
     (\<forall>m\<in>set (pr_per_expert r). 0 \<le> em_input_tokens m \<and> 0 \<le> em_output_tokens m)"
proof -
  obtain r where r: "cascade_run (base_pipeline unit_server unit_experts [lit ''analyst'', lit ''synthesizer''] 128) p None () = (Inr r, ())"
    "pr_output r = p @ lit ''analystsynthesizer''" "pr_selected r = [lit ''analyst'', lit ''synthesizer'']"
    "int64 (agg_total_tokens (pr_metrics r))" "ag_kv_transfers (pr_metrics r) = 0"
    "\<forall>m\<in>set (pr_per_expert r). 0 \<le> em_input_tokens m \<and> 0 \<le> em_output_tokens m"
    using unit_cascade [OF assms, of None] by (elim exE conjE) (rule that)
  have "map ex_name unit_experts = garage_names"
    by (simp add: unit_experts_def garage_def garage_names_def mk_expert_def)
  from pipeline_init_garage [OF this, of "[lit ''analyst'', lit ''synthesizer'']"]
  have init: "pipeline_init (base_pipeline unit_server unit_experts [lit ''analyst'', lit ''synthesizer''] 128) =
      Inr (base_pipeline unit_server unit_experts [lit ''analyst'', lit ''synthesizer''] 128)"
    by (simp add: garage_names_def del: lit_Cons)
  have "run_request unit_server (unit_request p b) (db, ()) = (Inr r, (db, ()))"
    by (simp add: run_request_def unit_build make_pipeline_def init map_sum_r_def run_pipeline_def bnd_apply on_snd_apply r(1)
        del: lit_Cons)
  with r(2-6) show ?thesis by (intro exI conjI)
qed

lemma encodable_ascii: "\<forall>c\<in>set s. c < 128 \<Longrightarrow> encodable s"
  by (simp add: encodable_def utf8_encode_ascii)

lemma unit_hash [simp]: "result_hash unit_server q r = lit ''01''"
  by (simp add: result_hash_def hash_config_def unit_server_def hex_of_bytes_def hex_pad_2 hex_digit_def)

lemma unit_infer:
  assumes "length p = 2" and "\<forall>c\<in>set p. c < 128" and "opened db"
  shows "\<exists>resp db'. infer unit_server (unit_request p True) (db, ()) = (Inr resp, (db', ())) \<and>
     ir_selected resp = [lit ''analyst'', lit ''synthesizer''] \<and> ir_output resp = p @ lit ''analystsynthesizer''"
proof -
  let ?q = "unit_request p True"
  obtain r where run: "run_request unit_server ?q (db, ()) = (Inr r, (db, ()))"
    and r: "pr_output r = p @ lit ''analystsynthesizer''" "pr_selected r = [lit ''analyst'', lit ''synthesizer'']"
      "int64 (agg_total_tokens (pr_metrics r))" "ag_kv_transfers (pr_metrics r) = 0"
    using unit_run_request [OF assms(1), of True db] by (elim exE conjE) (rule that)
  let ?rec = "record_of (lit ''01'') p 1 (lit ''mock'') (lit ''logistic'') r (lit ''t'')"
  have "encodable (p @ lit ''analystsynthesizer'')" "encodable p" "encodable (lit ''01'')" "encodable (lit ''mock'')"
    "encodable (lit ''logistic'')" "encodable (lit ''t'')" "encodable []"
    using assms(2) by (auto intro!: encodable_ascii)
  then have "bindable ?rec" by (simp add: bindable_def record_of_def r(1) del: lit_Cons) simp
  then have "run_save ?rec db = (Inr (), insert_or_replace (rr_run_id ?rec) (to_row ?rec) db)"
    using assms(3) r(3,4) by (simp add: run_save_def opened_def int64_def record_of_def del: lit_Cons)
  then have "save_result unit_server ?q r (db, ()) = (Inr (), (insert_or_replace (rr_run_id ?rec) (to_row ?rec) db, ()))"
    by (simp add: save_result_def bnd_apply on_snd_apply on_fst_def stamp_def del: lit_Cons) (simp add: unit_server_def)
  with run show ?thesis
    by (simp add: infer_def bnd_apply response_of_def r(1,2) del: lit_Cons)
qed

lemma opened_new: "opened (snd (open_store new_db))"
  using open_new by simp

lemma selected_ok: "list_all (list_all json_char) [lit ''analyst'', lit ''synthesizer'']"
  by (simp add: json_char_def is_surrogate_def)


theorem infer_overwrites_witness:
  "\<exists>r1 r2 db1 db2 d. infer unit_server (unit_request (lit ''hi'') True) (snd (open_store new_db), ()) = (Inr r1, (db1, ())) \<and>
     infer unit_server (unit_request (lit ''ho'') True) (db1, ()) = (Inr r2, (db2, ())) \<and>
     get_run (the (ir_run_id r1)) db2 = Reply d \<and> sd_output d = lit ''hoanalystsynthesizer''"
proof -
  let ?q1 = "unit_request (lit ''hi'') True" and ?q2 = "unit_request (lit ''ho'') True"
  obtain r1 db1 where 1: "infer unit_server ?q1 (snd (open_store new_db), ()) = (Inr r1, (db1, ()))"
    "ir_selected r1 = [lit ''analyst'', lit ''synthesizer'']"
    using unit_infer [OF _ _ opened_new, of "lit ''hi''"] by auto
  obtain x now where x: "r1 = response_of unit_server ?q1 x"
    and s1: "run_save (record_of (result_hash unit_server ?q1 x) (lit ''hi'') 1 (lit ''mock'') (lit ''logistic'') x now)
      (snd (open_store new_db)) = (Inr (), db1)"
    by (rule infer_Inr [OF 1(1)]) (simp_all del: lit_Cons)
  have "json_ok (rr_experts (record_of (result_hash unit_server ?q1 x) (lit ''hi'') 1 (lit ''mock'') (lit ''logistic'') x now))"
    using 1(2) selected_ok json_ok_names [of "pr_selected x"] by (simp add: x response_of_def record_of_def del: lit_Cons)
  then have o1: "opened db1" by (rule get_run_saved(2) [OF opened_new _ s1])
  obtain r2 db2 where 2: "infer unit_server ?q2 (db1, ()) = (Inr r2, (db2, ()))"
    "ir_selected r2 = [lit ''analyst'', lit ''synthesizer'']" "ir_output r2 = lit ''ho'' @ lit ''analystsynthesizer''"
    using unit_infer [OF _ _ o1, of "lit ''ho''"] by auto
  have c: "iq_save_run ?q1" "iq_save_run ?q2" "iq_phase ?q2 = iq_phase ?q1" "iq_backend ?q2 = iq_backend ?q1"
    "iq_router ?q2 = iq_router ?q1" "iq_max_tokens ?q2 = iq_max_tokens ?q1" "ir_selected r2 = ir_selected r1"
    "list_all (list_all json_char) (ir_selected r1)"
    using 1(2) 2(2) selected_ok by (simp_all del: lit_Cons)
  from infer_overwrites [OF 1(1) 2(1) c(1,2) opened_new c(3-8)] 1 2 show ?thesis by auto
qed


theorem endpoint_errors_witness:
  "post_infer unit_server (unit_request [] True) (new_db, ()) = (Status 422, (new_db, ()))"
proof -
  have "\<not> valid_request (unit_request [] True)" by (simp add: valid_request_def)
  with endpoint_errors [of "unit_request [] True" unit_server "(new_db, ())"] show ?thesis by blast
qed

theorem router_field_ignored_witness:
  "\<exists>h. infer unit_server ((unit_request (lit ''hi'') False)\<lparr>iq_router := lit ''cosine''\<rparr>) (new_db, ()) =
     (case infer unit_server (unit_request (lit ''hi'') False) (new_db, ()) of
        (Inl e, s') \<Rightarrow> (Inl e, s')
      | (Inr resp, s') \<Rightarrow> (Inr (resp\<lparr>ir_run_id := Some (take 16 (h resp)), ir_config_hash := h resp\<rparr>), s'))"
  by (rule router_field_ignored) (simp del: lit_Cons)

end
