(* ===== verification/Bench.thy ===== *)
theory Bench
  imports Server_Routes
begin

text \<open>
  \<open>chen/benchmarks\<close> and \<open>chen bench\<close>: the graders, the key performance indicators and the runner that puts a
  pipeline through a task. \<open>float(text)\<close> is the argument \<open>pf\<close>. The MMLU grader and the
  sample tasks are in \<open>Bench_Tasks\<close>; a task holds its grader as a function.
\<close>

section \<open>Graders\<close>

type_synonym grader = "pystr \<Rightarrow> pystr \<Rightarrow> real"

text \<open>\<open>found / len(words)\<close>\<close>

definition share :: "('a \<Rightarrow> bool) \<Rightarrow> 'a list \<Rightarrow> real" where
  "share P xs = real (length (filter P xs)) / real (length xs)"

lemma share_bounds: "0 \<le> share P xs" "share P xs \<le> 1"
  by (cases "xs = []"; simp add: share_def divide_le_eq_1 length_filter_le)+

definition exact_match_grader :: "unicode \<Rightarrow> grader" where
  "exact_match_grader u out expected =
     (if py_contains (py_lower u (py_strip expected)) (py_lower u (py_strip out)) then 1 else 0)"

text \<open>The first match of \<open>-?\d+(?:\.\d+)?\<close>.\<close>

definition number_at :: "unicode \<Rightarrow> pystr \<Rightarrow> pystr" where
  "number_at u s =
     (let ds = takeWhile (digit_char u) s; r = drop (length ds) s; fs = takeWhile (digit_char u) (drop 1 r)
      in if take 1 r = [46] \<and> fs \<noteq> [] then ds @ [46] @ fs else ds)"

fun find_number :: "unicode \<Rightarrow> pystr \<Rightarrow> pystr option" where
  "find_number u [] = None"
| "find_number u (c # s) =
     (if c = 45 \<and> s \<noteq> [] \<and> digit_char u (hd s) then Some (45 # number_at u s)
      else if digit_char u c then Some (number_at u (c # s))
      else find_number u s)"

definition numeric_grader :: "unicode \<Rightarrow> (pystr \<Rightarrow> real option) \<Rightarrow> grader" where
  "numeric_grader u pf out expected =
     (case find_number u out of
        None \<Rightarrow> 0
      | Some n \<Rightarrow>
          (case pf n of
             None \<Rightarrow> 0
           | Some got \<Rightarrow>
               (case pf expected of
                  None \<Rightarrow> 0
                | Some want \<Rightarrow>
                    (if \<bar>got - want\<bar> < 1 / 10 ^ 9 then 1
                     else if want \<noteq> 0 \<and> \<bar>got - want\<bar> / \<bar>want\<bar> \<le> 5 / 100 then 1 / 2 else 0))))"

definition keyword_coverage_grader :: "unicode \<Rightarrow> grader" where
  "keyword_coverage_grader u out expected =
     (let keywords = map (\<lambda>k. py_lower u (py_strip k)) (filter (\<lambda>k. py_strip k \<noteq> []) (split_at 44 expected)) in
      if keywords = [] then 0
      else share (\<lambda>k. py_contains k (py_lower u out)) keywords)"

text \<open>The maximal runs of characters of a class: \<open>re.findall(r"\w+", text)\<close> and \<open>text.split()\<close>.\<close>

function runs_of :: "(nat \<Rightarrow> bool) \<Rightarrow> pystr \<Rightarrow> pystr list" where
  "runs_of P s =
     (let t = dropWhile (\<lambda>c. \<not> P c) s in
      if t = [] then [] else takeWhile P t # runs_of P (dropWhile P t))"
  by pat_completeness auto

lemma runs_of_measure:
  "dropWhile (\<lambda>c. \<not> P c) s \<noteq> [] \<Longrightarrow> length (dropWhile P (dropWhile (\<lambda>c. \<not> P c) s)) < length s"
proof -
  assume ne: "dropWhile (\<lambda>c. \<not> P c) s \<noteq> []"
  then obtain c t where t: "dropWhile (\<lambda>c. \<not> P c) s = c # t" by (cases "dropWhile (\<lambda>c. \<not> P c) s") auto
  then have "P c" using hd_dropWhile [OF ne] by simp
  then have "length (dropWhile P (c # t)) \<le> length t" by (simp add: length_dropWhile_le)
  moreover have "length (c # t) \<le> length s" unfolding t [symmetric] by (rule length_dropWhile_le)
  ultimately show ?thesis unfolding t by simp
qed

termination runs_of
  by (relation "measure (\<lambda>(P, s). length s)") (simp_all add: runs_of_measure del: dropWhile_eq_Nil_conv)

declare runs_of.simps [simp del]

definition mock_friendly_grader :: "unicode \<Rightarrow> grader" where
  "mock_friendly_grader u out expected =
     (if py_contains (py_lower u (py_strip expected)) (py_lower u (py_strip out)) then 1
      else (let ws = filter (\<lambda>w. 3 < length w) (runs_of (word_char u) (py_lower u expected)) in
            if ws = [] then 0
            else 1 / 2 * share (\<lambda>w. py_contains w (py_lower u out)) ws))"

definition humaneval_grader :: grader where
  "humaneval_grader out expected =
     (let e = py_strip expected in if e = [] then 0 else if py_contains e out then 1 else 0)"

text \<open>The commas are gone, so \<open>[\d,]+\.?\d*\<close> matches digits, a point and digits.\<close>

function price_runs :: "unicode \<Rightarrow> pystr \<Rightarrow> pystr list" where
  "price_runs u s =
     (let t = dropWhile (\<lambda>c. \<not> digit_char u c) s; ds = takeWhile (digit_char u) t; r = drop (length ds) t;
          pt = take 1 r; fs = (if pt = [46] then takeWhile (digit_char u) (drop 1 r) else []);
          n = (if pt = [46] then ds @ [46] @ fs else ds)
      in if t = [] then [] else n # price_runs u (drop (length n) t))"
  by pat_completeness auto

termination price_runs
proof (relation "measure (\<lambda>(u, s). length s)")
  fix u s t ds r pt fs n
  assume t: "t = dropWhile (\<lambda>c. \<not> digit_char u c) s" and ds: "ds = takeWhile (digit_char u) t"
    and n: "n = (if pt = [46] then ds @ [46] @ fs else ds)" and ne: "t \<noteq> []"
  have "digit_char u (hd t)" using hd_dropWhile [of "\<lambda>c. \<not> digit_char u c" s] ne unfolding t by simp
  then have "ds \<noteq> []" using ne unfolding ds by (cases t) auto
  then have "0 < length n" unfolding n by simp
  moreover have "length t \<le> length s" unfolding t by (rule length_dropWhile_le)
  moreover have "0 < length t" using ne by simp
  ultimately have "length (drop (length n) t) < length s" by (simp del: length_greater_0_conv)
  then show "((u, drop (length n) t), (u, s)) \<in> measure (\<lambda>(u, s). length s)" by simp
qed simp

declare price_runs.simps [simp del]

definition gsm8k_grader :: "unicode \<Rightarrow> grader" where
  "gsm8k_grader u out expected =
     (let e = py_strip expected in
      if e = [] then 0
      else (let nums = runs_of (\<lambda>c. \<not> py_isspace c) (filter (\<lambda>c. c \<noteq> 44) e);
                target = (if nums = [] then e else last nums)
            in if target \<in> set (price_runs u (filter (\<lambda>c. c \<noteq> 44) out)) then 1
               else if py_contains target out then 1 else 0))"

definition unit_grader :: "grader \<Rightarrow> bool" where
  "unit_grader g \<longleftrightarrow> (\<forall>out expected. 0 \<le> g out expected \<and> g out expected \<le> 1)"

lemma unit_graderI: "(\<And>out e. 0 \<le> g out e) \<Longrightarrow> (\<And>out e. g out e \<le> 1) \<Longrightarrow> unit_grader g"
  by (simp add: unit_grader_def)

lemma share_le_2: "share P xs \<le> 2"
  using share_bounds(2) [of P xs] by simp

lemma graders_unit:
  "unit_grader (exact_match_grader u)" "unit_grader (numeric_grader u pf)" "unit_grader (keyword_coverage_grader u)"
  "unit_grader humaneval_grader" "unit_grader (gsm8k_grader u)" "unit_grader (mock_friendly_grader u)"
proof -
  show "unit_grader (exact_match_grader u)"
    by (rule unit_graderI) (simp_all add: exact_match_grader_def)
  show "unit_grader (numeric_grader u pf)"
    by (rule unit_graderI) (simp_all add: numeric_grader_def split: option.split)
  show "unit_grader (keyword_coverage_grader u)"
    by (rule unit_graderI) (simp_all add: keyword_coverage_grader_def Let_def share_bounds)
  show "unit_grader humaneval_grader"
    by (rule unit_graderI) (simp_all add: humaneval_grader_def Let_def)
  show "unit_grader (gsm8k_grader u)"
    by (rule unit_graderI) (simp_all add: gsm8k_grader_def Let_def)
  show "unit_grader (mock_friendly_grader u)"
    by (rule unit_graderI) (simp_all add: mock_friendly_grader_def Let_def share_bounds share_le_2)
qed

section \<open>KPIs\<close>

record baseline_metrics =
  bl_params_m :: int
  bl_input_tokens :: int
  bl_output_tokens :: int
  bl_latency_ms :: real
  bl_accuracy :: real

definition default_baseline :: baseline_metrics where
  "default_baseline =
     \<lparr>bl_params_m = 70000, bl_input_tokens = 200, bl_output_tokens = 300, bl_latency_ms = 1500, bl_accuracy = 85 / 100\<rparr>"

record kpi_report =
  kr_chen_cost_per_1m :: real
  kr_chen_latency_ms :: real
  kr_chen_accuracy :: real
  kr_params_invoked_m :: int
  kr_distinct_params_m :: int
  kr_baseline_cost_per_1m :: real
  kr_baseline_latency_ms :: real
  kr_baseline_accuracy :: real
  kr_baseline_params_m :: int
  kr_epu :: real
  kr_cost_reduction_pct :: real
  kr_lta :: real
  kr_baseline_lta :: real
  kr_cost_met :: bool
  kr_epu_met :: bool
  kr_latency_met :: bool
  kr_task_name :: pystr

record kpis =
  kp_cost :: cost_model
  kp_epu_target :: real
  kp_cost_target_pct :: real

definition default_kpis :: "cost_model \<Rightarrow> kpis" where
  "default_kpis cm = \<lparr>kp_cost = cm, kp_epu_target = 3, kp_cost_target_pct = 80\<rparr>"

definition pos_ratio :: "real \<Rightarrow> real \<Rightarrow> real \<Rightarrow> real" where
  "pos_ratio a b scale = (if b > 0 then a / b * scale else 0)"

text \<open>\<open>KPIs.compute\<close>; the only extra field its caller gives is the name of the task.\<close>

definition kpi_compute ::
  "kpis \<Rightarrow> int \<Rightarrow> real \<Rightarrow> real \<Rightarrow> real \<Rightarrow> int \<Rightarrow> int \<Rightarrow> baseline_metrics \<Rightarrow> int \<Rightarrow> pystr \<Rightarrow> kpi_report" where
  "kpi_compute kp tokens cost latency accuracy params dparams b n_queries task_name =
     (let q = real_of_int (max 1 n_queries);
          chen_1m = pos_ratio (cost / q) (real_of_int tokens / q) 1000000;
          base_tokens = bl_input_tokens b + bl_output_tokens b;
          base_1m = pos_ratio (cost_for (kp_cost kp) (bl_input_tokens b) (bl_output_tokens b) (bl_params_m b) False)
                      (real_of_int base_tokens) 1000000;
          ep = pos_ratio (real_of_int (bl_params_m b)) (real_of_int dparams) 1;
          red = (if base_1m > 0 then (base_1m - chen_1m) / base_1m * 100 else 0);
          lta = pos_ratio accuracy (latency / q) 1000;
          base_lta = pos_ratio (bl_accuracy b) (bl_latency_ms b) 1000
      in \<lparr>kr_chen_cost_per_1m = chen_1m, kr_chen_latency_ms = latency / q, kr_chen_accuracy = accuracy,
          kr_params_invoked_m = params, kr_distinct_params_m = dparams, kr_baseline_cost_per_1m = base_1m,
          kr_baseline_latency_ms = bl_latency_ms b, kr_baseline_accuracy = bl_accuracy b,
          kr_baseline_params_m = bl_params_m b, kr_epu = ep, kr_cost_reduction_pct = red, kr_lta = lta,
          kr_baseline_lta = base_lta, kr_cost_met = (red \<ge> kp_cost_target_pct kp), kr_epu_met = (ep \<ge> kp_epu_target kp),
          kr_latency_met = (lta \<ge> base_lta), kr_task_name = task_name\<rparr>)"

section \<open>The runner\<close>

record bench_task =
  bt_name :: pystr
  bt_description :: pystr
  bt_samples :: "(pystr \<times> pystr) list"
  bt_grader :: grader
  bt_tags :: "pystr list"

record bench_result =
  br_task_name :: pystr
  br_per_sample :: "(pystr \<times> pystr \<times> pystr \<times> real \<times> real \<times> pipeline_result) list"
  br_avg_accuracy :: real
  br_total_tokens :: int
  br_total_cost :: real
  br_total_latency :: real
  br_params_invoked :: int
  br_distinct_params :: int
  br_kpi :: "kpi_report option"

definition new_result :: "pystr \<Rightarrow> bench_result" where
  "new_result n =
     \<lparr>br_task_name = n, br_per_sample = [], br_avg_accuracy = 0, br_total_tokens = 0, br_total_cost = 0,
      br_total_latency = 0, br_params_invoked = 0, br_distinct_params = 0, br_kpi = None\<rparr>"

record 'w bench_runner =
  bn_pipeline :: "'w runnable"
  bn_baseline :: baseline_metrics
  bn_kpis :: kpis

definition add_sample :: "grader \<Rightarrow> pystr \<Rightarrow> pystr \<Rightarrow> pipeline_result \<Rightarrow> bench_result \<Rightarrow> bench_result" where
  "add_sample g prompt expected pr s =
     (let score = g (pr_output pr) expected; m = pr_metrics pr in
      s\<lparr>br_per_sample := br_per_sample s @ [(prompt, expected, pr_output pr, score, ag_latency_ms m, pr)],
        br_avg_accuracy := br_avg_accuracy s + score, br_total_tokens := br_total_tokens s + agg_total_tokens m,
        br_total_cost := br_total_cost s + ag_cost_usd m, br_total_latency := br_total_latency s + ag_latency_ms m,
        br_params_invoked := br_params_invoked s + ag_params_invoked_m m,
        br_distinct_params := ag_distinct_params_m m\<rparr>)"

text \<open>The loop over the samples. \<open>distinct_params_m\<close> is set from the last result after the loop; setting it in
  every round gives the same.\<close>

fun run_samples ::
  "'w runnable \<Rightarrow> grader \<Rightarrow> int \<Rightarrow> (pystr \<times> pystr) list \<Rightarrow> bench_result \<Rightarrow> ('w, py_exc, bench_result) act" where
  "run_samples p g mt [] s = ret s"
| "run_samples p g mt ((prompt, expected) # xs) s =
     bnd (run_pipeline p prompt (Some mt)) (\<lambda>pr. run_samples p g mt xs (add_sample g prompt expected pr s))"

definition finish_result :: "'w bench_runner \<Rightarrow> bench_task \<Rightarrow> bench_result \<Rightarrow> bench_result" where
  "finish_result b t s =
     (let n = length (bt_samples t);
          acc = (if 0 < n then br_avg_accuracy s / real n else br_avg_accuracy s)
      in s\<lparr>br_avg_accuracy := acc,
           br_kpi := Some (kpi_compute (bn_kpis b) (br_total_tokens s) (br_total_cost s) (br_total_latency s) acc
                       (br_params_invoked s) (br_distinct_params s) (bn_baseline b) (int n) (bt_name t))\<rparr>)"

definition run_task :: "'w bench_runner \<Rightarrow> bench_task \<Rightarrow> int \<Rightarrow> ('w, py_exc, bench_result) act" where
  "run_task b t mt =
     bnd (run_samples (bn_pipeline b) (bt_grader t) mt (bt_samples t) (new_result (bt_name t))) (\<lambda>s. ret (finish_result b t s))"

type_synonym task_registry = "(pystr \<times> bench_task) list"

definition register_task :: "bench_task \<Rightarrow> task_registry \<Rightarrow> task_registry" where
  "register_task t reg = AList.update (bt_name t) t reg"

definition run_task_named :: "'w bench_runner \<Rightarrow> task_registry \<Rightarrow> pystr \<Rightarrow> int \<Rightarrow> ('w, py_exc, bench_result) act" where
  "run_task_named b reg n mt =
     (case map_of reg n of None \<Rightarrow> raise KeyError | Some t \<Rightarrow> run_task b t mt)"

fun run_each :: "('k \<Rightarrow> ('w, py_exc, 'a) act) \<Rightarrow> 'k list \<Rightarrow> ('w, py_exc, 'a list) act" where
  "run_each f [] = ret []"
| "run_each f (k # ks) = bnd (f k) (\<lambda>x. bnd (run_each f ks) (\<lambda>xs. ret (x # xs)))"

definition run_all :: "'w bench_runner \<Rightarrow> task_registry \<Rightarrow> int \<Rightarrow> ('w, py_exc, bench_result list) act" where
  "run_all b reg mt = run_each (\<lambda>n. run_task_named b reg n mt) (map fst reg)"

section \<open>\<open>chen bench\<close>\<close>

definition bench_pipeline :: "'w server \<Rightarrow> 'w cli_routers \<Rightarrow> int \<Rightarrow> pystr \<Rightarrow> 'w expert list \<Rightarrow> py_exc + 'w runnable" where
  "bench_pipeline sv cr phase kind experts =
     (let two = [lit ''analyst'', lit ''synthesizer''] in
      if phase = 1 then map_sum_r Cascade (pipeline_init (base_pipeline sv experts two 256))
      else if phase = 2 then map_sum_r KVPass (pipeline_init (base_pipeline sv experts two 256))
      else if phase = 3 then
        (case make_router sv cr kind experts of
           Inl e \<Rightarrow> Inl e
         | Inr rt \<Rightarrow> routing_pipeline (base_pipeline sv experts [] 256) rt True)
      else Inl ValueError)"

definition bench_kpis :: "cost_model \<Rightarrow> kpis" where
  "bench_kpis cm = \<lparr>kp_cost = cm, kp_epu_target = 1, kp_cost_target_pct = 10\<rparr>"

definition bench_baseline :: "int \<Rightarrow> baseline_metrics" where
  "bench_baseline params = default_baseline\<lparr>bl_params_m := params, bl_accuracy := 1 / 2, bl_latency_ms := 1500\<rparr>"

definition bench_tasks :: "task_registry \<Rightarrow> pystr \<Rightarrow> (pystr \<times> bench_task) list" where
  "bench_tasks reg task =
     (if task \<noteq> lit ''all'' then (case map_of reg task of None \<Rightarrow> [] | Some t \<Rightarrow> [(task, t)]) else reg)"

definition bench_verdict :: "bench_result \<Rightarrow> bool" where
  "bench_verdict r \<longleftrightarrow> (case br_kpi r of None \<Rightarrow> False | Some k \<Rightarrow> kr_cost_met k \<and> kr_epu_met k \<and> kr_latency_met k)"

text \<open>The results and the overall verdict that the command prints.\<close>

definition bench_command ::
  "'w server \<Rightarrow> 'w cli_routers \<Rightarrow> task_registry \<Rightarrow> int \<Rightarrow> pystr \<Rightarrow> int \<Rightarrow> pystr \<Rightarrow> int \<Rightarrow>
   ('w, py_exc, bench_result list \<times> bool) act" where
  "bench_command sv cr reg phase kind max_tokens task baseline_params =
     bnd (lift_err (bench_pipeline sv cr phase kind (mock_experts sv))) (\<lambda>pipe.
     let b = \<lparr>bn_pipeline = pipe, bn_baseline = bench_baseline baseline_params, bn_kpis = bench_kpis (sv_cost sv)\<rparr> in
     bnd (run_each (\<lambda>p. run_task b (snd p) max_tokens) (bench_tasks reg task)) (\<lambda>rs.
     ret (rs, list_all bench_verdict rs)))"

section \<open>Lemmas\<close>

lemma bnd_ret_Inr: "bnd m (\<lambda>x. ret (f x)) w = (Inr y, w') \<longleftrightarrow> (\<exists>x. m w = (Inr x, w') \<and> y = f x)"
proof -
  obtain r v where m: "m w = (r, v)" by (cases "m w")
  show ?thesis by (cases r) (auto simp: bnd_def m)
qed

lemma pos_ratio_scale: "0 < q \<Longrightarrow> pos_ratio (a / q) (b / q) c = pos_ratio a b c"
  by (simp add: pos_ratio_def zero_less_divide_iff)

lemma cost_per_1m:
  "0 < i + k \<Longrightarrow> pos_ratio (cost_for cm i k p False) (real_of_int (i + k)) 1000000 =
     (real_of_int i * input_per_1m cm + real_of_int k * output_per_1m cm) / real_of_int (i + k)"
proof -
  assume t: "0 < i + k"
  have a: "x / 1000000 / T * 1000000 = x / T" for x T :: real by simp
  have "0 < real_of_int (i + k)" using t by (simp del: of_int_add)
  then show ?thesis unfolding pos_ratio_def cost_for_no_tax by (simp only: a if_True)
qed

lemma kpi_costs:
  "kr_chen_cost_per_1m (kpi_compute kp tk c l a ps dps b n t) = pos_ratio c (real_of_int tk) 1000000"
  "kr_baseline_cost_per_1m (kpi_compute kp tk c l a ps dps b n t) =
     pos_ratio (cost_for (kp_cost kp) (bl_input_tokens b) (bl_output_tokens b) (bl_params_m b) False)
       (real_of_int (bl_input_tokens b + bl_output_tokens b)) 1000000"
  by (simp_all add: kpi_compute_def Let_def pos_ratio_scale)

lemma kpi_reduction:
  "kr_cost_reduction_pct r = (if kr_baseline_cost_per_1m r > 0
     then (kr_baseline_cost_per_1m r - kr_chen_cost_per_1m r) / kr_baseline_cost_per_1m r * 100 else 0)"
  "kr_cost_met r \<longleftrightarrow> kr_cost_reduction_pct r \<ge> kp_cost_target_pct kp"
  if "r = kpi_compute kp tk c l a ps dps b n t"
  by (simp_all add: that kpi_compute_def Let_def)

text \<open>What a run of the samples has added up.\<close>

definition sums_to :: "grader \<Rightarrow> (pystr \<times> pystr) list \<Rightarrow> bench_result \<Rightarrow> bool" where
  "sums_to g xs s \<longleftrightarrow>
     map (\<lambda>(p, e, _). (p, e)) (br_per_sample s) = xs \<and>
     (\<forall>(p, e, out, sc, l, pr)\<in>set (br_per_sample s). out = pr_output pr \<and> sc = g out e \<and> l = ag_latency_ms (pr_metrics pr)) \<and>
     br_avg_accuracy s = sum_list (map (\<lambda>(_, _, _, sc, _, _). sc) (br_per_sample s)) \<and>
     br_total_tokens s = sum_list (map (\<lambda>(_, _, _, _, _, pr). agg_total_tokens (pr_metrics pr)) (br_per_sample s)) \<and>
     br_total_cost s = sum_list (map (\<lambda>(_, _, _, _, _, pr). ag_cost_usd (pr_metrics pr)) (br_per_sample s)) \<and>
     br_total_latency s = sum_list (map (\<lambda>(_, _, _, _, l, _). l) (br_per_sample s))"

lemma sums_to_new: "sums_to g [] (new_result n)"
  by (simp add: sums_to_def new_result_def)

lemma sums_to_add: "sums_to g xs s \<Longrightarrow> sums_to g (xs @ [(p, e)]) (add_sample g p e pr s)"
  by (auto simp: sums_to_def add_sample_def Let_def)

lemma sums_to_length:
  assumes "sums_to g xs s"
  shows "length (br_per_sample s) = length xs"
proof -
  have "map (\<lambda>(p, e, _). (p, e)) (br_per_sample s) = xs" using assms by (simp only: sums_to_def)
  from arg_cong [OF this, of length] show ?thesis by (simp only: length_map)
qed

lemma run_samples_sums:
  "sums_to g seen s \<Longrightarrow> run_samples p g mt xs s w = (Inr s', w') \<Longrightarrow>
   sums_to g (seen @ xs) s' \<and> br_task_name s' = br_task_name s"
proof (induction xs arbitrary: seen s w)
  case (Cons x xs)
  obtain pr e where x: "x = (pr, e)" by (cases x)
  from Cons.prems(2) obtain r v where "run_samples p g mt xs (add_sample g pr e r s) v = (Inr s', w')"
    unfolding x by auto
  from Cons.IH [OF sums_to_add [OF Cons.prems(1)] this] show ?case by (simp add: x add_sample_def Let_def)
qed simp

lemma mean_bounds:
  assumes "\<forall>x\<in>set xs. 0 \<le> x \<and> x \<le> (1 :: real)" and "xs \<noteq> []"
  shows "0 \<le> sum_list xs / real (length xs)" and "sum_list xs / real (length xs) \<le> 1"
proof -
  have "0 \<le> sum_list xs \<and> sum_list xs \<le> real (length xs)"
    using assms(1) by (induction xs) auto
  then show "0 \<le> sum_list xs / real (length xs)" "sum_list xs / real (length xs) \<le> 1"
    using assms(2) by (simp_all add: divide_le_eq_1)
qed

text \<open>A run of a task is a run of its samples and their summary; its accuracy is the mean of the scores.\<close>

lemma run_task_parts:
  assumes "run_task b t mt w = (Inr r, w')"
  shows "\<exists>s. sums_to (bt_grader t) (bt_samples t) s \<and> br_task_name s = bt_name t \<and> r = finish_result b t s"
proof -
  have "\<exists>s. run_samples (bn_pipeline b) (bt_grader t) mt (bt_samples t) (new_result (bt_name t)) w = (Inr s, w') \<and>
      r = finish_result b t s"
    using assms unfolding run_task_def by (simp only: bnd_ret_Inr)
  then obtain s where sr: "run_samples (bn_pipeline b) (bt_grader t) mt (bt_samples t) (new_result (bt_name t)) w = (Inr s, w') \<and>
      r = finish_result b t s" ..
  have "sums_to (bt_grader t) (bt_samples t) s" "br_task_name s = bt_name t"
    using run_samples_sums [OF sums_to_new conjunct1 [OF sr]] by (simp_all add: new_result_def)
  with conjunct2 [OF sr] show ?thesis by (intro exI conjI)
qed

lemma finish_accuracy:
  assumes "sums_to (bt_grader t) (bt_samples t) s"
  shows "br_avg_accuracy (finish_result b t s) = (if bt_samples t = [] then 0 else
      sum_list (map (\<lambda>(_, _, _, sc, _, _). sc) (br_per_sample s)) / real (length (bt_samples t)))"
    and "unit_grader (bt_grader t) \<Longrightarrow>
      0 \<le> br_avg_accuracy (finish_result b t s) \<and> br_avg_accuracy (finish_result b t s) \<le> 1"
proof -
  show acc: "br_avg_accuracy (finish_result b t s) = (if bt_samples t = [] then 0 else
      sum_list (map (\<lambda>(_, _, _, sc, _, _). sc) (br_per_sample s)) / real (length (bt_samples t)))"
    using assms by (auto simp: finish_result_def Let_def sums_to_def)
  assume u: "unit_grader (bt_grader t)"
  show "0 \<le> br_avg_accuracy (finish_result b t s) \<and> br_avg_accuracy (finish_result b t s) \<le> 1"
  proof (cases "bt_samples t = []")
    case False
    let ?xs = "map (\<lambda>(_, _, _, sc, _, _). sc) (br_per_sample s)"
    have len: "length (br_per_sample s) = length (bt_samples t)" using assms by (rule sums_to_length)
    have "\<forall>x\<in>set ?xs. 0 \<le> x \<and> x \<le> 1"
      using assms u unfolding sums_to_def unit_grader_def by fastforce
    moreover have "?xs \<noteq> []" using False len by auto
    ultimately show ?thesis using mean_bounds [of ?xs] False acc len by simp
  qed (simp add: acc)
qed

text \<open>With the default rates a baseline of 200 input and 300 output tokens costs 0.42 per million; no mix of tokens costs
  less than 0.15.\<close>

lemma mix_reduction:
  assumes "0 \<le> i" and "0 \<le> k" and "0 < i + k" and "input_per_1m cm = 15 / 100" and "output_per_1m cm = 60 / 100"
    and "kp_cost kp = cm" and "bl_input_tokens b = 200" and "bl_output_tokens b = 300"
  shows "kr_cost_reduction_pct (kpi_compute kp (i + k) (cost_for cm i k p False) l a ps dps b n t) < 65"
proof -
  let ?r = "kpi_compute kp (i + k) (cost_for cm i k p False) l a ps dps b n t"
  have base: "kr_baseline_cost_per_1m ?r = 42 / 100"
    using cost_per_1m [of 200 300 cm] assms(4-8) by (simp add: kpi_costs)
  have "kr_chen_cost_per_1m ?r = (real_of_int i * (15 / 100) + real_of_int k * (60 / 100)) / real_of_int (i + k)"
    unfolding kpi_costs using cost_per_1m [OF assms(3), of cm p] assms(4,5) by simp
  moreover have "(15 / 100) * real_of_int (i + k) \<le> real_of_int i * (15 / 100) + real_of_int k * (60 / 100)"
    using assms(1,2) by simp
  ultimately have chen: "15 / 100 \<le> kr_chen_cost_per_1m ?r"
    using assms(3) by (simp add: pos_le_divide_eq)
  have "kr_cost_reduction_pct ?r = (42 / 100 - kr_chen_cost_per_1m ?r) / (42 / 100) * 100"
    unfolding kpi_reduction(1) [OF refl] base by simp
  with chen show ?thesis by simp
qed

section \<open>A runner on a small backend\<close>

definition unit_bench :: "unit bench_runner" where
  "unit_bench =
     \<lparr>bn_pipeline = Cascade (base_pipeline unit_server unit_experts [lit ''analyst'', lit ''synthesizer''] 128),
      bn_baseline = default_baseline, bn_kpis = default_kpis (sv_cost unit_server)\<rparr>"

definition unit_task :: bench_task where
  "unit_task =
     \<lparr>bt_name = lit ''t'', bt_description = [], bt_samples = [(lit ''hi'', lit ''hi'')],
      bt_grader = humaneval_grader, bt_tags = []\<rparr>"

lemma unit_run_task: "\<exists>r. run_task unit_bench unit_task 5 () = (Inr r, ())"
proof -
  obtain r where "cascade_run (base_pipeline unit_server unit_experts [lit ''analyst'', lit ''synthesizer''] 128)
      (lit ''hi'') (Some 5) () = (Inr r, ())"
    using unit_cascade [of "lit ''hi''" "Some 5"] by auto
  then show ?thesis
    by (simp add: run_task_def unit_bench_def unit_task_def bnd_apply run_pipeline_def del: lit_Cons)
qed

section \<open>Properties\<close>



text \<open>The cost KPI sees token mix and nothing else. A run's cost per million tokens is the average of the two token
  rates, weighted by its input and output tokens; so is the baseline's, and neither depends on how many queries
  were run or how many parameters either side has.\<close>

theorem kpi_cost_is_token_mix:
  assumes "0 < i + k" and "0 < bl_input_tokens b + bl_output_tokens b"
  shows "let r = kpi_compute kp (i + k) (cost_for (kp_cost kp) i k p False) l a ps dps b n t in
     kr_chen_cost_per_1m r =
       (real_of_int i * input_per_1m (kp_cost kp) + real_of_int k * output_per_1m (kp_cost kp)) / real_of_int (i + k) \<and>
     kr_baseline_cost_per_1m r =
       (real_of_int (bl_input_tokens b) * input_per_1m (kp_cost kp) + real_of_int (bl_output_tokens b) * output_per_1m (kp_cost kp))
         / real_of_int (bl_input_tokens b + bl_output_tokens b) \<and>
     kr_cost_reduction_pct r = kr_cost_reduction_pct (kpi_compute kp (i + k) (cost_for (kp_cost kp) i k p' False) l a ps' dps'
       (b\<lparr>bl_params_m := bp\<rparr>) n' t)"
proof -
  have c: "cost_for cm i k p False = cost_for cm i k p' False" for cm i k p p' by (simp add: cost_for_no_tax)
  have red: "kr_cost_reduction_pct (kpi_compute kp tk x l a ps dps b n t) =
      kr_cost_reduction_pct (kpi_compute kp tk x l a ps' dps' (b\<lparr>bl_params_m := bp\<rparr>) n' t)" for tk x
    unfolding kpi_reduction(1) [OF refl] kpi_costs using c [of "kp_cost kp" _ _ "bl_params_m b" bp] by simp
  show ?thesis
    unfolding Let_def kpi_costs cost_per_1m [OF assms(1)] cost_per_1m [OF assms(2)] c [of _ _ _ p p']
    using red by simp
qed

theorem kpi_cost_is_token_mix_witness:
  "kr_chen_cost_per_1m (kpi_compute (default_kpis \<lparr>input_per_1m = 1, output_per_1m = 4, per_1m_params_per_1k_tokens = 0\<rparr>) 3
     (cost_for \<lparr>input_per_1m = 1, output_per_1m = 4, per_1m_params_per_1k_tokens = 0\<rparr> 2 1 7 False) 9 1 7 7 default_baseline 5 []) = 2"
  using kpi_cost_is_token_mix [of 2 1 default_baseline
      "default_kpis \<lparr>input_per_1m = 1, output_per_1m = 4, per_1m_params_per_1k_tokens = 0\<rparr>" 7 9 1 7 7 5 "[]"]
  by (simp add: default_kpis_def default_baseline_def Let_def)

text \<open>With the default rates, baseline and target the cost target cannot be met. Whatever pipeline is measured, a
  run with at least one token reduces the cost per million tokens by less than 65 percent, because its cheapest
  mix is input only, while the target is 80 percent.\<close>

theorem default_cost_target_unreachable:
  assumes "0 \<le> i" and "0 \<le> k" and "0 < i + k" and "input_per_1m cm = 15 / 100" and "output_per_1m cm = 60 / 100"
  shows "let r = kpi_compute (default_kpis cm) (i + k) (cost_for cm i k p False) l a ps dps default_baseline n t in
     kr_cost_reduction_pct r < 65 \<and> \<not> kr_cost_met r"
proof -
  let ?r = "kpi_compute (default_kpis cm) (i + k) (cost_for cm i k p False) l a ps dps default_baseline n t"
  have kp: "kp_cost (default_kpis cm) = cm" "kp_cost_target_pct (default_kpis cm) = 80" by (simp_all add: default_kpis_def)
  have lt: "kr_cost_reduction_pct ?r < 65"
    using assms kp(1) by (intro mix_reduction) (simp_all add: default_baseline_def)
  then have "\<not> kr_cost_met ?r" unfolding kpi_reduction(2) [OF refl] kp by simp
  with lt show ?thesis by (simp add: Let_def)
qed

theorem default_cost_target_unreachable_witness:
  "\<not> kr_cost_met (kpi_compute (default_kpis \<lparr>input_per_1m = 15 / 100, output_per_1m = 60 / 100, per_1m_params_per_1k_tokens = 0\<rparr>) 1
     (cost_for \<lparr>input_per_1m = 15 / 100, output_per_1m = 60 / 100, per_1m_params_per_1k_tokens = 0\<rparr> 1 0 7 False)
     9 1 7 7 default_baseline 1 [])"
  using default_cost_target_unreachable [of 1 0 "\<lparr>input_per_1m = 15 / 100, output_per_1m = 60 / 100, per_1m_params_per_1k_tokens = 0\<rparr>"
      7 9 1 7 7 1 "[]"]
  by (simp add: Let_def)

text \<open>\<open>chen bench\<close> for a task that is not registered runs nothing and reports that all targets are met.\<close>

theorem bench_unknown_task_passes:
  assumes "map_of reg task = None" and "task \<noteq> lit ''all''" and "bench_pipeline sv cr phase kind (mock_experts sv) = Inr pipe"
  shows "bench_command sv cr reg phase kind mt task bp w = (Inr ([], True), w)"
  using assms by (simp add: bench_command_def bench_tasks_def Let_def bnd_apply)

theorem bench_unknown_task_passes_witness:
  "bench_command unit_server \<lparr>cr_cosine = \<lambda>_. Inl ValueError, cr_hybrid = \<lambda>_. Inl ValueError\<rparr> [(lit ''t'', unit_task)]
     1 (lit ''logistic'') 64 (lit ''gsm'') 70000 () = (Inr ([], True), ())"
proof -
  have "map ex_name (mock_experts unit_server) = garage_names"
    by (simp add: mock_experts_def garage_def garage_names_def mk_expert_def)
  from pipeline_init_garage [OF this, of "[lit ''analyst'', lit ''synthesizer'']"]
  have "bench_pipeline unit_server \<lparr>cr_cosine = \<lambda>_. Inl ValueError, cr_hybrid = \<lambda>_. Inl ValueError\<rparr> 1 (lit ''logistic'')
      (mock_experts unit_server) =
      Inr (Cascade (base_pipeline unit_server (mock_experts unit_server) [lit ''analyst'', lit ''synthesizer''] 256))"
    by (simp add: bench_pipeline_def garage_names_def map_sum_r_def del: lit_Cons)
  then show ?thesis by (rule bench_unknown_task_passes [rotated 2]) simp_all
qed

end
