(* ===== verification/Bench_Tasks.thy ===== *)
theory Bench_Tasks
  imports Bench
begin

text \<open>
  The rest of \<open>chen/benchmarks/tasks.py\<close>: the MMLU grader with its regular expressions, the sample tasks and the
  registry. A pattern is a list of items that a backtracking matcher runs over the text. The grader splices its
  \<open>expected\<close> text into the patterns; where that text has characters with a meaning in a pattern, \<open>re.search\<close> on the
  finished pattern is the argument \<open>rs\<close>.
\<close>

section \<open>Patterns\<close>

text \<open>A character, \<open>\s*\<close>, \<open>\s\<close>, an optional character of a class, a character of a class, \<open>\b\<close> and \<open>^\<close>.\<close>

datatype pat_item = Exactly nat | Spaces | One_Space | Maybe "nat list" | One_Of "nat list" | Word_Bound | At_Start

definition word_bound :: "unicode \<Rightarrow> nat option \<Rightarrow> pystr \<Rightarrow> bool" where
  "word_bound u prev s \<longleftrightarrow>
     (case prev of None \<Rightarrow> False | Some c \<Rightarrow> word_char u c) \<noteq> (case s of [] \<Rightarrow> False | c # _ \<Rightarrow> word_char u c)"

text \<open>Does the pattern match at the start of \<open>s\<close>, with \<open>prev\<close> the character before it?\<close>

function match_here :: "unicode \<Rightarrow> pat_item list \<Rightarrow> nat option \<Rightarrow> pystr \<Rightarrow> bool" where
  "match_here u [] prev s = True"
| "match_here u (Exactly c # ps) prev s =
     (case s of [] \<Rightarrow> False | x # t \<Rightarrow> if x = c then match_here u ps (Some x) t else False)"
| "match_here u (Spaces # ps) prev s =
     (if match_here u ps prev s then True
      else (case s of [] \<Rightarrow> False | x # t \<Rightarrow> if py_isspace x then match_here u (Spaces # ps) (Some x) t else False))"
| "match_here u (One_Space # ps) prev s =
     (case s of [] \<Rightarrow> False | x # t \<Rightarrow> if py_isspace x then match_here u ps (Some x) t else False)"
| "match_here u (Maybe cs # ps) prev s =
     (if (case s of [] \<Rightarrow> False | x # t \<Rightarrow> if x \<in> set cs then match_here u ps (Some x) t else False) then True
      else match_here u ps prev s)"
| "match_here u (One_Of cs # ps) prev s =
     (case s of [] \<Rightarrow> False | x # t \<Rightarrow> if x \<in> set cs then match_here u ps (Some x) t else False)"
| "match_here u (Word_Bound # ps) prev s = (if word_bound u prev s then match_here u ps prev s else False)"
| "match_here u (At_Start # ps) prev s = (if prev = None then match_here u ps prev s else False)"
  by pat_completeness auto

termination match_here
  by (relation "measures [\<lambda>(u, ps, prev, s). length s, \<lambda>(u, ps, prev, s). length ps]") auto

declare match_here.simps [simp del]

fun search_from :: "unicode \<Rightarrow> pat_item list \<Rightarrow> nat option \<Rightarrow> pystr \<Rightarrow> bool" where
  "search_from u ps prev [] = match_here u ps prev []"
| "search_from u ps prev (c # s) = (if match_here u ps prev (c # s) then True else search_from u ps (Some c) s)"

section \<open>The MMLU grader\<close>

definition meta_chars :: pystr where
  "meta_chars = [46, 94, 36, 42, 43, 63, 123, 125, 91, 93, 92, 124, 40, 41]"

text \<open>The five patterns around the expected text, as items and as the text Python compiles.\<close>

definition mmlu_items :: "pystr \<Rightarrow> pat_item list list" where
  "mmlu_items e =
     (let x = map Exactly e; answer = map Exactly (lit ''ANSWER'') in
      [answer @ [Spaces, Maybe [58, 45], Spaces] @ x @ [Word_Bound],
       answer @ [One_Space, Spaces] @ map Exactly (lit ''IS'') @ [Spaces, Maybe [58, 45], Spaces] @ x @ [Word_Bound],
       [Exactly 40] @ x @ [Exactly 41],
       [At_Start, Spaces] @ x @ [Spaces, One_Of [46, 44]]])"

definition mmlu_texts :: "pystr \<Rightarrow> pystr list" where
  "mmlu_texts e =
     (let b = [92, 98]; sp = [92, 115] in
      [lit ''ANSWER'' @ sp @ lit ''*[:'' @ [92] @ lit ''-]?'' @ sp @ lit ''*'' @ e @ b,
       lit ''ANSWER'' @ sp @ lit ''+IS'' @ sp @ lit ''*[:'' @ [92] @ lit ''-]?'' @ sp @ lit ''*'' @ e @ b,
       [92, 40] @ e @ [92, 41],
       [94] @ sp @ lit ''*'' @ e @ sp @ lit ''*['' @ [92, 46, 92, 44] @ lit '']''])"

definition mmlu_grader :: "unicode \<Rightarrow> (nat \<Rightarrow> pystr) \<Rightarrow> (pystr \<Rightarrow> pystr \<Rightarrow> bool) \<Rightarrow> grader" where
  "mmlu_grader u up rs out expected =
     (let e = py_upper up (py_strip expected); t = py_upper up out in
      if e = [] then 0
      else if list_all (\<lambda>c. c \<notin> set meta_chars) e
      then (if list_ex (\<lambda>ps. search_from u ps None t) (mmlu_items e) then 1
            else if search_from u ([Word_Bound] @ map Exactly e @ [Word_Bound]) None t then 1 / 2 else 0)
      else (if list_ex (\<lambda>p. rs p t) (mmlu_texts e) then 1
            else if rs ([92, 98] @ e @ [92, 98]) t then 1 / 2 else 0))"

section \<open>The sample tasks\<close>

definition math_samples :: "(pystr \<times> pystr) list" where
  "math_samples =
     [(lit ''What is 17 + 25?'',
       lit ''42''),
      (lit ''What is 9 * 13?'',
       lit ''117''),
      (lit ''What is 144 / 12?'',
       lit ''12''),
      (lit ''What is 2^10?'',
       lit ''1024''),
      (lit ''What is 100 - 37?'',
       lit ''63'')]"

definition math_task :: "unicode \<Rightarrow> (pystr \<Rightarrow> real option) \<Rightarrow> bench_task" where
  "math_task u pf =
     \<lparr>bt_name = lit ''math_arithmetic'', bt_description = lit ''Simple arithmetic problems.'',
      bt_samples = math_samples, bt_grader = numeric_grader u pf, bt_tags = [lit ''math'', lit ''reasoning'']\<rparr>"

definition code_samples :: "(pystr \<times> pystr) list" where
  "code_samples =
     [(lit ''Write a Python function that returns the sum of a list.'',
       lit ''def sum_list''),
      (lit ''Write a Python function that reverses a string.'',
       lit ''def reverse_string''),
      (lit ''Write a Python function that checks if a number is prime.'',
       lit ''def is_prime''),
      (lit ''Write a Python function that returns the factorial of n.'',
       lit ''def factorial''),
      (lit ''Write a Python function that finds the max element of a list.'',
       lit ''def max_element'')]"

definition code_task :: "unicode \<Rightarrow> bench_task" where
  "code_task u =
     \<lparr>bt_name = lit ''code_python_basics'', bt_description = lit ''Basic Python coding questions.'',
      bt_samples = code_samples, bt_grader = keyword_coverage_grader u, bt_tags = [lit ''code'', lit ''python'']\<rparr>"

definition qa_samples :: "(pystr \<times> pystr) list" where
  "qa_samples =
     [(lit ''What is the capital of France?'',
       lit ''Paris''),
      (lit ''What is the largest planet in our solar system?'',
       lit ''Jupiter''),
      (lit ''Who wrote the play 'Hamlet'?'',
       lit ''Shakespeare''),
      (lit ''What is the chemical symbol for gold?'',
       lit ''Au''),
      (lit ''In what year did the Berlin Wall fall?'',
       lit ''1989'')]"

definition qa_task :: "unicode \<Rightarrow> bench_task" where
  "qa_task u =
     \<lparr>bt_name = lit ''qa_factual'', bt_description = lit ''Factual question answering.'',
      bt_samples = qa_samples, bt_grader = exact_match_grader u, bt_tags = [lit ''qa'', lit ''knowledge'']\<rparr>"

definition summary_samples :: "(pystr \<times> pystr) list" where
  "summary_samples =
     [(lit ''Summarize: The CHEN architecture replaces a single large model with a coordinated network of small '' @
       lit ''specialized models. By routing tokens through a dynamic pipeline and sharing latent memory states '' @
       lit ''between models, CHEN simulates the parameter capacity of a frontier model at a fraction of the compute '' @
       lit ''cost.'',
       lit ''small models,routing,kv-cache,cost''),
      (lit ''Summarize: Mixture of Experts is a machine learning technique where multiple specialized subnetworks '' @
       lit ''(experts) process different parts of the input. A gating network decides which expert to use for each '' @
       lit ''input. This allows the model to scale parameters without proportionally scaling compute per query.'',
       lit ''experts,gating,scale,compute'')]"

definition summary_task :: "unicode \<Rightarrow> bench_task" where
  "summary_task u =
     \<lparr>bt_name = lit ''summarization'', bt_description = lit ''Summarize a short passage.'',
      bt_samples = summary_samples, bt_grader = keyword_coverage_grader u, bt_tags = [lit ''summarization'', lit ''synthesis'']\<rparr>"

definition reasoning_samples :: "(pystr \<times> pystr) list" where
  "reasoning_samples =
     [(lit ''If all cats are mammals, and Whiskers is a cat, what is Whiskers?'',
       lit ''mammal''),
      (lit ''Alice is taller than Bob. Bob is taller than Carol. Who is the shortest?'',
       lit ''Carol''),
      (lit ''A train travels 60 mph for 2 hours, then 80 mph for 1 hour. Total distance?'',
       lit ''200''),
      (lit ''If today is Monday, what day is it 100 days from now?'',
       lit ''Wednesday''),
      (lit ''Solve: 3x + 7 = 22. What is x?'',
       lit ''5'')]"

definition reasoning_task :: "unicode \<Rightarrow> bench_task" where
  "reasoning_task u =
     \<lparr>bt_name = lit ''reasoning_logical'', bt_description = lit ''Multi-step logical reasoning.'',
      bt_samples = reasoning_samples, bt_grader = mock_friendly_grader u, bt_tags = [lit ''reasoning'', lit ''logic'']\<rparr>"

definition mmlu_samples :: "(pystr \<times> pystr) list" where
  "mmlu_samples =
     [(lit ''Question: What is 7 + 6?'' @ nl @ lit ''A) 12'' @ nl @ lit ''B) 13'' @ nl @ lit ''C) 14'' @ nl @
       lit ''D) 15'' @ nl @ lit ''Answer:'',
       lit ''B''),
      (lit ''Question: Which of the following is the ground state electron configuration of oxygen?'' @ nl @
       lit ''A) 1s2 2s2 2p4'' @ nl @ lit ''B) 1s2 2s2 2p6'' @ nl @ lit ''C) 1s2 2s2 2p2'' @ nl @
       lit ''D) 1s2 2s2 2p3'' @ nl @ lit ''Answer:'',
       lit ''A''),
      (lit ''Question: In what year did World War II end?'' @ nl @ lit ''A) 1943'' @ nl @ lit ''B) 1944'' @ nl @
       lit ''C) 1945'' @ nl @ lit ''D) 1946'' @ nl @ lit ''Answer:'',
       lit ''C''),
      (lit ''Question: Which amendment to the US Constitution guarantees freedom of speech?'' @ nl @ lit ''A) First'' @
       nl @ lit ''B) Second'' @ nl @ lit ''C) Fourth'' @ nl @ lit ''D) Fifth'' @ nl @ lit ''Answer:'',
       lit ''A''),
      (lit ''Question: What is the time complexity of binary search on a sorted array?'' @ nl @ lit ''A) O(n)'' @ nl @
       lit ''B) O(n log n)'' @ nl @ lit ''C) O(log n)'' @ nl @ lit ''D) O(1)'' @ nl @ lit ''Answer:'',
       lit ''C'')]"

definition mmlu_task :: "unicode \<Rightarrow> (nat \<Rightarrow> pystr) \<Rightarrow> (pystr \<Rightarrow> pystr \<Rightarrow> bool) \<Rightarrow> bench_task" where
  "mmlu_task u up rs =
     \<lparr>bt_name = lit ''mmlu'', bt_description = lit ''MMLU '' @ [8212] @ lit '' Massive Multitask Language Understanding (subset).'',
      bt_samples = mmlu_samples, bt_grader = mmlu_grader u up rs, bt_tags = [lit ''mmlu'', lit ''knowledge'', lit ''multiple_choice'']\<rparr>"

definition humaneval_samples :: "(pystr \<times> pystr) list" where
  "humaneval_samples =
     [(lit ''Complete the following Python function:'' @ nl @ nl @ lit ''def add(a, b):'' @ nl @ lit ''    '' @ [34] @
       [34] @ [34] @ lit ''Return the sum of two numbers.'' @ [34] @ [34] @ [34] @ nl,
       lit ''return a + b''),
      (lit ''Complete the following Python function:'' @ nl @ nl @ lit ''def is_even(n):'' @ nl @ lit ''    '' @ [34] @
       [34] @ [34] @ lit ''Return True if n is even, False otherwise.'' @ [34] @ [34] @ [34] @ nl,
       lit ''return n % 2 == 0''),
      (lit ''Complete the following Python function:'' @ nl @ nl @ lit ''def factorial(n):'' @ nl @ lit ''    '' @
       [34] @ [34] @ [34] @ lit ''Return the factorial of n.'' @ [34] @ [34] @ [34] @ nl,
       lit ''return 1 if n <= 1 else n * factorial(n - 1)''),
      (lit ''Complete the following Python function:'' @ nl @ nl @ lit ''def reverse_string(s):'' @ nl @ lit ''    '' @
       [34] @ [34] @ [34] @ lit ''Return the reversed string.'' @ [34] @ [34] @ [34] @ nl,
       lit ''return s[::-1]''),
      (lit ''Complete the following Python function:'' @ nl @ nl @ lit ''def max_of_list(lst):'' @ nl @ lit ''    '' @
       [34] @ [34] @ [34] @ lit ''Return the maximum element in the list.'' @ [34] @ [34] @ [34] @ nl,
       lit ''return max(lst)'')]"

definition humaneval_task :: "bench_task" where
  "humaneval_task =
     \<lparr>bt_name = lit ''humaneval'', bt_description = lit ''HumanEval '' @ [8212] @ lit '' code generation benchmark (subset).'',
      bt_samples = humaneval_samples, bt_grader = humaneval_grader, bt_tags = [lit ''humaneval'', lit ''code'', lit ''python'']\<rparr>"

definition gsm8k_samples :: "(pystr \<times> pystr) list" where
  "gsm8k_samples =
     [(lit ''Janet's ducks lay 16 eggs per day. She eats three for breakfast every morning and bakes muffins for her '' @
       lit ''friends every day with four. She sells the remainder at the farmers' market daily for $2 per fresh duck '' @
       lit ''egg. How much in dollars does she make every day at the farmers' market?'',
       lit ''18''),
      (lit ''A robe takes 2 bolts of blue fiber and half that much white fiber. How many bolts in total does it take?'',
       lit ''3''),
      (lit ''Josh decides to try flipping a house. He buys a house for $80,000 and then puts in $50,000 in repairs. '' @
       lit ''This increased the value of the house by 150%. How much profit did he make?'',
       lit ''70000''),
      (lit ''James decides to run 3 sprints 3 times a week. He runs 60 meters each sprint. How many total meters does '' @
       lit ''he run a week?'',
       lit ''540''),
      (lit ''Every day, Wendi feeds each of her chickens three cups of mixed chicken feed, containing seeds, '' @
       lit ''mealworms and vegetables to help keep them healthy. She gives the chickens their feed in three separate '' @
       lit ''meals. In the morning, she gives her flock of chickens 15 cups of feed. In the afternoon, she gives her '' @
       lit ''chickens another 25 cups of feed. How many cups of feed does she need to give her chickens in the final '' @
       lit ''meal of the day if the size of Wendi's flock is 20 chickens?'',
       lit ''20'')]"

definition gsm8k_task :: "unicode \<Rightarrow> bench_task" where
  "gsm8k_task u =
     \<lparr>bt_name = lit ''gsm8k'', bt_description = lit ''GSM8K '' @ [8212] @ lit '' grade school math problems (subset).'',
      bt_samples = gsm8k_samples, bt_grader = gsm8k_grader u, bt_tags = [lit ''gsm8k'', lit ''math'', lit ''reasoning'']\<rparr>"

section \<open>The registry\<close>

definition builtin_tasks ::
  "unicode \<Rightarrow> (pystr \<Rightarrow> real option) \<Rightarrow> (nat \<Rightarrow> pystr) \<Rightarrow> (pystr \<Rightarrow> pystr \<Rightarrow> bool) \<Rightarrow> bench_task list" where
  "builtin_tasks u pf up rs =
     [math_task u pf, code_task u, qa_task u, summary_task u, reasoning_task u, mmlu_task u up rs, humaneval_task, gsm8k_task u]"

definition builtin_registry ::
  "unicode \<Rightarrow> (pystr \<Rightarrow> real option) \<Rightarrow> (nat \<Rightarrow> pystr) \<Rightarrow> (pystr \<Rightarrow> pystr \<Rightarrow> bool) \<Rightarrow> task_registry" where
  "builtin_registry u pf up rs = fold register_task (builtin_tasks u pf up rs) []"

section \<open>Lemmas\<close>

text \<open>The names differ, so registering keeps every task, in order.\<close>

lemma register_fresh: "bt_name t \<notin> fst ` set reg \<Longrightarrow> register_task t reg = reg @ [(bt_name t, t)]"
  by (induction reg) (auto simp: register_task_def)

lemma fold_register:
  "distinct (map fst reg @ map bt_name ts) \<Longrightarrow> fold register_task ts reg = reg @ map (\<lambda>t. (bt_name t, t)) ts"
proof (induction ts arbitrary: reg)
  case (Cons t ts)
  have "bt_name t \<notin> fst ` set reg" using Cons.prems by auto
  moreover have "distinct (map fst (reg @ [(bt_name t, t)]) @ map bt_name ts)" using Cons.prems by auto
  ultimately show ?case using Cons.IH by (simp add: register_fresh)
qed simp

lemma builtin_names:
  "map bt_name (builtin_tasks u pf up rs) =
     [lit ''math_arithmetic'', lit ''code_python_basics'', lit ''qa_factual'', lit ''summarization'', lit ''reasoning_logical'',
      lit ''mmlu'', lit ''humaneval'', lit ''gsm8k'']"
  by (simp add: builtin_tasks_def math_task_def code_task_def qa_task_def summary_task_def reasoning_task_def
      mmlu_task_def humaneval_task_def gsm8k_task_def del: lit_Cons)

lemma builtin_distinct: "distinct (map bt_name (builtin_tasks u pf up rs))"
  unfolding builtin_names by simp

lemma builtin_registry_map:
  "builtin_registry u pf up rs = map (\<lambda>t. (bt_name t, t)) (builtin_tasks u pf up rs)"
  using fold_register [of "[]" "builtin_tasks u pf up rs"] builtin_distinct by (simp add: builtin_registry_def)

lemma map_of_names:
  assumes "distinct (map bt_name ts)" and "t \<in> set ts"
  shows "map_of (map (\<lambda>t. (bt_name t, t)) ts) (bt_name t) = Some t"
  by (rule map_of_is_SomeI) (use assms in \<open>simp_all add: o_def\<close>)

lemma mmlu_unit: "unit_grader (mmlu_grader u up rs)"
  by (rule unit_graderI) (simp_all add: mmlu_grader_def Let_def)

lemma builtin_unit: "t \<in> set (builtin_tasks u pf up rs) \<Longrightarrow> unit_grader (bt_grader t)"
  by (auto simp: builtin_tasks_def math_task_def code_task_def qa_task_def summary_task_def reasoning_task_def
      mmlu_task_def humaneval_task_def gsm8k_task_def graders_unit mmlu_unit)

text \<open>The accuracy of one task, and a suite of tasks on a pipeline that always answers.\<close>

lemma run_task_accuracy:
  assumes "run_task b t mt w = (Inr r, w')" and "unit_grader (bt_grader t)"
  shows "br_task_name r = bt_name t \<and> 0 \<le> br_avg_accuracy r \<and> br_avg_accuracy r \<le> 1"
proof -
  obtain s where su: "sums_to (bt_grader t) (bt_samples t) s" and nm: "br_task_name s = bt_name t" and r: "r = finish_result b t s"
    using run_task_parts [OF assms(1)] by (elim exE conjE) (rule that)
  show ?thesis using finish_accuracy(2) [OF su assms(2), of b] nm by (simp add: r finish_result_def Let_def)
qed

lemma nofail_samples_on:
  assumes "\<And>q x. (q, x) \<in> set xs \<Longrightarrow> nofail (run_pipeline pl q (Some mt))"
  shows "nofail (run_samples pl g mt xs s)"
  using assms
proof (induction xs arbitrary: s)
  case (Cons x xs)
  then show ?case by (cases x) (auto intro!: nofail_bnd)
qed (simp add: nofail_ret)

lemma nofail_task_on:
  assumes "\<And>q x. (q, x) \<in> set (bt_samples t) \<Longrightarrow> nofail (run_pipeline (bn_pipeline b) q (Some mt))"
  shows "nofail (run_task b t mt)"
  unfolding run_task_def by (intro nofail_bnd nofail_ret nofail_samples_on assms)

lemma run_each_returns:
  assumes "\<And>k. k \<in> set ks \<Longrightarrow> nofail (f k)" and "\<And>k w x w'. k \<in> set ks \<Longrightarrow> f k w = (Inr x, w') \<Longrightarrow> P k x"
  shows "\<exists>xs w'. run_each f ks w = (Inr xs, w') \<and> list_all2 P ks xs"
  using assms
proof (induction ks arbitrary: w)
  case (Cons k ks)
  have "nofail (f k)" using Cons.prems(1) by simp
  then obtain x w1 where x: "f k w = (Inr x, w1)" by (rule nofailE)
  obtain xs w2 where xs: "run_each f ks w1 = (Inr xs, w2)" "list_all2 P ks xs" using Cons by force
  have "P k x" using Cons.prems(2) [OF _ x] by simp
  then show ?case using xs by (simp add: bnd_apply x)
qed simp

text \<open>On ASCII text the matcher does not depend on the character tables.\<close>

definition plain_unicode :: unicode where
  "plain_unicode = \<lparr>u_lower = \<lambda>c. [c], u_word = \<lambda>_. False, u_digit = \<lambda>_. False, u_printable = \<lambda>_. True\<rparr>"

lemma word_char_ascii: "c < 128 \<Longrightarrow> word_char u c = word_char v c"
  by (simp add: word_char_def)

lemma match_here_ascii:
  assumes "list_all (\<lambda>c. c < 128) s" and "case prev of None \<Rightarrow> True | Some c \<Rightarrow> c < 128"
  shows "match_here u ps prev s = match_here v ps prev s"
  using assms
proof (induction u ps prev s rule: match_here.induct)
  case (1 u prev s)
  show ?case by (simp add: match_here.simps(1))
next
  case (2 u c ps prev s)
  then show ?case by (cases s) (simp_all add: match_here.simps(2))
next
  case (3 u ps prev s)
  then show ?case by (cases s) (simp_all add: match_here.simps(3))
next
  case (4 u ps prev s)
  then show ?case by (cases s) (simp_all add: match_here.simps(4))
next
  case (5 u cs ps prev s)
  then show ?case by (cases s) (simp_all add: match_here.simps(5))
next
  case (6 u cs ps prev s)
  then show ?case by (cases s) (simp_all add: match_here.simps(6))
next
  case (7 u ps prev s)
  have "word_bound u prev s = word_bound v prev s"
    using "7.prems" word_char_ascii [of _ u v] by (auto simp: word_bound_def split: option.splits list.splits)
  then show ?case using 7 by (simp add: match_here.simps(7))
next
  case (8 u ps prev s)
  then show ?case by (simp add: match_here.simps(8))
qed

lemma search_from_ascii:
  "list_all (\<lambda>c. c < 128) s \<Longrightarrow> (case prev of None \<Rightarrow> True | Some c \<Rightarrow> c < 128) \<Longrightarrow>
   search_from u ps prev s = search_from v ps prev s"
proof (induction s arbitrary: prev)
  case Nil
  then show ?case using match_here_ascii [of "[]" prev u ps v] by simp
next
  case (Cons c s)
  have "match_here u ps prev (c # s) = match_here v ps prev (c # s)"
    using Cons.prems by (intro match_here_ascii)
  then show ?case using Cons by simp
qed

lemma py_upper_ascii: "list_all (\<lambda>c. c < 128) s \<Longrightarrow> py_upper up s = py_upper up' s"
  unfolding py_upper_def by (intro arg_cong [where f = concat] map_cong) (auto simp: list_all_iff)

lemma py_upper_is_ascii: "list_all (\<lambda>c. c < 128) s \<Longrightarrow> list_all (\<lambda>c. c < 128) (py_upper up s)"
  by (induction s) (auto simp: py_upper_def)

lemma mmlu_samples_ascii: "list_all (\<lambda>(p, e). list_all (\<lambda>c. c < 128) p \<and> list_all (\<lambda>c. c < 128) (py_strip e)) mmlu_samples"
  by (simp add: mmlu_samples_def py_strip_def py_isspace_def)

definition echo_half :: "pystr \<times> pystr \<Rightarrow> bool" where
  "echo_half pe \<longleftrightarrow>
     (let x = py_upper (\<lambda>c. [c]) (py_strip (snd pe)); t = py_upper (\<lambda>c. [c]) (fst pe) in
      x \<noteq> [] \<and> list_all (\<lambda>c. c \<notin> set meta_chars) x \<and> \<not> list_ex (\<lambda>ps. search_from plain_unicode ps None t) (mmlu_items x) \<and>
      search_from plain_unicode ([Word_Bound] @ map Exactly x @ [Word_Bound]) None t)"

lemmas echo_simps = mmlu_samples_def echo_half_def py_upper_def py_strip_def meta_chars_def mmlu_items_def match_here.simps
  word_bound_def word_char_def py_isspace_def Let_def

lemma mmlu_sample_count: "length mmlu_samples = 5"
  by (simp add: mmlu_samples_def)

lemma mmlu_echo_0: "echo_half (mmlu_samples ! 0)"
  by (simp add: echo_simps cong: if_weak_cong)

lemma mmlu_echo_1: "echo_half (mmlu_samples ! 1)"
  by (simp add: echo_simps cong: if_weak_cong)

lemma mmlu_echo_2: "echo_half (mmlu_samples ! 2)"
  by (simp add: echo_simps cong: if_weak_cong)

lemma mmlu_echo_3: "echo_half (mmlu_samples ! 3)"
  by (simp add: echo_simps cong: if_weak_cong)

lemma mmlu_echo_4: "echo_half (mmlu_samples ! 4)"
  by (simp add: echo_simps cong: if_weak_cong)

lemma mmlu_echo_plain: "list_all echo_half mmlu_samples"
proof -
  have "{..<5} = {0, 1, 2, 3, 4 :: nat}" by auto
  then have "echo_half (mmlu_samples ! i)" if "i < 5" for i
    using that mmlu_echo_0 mmlu_echo_1 mmlu_echo_2 mmlu_echo_3 mmlu_echo_4 by (metis insertE lessThan_iff singletonD)
  then show ?thesis by (simp add: list_all_length mmlu_sample_count)
qed

lemma echo_half_grade:
  assumes "echo_half (p, e)" and "list_all (\<lambda>c. c < 128) p" and "list_all (\<lambda>c. c < 128) (py_strip e)"
  shows "mmlu_grader u up rs p e = 1 / 2"
proof -
  let ?t = "py_upper (\<lambda>c. [c]) p"
  have t: "py_upper up p = ?t" and x: "py_upper up (py_strip e) = py_upper (\<lambda>c. [c]) (py_strip e)"
    using assms(2,3) by (simp_all only: py_upper_ascii [of _ up "\<lambda>c. [c]"])
  have s: "search_from u ps None ?t = search_from plain_unicode ps None ?t" for ps
    using py_upper_is_ascii [OF assms(2)] by (intro search_from_ascii) simp_all
  show ?thesis using assms(1) unfolding mmlu_grader_def t x Let_def s echo_half_def by (simp only: fst_conv snd_conv if_True if_False simp_thms)
qed

section \<open>Properties\<close>

text \<open>C26: On a pipeline that answers the prompts of the samples the benchmark suite ends with one report per built-in task, in the
  order they were registered, and every accuracy lies between 0 and 1: all eight graders keep to that range.\<close>

theorem builtin_suite_reports:
  assumes "\<And>t q x. t \<in> set (builtin_tasks u pf up re) \<Longrightarrow> (q, x) \<in> set (bt_samples t) \<Longrightarrow>
      nofail (run_pipeline (bn_pipeline b) q (Some mt))"
  shows "\<exists>rs w'. run_all b (builtin_registry u pf up re) mt w = (Inr rs, w') \<and>
     map br_task_name rs = map bt_name (builtin_tasks u pf up re) \<and>
     (\<forall>r\<in>set rs. 0 \<le> br_avg_accuracy r \<and> br_avg_accuracy r \<le> 1)"
proof -
  let ?reg = "builtin_registry u pf up re"
  let ?P = "\<lambda>n r. br_task_name r = n \<and> 0 \<le> br_avg_accuracy r \<and> br_avg_accuracy r \<le> (1 :: real)"
  have at: "\<exists>t. map_of ?reg n = Some t \<and> bt_name t = n \<and> unit_grader (bt_grader t) \<and> nofail (run_task b t mt)" if n: "n \<in> set (map fst ?reg)" for n
  proof -
    obtain t where t: "t \<in> set (builtin_tasks u pf up re)" "n = bt_name t" using n by (auto simp: builtin_registry_map)
    have "nofail (run_task b t mt)" using t(1) assms by (intro nofail_task_on)
    with map_of_names [OF builtin_distinct t(1)] builtin_unit [OF t(1)] t(2) show ?thesis by (auto simp: builtin_registry_map)
  qed
  have "\<exists>rs w'. run_each (\<lambda>n. run_task_named b ?reg n mt) (map fst ?reg) w = (Inr rs, w') \<and> list_all2 ?P (map fst ?reg) rs"
  proof (rule run_each_returns)
    fix n assume n: "n \<in> set (map fst ?reg)"
    obtain t where t: "map_of ?reg n = Some t" "bt_name t = n" "unit_grader (bt_grader t)" "nofail (run_task b t mt)"
      using at [OF n] by blast
    show "nofail (run_task_named b ?reg n mt)" by (simp add: run_task_named_def t)
    fix v r v' assume "run_task_named b ?reg n mt v = (Inr r, v')"
    then show "?P n r" using run_task_accuracy [of b t mt v r v'] t by (simp add: run_task_named_def)
  qed
  then obtain rs w' where rs: "run_all b ?reg mt w = (Inr rs, w')" "list_all2 ?P (map fst ?reg) rs"
    unfolding run_all_def by blast
  have "map br_task_name rs = map fst ?reg"
    using rs(2) by (induction rule: list_all2_induct) auto
  moreover have "\<forall>r\<in>set rs. 0 \<le> br_avg_accuracy r \<and> br_avg_accuracy r \<le> 1"
    using rs(2) by (induction rule: list_all2_induct) auto
  moreover have "map fst ?reg = map bt_name (builtin_tasks u pf up re)" by (simp add: builtin_registry_map)
  ultimately show ?thesis using rs(1) by metis
qed

theorem builtin_suite_reports_witness:
  "\<exists>rs w'. run_all unit_bench (builtin_registry (sv_unicode unit_server) (\<lambda>_. None) (\<lambda>c. [c]) (\<lambda>_ _. False)) 5 () = (Inr rs, w') \<and>
     length rs = 8"
proof -
  have es: "map ex_name unit_experts = garage_names"
    by (simp add: unit_experts_def garage_def garage_names_def mk_expert_def)
  then have nm: "set [lit ''analyst'', lit ''synthesizer''] \<subseteq> ex_name ` set unit_experts"
    unfolding set_map [symmetric] by (simp add: garage_names_def)
  have a: "\<forall>e\<in>set unit_experts. answering (ex_backend e)" by (auto simp: unit_experts_def mk_expert_def)
  have "nofail (run_pipeline (bn_pipeline unit_bench) p k)" for p k
    using nofail_runs(1) [OF a nm] by (simp add: unit_bench_def run_pipeline_def del: lit_Cons)
  from builtin_suite_reports [OF this, where u = "sv_unicode unit_server" and pf = "\<lambda>_. None" and up = "\<lambda>c. [c]" and
      re = "\<lambda>_ _. False" and mt = 5 and w = "()"]
  obtain rs w' where rs: "run_all unit_bench (builtin_registry (sv_unicode unit_server) (\<lambda>_. None) (\<lambda>c. [c]) (\<lambda>_ _. False)) 5 ()
      = (Inr rs, w')"
    "map br_task_name rs = map bt_name (builtin_tasks (sv_unicode unit_server) (\<lambda>_. None) (\<lambda>c. [c]) (\<lambda>_ _. False))"
    by (elim exE conjE) (rule that)
  from arg_cong [OF rs(2), of length] have "length rs = 8" by (simp add: builtin_names del: lit_Cons) 
  with rs(1) show ?thesis by blast
qed

text \<open>Copying the question earns half the credit on every MMLU sample: the prompt lists the answer's letter as a word, which
  the fallback of the grader accepts, so an answer that repeats the choices and makes none scores 1/2.\<close>

theorem mmlu_echo_half_credit:
  "map (\<lambda>(p, e). mmlu_grader u up re p e) mmlu_samples = replicate 5 (1 / 2)"
proof -
  have "mmlu_grader u up re p e = 1 / 2" if "(p, e) \<in> set mmlu_samples" for p e
    using that mmlu_echo_plain mmlu_samples_ascii by (intro echo_half_grade) (auto simp: list_all_iff)
  then have "map (\<lambda>(p, e). mmlu_grader u up re p e) mmlu_samples = map (\<lambda>_. 1 / 2) mmlu_samples"
    by (intro map_cong) auto
  then show ?thesis by (simp add: map_replicate_const mmlu_sample_count)
qed

end
