(* ===== verification/Core_Carbon.thy ===== *)
theory Core_Carbon
  imports Core_Config Core_Expert
begin

text \<open>
  \<open>chen/core/carbon.py\<close>: the scheduler that lowers an expert's score by the carbon intensity of its zone. The
  state of an action is the scheduler with its cache, next to the outside world with the clock and the network.
  The HTTP request and the decoding of its answer are the argument \<open>fetch\<close>.
\<close>

section \<open>Readings and the scheduler\<close>

text \<open>A value of the decoded answer: a number (or a truth value, which counts as one), or something else, such as null.\<close>

datatype api_value = Num real | NotNum

datatype api_doc = Dict "(pystr \<times> api_value) list" | NotDict

record carbon_intensity =
  ci_zone :: pystr
  ci_gco2 :: api_value
  ci_renewable :: api_value
  ci_fossil :: api_value
  ci_timestamp :: real
  ci_source :: pystr

definition zone_defaults :: "(pystr \<times> real) list" where
  "zone_defaults =
     [(lit ''US-NW'', 50), (lit ''US-CA'', 100), (lit ''US-SE'', 400), (lit ''US-TX'', 350), (lit ''US-NY'', 200),
      (lit ''FR'', 50), (lit ''DE'', 350), (lit ''GB'', 250), (lit ''NO'', 20), (lit ''PL'', 600), (lit ''CN'', 550),
      (lit ''IN'', 700), (lit ''AU'', 500), (lit ''DEFAULT'', 400)]"

record carbon_scheduler =
  cs_enabled :: bool
  cs_api_key :: "pystr option"
  cs_default_zone :: pystr
  cs_cache_ttl :: real
  cs_weight :: real
  cs_cache :: "(pystr \<times> real \<times> carbon_intensity) list"

definition scheduler_post_init :: "environ \<Rightarrow> carbon_scheduler \<Rightarrow> carbon_scheduler" where
  "scheduler_post_init ev s =
     (if cs_enabled s
      then s\<lparr>cs_api_key := (case cs_api_key s of
                 Some k \<Rightarrow> (if k \<noteq> [] then Some k else ev (lit ''CHEN_ELECTRICITY_MAPS_API_KEY''))
               | None \<Rightarrow> ev (lit ''CHEN_ELECTRICITY_MAPS_API_KEY'')),
             cs_default_zone := env_str ev (lit ''CHEN_DEFAULT_ZONE'') (cs_default_zone s)\<rparr>
      else s)"

definition default_scheduler :: "bool \<Rightarrow> carbon_scheduler" where
  "default_scheduler on =
     \<lparr>cs_enabled = on, cs_api_key = None, cs_default_zone = lit ''US-NW'', cs_cache_ttl = 300, cs_weight = 2 / 10,
      cs_cache = []\<rparr>"

definition scheduler_from_env :: "environ \<Rightarrow> carbon_scheduler" where
  "scheduler_from_env ev = scheduler_post_init ev (default_scheduler (env_str ev (lit ''CHEN_CARBON_AWARE'') [] = lit ''1''))"

section \<open>Intensity of a zone\<close>

record 'w carbon_world =
  cw_time :: "'w \<Rightarrow> real \<times> 'w"
  cw_fetch :: "pystr \<Rightarrow> pystr \<Rightarrow> ('w, py_exc, api_doc) act"

type_synonym ('w, 'a) carbon_act = "(carbon_scheduler \<times> 'w, py_exc, 'a) act"

definition doc_get :: "(pystr \<times> api_value) list \<Rightarrow> pystr \<Rightarrow> real \<Rightarrow> api_value" where
  "doc_get kvs k dflt = (case map_of kvs k of Some v \<Rightarrow> v | None \<Rightarrow> Num dflt)"

text \<open>The \<open>timestamp\<close> of a reading is a call of the clock.\<close>

definition fetch_from_api :: "'w carbon_world \<Rightarrow> pystr \<Rightarrow> pystr \<Rightarrow> ('w, py_exc, carbon_intensity) act" where
  "fetch_from_api cw key zone =
     bnd (cw_fetch cw zone key) (\<lambda>doc.
     case doc of
       NotDict \<Rightarrow> raise OtherError
     | Dict kvs \<Rightarrow>
         bnd (tick (cw_time cw)) (\<lambda>t.
         ret \<lparr>ci_zone = zone, ci_gco2 = doc_get kvs (lit ''carbonIntensity'') 400,
              ci_renewable = doc_get kvs (lit ''renewableRatio'') 0, ci_fossil = doc_get kvs (lit ''fossilRatio'') 0,
              ci_timestamp = t, ci_source = lit ''electricity_maps''\<rparr>))"

definition zone_of :: "carbon_scheduler \<Rightarrow> pystr option \<Rightarrow> pystr" where
  "zone_of s zone = (case zone of Some z \<Rightarrow> (if z \<noteq> [] then z else cs_default_zone s) | None \<Rightarrow> cs_default_zone s)"

text \<open>\<open>self._cache[z] = (time.time(), intensity); return intensity\<close>\<close>

definition remember :: "'w carbon_world \<Rightarrow> pystr \<Rightarrow> carbon_intensity \<Rightarrow> ('w, carbon_intensity) carbon_act" where
  "remember cw z ci =
     bnd (on_snd (tick (cw_time cw))) (\<lambda>t. \<lambda>(s, w).
       (Inr ci, (s\<lparr>cs_cache := AList.update z (t, ci) (cs_cache s)\<rparr>, w)))"

definition zone_default :: "pystr \<Rightarrow> real" where
  "zone_default z = (case map_of zone_defaults z of Some g \<Rightarrow> g | None \<Rightarrow> 400)"

definition fall_back :: "'w carbon_world \<Rightarrow> pystr \<Rightarrow> ('w, carbon_intensity) carbon_act" where
  "fall_back cw z =
     bnd (on_snd (tick (cw_time cw))) (\<lambda>t.
       remember cw z \<lparr>ci_zone = z, ci_gco2 = Num (zone_default z), ci_renewable = Num 0, ci_fossil = Num 0,
                      ci_timestamp = t, ci_source = lit ''zone_default''\<rparr>)"

text \<open>The part after the cache: the API when there is a key that is not empty, then the defaults.\<close>

definition look_up :: "'w carbon_world \<Rightarrow> pystr \<Rightarrow> ('w, carbon_intensity) carbon_act" where
  "look_up cw z = (\<lambda>(s, w).
     case cs_api_key s of
       Some k \<Rightarrow>
         (if k \<noteq> []
          then try_except (bnd (on_snd (fetch_from_api cw k z)) (remember cw z)) (\<lambda>_. fall_back cw z) (s, w)
          else fall_back cw z (s, w))
     | None \<Rightarrow> fall_back cw z (s, w))"

definition get_intensity :: "'w carbon_world \<Rightarrow> pystr option \<Rightarrow> ('w, carbon_intensity) carbon_act" where
  "get_intensity cw zone = (\<lambda>(s, w).
     let z = zone_of s zone in
     case map_of (cs_cache s) z of
       None \<Rightarrow> look_up cw z (s, w)
     | Some (ts, cached) \<Rightarrow>
         bnd (on_snd (tick (cw_time cw))) (\<lambda>now. if now - ts < cs_cache_ttl s then ret cached else look_up cw z) (s, w))"

section \<open>Scores and emissions\<close>

definition carbon_score :: "real \<Rightarrow> real" where
  "carbon_score g = max 0 (1 - g / 700)"

definition score_expert :: "'w carbon_world \<Rightarrow> pystr option \<Rightarrow> real \<Rightarrow> ('w, real) carbon_act" where
  "score_expert cw zone base = (\<lambda>(s, w).
     if \<not> cs_enabled s then (Inr base, (s, w))
     else bnd (get_intensity cw zone) (\<lambda>ci.
            case ci_gco2 ci of
              NotNum \<Rightarrow> raise TypeError
            | Num g \<Rightarrow> ret (base * (1 - cs_weight s) + carbon_score g * cs_weight s)) (s, w))"

definition estimate_co2 :: "'w carbon_world \<Rightarrow> real \<Rightarrow> pystr option \<Rightarrow> ('w, real) carbon_act" where
  "estimate_co2 cw kwh zone =
     bnd (get_intensity cw zone) (\<lambda>ci. case ci_gco2 ci of NotNum \<Rightarrow> raise TypeError | Num g \<Rightarrow> ret (kwh * g))"

section \<open>The cache\<close>

text \<open>What is kept under a zone is a reading of that zone.\<close>

definition cache_ok :: "carbon_scheduler \<Rightarrow> bool" where
  "cache_ok s \<longleftrightarrow> (\<forall>z t ci. map_of (cs_cache s) z = Some (t, ci) \<longrightarrow> ci_zone ci = z)"

text \<open>What a lookup may do to the scheduler: put a reading of the zone into its cache.\<close>

definition cached_as :: "pystr \<Rightarrow> carbon_intensity \<Rightarrow> carbon_scheduler \<Rightarrow> carbon_scheduler \<Rightarrow> bool" where
  "cached_as z ci s s' \<longleftrightarrow> ci_zone ci = z \<and> (\<exists>t. s' = s\<lparr>cs_cache := AList.update z (t, ci) (cs_cache s)\<rparr>)"

lemma cache_ok_update:
  assumes "cache_ok s" and "cached_as z ci s s'"
  shows "cache_ok s'"
  using assms by (auto simp: cache_ok_def cached_as_def update_conv split: if_splits)

lemma cached_as_lookup:
  assumes "cached_as z ci s s'"
  shows "\<exists>t. map_of (cs_cache s') z = Some (t, ci)"
  using assms by (auto simp: cached_as_def update_conv)

lemma remember_result: "\<exists>w' s'. remember cw (ci_zone ci) ci (s, w) = (Inr ci, (s', w')) \<and> cached_as (ci_zone ci) ci s s'"
  by (cases "cw_time cw w") (auto simp: remember_def bnd_apply on_snd_apply tick_def cached_as_def)

lemma remember_zone:
  assumes "ci_zone ci = z"
  shows "\<exists>w' s'. remember cw z ci (s, w) = (Inr ci, (s', w')) \<and> cached_as z ci s s'"
  using remember_result [of cw ci s w] assms by simp

definition default_reading :: "pystr \<Rightarrow> carbon_intensity \<Rightarrow> bool" where
  "default_reading z ci \<longleftrightarrow> ci_zone ci = z \<and> ci_gco2 ci = Num (zone_default z) \<and> ci_source ci = lit ''zone_default''"

lemma fall_back_result:
  "\<exists>ci s' w'. fall_back cw z (s, w) = (Inr ci, (s', w')) \<and> cached_as z ci s s' \<and> default_reading z ci"
proof -
  obtain t v where t: "cw_time cw w = (t, v)" by (cases "cw_time cw w")
  let ?ci = "\<lparr>ci_zone = z, ci_gco2 = Num (zone_default z), ci_renewable = Num 0, ci_fossil = Num 0,
    ci_timestamp = t, ci_source = lit ''zone_default''\<rparr>"
  have z: "ci_zone ?ci = z" by simp
  obtain w' s' where "remember cw z ?ci (s, v) = (Inr ?ci, (s', w'))" and c: "cached_as z ?ci s s'"
    using remember_zone [OF z, of cw s v] by (elim exE conjE) (rule that)
  then have "fall_back cw z (s, w) = (Inr ?ci, (s', w'))"
    by (simp add: fall_back_def bnd_apply on_snd_apply tick_def t del: lit_Cons)
  moreover have "default_reading z ?ci" by (simp add: default_reading_def del: lit_Cons)
  ultimately show ?thesis using c by fast
qed

text \<open>Every lookup past the cache answers with a reading of the zone and keeps it.\<close>

lemma fetch_zone: "fetch_from_api cw k z w = (Inr ci, w') \<Longrightarrow> ci_zone ci = z"
  by (auto simp: fetch_from_api_def bnd_apply tick_def split: prod.splits sum.splits api_doc.splits)

lemma look_up_result:
  "\<exists>ci s' w'. look_up cw z (s, w) = (Inr ci, (s', w')) \<and> cached_as z ci s s' \<and>
     (default_reading z ci \<or> (\<exists>k v. cs_api_key s = Some k \<and> fetch_from_api cw k z w = (Inr ci, v)))"
proof (cases "\<exists>k ci v. cs_api_key s = Some k \<and> k \<noteq> [] \<and> fetch_from_api cw k z w = (Inr ci, v)")
  case True
  then obtain k ci v where k: "cs_api_key s = Some k" "k \<noteq> []" and f: "fetch_from_api cw k z w = (Inr ci, v)" by auto
  obtain w' s' where r: "remember cw z ci (s, v) = (Inr ci, (s', w'))" and c: "cached_as z ci s s'"
    using remember_zone [OF fetch_zone [OF f], of cw s v] by (elim exE conjE) (rule that)
  have "look_up cw z (s, w) = (Inr ci, (s', w'))"
    by (simp add: look_up_def k try_except_def bnd_apply on_snd_apply f r)
  then show ?thesis using c k f by fast
next
  case False
  have "\<exists>v. look_up cw z (s, w) = fall_back cw z (s, v)"
  proof (cases "cs_api_key s")
    case (Some k)
    show ?thesis
    proof (cases "k = []")
      case no: False
      obtain r v where f: "fetch_from_api cw k z w = (r, v)" by (cases "fetch_from_api cw k z w")
      then have "\<exists>e. r = Inl e" using False Some no by (cases r) auto
      then show ?thesis by (auto simp: look_up_def Some no try_except_def bnd_apply on_snd_apply f)
    qed (auto simp: look_up_def Some)
  qed (auto simp: look_up_def)
  then obtain v where v: "look_up cw z (s, w) = fall_back cw z (s, v)" ..
  show ?thesis unfolding v using fall_back_result [of cw z s v] by fast
qed

text \<open>A lookup answers and keeps the cache in order.\<close>

lemma get_intensity_answers:
  assumes "cache_ok s"
  shows "\<exists>ci s' w'. get_intensity cw zone (s, w) = (Inr ci, (s', w')) \<and> ci_zone ci = zone_of s zone \<and> cache_ok s' \<and>
     (\<exists>t. map_of (cs_cache s') (zone_of s zone) = Some (t, ci)) \<and> cs_default_zone s' = cs_default_zone s"
proof -
  let ?z = "zone_of s zone"
  have look: "\<exists>ci s' w'. look_up cw ?z (s, v) = (Inr ci, (s', w')) \<and> ci_zone ci = ?z \<and> cache_ok s' \<and>
      (\<exists>t. map_of (cs_cache s') ?z = Some (t, ci)) \<and> cs_default_zone s' = cs_default_zone s" for v
  proof -
    obtain ci s' w' where l: "look_up cw ?z (s, v) = (Inr ci, (s', w'))" and c: "cached_as ?z ci s s'"
      using look_up_result [of cw ?z s v] by (elim exE conjE) (rule that)
    have "ci_zone ci = ?z" "cs_default_zone s' = cs_default_zone s" using c by (auto simp: cached_as_def)
    with l cache_ok_update [OF assms c] cached_as_lookup [OF c] show ?thesis by fast
  qed
  show ?thesis
  proof (cases "map_of (cs_cache s) ?z")
    case None
    then show ?thesis using look [of w] by (simp add: get_intensity_def Let_def)
  next
    case (Some p)
    obtain ts ci where p: "p = (ts, ci)" by (cases p)
    obtain now v where t: "cw_time cw w = (now, v)" by (cases "cw_time cw w")
    have "ci_zone ci = ?z" using assms Some p by (auto simp: cache_ok_def)
    then show ?thesis
      using look [of v] Some assms by (simp add: get_intensity_def Let_def p bnd_apply on_snd_apply tick_def t)
  qed
qed

fun get_all :: "'w carbon_world \<Rightarrow> pystr option list \<Rightarrow> ('w, carbon_intensity list) carbon_act" where
  "get_all cw [] = ret []"
| "get_all cw (z # zs) = bnd (get_intensity cw z) (\<lambda>ci. bnd (get_all cw zs) (\<lambda>cis. ret (ci # cis)))"

section \<open>A small world\<close>

text \<open>A clock that stands still and an API that fails, or answers with a fixed document.\<close>

definition down_world :: "real carbon_world" where
  "down_world = \<lparr>cw_time = \<lambda>t. (t, t), cw_fetch = \<lambda>_ _. raise OtherError\<rparr>"

definition doc_world :: "api_value \<Rightarrow> real carbon_world" where
  "doc_world v = \<lparr>cw_time = \<lambda>t. (t, t), cw_fetch = \<lambda>_ _. ret (Dict [(lit ''carbonIntensity'', v)])\<rparr>"

definition keyed_scheduler :: carbon_scheduler where
  "keyed_scheduler = (default_scheduler True)\<lparr>cs_api_key := Some (lit ''k'')\<rparr>"

lemma keyed_simps [simp]:
  "cs_api_key keyed_scheduler = Some (lit ''k'')" "cs_cache keyed_scheduler = []" "cs_enabled keyed_scheduler"
  "cs_cache_ttl keyed_scheduler = 300" "cs_weight keyed_scheduler = 2 / 10" "cache_ok keyed_scheduler"
  by (simp_all add: keyed_scheduler_def default_scheduler_def cache_ok_def)

lemma doc_world_intensity:
  "\<exists>ci s'. get_intensity (doc_world v) zone (keyed_scheduler, t) = (Inr ci, (s', t)) \<and> ci_gco2 ci = v"
  by (simp add: get_intensity_def Let_def look_up_def try_except_def bnd_apply on_snd_apply fetch_from_api_def
      remember_def tick_def doc_world_def doc_get_def)

section \<open>Properties\<close>

text \<open>C28: Lookups always answer: whatever the network and the clock do, any sequence of \<open>get_intensity\<close> calls on a new scheduler
  returns one reading per call, each for the zone that was asked for (the default zone when none was given), and the
  cache keeps every reading under its own zone.\<close>

theorem intensity_always_answers:
  assumes "cs_cache s = []"
  shows "\<exists>cis s' w'. get_all cw zones (s, w) = (Inr cis, (s', w')) \<and> map ci_zone cis = map (zone_of s) zones \<and> cache_ok s'"
proof -
  have "cache_ok s" using assms by (simp add: cache_ok_def)
  then show ?thesis
  proof (induction zones arbitrary: s w)
    case (Cons zone zones)
    obtain ci s1 w1 where g: "get_intensity cw zone (s, w) = (Inr ci, (s1, w1))" and z: "ci_zone ci = zone_of s zone"
      and ok: "cache_ok s1" and d: "cs_default_zone s1 = cs_default_zone s"
      using get_intensity_answers [OF Cons.prems, of cw zone w] by (elim exE conjE) (rule that)
    obtain cis s2 w2 where r: "get_all cw zones (s1, w1) = (Inr cis, (s2, w2))" "map ci_zone cis = map (zone_of s1) zones"
      "cache_ok s2"
      using Cons.IH [OF ok, of w1] by (elim exE conjE) (rule that)
    have "zone_of s1 = zone_of s" by (rule ext) (simp add: zone_of_def d split: option.split)
    with g z r show ?case by (simp add: bnd_apply)
  qed simp
qed

theorem intensity_always_answers_witness:
  "\<exists>cis s w. get_all down_world [Some (lit ''FR''), None] (keyed_scheduler, 0) = (Inr cis, (s, w)) \<and>
     map ci_zone cis = [lit ''FR'', lit ''US-NW'']"
proof -
  have "cs_cache keyed_scheduler = []" by simp
  moreover have "map (zone_of keyed_scheduler) [Some (lit ''FR''), None] = [lit ''FR'', lit ''US-NW'']"
    by (simp add: zone_of_def keyed_scheduler_def default_scheduler_def)
  ultimately show ?thesis
    using intensity_always_answers [of keyed_scheduler down_world "[Some (lit ''FR''), None]" 0]
    by (auto simp del: lit_Cons get_all.simps)
qed

text \<open>Once a zone has been looked up, its reading stands until the time to live is over. A second lookup within
  that time gives the same reading, whatever the network would now answer; so a single failed request pins the zone's
  default for the whole time to live.\<close>

theorem failed_request_pins_default:
  assumes "cs_api_key s = Some k" and "k \<noteq> []" and "cw_fetch cw (zone_of s zone) k w = (Inl e, v)"
    and "map_of (cs_cache s) (zone_of s zone) = None"
    and "cw_time cw v = (t0, v0)" and "cw_time cw v0 = (t1, v1)" and "cw_time cw u = (t2, u')" and "t2 - t1 < cs_cache_ttl s"
  shows "\<exists>ci s'. get_intensity cw zone (s, w) = (Inr ci, (s', v1)) \<and> ci_gco2 ci = Num (zone_default (zone_of s zone)) \<and>
     get_intensity cw zone (s', u) = (Inr ci, (s', u'))"
proof -
  let ?z = "zone_of s zone"
  have f: "fetch_from_api cw k ?z w = (Inl e, v)"
    using assms(3) by (simp add: fetch_from_api_def bnd_apply)
  let ?ci = "\<lparr>ci_zone = ?z, ci_gco2 = Num (zone_default ?z), ci_renewable = Num 0, ci_fossil = Num 0,
    ci_timestamp = t0, ci_source = lit ''zone_default''\<rparr>"
  let ?s = "s\<lparr>cs_cache := AList.update ?z (t1, ?ci) (cs_cache s)\<rparr>"
  have one: "get_intensity cw zone (s, w) = (Inr ?ci, (?s, v1))"
    by (simp add: get_intensity_def Let_def assms(1,2,4) look_up_def try_except_def bnd_apply on_snd_apply f
        fall_back_def remember_def tick_def assms(5,6) del: lit_Cons)
  have z: "zone_of ?s zone = ?z" by (simp add: zone_of_def split: option.split)
  have two: "get_intensity cw zone (?s, u) = (Inr ?ci, (?s, u'))"
    by (simp add: get_intensity_def Let_def z update_conv bnd_apply on_snd_apply tick_def assms(7,8) del: lit_Cons)
  show ?thesis using one two by (intro exI [of _ ?ci] exI [of _ ?s]) (simp del: lit_Cons)
qed

theorem failed_request_pins_default_witness:
  "\<exists>ci s'. get_intensity down_world (Some (lit ''FR'')) (keyed_scheduler, 0) = (Inr ci, (s', 0)) \<and>
     get_intensity down_world (Some (lit ''FR'')) (s', 299) = (Inr ci, (s', 299))"
proof -
  have "\<exists>ci s'. get_intensity down_world (Some (lit ''FR'')) (keyed_scheduler, 0) = (Inr ci, (s', 0)) \<and>
     ci_gco2 ci = Num (zone_default (zone_of keyed_scheduler (Some (lit ''FR'')))) \<and>
     get_intensity down_world (Some (lit ''FR'')) (s', 299) = (Inr ci, (s', 299))"
    by (rule failed_request_pins_default [where k = "lit ''k''" and v = 0 and e = OtherError and ?t0.0 = 0 and ?v0.0 = 0 and
          ?t1.0 = 0 and ?t2.0 = 299]) (simp_all add: down_world_def)
  then show ?thesis by blast
qed

text \<open>The adjusted score stays between 0 and 1 when the score and the weight do and the intensity is not negative; it
  falls as the intensity grows, and grows with the score.\<close>

theorem carbon_penalty_bounds:
  assumes "cs_enabled s" and "0 \<le> cs_weight s" and "cs_weight s \<le> 1" and "0 \<le> base" and "base \<le> 1"
    and "get_intensity cw zone (s, w) = (Inr ci, sw)" and "ci_gco2 ci = Num g" and "0 \<le> g"
    and "get_intensity cw' zone' (s, v) = (Inr ci', sv)" and "ci_gco2 ci' = Num g'" and "g \<le> g'" and "base' \<le> base"
  shows "\<exists>a a'. score_expert cw zone base (s, w) = (Inr a, sw) \<and> score_expert cw' zone' base' (s, v) = (Inr a', sv) \<and>
     0 \<le> a \<and> a \<le> 1 \<and> a' \<le> a"
proof -
  have c: "0 \<le> carbon_score g" "carbon_score g \<le> 1" "carbon_score g' \<le> carbon_score g"
    using assms(8,11) by (auto simp: carbon_score_def)
  have u: "0 \<le> 1 - cs_weight s" using assms(3) by simp
  have lo: "0 \<le> base * (1 - cs_weight s) + carbon_score g * cs_weight s"
    using c(1) u assms(2,4) by simp
  have "base * (1 - cs_weight s) + carbon_score g * cs_weight s \<le> 1 * (1 - cs_weight s) + 1 * cs_weight s"
    using c(2) u assms(2,5) by (intro add_mono mult_right_mono)
  then have hi: "base * (1 - cs_weight s) + carbon_score g * cs_weight s \<le> 1" by simp
  have mono: "base' * (1 - cs_weight s) + carbon_score g' * cs_weight s \<le> base * (1 - cs_weight s) + carbon_score g * cs_weight s"
    using c(3) u assms(2,12) by (intro add_mono mult_right_mono)
  have a: "score_expert cw zone base (s, w) = (Inr (base * (1 - cs_weight s) + carbon_score g * cs_weight s), sw)"
    by (simp add: score_expert_def assms(1,6,7) bnd_apply)
  have b: "score_expert cw' zone' base' (s, v) = (Inr (base' * (1 - cs_weight s) + carbon_score g' * cs_weight s), sv)"
    by (simp add: score_expert_def assms(1,9,10) bnd_apply)
  show ?thesis unfolding a b using lo hi mono by simp
qed

theorem carbon_penalty_bounds_witness:
  "\<exists>a a'. fst (score_expert (doc_world (Num 50)) None (1 / 2) (keyed_scheduler, 0)) = Inr a \<and>
     fst (score_expert (doc_world (Num 600)) None (1 / 2) (keyed_scheduler, 0)) = Inr a' \<and> a \<le> 1 \<and> a' \<le> a"
proof -
  obtain ci s where a: "get_intensity (doc_world (Num 50)) None (keyed_scheduler, 0) = (Inr ci, (s, 0))" "ci_gco2 ci = Num 50"
    using doc_world_intensity [of "Num 50" None 0] by (elim exE conjE) (rule that)
  obtain ci' s' where b: "get_intensity (doc_world (Num 600)) None (keyed_scheduler, 0) = (Inr ci', (s', 0))" "ci_gco2 ci' = Num 600"
    using doc_world_intensity [of "Num 600" None 0] by (elim exE conjE) (rule that)
  have "\<exists>x x'. score_expert (doc_world (Num 50)) None (1 / 2) (keyed_scheduler, 0) = (Inr x, (s, 0)) \<and>
     score_expert (doc_world (Num 600)) None (1 / 2) (keyed_scheduler, 0) = (Inr x', (s', 0)) \<and> 0 \<le> x \<and> x \<le> 1 \<and> x' \<le> x"
    by (rule carbon_penalty_bounds [OF _ _ _ _ _ a _ b]) simp_all
  then obtain x x' where "score_expert (doc_world (Num 50)) None (1 / 2) (keyed_scheduler, 0) = (Inr x, (s, 0))"
    "score_expert (doc_world (Num 600)) None (1 / 2) (keyed_scheduler, 0) = (Inr x', (s', 0))" "x \<le> 1" "x' \<le> x"
    by (elim exE conjE) (rule that)
  then show ?thesis by simp
qed

text \<open>A reading without a number is an answer like any other: it is kept, and every score of that zone raises a type
  error until the time to live is over.\<close>

theorem null_intensity_breaks_scores:
  assumes "cs_enabled s" and "cs_api_key s = Some k" and "k \<noteq> []" and "map_of (cs_cache s) (zone_of s zone) = None"
    and "cw_fetch cw (zone_of s zone) k w = (Inr (Dict [(lit ''carbonIntensity'', NotNum)]), v)"
    and "cw_time cw v = (t0, v0)" and "cw_time cw v0 = (t1, v1)" and "cw_time cw u = (t2, u')" and "t2 - t1 < cs_cache_ttl s"
  shows "\<exists>s'. score_expert cw zone base (s, w) = (Inl TypeError, (s', v1)) \<and>
     score_expert cw zone base' (s', u) = (Inl TypeError, (s', u'))"
proof -
  let ?z = "zone_of s zone"
  let ?ci = "\<lparr>ci_zone = ?z, ci_gco2 = NotNum, ci_renewable = Num 0, ci_fossil = Num 0,
    ci_timestamp = t0, ci_source = lit ''electricity_maps''\<rparr>"
  let ?s = "s\<lparr>cs_cache := AList.update ?z (t1, ?ci) (cs_cache s)\<rparr>"
  have names: "lit ''renewableRatio'' \<noteq> lit ''carbonIntensity''" "lit ''fossilRatio'' \<noteq> lit ''carbonIntensity''" by simp_all
  have f: "fetch_from_api cw k ?z w = (Inr ?ci, v0)"
    using assms(5) names by (simp add: fetch_from_api_def bnd_apply tick_def assms(6) doc_get_def del: lit_Cons)
  have one: "get_intensity cw zone (s, w) = (Inr ?ci, (?s, v1))"
    by (simp add: get_intensity_def Let_def assms(2,3,4) look_up_def try_except_def bnd_apply on_snd_apply f
        remember_def tick_def assms(7) del: lit_Cons)
  have z: "zone_of ?s zone = ?z" by (simp add: zone_of_def split: option.split)
  have two: "get_intensity cw zone (?s, u) = (Inr ?ci, (?s, u'))"
    by (simp add: get_intensity_def Let_def z update_conv bnd_apply on_snd_apply tick_def assms(8,9) del: lit_Cons)
  show ?thesis
    by (rule exI [of _ ?s]) (simp add: score_expert_def assms(1) bnd_apply one two del: lit_Cons)
qed

theorem null_intensity_breaks_scores_witness:
  "\<exists>s'. score_expert (doc_world NotNum) (Some (lit ''FR'')) 1 (keyed_scheduler, 0) = (Inl TypeError, (s', 0)) \<and>
     score_expert (doc_world NotNum) (Some (lit ''FR'')) 1 (s', 299) = (Inl TypeError, (s', 299))"
  by (rule null_intensity_breaks_scores [where k = "lit ''k''" and v = 0 and ?t0.0 = 0 and ?v0.0 = 0 and ?t1.0 = 0 and ?t2.0 = 299])
    (simp_all add: doc_world_def)

end
