(* ===== verification/Obs_Logging.thy ===== *)
theory Obs_Logging
  imports Core_Config
begin

text \<open>
  \<open>chen/observability/logging.py\<close> and \<open>tracing.py\<close>: the two pieces of process-wide state that are configured once.
  The state of logging is its configuration, \<open>None\<close> until there is one; that of tracing is the tracer provider. Which
  third-party packages are installed is part of the environment.
\<close>

section \<open>Logging\<close>

record log_env =
  le_structlog :: bool
  le_isatty :: bool
  le_environ :: environ
  le_upper :: "nat \<Rightarrow> pystr"

record log_config =
  lc_level :: int
  lc_json :: bool
  lc_structlog :: bool

definition level_names :: "(pystr \<times> int) list" where
  "level_names =
     [(lit ''CRITICAL'', 50), (lit ''FATAL'', 50), (lit ''ERROR'', 40), (lit ''WARNING'', 30), (lit ''WARN'', 30),
      (lit ''INFO'', 20), (lit ''DEBUG'', 10), (lit ''NOTSET'', 0)]"

text \<open>\<open>getattr(logging, level.upper(), logging.INFO)\<close>, handed to \<open>basicConfig\<close>: two attributes of the module with
  such names are no levels, and setting them raises.\<close>

definition level_of :: "(nat \<Rightarrow> pystr) \<Rightarrow> pystr \<Rightarrow> py_exc + int" where
  "level_of up level =
     (let nm = py_upper up level in
      if nm = lit ''BASIC_FORMAT'' then Inl ValueError
      else if nm = lit ''_STYLES'' then Inl TypeError
      else Inr (case map_of level_names nm of Some n \<Rightarrow> n | None \<Rightarrow> 20))"

definition auto_json :: "log_env \<Rightarrow> bool" where
  "auto_json le \<longleftrightarrow> env_str (le_environ le) (lit ''CHEN_LOG_JSON'') [] = lit ''1'' \<or> \<not> le_isatty le"

definition configure_logging :: "log_env \<Rightarrow> pystr \<Rightarrow> bool option \<Rightarrow> (log_config option, py_exc, unit) act" where
  "configure_logging le level json_logs =
     (\<lambda>st. case st of
        Some c \<Rightarrow> (Inr (), Some c)
      | None \<Rightarrow>
          (let json = (case json_logs of None \<Rightarrow> auto_json le | Some b \<Rightarrow> b) in
           case level_of (le_upper le) level of
             Inl e \<Rightarrow> (Inl e, None)
           | Inr n \<Rightarrow> (Inr (), Some \<lparr>lc_level = n, lc_json = json, lc_structlog = le_structlog le\<rparr>)))"

datatype logger_kind = Structured | Standard

definition get_logger :: "log_env \<Rightarrow> (log_config option, py_exc, logger_kind) act" where
  "get_logger le =
     (if le_structlog le
      then bnd (\<lambda>st. if st = None then configure_logging le (lit ''INFO'') None st else (Inr (), st)) (\<lambda>_. ret Structured)
      else ret Standard)"

text \<open>A history of calls, each of which may raise.\<close>

datatype log_call = Configure pystr "bool option" | Get_Logger

fun log_step :: "log_env \<Rightarrow> log_call \<Rightarrow> log_config option \<Rightarrow> log_config option" where
  "log_step le (Configure level j) st = snd (configure_logging le level j st)"
| "log_step le Get_Logger st = snd (get_logger le st)"

definition log_run :: "log_env \<Rightarrow> log_call list \<Rightarrow> log_config option \<Rightarrow> log_config option" where
  "log_run le cs st = fold (log_step le) cs st"

lemma log_step_Some: "log_step le c (Some k) = Some k"
  by (cases c) (simp_all add: configure_logging_def get_logger_def bnd_apply)

lemma log_run_Some: "log_run le cs (Some k) = Some k"
  by (induction cs) (simp_all add: log_run_def log_step_Some)

lemma level_info [simp]: "level_of up (lit ''INFO'') = Inr 20"
  by (simp add: level_of_def py_upper_def level_names_def Let_def)

section \<open>Tracing\<close>

record otel_env =
  oe_otel :: bool
  oe_otlp :: bool
  oe_jaeger :: bool

datatype span_processor = Console_Exporter | Otlp_Exporter pystr | Jaeger_Exporter pystr

record tracer_provider =
  tp_service :: pystr
  tp_processors :: "span_processor list"

definition endpoint_or :: "pystr option \<Rightarrow> pystr \<Rightarrow> pystr" where
  "endpoint_or ep dflt = (case ep of Some e \<Rightarrow> (if e \<noteq> [] then e else dflt) | None \<Rightarrow> dflt)"

definition span_processors :: "otel_env \<Rightarrow> pystr \<Rightarrow> pystr option \<Rightarrow> span_processor list" where
  "span_processors oe exporter ep =
     (if exporter = lit ''console'' then [Console_Exporter]
      else if exporter = lit ''otlp''
      then (if oe_otlp oe then [Otlp_Exporter (endpoint_or ep (lit ''http://localhost:4317''))] else [])
      else if exporter = lit ''jaeger''
      then (if oe_jaeger oe then [Jaeger_Exporter (endpoint_or ep (lit ''http://localhost:14268''))] else [])
      else [])"

text \<open>The state is the provider that was set; \<open>_OTEL_INITIALIZED\<close> is true when there is one.\<close>

definition init_tracing ::
  "otel_env \<Rightarrow> pystr \<Rightarrow> pystr \<Rightarrow> pystr option \<Rightarrow> tracer_provider option \<Rightarrow> tracer_provider option" where
  "init_tracing oe service exporter ep st =
     (if st \<noteq> None \<or> \<not> oe_otel oe then st
      else Some \<lparr>tp_service = service, tp_processors = span_processors oe exporter ep\<rparr>)"

datatype tracer_kind = Otel_Tracer tracer_provider | No_Op_Tracer

definition tracer :: "otel_env \<Rightarrow> tracer_provider option \<Rightarrow> tracer_kind" where
  "tracer oe st = (case st of Some p \<Rightarrow> (if oe_otel oe then Otel_Tracer p else No_Op_Tracer) | None \<Rightarrow> No_Op_Tracer)"

definition tracing_from_env :: "otel_env \<Rightarrow> environ \<Rightarrow> tracer_provider option \<Rightarrow> tracer_provider option" where
  "tracing_from_env oe ev st =
     (if env_str ev (lit ''CHEN_TRACING_ENABLED'') [] \<noteq> lit ''1'' then st
      else if \<not> oe_otel oe then st
      else init_tracing oe (env_str ev (lit ''CHEN_TRACING_SERVICE_NAME'') (lit ''chen''))
             (env_str ev (lit ''CHEN_TRACING_EXPORTER'') (lit ''console'')) (ev (lit ''CHEN_TRACING_ENDPOINT'')) st)"

text \<open>The first initialisation stands; an exporter that is not known, or not installed, leaves a provider without
  processors, which every later initialisation accepts as it is.\<close>

lemma init_tracing_once: "init_tracing oe s e p st = Some k \<Longrightarrow> init_tracing oe s' e' p' (Some k) = Some k"
  by (simp add: init_tracing_def)

lemma missing_exporter_is_final:
  assumes "oe_otel oe" and "\<not> oe_otlp oe"
  shows "init_tracing oe s (lit ''console'') p' (init_tracing oe s (lit ''otlp'') p None) = Some \<lparr>tp_service = s, tp_processors = []\<rparr>"
  using assms by (simp add: init_tracing_def span_processors_def)

section \<open>Properties\<close>

text \<open>With structlog installed the first \<open>get_logger\<close> configures logging at level INFO for good: whatever is configured
  afterwards, in whatever order, the level stays 20. Importing the package calls \<open>get_logger\<close>, so the levels the
  commands and \<open>CHEN_LOG_LEVEL\<close> ask for have no effect.\<close>

theorem first_logger_fixes_level:
  assumes "le_structlog le"
  shows "log_run le (Get_Logger # cs) None = Some \<lparr>lc_level = 20, lc_json = auto_json le, lc_structlog = True\<rparr>"
proof -
  have "log_step le Get_Logger None = Some \<lparr>lc_level = 20, lc_json = auto_json le, lc_structlog = True\<rparr>"
    using assms by (simp add: get_logger_def bnd_apply configure_logging_def Let_def del: lit_Cons)
  then show ?thesis using log_run_Some [of le cs] by (simp add: log_run_def)
qed

theorem first_logger_fixes_level_witness:
  "log_run \<lparr>le_structlog = True, le_isatty = True, le_environ = (\<lambda>_. None), le_upper = (\<lambda>c. [c])\<rparr>
     [Get_Logger, Configure (lit ''WARNING'') None, Get_Logger] None =
   Some \<lparr>lc_level = 20, lc_json = False, lc_structlog = True\<rparr>"
  using first_logger_fixes_level [of "\<lparr>le_structlog = True, le_isatty = True, le_environ = (\<lambda>_. None), le_upper = (\<lambda>c. [c])\<rparr>"
      "[Configure (lit ''WARNING'') None, Get_Logger]"]
  by (simp add: auto_json_def env_str_def del: lit_Cons) simp

end
