(* ===== verification/Obs_Metrics.thy ===== *)
theory Obs_Metrics
  imports Core_Expert
begin

text \<open>
  \<open>chen/observability/metrics.py\<close>: the counters of the server. A counter with labels is a function from its label
  values to a number; a histogram is kept as the list of its observations. \<open>None\<close> stands for a process without
  \<open>prometheus_client\<close>, where every operation is a stub.
\<close>

section \<open>Counters\<close>

record metrics =
  mx_requests :: "pystr \<times> pystr \<times> pystr \<Rightarrow> nat"
  mx_latency :: "(pystr \<times> real) list"
  mx_experts :: "pystr \<times> pystr \<Rightarrow> nat"
  mx_kv :: "pystr \<times> pystr \<times> pystr \<Rightarrow> nat"
  mx_tokens :: "pystr \<Rightarrow> int"
  mx_runs :: "pystr \<Rightarrow> nat"
  mx_build :: "pystr option"

type_synonym prom = "metrics option"

definition no_metrics :: metrics where
  "no_metrics =
     \<lparr>mx_requests = \<lambda>_. 0, mx_latency = [], mx_experts = \<lambda>_. 0, mx_kv = \<lambda>_. 0, mx_tokens = \<lambda>_. 0, mx_runs = \<lambda>_. 0,
      mx_build = None\<rparr>"

definition inc :: "'a \<Rightarrow> ('a \<Rightarrow> nat) \<Rightarrow> 'a \<Rightarrow> nat" where
  "inc k f = f(k := Suc (f k))"

definition init_build_info :: "pystr \<Rightarrow> prom \<Rightarrow> prom" where
  "init_build_info v = map_option (\<lambda>m. m\<lparr>mx_build := Some v\<rparr>)"

definition record_request :: "pystr \<Rightarrow> pystr \<Rightarrow> int \<Rightarrow> prom \<Rightarrow> prom" where
  "record_request meth route status = map_option (\<lambda>m. m\<lparr>mx_requests := inc (meth, route, py_str_int status) (mx_requests m)\<rparr>)"

definition observe_request_latency :: "pystr \<Rightarrow> real \<Rightarrow> prom \<Rightarrow> prom" where
  "observe_request_latency route secs = map_option (\<lambda>m. m\<lparr>mx_latency := mx_latency m @ [(route, secs)]\<rparr>)"

definition record_expert_invocation :: "pystr \<Rightarrow> pystr \<Rightarrow> prom \<Rightarrow> prom" where
  "record_expert_invocation n role = map_option (\<lambda>m. m\<lparr>mx_experts := inc (n, role) (mx_experts m)\<rparr>)"

definition kv_result :: "bool \<Rightarrow> pystr" where
  "kv_result ok = (if ok then lit ''success'' else lit ''failure'')"

definition record_kv_transfer :: "pystr \<Rightarrow> pystr \<Rightarrow> bool \<Rightarrow> prom \<Rightarrow> prom" where
  "record_kv_transfer src tgt ok = map_option (\<lambda>m. m\<lparr>mx_kv := inc (src, tgt, kv_result ok) (mx_kv m)\<rparr>)"

definition record_pipeline_run :: "int \<Rightarrow> prom \<Rightarrow> prom" where
  "record_pipeline_run phase = map_option (\<lambda>m. m\<lparr>mx_runs := inc (py_str_int phase) (mx_runs m)\<rparr>)"

text \<open>\<open>Counter.inc\<close> refuses a negative amount.\<close>

definition record_tokens :: "pystr \<Rightarrow> int \<Rightarrow> prom \<Rightarrow> py_exc + prom" where
  "record_tokens direction amount mx =
     (case mx of
        None \<Rightarrow> Inr None
      | Some m \<Rightarrow>
          (if amount < 0 then Inl ValueError
           else Inr (Some (m\<lparr>mx_tokens := (mx_tokens m)(direction := mx_tokens m direction + amount)\<rparr>))))"

section \<open>The counters of one pipeline run\<close>

definition noting :: "(prom \<Rightarrow> prom) \<Rightarrow> (prom \<times> 's, py_exc, unit) act" where
  "noting f = (\<lambda>(mx, s). (Inr (), (f mx, s)))"

definition noting_tokens :: "pystr \<Rightarrow> int \<Rightarrow> (prom \<times> 's, py_exc, unit) act" where
  "noting_tokens d k = (\<lambda>(mx, s). case record_tokens d k mx of Inl e \<Rightarrow> (Inl e, (mx, s)) | Inr mx' \<Rightarrow> (Inr (), (mx', s)))"

fun emit_experts :: "expert_metrics list \<Rightarrow> (prom \<times> 's, py_exc, unit) act" where
  "emit_experts [] = ret ()"
| "emit_experts (m # ms) =
     bnd (noting (record_expert_invocation (em_name m) (role_value (em_role m)))) (\<lambda>_.
     bnd (noting_tokens (lit ''input'') (em_input_tokens m)) (\<lambda>_.
     bnd (noting_tokens (lit ''output'') (em_output_tokens m)) (\<lambda>_.
     bnd (if em_used_kv m then noting (record_kv_transfer (lit ''prev'') (em_name m) (em_transfer_ok m)) else ret ()) (\<lambda>_.
     emit_experts ms))))"

definition emit_run :: "int \<Rightarrow> expert_metrics list \<Rightarrow> (prom \<times> 's, py_exc, unit) act" where
  "emit_run phase ms = bnd (noting (record_pipeline_run phase)) (\<lambda>_. emit_experts ms)"

section \<open>What a run adds\<close>

lemma noting_apply [simp]: "noting f (mx, s) = (Inr (), (f mx, s))"
  by (simp add: noting_def)

lemma noting_tokens_None [simp]: "noting_tokens d k (None, s) = (Inr (), (None, s))"
  by (simp add: noting_tokens_def record_tokens_def)

lemma noting_tokens_Some [simp]:
  "0 \<le> k \<Longrightarrow> noting_tokens d k (Some m, s) = (Inr (), (Some (m\<lparr>mx_tokens := (mx_tokens m)(d := mx_tokens m d + k)\<rparr>), s))"
  by (simp add: noting_tokens_def record_tokens_def)

lemma emit_run_None: "emit_run phase ms (None, s) = (Inr (), (None, s))"
proof -
  have "emit_experts ms (None, s) = (Inr (), (None, s))"
    by (induction ms)
      (simp_all add: bnd_apply record_expert_invocation_def record_kv_transfer_def)
  then show ?thesis by (simp add: emit_run_def bnd_apply record_pipeline_run_def)
qed

definition counted_tokens :: "expert_metrics list \<Rightarrow> bool" where
  "counted_tokens ms \<longleftrightarrow> (\<forall>m\<in>set ms. 0 \<le> em_input_tokens m \<and> 0 \<le> em_output_tokens m)"

text \<open>The metrics after a run, counter by counter.\<close>

definition experts_added :: "expert_metrics list \<Rightarrow> metrics \<Rightarrow> metrics \<Rightarrow> bool" where
  "experts_added ms a b \<longleftrightarrow>
     mx_requests b = mx_requests a \<and> mx_latency b = mx_latency a \<and> mx_build b = mx_build a \<and>
     (\<forall>n r. mx_experts b (n, r) = mx_experts a (n, r) + length (filter (\<lambda>m. em_name m = n \<and> role_value (em_role m) = r) ms)) \<and>
     (\<forall>s n ok. mx_kv b (s, n, ok) = mx_kv a (s, n, ok) +
        length (filter (\<lambda>m. em_used_kv m \<and> s = lit ''prev'' \<and> em_name m = n \<and> kv_result (em_transfer_ok m) = ok) ms)) \<and>
     mx_tokens b (lit ''input'') = mx_tokens a (lit ''input'') + sum_list (map em_input_tokens ms) \<and>
     mx_tokens b (lit ''output'') = mx_tokens a (lit ''output'') + sum_list (map em_output_tokens ms)"

lemma in_out [simp]: "lit ''input'' \<noteq> lit ''output''" "lit ''output'' \<noteq> lit ''input''"
  by simp_all

lemma experts_added_Nil: "experts_added [] a a"
  by (simp add: experts_added_def)

definition metrics_step :: "expert_metrics \<Rightarrow> metrics \<Rightarrow> metrics" where
  "metrics_step m a =
     a\<lparr>mx_experts := inc (em_name m, role_value (em_role m)) (mx_experts a),
       mx_tokens := (mx_tokens a)(lit ''input'' := mx_tokens a (lit ''input'') + em_input_tokens m,
                                  lit ''output'' := mx_tokens a (lit ''output'') + em_output_tokens m),
       mx_kv := (if em_used_kv m then inc (lit ''prev'', em_name m, kv_result (em_transfer_ok m)) (mx_kv a) else mx_kv a)\<rparr>"

lemma experts_added_Cons:
  assumes "experts_added ms (metrics_step m a) b"
  shows "experts_added (m # ms) a b"
  using assms unfolding experts_added_def metrics_step_def inc_def
  by (simp del: lit_Cons)

lemma emit_experts_run:
  assumes "counted_tokens ms"
  shows "\<exists>b. emit_experts ms (Some a, s) = (Inr (), (Some b, s)) \<and> experts_added ms a b \<and> mx_runs b = mx_runs a"
  using assms
proof (induction ms arbitrary: a)
  case (Cons m ms)
  have t: "0 \<le> em_input_tokens m" "0 \<le> em_output_tokens m" "counted_tokens ms"
    using Cons.prems by (simp_all add: counted_tokens_def)
  obtain b where b: "emit_experts ms (Some (metrics_step m a), s) = (Inr (), (Some b, s))"
    "experts_added ms (metrics_step m a) b" "mx_runs b = mx_runs (metrics_step m a)"
    using Cons.IH [OF t(3)] by blast
  have "emit_experts (m # ms) (Some a, s) = emit_experts ms (Some (metrics_step m a), s)"
    using t by (simp add: bnd_apply record_expert_invocation_def record_kv_transfer_def metrics_step_def del: lit_Cons)
  moreover have "mx_runs (metrics_step m a) = mx_runs a" by (simp add: metrics_step_def)
  ultimately show ?case using b experts_added_Cons by auto
qed (simp add: experts_added_Nil)

lemma emit_run_counts:
  assumes "counted_tokens ms"
  shows "\<exists>b. emit_run phase ms (Some a, s) = (Inr (), (Some b, s)) \<and> experts_added ms a b \<and>
     mx_runs b = inc (py_str_int phase) (mx_runs a)"
proof -
  let ?a = "a\<lparr>mx_runs := inc (py_str_int phase) (mx_runs a)\<rparr>"
  obtain b where b: "emit_experts ms (Some ?a, s) = (Inr (), (Some b, s))" "experts_added ms ?a b" "mx_runs b = mx_runs ?a"
    using emit_experts_run [OF assms, of ?a s] by blast
  have "emit_run phase ms (Some a, s) = emit_experts ms (Some ?a, s)"
    by (simp add: emit_run_def bnd_apply record_pipeline_run_def)
  moreover have "experts_added ms a b" using b(2) by (simp add: experts_added_def)
  ultimately show ?thesis using b(1,3) by auto
qed

text \<open>A run whose counters went through had no negative counts.\<close>

lemma emit_experts_counted: "emit_experts ms (Some a, s) = (Inr u, v) \<Longrightarrow> counted_tokens ms"
proof (induction ms arbitrary: a)
  case (Cons m ms)
  have t: "0 \<le> em_input_tokens m \<and> 0 \<le> em_output_tokens m"
    using Cons.prems
    by (auto simp: bnd_apply record_expert_invocation_def noting_tokens_def record_tokens_def split: if_splits)
  then have "emit_experts (m # ms) (Some a, s) = emit_experts ms (Some (metrics_step m a), s)"
    by (simp add: bnd_apply record_expert_invocation_def record_kv_transfer_def metrics_step_def del: lit_Cons)
  with Cons.IH [of "metrics_step m a"] Cons.prems t show ?case by (simp add: counted_tokens_def)
qed (simp add: counted_tokens_def)

lemma emit_run_counted: "emit_run phase ms (Some a, s) = (Inr u, v) \<Longrightarrow> counted_tokens ms"
  by (auto simp: emit_run_def bnd_apply record_pipeline_run_def dest: emit_experts_counted)

end
