(* ===== verification/Server_App.thy ===== *)
theory Server_App
  imports Server_Routes Server_Auth Obs_Metrics
begin

text \<open>
  \<open>chen/server/app.py\<close>: the application as it is put together, and the way of one request through it. Middleware
  added last runs first, so a request meets the metrics middleware, authentication, the rate limiter, CORS and the
  router, in this order. CORS and the answers to paths outside the routes (the documentation pages, redirects, 404)
  are the web framework's and are arguments; so are the clock readings of the middlewares.
\<close>

section \<open>Configuration\<close>

record app_config =
  ac_backend :: pystr
  ac_origins :: "pystr list"
  ac_credentials :: bool
  ac_rate_limit :: int
  ac_keys :: key_store

definition cors_origins :: "environ \<Rightarrow> pystr list" where
  "cors_origins ev =
     filter (\<lambda>s. s \<noteq> []) (map py_strip (split_at 44 (env_str ev (lit ''CHEN_CORS_ORIGINS'') (lit ''*''))))"

text \<open>The constructor opens the run store last.\<close>

definition create_app :: "environ \<Rightarrow> keys_file \<Rightarrow> (run_db, py_exc, app_config) act" where
  "create_app ev f =
     (case py_int (env_str ev (lit ''CHEN_RATE_LIMIT_PER_MINUTE'') (lit ''60'')) of
        None \<Rightarrow> raise ValueError
      | Some n \<Rightarrow>
          bnd open_store (\<lambda>_.
          ret \<lparr>ac_backend = env_str ev (lit ''CHEN_DEFAULT_BACKEND'') (lit ''mock''), ac_origins = cors_origins ev,
               ac_credentials = (cors_origins ev \<noteq> [lit ''*'']), ac_rate_limit = n, ac_keys = load_keys f\<rparr>))"

section \<open>Inference with its counters\<close>

definition infer_metered :: "'w server \<Rightarrow> infer_request \<Rightarrow> (prom \<times> 'w app_state, py_exc, infer_response) act" where
  "infer_metered sv q =
     bnd (on_snd (run_request sv q)) (\<lambda>r.
     bnd (emit_run (iq_phase q) (pr_per_expert r)) (\<lambda>_.
     bnd (on_snd (save_result sv q r)) (\<lambda>_.
     ret (response_of sv q r))))"

section \<open>Routes\<close>

datatype route = Infer_Route | Stream_Route | Runs_Route | Run_Route pystr | Health_Route | Metrics_Route

definition find_route :: "pystr \<Rightarrow> route option" where
  "find_route path =
     (if path = lit ''/v1/infer'' then Some Infer_Route
      else if path = lit ''/v1/infer/stream'' then Some Stream_Route
      else if path = lit ''/v1/runs'' then Some Runs_Route
      else if path = lit ''/v1/health'' then Some Health_Route
      else if path = lit ''/v1/metrics'' then Some Metrics_Route
      else if py_startswith (lit ''/v1/runs/'') path \<and> drop 9 path \<noteq> [] \<and> 47 \<notin> set (drop 9 path)
      then Some (Run_Route (drop 9 path)) else None)"

definition route_method :: "route \<Rightarrow> pystr" where
  "route_method r = (if r = Infer_Route \<or> r = Stream_Route then lit ''POST'' else lit ''GET'')"

text \<open>A request: the body and the query of \<open>/v1/runs\<close> as parsed, \<open>None\<close> when they do not parse.\<close>

record http_request =
  hr_scope :: scope
  hr_body :: "infer_request option"
  hr_query :: "(int \<times> int option) option"

datatype body =
    Infer_Body infer_response
  | Stream_Body "sse list" "py_exc option"
  | Runs_Body "run_summary list"
  | Run_Body run_detail
  | Health_Body pystr bool
  | Metrics_Body prom
  | Plain_Body
  | Crash_Body

type_synonym response = "int \<times> body"

definition http_response :: "('a \<Rightarrow> body) \<Rightarrow> 'a http \<Rightarrow> py_exc + response" where
  "http_response f r =
     (case r of Reply x \<Rightarrow> Inr (200, f x)
      | Status n \<Rightarrow> (if n = 500 then Inl OtherError else Inr (int n, Plain_Body)))"

definition call_route ::
  "'w server \<Rightarrow> app_config \<Rightarrow> ((pystr \<times> run_row) list \<Rightarrow> (pystr \<times> run_row) list) \<Rightarrow> http_request \<Rightarrow> route \<Rightarrow>
   (prom \<times> 'w app_state, py_exc, response) act" where
  "call_route sv cfg arr rq rt =
     (case rt of
        Infer_Route \<Rightarrow>
          (case hr_body rq of
             None \<Rightarrow> ret (422, Plain_Body)
           | Some q \<Rightarrow>
               if valid_request q then bnd (infer_metered sv q) (\<lambda>x. ret (200, Infer_Body x)) else ret (422, Plain_Body))
      | Stream_Route \<Rightarrow>
          (case hr_body rq of
             None \<Rightarrow> ret (422, Plain_Body)
           | Some q \<Rightarrow>
               if valid_request q
               then (\<lambda>(mx, s). case infer_stream sv q s of ((es, e), s') \<Rightarrow> (Inr (200, Stream_Body es e), (mx, s')))
               else ret (422, Plain_Body))
      | Runs_Route \<Rightarrow>
          (case hr_query rq of
             None \<Rightarrow> ret (422, Plain_Body)
           | Some (n, ph) \<Rightarrow> (\<lambda>(mx, s). (http_response Runs_Body (list_runs arr n ph (fst s)), (mx, s))))
      | Run_Route rid \<Rightarrow> (\<lambda>(mx, s). (http_response Run_Body (get_run rid (fst s)), (mx, s)))
      | Health_Route \<Rightarrow> ret (200, Health_Body (ac_backend cfg) (has_keys (ac_keys cfg)))
      | Metrics_Route \<Rightarrow> (\<lambda>(mx, s). (Inr (200, Metrics_Body mx), (mx, s))))"

definition route_request ::
  "'w server \<Rightarrow> app_config \<Rightarrow> (scope \<Rightarrow> int) \<Rightarrow> ((pystr \<times> run_row) list \<Rightarrow> (pystr \<times> run_row) list) \<Rightarrow> http_request \<Rightarrow>
   (prom \<times> 'w app_state, py_exc, response) act" where
  "route_request sv cfg other arr rq =
     (case find_route (sc_path (hr_scope rq)) of
        None \<Rightarrow> ret (other (hr_scope rq), Plain_Body)
      | Some rt \<Rightarrow>
          (if sc_method (hr_scope rq) = route_method rt then call_route sv cfg arr rq rt else ret (405, Plain_Body)))"

section \<open>The way of a request\<close>

record 'w app_run =
  ar_metrics :: prom
  ar_limiter :: limiter
  ar_store :: "'w app_state"

record 'w chen_app =
  ca_server :: "'w server"
  ca_config :: app_config
  ca_cors :: "scope \<Rightarrow> int option"
  ca_other :: "scope \<Rightarrow> int"
  ca_order :: "(pystr \<times> run_row) list \<Rightarrow> (pystr \<times> run_row) list"

text \<open>Authentication, the limiter, CORS and the routes.\<close>

definition inner_app :: "'w chen_app \<Rightarrow> http_request \<Rightarrow> real \<Rightarrow> ('w app_run, py_exc, response) act" where
  "inner_app a rq now = (\<lambda>st.
     case server_stack (ac_keys (ca_config a)) (ac_rate_limit (ca_config a)) now (hr_scope rq) (ar_limiter st) of
       (Deny status, l) \<Rightarrow> (Inr (status, Plain_Body), st\<lparr>ar_limiter := l\<rparr>)
     | (Pass sc, l) \<Rightarrow>
         (case ca_cors a sc of
            Some status \<Rightarrow> (Inr (status, Plain_Body), st\<lparr>ar_limiter := l\<rparr>)
          | None \<Rightarrow>
              (case route_request (ca_server a) (ca_config a) (ca_other a) (ca_order a) (rq\<lparr>hr_scope := sc\<rparr>)
                      (ar_metrics st, ar_store st) of
                 (r, (mx, s)) \<Rightarrow> (r, \<lparr>ar_metrics = mx, ar_limiter = l, ar_store = s\<rparr>))))"

text \<open>The outermost layer counts what returns; an exception passes it by and the framework answers with 500.\<close>

definition serve_request :: "'w chen_app \<Rightarrow> http_request \<Rightarrow> real \<Rightarrow> real \<Rightarrow> 'w app_run \<Rightarrow> response \<times> 'w app_run" where
  "serve_request a rq now elapsed st =
     (case inner_app a rq now st of
        (Inl _, st') \<Rightarrow> ((500, Crash_Body), st')
      | (Inr (status, b), st') \<Rightarrow>
          ((status, b),
           st'\<lparr>ar_metrics :=
             observe_request_latency (sc_path (hr_scope rq)) elapsed
               (record_request (sc_method (hr_scope rq)) (sc_path (hr_scope rq)) status (ar_metrics st'))\<rparr>))"

section \<open>Runs report\<close>

lemma run_pipeline_report:
  fixes p :: "'w runnable"
  assumes "run_pipeline p prompt kwarg w = (Inr r, w')"
  shows "\<exists>(pl :: 'w pipeline) names. final_report pl names r"
proof (cases p)
  case (Cascade pl)
  then have "cascade_run pl prompt kwarg w = (Inr r, w')" using assms by (simp add: run_pipeline_def)
  from cascade_run_report [OF this] show ?thesis by blast
next
  case (KVPass pl)
  then have "kv_run pl prompt kwarg w = (Inr r, w')" using assms by (simp add: run_pipeline_def)
  from kv_run_report [OF this] show ?thesis by blast
next
  case (Routing pl rt th)
  then have r: "routing_run pl rt th prompt kwarg w = (Inr r, w')" using assms by (simp add: run_pipeline_def)
  then obtain routed v where "rt prompt (pl_experts pl) w = (Inr routed, v)" by (auto simp: routing_run_def)
  from routing_run_report [OF r this] show ?thesis by blast
qed

lemma run_request_report:
  fixes sv :: "'w server"
  assumes "run_request sv q s = (Inr r, s')"
  shows "\<exists>(pl :: 'w pipeline) names. final_report pl names r"
proof -
  obtain db w where s: "s = (db, w)" by (cases s)
  obtain p :: "'w runnable" and w' where "run_pipeline p (iq_prompt q) None w = (Inr r, w')"
    using assms unfolding s run_request_def
    by (auto simp: bnd_apply on_snd_apply split: sum.splits prod.splits)
  then show ?thesis by (rule run_pipeline_report)
qed

section \<open>What an action leaves alone\<close>

text \<open>Actions that keep the request counters, and actions that keep the store.\<close>

definition counters_kept :: "(prom \<times> 's, py_exc, 'a) act \<Rightarrow> bool" where
  "counters_kept m \<longleftrightarrow> (\<forall>a s r mx s'. m (Some a, s) = (r, (mx, s')) \<longrightarrow>
     (\<exists>b. mx = Some b \<and> mx_requests b = mx_requests a \<and> mx_latency b = mx_latency a))"

definition store_kept :: "(prom \<times> 's, py_exc, 'a) act \<Rightarrow> bool" where
  "store_kept m \<longleftrightarrow> (\<forall>mx s r mx' s'. m (mx, s) = (r, (mx', s')) \<longrightarrow> s' = s)"

named_theorems kept_intros \<open>actions that keep the counters or the store\<close>

lemma counters_keptD:
  assumes "counters_kept m" and "m (Some a, s) = (r, (mx, s'))"
  shows "\<exists>b. mx = Some b \<and> mx_requests b = mx_requests a \<and> mx_latency b = mx_latency a"
  using assms unfolding counters_kept_def by fast

lemma kept_ret [kept_intros]: "counters_kept (ret x)" "store_kept (ret x)"
  by (auto simp: counters_kept_def store_kept_def)

lemma counters_kept_bnd [kept_intros]:
  assumes "counters_kept m" and "\<And>x. counters_kept (f x)"
  shows "counters_kept (bnd m f)"
  unfolding counters_kept_def
proof (intro allI impI)
  fix a s r mx s'
  assume b: "bnd m f (Some a, s) = (r, (mx, s'))"
  obtain r1 mx1 s1 where m: "m (Some a, s) = (r1, (mx1, s1))" by (cases "m (Some a, s)") auto
  obtain c where c: "mx1 = Some c" "mx_requests c = mx_requests a" "mx_latency c = mx_latency a"
    using counters_keptD [OF assms(1) m] by (elim exE conjE) (rule that)
  show "\<exists>b. mx = Some b \<and> mx_requests b = mx_requests a \<and> mx_latency b = mx_latency a"
  proof (cases r1)
    case (Inl e)
    with b c show ?thesis by (auto simp: bnd_def m)
  next
    case (Inr x)
    with b c have "f x (Some c, s1) = (r, (mx, s'))" by (simp add: bnd_def m)
    from counters_keptD [OF assms(2) this] c(2,3) show ?thesis by simp
  qed
qed

lemma counters_kept_on_snd [kept_intros]: "counters_kept (on_snd m)"
  by (auto simp: counters_kept_def on_snd_apply split: prod.splits)

lemma counters_kept_noting [kept_intros]:
  "counters_kept (noting (record_expert_invocation n r))" "counters_kept (noting (record_kv_transfer x y ok))"
  "counters_kept (noting (record_pipeline_run ph))" "counters_kept (noting_tokens d k)"
  by (auto simp: counters_kept_def record_expert_invocation_def record_kv_transfer_def record_pipeline_run_def
      noting_tokens_def record_tokens_def split: if_splits)

lemma counters_kept_emit [kept_intros]: "counters_kept (emit_run ph ms)"
proof -
  have "counters_kept (emit_experts ms)"
  proof (induction ms)
    case Nil
    show ?case unfolding emit_experts.simps by (rule kept_ret)
  next
    case (Cons m ms)
    then show ?case by (auto intro!: kept_intros)
  qed
  then show ?thesis unfolding emit_run_def by (intro kept_intros)
qed

lemma counters_kept_infer [kept_intros]: "counters_kept (infer_metered sv q)"
  unfolding infer_metered_def by (intro kept_intros)

lemma counters_kept_state [kept_intros]: "counters_kept (\<lambda>(mx, s). (f mx s, (mx, g s)))"
  by (auto simp: counters_kept_def)

lemma stream_state:
  "(\<lambda>(mx, s). case infer_stream sv q s of ((es, e), s') \<Rightarrow> (Inr (200, Stream_Body es e), (mx, s'))) =
   (\<lambda>(mx, s). (Inr (200, Stream_Body (fst (fst (infer_stream sv q s))) (snd (fst (infer_stream sv q s)))),
                (mx, snd (infer_stream sv q s))))"
  by (auto simp: fun_eq_iff split: prod.split)

lemma counters_kept_call: "counters_kept (call_route sv cfg arr rq rt)"
  unfolding call_route_def stream_state
  by (auto intro!: kept_intros split: route.split option.split)

lemma counters_kept_route: "counters_kept (route_request sv cfg other arr rq)"
  unfolding route_request_def by (auto intro!: kept_intros counters_kept_call split: option.split)

lemma store_kept_state [kept_intros]: "store_kept (\<lambda>(mx, s). (f mx s, (mx, s)))"
  by (auto simp: store_kept_def)

lemma store_kept_call: "route_method rt = lit ''GET'' \<Longrightarrow> store_kept (call_route sv cfg arr rq rt)"
  unfolding call_route_def
  by (auto intro!: kept_intros simp: route_method_def split: route.split option.split if_splits)

lemma get_or_post: "route_method rt = lit ''GET'' \<or> route_method rt = lit ''POST''"
  by (simp add: route_method_def)

lemma store_kept_route:
  assumes "sc_method (hr_scope rq) \<noteq> lit ''POST''"
  shows "store_kept (route_request sv cfg other arr rq)"
proof (cases "find_route (sc_path (hr_scope rq))")
  case (Some rt)
  show ?thesis
  proof (cases "sc_method (hr_scope rq) = route_method rt")
    case True
    then have "route_method rt = lit ''GET''" using assms get_or_post [of rt] by (simp del: lit_Cons)
    from store_kept_call [OF this] show ?thesis by (simp add: route_request_def Some True)
  qed (simp add: route_request_def Some kept_intros)
qed (simp add: route_request_def kept_intros)

lemma call_route_body: "call_route sv cfg arr rq rt s = (Inr (st, b), s') \<Longrightarrow> b \<noteq> Crash_Body"
  by (cases s) (auto simp: call_route_def http_response_def bnd_Inr_iff split: route.splits option.splits if_splits prod.splits http.splits)

lemma route_request_body: "route_request sv cfg other arr rq s = (Inr (st, b), s') \<Longrightarrow> b \<noteq> Crash_Body"
  by (auto simp: route_request_def split: option.splits if_splits dest: call_route_body)

section \<open>Requests\<close>

text \<open>A request that gets past the middlewares.\<close>

lemma inner_app_cases:
  obtains status l where "inner_app a rq now st = (Inr (status, Plain_Body), st\<lparr>ar_limiter := l\<rparr>)"
    | sc l r mx s where "auth_middleware (ac_keys (ca_config a)) (hr_scope rq) = Pass sc"
      and "route_request (ca_server a) (ca_config a) (ca_other a) (ca_order a) (rq\<lparr>hr_scope := sc\<rparr>) (ar_metrics st, ar_store st) =
        (r, (mx, s))"
      and "inner_app a rq now st = (r, \<lparr>ar_metrics = mx, ar_limiter = l, ar_store = s\<rparr>)"
proof (cases "auth_middleware (ac_keys (ca_config a)) (hr_scope rq)")
  case (Deny status)
  have "inner_app a rq now st = (Inr (status, Plain_Body), st\<lparr>ar_limiter := ar_limiter st\<rparr>)"
    by (simp add: inner_app_def server_stack_def Deny)
  then show ?thesis by (rule that(1))
next
  case (Pass sc)
  obtain d l where rm: "rate_middleware (ac_rate_limit (ca_config a)) now sc (ar_limiter st) = (d, l)"
    by (cases "rate_middleware (ac_rate_limit (ca_config a)) now sc (ar_limiter st)")
  show ?thesis
  proof (cases d)
    case (Deny status)
    have "inner_app a rq now st = (Inr (status, Plain_Body), st\<lparr>ar_limiter := l\<rparr>)"
      by (simp add: inner_app_def server_stack_def Pass rm Deny)
    then show ?thesis by (rule that(1))
  next
    case p: (Pass sc')
    have sc': "sc' = sc" using rm p by (auto simp: rate_middleware_def Let_def split: if_splits prod.splits)
    show ?thesis
    proof (cases "ca_cors a sc")
      case (Some status)
      have "inner_app a rq now st = (Inr (status, Plain_Body), st\<lparr>ar_limiter := l\<rparr>)"
        by (simp add: inner_app_def server_stack_def Pass rm p sc' Some)
      then show ?thesis by (rule that(1))
    next
      case None
      obtain r mx s where r: "route_request (ca_server a) (ca_config a) (ca_other a) (ca_order a) (rq\<lparr>hr_scope := sc\<rparr>)
          (ar_metrics st, ar_store st) = (r, (mx, s))"
        by (rule prod_cases3)
      have "inner_app a rq now st = (r, \<lparr>ar_metrics = mx, ar_limiter = l, ar_store = s\<rparr>)"
        by (simp add: inner_app_def server_stack_def Pass rm p sc' None r)
      with Pass r show ?thesis by (rule that(2))
    qed
  qed
qed

lemma serve_store: "ar_store (snd (serve_request a rq now el st)) = ar_store (snd (inner_app a rq now st))"
  by (auto simp: serve_request_def split: prod.split sum.split)

section \<open>One request\<close>

text \<open>An answered request is counted, a crashed one is not.\<close>

lemma request_counted:
  assumes "ar_metrics st = Some mx"
  shows "case serve_request a rq now el st of ((status, b), st') \<Rightarrow>
     \<exists>mx'. ar_metrics st' = Some mx' \<and>
       (if b = Crash_Body
        then status = 500 \<and> mx_requests mx' = mx_requests mx \<and> mx_latency mx' = mx_latency mx
        else mx_requests mx' = inc (sc_method (hr_scope rq), sc_path (hr_scope rq), py_str_int status) (mx_requests mx) \<and>
             mx_latency mx' = mx_latency mx @ [(sc_path (hr_scope rq), el)])"
proof (cases rule: inner_app_cases [of a rq now st])
  case (1 status l)
  then show ?thesis
    by (simp add: serve_request_def assms observe_request_latency_def record_request_def)
next
  case (2 sc l r mx1 s)
  obtain b where b: "mx1 = Some b" "mx_requests b = mx_requests mx" "mx_latency b = mx_latency mx"
    using counters_keptD [OF counters_kept_route 2(2) [unfolded assms]] by (elim exE conjE) (rule that)
  show ?thesis
  proof (cases r)
    case (Inl e)
    then show ?thesis using b by (simp add: serve_request_def 2(3))
  next
    case (Inr p)
    obtain status bd where p: "p = (status, bd)" by (cases p)
    have "bd \<noteq> Crash_Body" using 2(2) unfolding Inr p by (rule route_request_body)
    then show ?thesis using b by (simp add: serve_request_def 2(3) Inr p observe_request_latency_def record_request_def)
  qed
qed

text \<open>A read-only key leaves the store alone.\<close>

lemma read_only_request:
  assumes "sc_type (hr_scope rq) = lit ''http''" and "has_keys (ac_keys (ca_config a))"
    and "bearer_key (hr_scope rq) = Some t" and "store_get (ac_keys (ca_config a)) t = Some k" and "ak_role k = lit ''read-only''"
  shows "ar_store (snd (serve_request a rq now el st)) = ar_store st"
proof (cases rule: inner_app_cases [of a rq now st])
  case (2 sc l r mx s)
  have roles: "lit ''read-only'' \<noteq> lit ''admin''" "lit ''read-only'' \<noteq> lit ''user''" "lit ''GET'' \<noteq> lit ''POST''" by simp_all
  have fr: "sc_path sc = sc_path (hr_scope rq)" "sc_method sc = sc_method (hr_scope rq)"
    using auth_pass_frame [OF 2(1)] by simp_all
  have "store_kept (route_request (ca_server a) (ca_config a) (ca_other a) (ca_order a) (rq\<lparr>hr_scope := sc\<rparr>))"
  proof (cases "sc_path (hr_scope rq) \<in> set public_paths")
    case True
    have "find_route (sc_path sc) = None \<or> find_route (sc_path sc) = Some Health_Route \<or> find_route (sc_path sc) = Some Metrics_Route"
      using True unfolding fr(1) public_paths_def find_route_def by (auto simp: py_startswith_def)
    then show ?thesis
      unfolding route_request_def
      by (auto intro!: kept_intros store_kept_call simp: route_method_def simp del: lit_Cons)
  next
    case False
    have "sc_method (hr_scope rq) = lit ''GET''"
    proof (rule ccontr)
      assume "sc_method (hr_scope rq) \<noteq> lit ''GET''"
      then have "\<not> check_permission k (sc_path (hr_scope rq)) (sc_method (hr_scope rq))"
        using assms(5) roles by (simp add: check_permission_def del: lit_Cons)
      then have "auth_middleware (ac_keys (ca_config a)) (hr_scope rq) = Deny 403"
        using assms(1-4) False by (simp add: auth_middleware_def del: lit_Cons)
      with 2(1) show False by simp
    qed
    then show ?thesis using roles fr(2) by (intro store_kept_route) (simp del: lit_Cons)
  qed
  then have "s = ar_store st" using 2(2) unfolding store_kept_def by fast
  then show ?thesis by (simp add: serve_store 2(3))
qed (simp add: serve_store)

section \<open>Sessions\<close>

text \<open>Requests served one after the other, each with the clock readings of its middlewares.\<close>

fun serve_all :: "'w chen_app \<Rightarrow> (http_request \<times> real \<times> real) list \<Rightarrow> 'w app_run \<Rightarrow> response list \<times> 'w app_run" where
  "serve_all a [] st = ([], st)"
| "serve_all a ((rq, now, el) # rs) st =
     (case serve_request a rq now el st of (r, st') \<Rightarrow> (case serve_all a rs st' of (xs, st'') \<Rightarrow> (r # xs, st'')))"

lemma serve_all_state:
  "snd (serve_all a (x # rs) st) = snd (serve_all a rs (snd (serve_request a (fst x) (fst (snd x)) (snd (snd x)) st)))"
  by (cases x) (simp split: prod.split)

definition answered_as :: "pystr \<times> pystr \<times> pystr \<Rightarrow> (http_request \<times> real \<times> real) \<times> response \<Rightarrow> bool" where
  "answered_as key x \<longleftrightarrow>
     (case x of ((rq, _, _), (status, b)) \<Rightarrow>
        b \<noteq> Crash_Body \<and> (sc_method (hr_scope rq), sc_path (hr_scope rq), py_str_int status) = key)"

definition presents_read_only :: "'w chen_app \<Rightarrow> http_request \<Rightarrow> bool" where
  "presents_read_only a rq \<longleftrightarrow>
     sc_type (hr_scope rq) = lit ''http'' \<and>
     (case bearer_key (hr_scope rq) of None \<Rightarrow> False
      | Some t \<Rightarrow> (case store_get (ac_keys (ca_config a)) t of None \<Rightarrow> False | Some k \<Rightarrow> ak_role k = lit ''read-only''))"

lemma presents_read_only_keys:
  assumes "presents_read_only a rq"
  shows "ar_store (snd (serve_request a rq now el st)) = ar_store st"
proof -
  obtain t k where t: "bearer_key (hr_scope rq) = Some t" and k: "store_get (ac_keys (ca_config a)) t = Some k"
    "ak_role k = lit ''read-only''" and h: "sc_type (hr_scope rq) = lit ''http''"
    using assms by (auto simp: presents_read_only_def split: option.splits simp del: lit_Cons)
  have "has_keys (ac_keys (ca_config a))" using k(1) by (auto simp: has_keys_def store_get_def)
  from read_only_request [OF h this t k] show ?thesis .
qed

text \<open>Each request is a step of a machine over the state of the application.\<close>

interpretation read_only: stepper "\<lambda>x st. if presents_read_only a (fst x) then snd (serve_request a (fst x) (fst (snd x)) (snd (snd x)) st) else st"
    "\<lambda>st. ar_store st = s0" for a :: "'w chen_app" and s0
  by unfold_locales (simp add: presents_read_only_keys)

section \<open>A small application\<close>

text \<open>One key, read-only or admin; no CORS answer; the unit server behind it.\<close>

definition unit_app :: "pystr \<Rightarrow> unit chen_app" where
  "unit_app role =
     \<lparr>ca_server = unit_server,
      ca_config = \<lparr>ac_backend = lit ''mock'', ac_origins = [lit ''*''], ac_credentials = False, ac_rate_limit = 60,
        ac_keys = [(lit ''k'', \<lparr>ak_key = lit ''k'', ak_role = role, ak_tenant = None, ak_name = [],
                               ak_created_at = 0, ak_rate_limit = 5\<rparr>)]\<rparr>,
      ca_cors = \<lambda>_. None, ca_other = \<lambda>_. 404, ca_order = \<lambda>xs. xs\<rparr>"

definition unit_http :: "pystr \<Rightarrow> pystr \<Rightarrow> (bytes \<times> bytes) list \<Rightarrow> http_request" where
  "unit_http meth path hs =
     \<lparr>hr_scope = \<lparr>sc_type = lit ''http'', sc_path = path, sc_method = meth, sc_headers = hs, sc_client = None, sc_state = None\<rparr>,
      hr_body = None, hr_query = None\<rparr>"

definition unit_run :: "unit app_run" where
  "unit_run = \<lparr>ar_metrics = Some no_metrics, ar_limiter = \<lambda>_. [], ar_store = (new_db, ())\<rparr>"

lemma unit_http_simps [simp]:
  "sc_type (hr_scope (unit_http m p hs)) = lit ''http''" "sc_path (hr_scope (unit_http m p hs)) = p"
  "sc_method (hr_scope (unit_http m p hs)) = m" "has_keys (ac_keys (ca_config (unit_app role)))"
  "ar_metrics unit_run = Some no_metrics"
  by (simp_all add: unit_http_def unit_app_def has_keys_def unit_run_def)

section \<open>Properties\<close>

text \<open>C22: Over any session the request counter is exact: under each method, path and status it has grown by the number of
  requests answered so, those turned away by authentication and by the limiter too. A request whose handler raised is
  in no counter: the exception passes the metrics middleware by and the framework answers 500.\<close>

theorem requests_counted:
  assumes "ar_metrics st = Some mx"
  shows "\<exists>mx'. ar_metrics (snd (serve_all a rs st)) = Some mx' \<and>
     (\<forall>key. mx_requests mx' key = mx_requests mx key + length (filter (answered_as key) (zip rs (fst (serve_all a rs st))))) \<and>
     length (mx_latency mx') =
       length (mx_latency mx) + length (filter (\<lambda>r. snd r \<noteq> Crash_Body) (fst (serve_all a rs st)))"
  using assms
proof (induction rs arbitrary: st mx)
  case (Cons x rs)
  obtain rq now el where x: "x = (rq, now, el)" by (cases x)
  obtain status b st1 where r: "serve_request a rq now el st = ((status, b), st1)"
    by (cases "serve_request a rq now el st") auto
  obtain mx1 where m1: "ar_metrics st1 = Some mx1"
    and c: "if b = Crash_Body
        then status = 500 \<and> mx_requests mx1 = mx_requests mx \<and> mx_latency mx1 = mx_latency mx
        else mx_requests mx1 = inc (sc_method (hr_scope rq), sc_path (hr_scope rq), py_str_int status) (mx_requests mx) \<and>
             mx_latency mx1 = mx_latency mx @ [(sc_path (hr_scope rq), el)]"
    using request_counted [OF Cons.prems, where a = a and rq = rq and now = now and el = el] unfolding r by auto
  obtain rs1 st2 where rs: "serve_all a rs st1 = (rs1, st2)" by (cases "serve_all a rs st1")
  obtain mx2 where m2: "ar_metrics st2 = Some mx2"
    "\<And>key. mx_requests mx2 key = mx_requests mx1 key + length (filter (answered_as key) (zip rs rs1))"
    "length (mx_latency mx2) = length (mx_latency mx1) + length (filter (\<lambda>r. snd r \<noteq> Crash_Body) rs1)"
    using Cons.IH [OF m1] unfolding rs by auto
  have all: "serve_all a (x # rs) st = ((status, b) # rs1, st2)" by (simp add: x r rs)
  have "mx_requests mx2 key = mx_requests mx key +
      length (filter (answered_as key) (zip (x # rs) ((status, b) # rs1)))" for key
    using c m2(2) [of key] by (auto simp: answered_as_def x inc_def split: if_splits)
  moreover have "length (mx_latency mx2) =
      length (mx_latency mx) + length (filter (\<lambda>r. snd r \<noteq> Crash_Body) ((status, b) # rs1))"
    using c m2(3) by (auto split: if_splits)
  ultimately show ?case unfolding all using m2(1) by simp
qed simp

theorem requests_counted_witness:
  "mx_requests (the (ar_metrics (snd (serve_all (unit_app (lit ''admin''))
     [(unit_http (lit ''GET'') (lit ''/v1/runs'') [], 0, 1)] unit_run)))) (lit ''GET'', lit ''/v1/runs'', lit ''401'') = 1"
proof -
  let ?r = "unit_http (lit ''GET'') (lit ''/v1/runs'') []"
  have "bearer_key (hr_scope ?r) = None"
    by (simp add: bearer_key_def auth_header_def unit_http_def ascii_decode_ignore_def py_startswith_def)
  then have a: "auth_middleware (ac_keys (ca_config (unit_app (lit ''admin'')))) (hr_scope ?r) = Deny 401"
    by (simp add: auth_middleware_def public_paths_def)
  have s: "fst (serve_request (unit_app (lit ''admin'')) ?r 0 1 unit_run) = (401, Plain_Body)"
    by (simp add: serve_request_def inner_app_def server_stack_def a del: lit_Cons)
  then have all: "fst (serve_all (unit_app (lit ''admin'')) [(?r, 0, 1)] unit_run) = [(401, Plain_Body)]"
    by (auto split: prod.split simp del: lit_Cons)
  have c: "py_str_int 401 = lit ''401''" by code_simp
  have z: "mx_requests no_metrics k = 0" for k by (simp add: no_metrics_def)
  from requests_counted [where st = unit_run and mx = no_metrics and a = "unit_app (lit ''admin'')" and rs = "[(?r, 0, 1)]"]
  show ?thesis unfolding all by (auto simp: c z answered_as_def simp del: lit_Cons serve_all.simps)
qed

text \<open>C23: A session with read-only keys cannot change anything but counters and rate limits: whatever its requests are, the run
  store and the backends behind the pipelines are at its end as they were.\<close>

theorem read_only_key_never_writes:
  assumes "\<forall>x\<in>set rs. presents_read_only a (fst x)"
  shows "ar_store (snd (serve_all a rs st)) = ar_store st"
proof -
  let ?step = "\<lambda>x st. if presents_read_only a (fst x) then snd (serve_request a (fst x) (fst (snd x)) (snd (snd x)) st) else st"
  have "snd (serve_all a rs st) = foldl (\<lambda>s x. ?step x s) st rs"
    using assms by (induction rs arbitrary: st) (simp_all add: serve_all_state del: serve_all.simps(2))
  then show ?thesis using read_only.run_inv [of st "ar_store st" a rs] by simp
qed

theorem read_only_key_never_writes_witness:
  "ar_store (snd (serve_all (unit_app (lit ''read-only''))
     [((unit_http (lit ''POST'') (lit ''/v1/infer'') [(map byte_of (lit ''authorization''), map byte_of (lit ''Bearer k''))])
        \<lparr>hr_body := Some (unit_request (lit ''hi'') True)\<rparr>, 0, 1)] unit_run)) = (new_db, ())"
proof -
  let ?rq = "(unit_http (lit ''POST'') (lit ''/v1/infer'') [(map byte_of (lit ''authorization''), map byte_of (lit ''Bearer k''))])
        \<lparr>hr_body := Some (unit_request (lit ''hi'') True)\<rparr>"
  have b: "bearer_key (hr_scope ?rq) = Some (lit ''k'')" by (simp add: unit_http_def) code_simp
  have "presents_read_only (unit_app (lit ''read-only'')) ?rq"
    unfolding presents_read_only_def b by (simp add: unit_http_def unit_app_def store_get_def)
  then have "ar_store (snd (serve_all (unit_app (lit ''read-only'')) [(?rq, 0, 1)] unit_run)) = ar_store unit_run"
    by (intro read_only_key_never_writes) simp
  then show ?thesis by (simp add: unit_run_def del: serve_all.simps)
qed

text \<open>With keys configured, a request without a key to a path that is not public is answered 401 before CORS sees it. A
  browser's preflight request carries no key, so it is refused, whatever origins are allowed.\<close>

theorem preflight_refused:
  assumes "sc_type (hr_scope rq) = lit ''http''" and "has_keys (ac_keys (ca_config a))"
    and "sc_path (hr_scope rq) \<notin> set public_paths" and "bearer_key (hr_scope rq) = None"
  shows "case serve_request a rq now el st of (resp, st') \<Rightarrow>
     resp = (401, Plain_Body) \<and> ar_store st' = ar_store st \<and> ar_limiter st' = ar_limiter st"
proof -
  have "auth_middleware (ac_keys (ca_config a)) (hr_scope rq) = Deny 401"
    using assms by (simp add: auth_middleware_def del: lit_Cons)
  then show ?thesis by (simp add: serve_request_def inner_app_def server_stack_def)
qed

theorem preflight_refused_witness:
  "fst (serve_request (unit_app (lit ''user'')) (unit_http (lit ''OPTIONS'') (lit ''/v1/infer'') []) 0 1 unit_run) = (401, Plain_Body)"
proof -
  let ?r = "unit_http (lit ''OPTIONS'') (lit ''/v1/infer'') []"
  have b: "bearer_key (hr_scope ?r) = None"
    by (simp add: bearer_key_def auth_header_def unit_http_def ascii_decode_ignore_def py_startswith_def)
  have "case serve_request (unit_app (lit ''user'')) ?r 0 1 unit_run of (resp, st') \<Rightarrow>
     resp = (401, Plain_Body) \<and> ar_store st' = ar_store unit_run \<and> ar_limiter st' = ar_limiter unit_run"
    by (rule preflight_refused [OF _ _ _ b]) (simp_all add: public_paths_def)
  then show ?thesis by (auto split: prod.splits)
qed



end
