(* ===== verification/Cli_Keys.thy ===== *)
theory Cli_Keys
  imports Sec_Keys
begin

text \<open>
  \<open>chen/cli/commands/keys.py\<close>: the subcommands of \<open>chen keys\<close> over the key store. A command ends normally with
  what it shows, with exit code 1 after a message, or with an exception it does not handle.
\<close>

section \<open>The commands\<close>

datatype 'a cli = Shown 'a | Exit_1

definition keys_generate ::
  "'w crypto_lib \<Rightarrow> ('w \<Rightarrow> pystr \<times> 'w) \<Rightarrow> (key_files \<times> 'w, py_exc, (pystr \<times> pystr) cli) act" where
  "keys_generate lib now = bnd (generate_key lib now None) (\<lambda>m. ret (Shown (km_key_id m, km_status m)))"

text \<open>A row: id, status, whether it is marked as the active key, creation date and the key it replaced.\<close>

definition key_row :: "pystr option \<Rightarrow> key_meta \<Rightarrow> pystr \<times> pystr \<times> bool \<times> pystr \<times> pystr" where
  "key_row active_id k =
     (km_key_id k, km_status k, Some (km_key_id k) = active_id, km_created_at k,
      (case km_rotation_of k of Some r \<Rightarrow> (if r \<noteq> [] then r else [8212]) | None \<Rightarrow> [8212]))"

definition keys_list :: "key_files \<Rightarrow> py_exc + (pystr \<times> pystr \<times> bool \<times> pystr \<times> pystr) list" where
  "keys_list fs =
     (case get_active fs of
        Inl e \<Rightarrow> Inl e
      | Inr active \<Rightarrow> Inr (map (key_row (map_option km_key_id active)) (list_keys fs)))"

text \<open>\<open>except KeyError: ... raise typer.Exit(1)\<close>\<close>

definition exit_on_key_error :: "('s, py_exc, 'a) act \<Rightarrow> ('s, py_exc, 'a cli) act" where
  "exit_on_key_error m = (\<lambda>s. case m s of
     (Inl e, s') \<Rightarrow> (if e = KeyError then (Inr Exit_1, s') else (Inl e, s'))
   | (Inr x, s') \<Rightarrow> (Inr (Shown x), s'))"

definition keys_activate :: "pystr \<Rightarrow> (key_files \<times> 'w, py_exc, unit cli) act" where
  "keys_activate kid = exit_on_key_error (activate kid)"

definition keys_rotate ::
  "'w crypto_lib \<Rightarrow> ('w \<Rightarrow> pystr \<times> 'w) \<Rightarrow> (key_files \<times> 'w, py_exc, (pystr \<times> pystr option) cli) act" where
  "keys_rotate lib now =
     bnd (\<lambda>(fs, w). (get_active fs, (fs, w))) (\<lambda>old.
     bnd (rotate_key lib now) (\<lambda>m. ret (Shown (km_key_id m, map_option km_key_id old))))"

definition keys_revoke :: "pystr \<Rightarrow> (key_files \<times> 'w, py_exc, unit cli) act" where
  "keys_revoke kid = exit_on_key_error (revoke kid)"

definition keys_show :: "pystr \<Rightarrow> key_files \<Rightarrow> py_exc + (pystr \<times> pystr \<times> pystr \<times> pystr option) cli" where
  "keys_show kid fs =
     (case load_key kid fs of
        Inl e \<Rightarrow> Inl e
      | Inr None \<Rightarrow> Inr Exit_1
      | Inr (Some m) \<Rightarrow> Inr (Shown (km_key_id m, km_status m, km_created_at m, km_rotation_of m)))"

text \<open>The variables, in the order the lines are printed.\<close>

definition keys_export_env :: "pystr \<Rightarrow> key_files \<Rightarrow> py_exc + (pystr \<times> pystr) list cli" where
  "keys_export_env kid fs =
     (case load_key kid fs of
        Inl e \<Rightarrow> Inl e
      | Inr None \<Rightarrow> Inr Exit_1
      | Inr (Some m) \<Rightarrow>
          (case to_config m of Inl e \<Rightarrow> Inl e | Inr c \<Rightarrow> Inr (Shown (to_env_dict c))))"

section \<open>Lemmas\<close>

lemma to_config_shape:
  assumes "to_config m = Inr c"
  shows "length (master_key c) = 32 \<and> block_size c = 4096 \<and> algorithm c = lit ''AES-256-GCM''"
  using assms by (auto simp: to_config_def mk_config_def config_post_init_def split: option.splits if_splits)

text \<open>The environment a shell has after the printed lines.\<close>

definition env_with :: "(pystr \<times> pystr) list \<Rightarrow> environ \<Rightarrow> environ" where
  "env_with kvs ev = (\<lambda>k. case map_of kvs k of Some v \<Rightarrow> Some v | None \<Rightarrow> ev k)"

lemma env_with_dict:
  "env_with (to_env_dict c) ev (lit ''CHEN_MASTER_KEY'') = Some (b64_encode (master_key c))"
  "env_with (to_env_dict c) ev (lit ''CHEN_KEY_ID'') = Some (ec_key_id c)"
  by (simp_all add: env_with_def to_env_dict_def)

lemma env_reads_config:
  assumes "length (master_key c) = 32"
  shows "config_from_env lib (env_with (to_env_dict c) ev) w =
     (Inr \<lparr>master_key = master_key c, ec_key_id = ec_key_id c, block_size = 4096, algorithm = lit ''AES-256-GCM''\<rparr>, w)"
proof -
  have ne: "b64_encode (master_key c) \<noteq> []"
    using assms by (metis b64_encode.simps(1) b64_decode_encode list.size(3) option.inject zero_neq_numeral)
  show ?thesis
    by (simp add: config_from_env_def env_str_def env_with_dict ne mk_config_def config_post_init_def assms del: lit_Cons)
qed

section \<open>Properties\<close>

text \<open>C29: \<open>chen keys export-env\<close> carries a stored key to another process whole: the configuration that process reads from
  its environment is the stored key's, with its block size and algorithm. The status plays no part, so a revoked key is
  exported like any other.\<close>

theorem exported_key_round_trip:
  assumes "get_meta fs kid = Some m" and "to_config m = Inr c"
  shows "\<exists>kvs. keys_export_env kid fs = Inr (Shown kvs) \<and> config_from_env lib (env_with kvs ev) w = (Inr c, w)"
proof -
  have "keys_export_env kid fs = Inr (Shown (to_env_dict c))"
    by (simp add: keys_export_env_def load_key_get_meta [OF assms(1)] assms(2))
  moreover have "config_from_env lib (env_with (to_env_dict c) ev) w = (Inr c, w)"
    using env_reads_config [of c lib ev w] to_config_shape [OF assms(2)] by (cases c) simp
  ultimately show ?thesis by blast
qed

theorem exported_key_round_trip_witness:
  "\<exists>kvs c. keys_export_env [48 + 3] demo_dir = Inr (Shown kvs) \<and> to_config (demo_meta 3 revoked_st) = Inr c \<and>
     config_from_env plain_lib (env_with kvs (\<lambda>_. None)) () = (Inr c, ())"
proof -
  have "\<exists>c. to_config (demo_meta 3 revoked_st) = Inr c"
    by (simp add: to_config_def demo_meta_def mk_config_def config_post_init_def)
  then obtain c where c: "to_config (demo_meta 3 revoked_st) = Inr c" ..
  from exported_key_round_trip [OF demo_dir_ok(3) c, of plain_lib "\<lambda>_. None" "()"] c show ?thesis by blast
qed

text \<open>\<open>chen keys list\<close> marks the key the store hands out: after a successful \<open>chen keys activate\<close> one row carries the
  mark, that of the activated key, and its status is \<open>active\<close>; an unknown id ends with exit code 1 and changes nothing.\<close>

theorem keys_list_marks_active:
  assumes "dir_ok fs" and "kid \<noteq> []"
  shows "if load_key kid fs = Inr None
     then keys_activate kid (fs, w) = (Inr Exit_1, (fs, w))
     else \<exists>fs' rows. keys_activate kid (fs, w) = (Inr (Shown ()), (fs', w)) \<and> keys_list fs' = Inr rows \<and>
       (\<forall>i st mark t r. (i, st, mark, t, r) \<in> set rows \<longrightarrow> mark = (i = kid) \<and> (st = active_st) = (i = kid)) \<and>
       kid \<in> fst ` set rows"
proof (cases "load_key kid fs = Inr None")
  case True
  then show ?thesis by (simp add: keys_activate_def exit_on_key_error_def activate_def)
next
  case False
  have "\<exists>m. get_meta fs kid = Some m"
  proof (cases "map_of fs (key_file kid)")
    case None
    then show ?thesis using False by (simp add: load_key_def)
  next
    case (Some c)
    then have "\<exists>m. c = MetaFile m" using assms(1) unfolding dir_ok_def by (meson is_key_file_key_file)
    then show ?thesis using Some by (auto simp: get_meta_def)
  qed
  then obtain m where m: "get_meta fs kid = Some m" ..
  obtain fs' where run: "activate kid (fs, w) = (Inr (), (fs', w))" and ok: "dir_ok fs'"
    and ptr: "map_of fs' active_file = Some (ActiveFile (Some kid))"
    and get: "\<forall>i. get_meta fs' i = map_option (activated kid i) (get_meta fs i)"
    using activate_run [OF assms(1) m, where w = w] by blast
  have g: "get_meta fs' kid = Some (m\<lparr>km_status := active_st\<rparr>)" by (simp add: get m activated_def)
  have id: "km_key_id m = kid" by (rule get_meta_id [OF assms(1) m])
  have act: "get_active fs' = Inr (Some (m\<lparr>km_status := active_st\<rparr>))"
    by (rule get_active_pointer [OF ptr assms(2) g])
  have rows: "keys_list fs' = Inr (map (key_row (Some kid)) (list_keys fs'))"
    by (simp add: keys_list_def act id)
  have st: "km_status k = active_st \<longleftrightarrow> km_key_id k = kid" if k: "k \<in> set (list_keys fs')" for k
    using k [unfolded set_list_keys [OF ok]] get by (metis activated_status map_option_eq_Some)
  have "m\<lparr>km_status := active_st\<rparr> \<in> set (list_keys fs')"
    using set_list_keys [OF ok, of "m\<lparr>km_status := active_st\<rparr>"] g id by simp
  then have "kid \<in> fst ` set (map (key_row (Some kid)) (list_keys fs'))"
    by (force simp: key_row_def id)
  then show ?thesis
    using False run rows st by (auto simp: keys_activate_def exit_on_key_error_def key_row_def)
qed

theorem keys_list_marks_active_witness:
  "\<exists>fs' rows. keys_activate [48 + 3] (demo_dir, ()) = (Inr (Shown ()), (fs', ())) \<and> keys_list fs' = Inr rows \<and>
     [48 + 3] \<in> fst ` set rows"
proof -
  have "load_key [48 + 3] demo_dir \<noteq> Inr None"
    unfolding load_key_get_meta [OF demo_dir_ok(3)] by (simp only: sum.inject option.distinct not_False_eq_True)
  with keys_list_marks_active [OF demo_dir_ok(1), of "[48 + 3]" "()"] show ?thesis by auto
qed

end
