(* ===== verification/Core_Activation.thy ===== *)
theory Core_Activation
  imports Core_Router
begin

text \<open>
  How many experts the default \<open>LogisticRouter\<close> of \<open>chen/core/router.py\<close> wakes. Its weights are positive apart from the
  biases, and no feature is negative, so a role's score is at least the sigmoid of its bias. Apart from the translator's
  these lie above the threshold by more than the size penalty of an 8B expert: no prompt keeps a role below it.
\<close>

section \<open>Scores are bounded below by the biases\<close>

lemma logit_ge_bias:
  assumes "\<forall>(f, v)\<in>set features. 0 \<le> dict_get w f 0 * v"
  shows "dict_get w (lit ''bias'') 0 \<le> logit features w"
proof -
  have gen: "b \<le> foldl (\<lambda>l (f, v). l + dict_get w f 0 * v) b features" for b
    using assms
  proof (induction features arbitrary: b)
    case Nil
    then show ?case by simp
  next
    case (Cons p features)
    obtain f v where p: "p = (f, v)" by (cases p)
    have "b \<le> b + dict_get w f 0 * v" using Cons.prems p by simp
    also have "\<dots> \<le> foldl (\<lambda>l (f, v). l + dict_get w f 0 * v) (b + dict_get w f 0 * v) features"
      using Cons.prems by (intro Cons.IH) simp
    finally show ?case by (simp add: p)
  qed
  show ?thesis unfolding logit_def by (rule gen)
qed

lemma features_nonneg: "(f, v) \<in> set (extract_features u prompt) \<Longrightarrow> 0 \<le> v"
  by (auto simp: extract_features_def Let_def indicator_def keyword_density_def simp del: lit_Cons)

lemma features_not_bias: "(f, v) \<in> set (extract_features u prompt) \<Longrightarrow> f \<noteq> lit ''bias''"
  by (auto simp: extract_features_def Let_def role_keywords_def)

definition positive_weights :: "(pystr \<times> real) list \<Rightarrow> bool" where
  "positive_weights w \<longleftrightarrow> (\<forall>(k, v)\<in>set w. k = lit ''bias'' \<or> 0 \<le> v)"

lemma default_weights_positive: "(role, w) \<in> set default_weights \<Longrightarrow> positive_weights w"
  by (auto simp: default_weights_def positive_weights_def simp del: lit_Cons)

lemma positive_weights_get: "positive_weights w \<Longrightarrow> f \<noteq> lit ''bias'' \<Longrightarrow> 0 \<le> dict_get w f 0"
  by (auto simp: positive_weights_def dict_get_def dest!: map_of_SomeD split: option.split)

lemma logit_default:
  assumes "(role, w) \<in> set default_weights"
  shows "dict_get w (lit ''bias'') 0 \<le> logit (extract_features u prompt) w"
proof (rule logit_ge_bias, clarify)
  fix f v
  assume m: "(f, v) \<in> set (extract_features u prompt)"
  have "0 \<le> dict_get w f 0" using default_weights_positive [OF assms] features_not_bias [OF m] by (rule positive_weights_get)
  then show "0 \<le> dict_get w f 0 * v" using features_nonneg [OF m] by (rule mult_nonneg_nonneg)
qed

lemma sigmoid_mono: "x \<le> y \<Longrightarrow> sigmoid x \<le> sigmoid y"
  by (simp add: sigmoid_def frac_le add_pos_pos)

lemma exp_3_2: "exp (3 / 2 :: real) \<le> 5.36"
proof -
  have "exp (1 / 2 :: real) \<le> 1 + 1 / 2 + (1 / 2)\<^sup>2" by (rule exp_bound) simp_all
  then have "exp (1 / 2 :: real) ^ 3 \<le> 1.75 ^ 3" by (intro power_mono) (simp_all add: power2_eq_square)
  moreover have "exp (1 / 2 :: real) ^ 3 = exp (3 / 2)" by (simp add: exp_of_nat_mult [symmetric])
  ultimately show ?thesis by (simp add: power3_eq_cube)
qed

lemma sigmoid_lower: "- (3 / 2) \<le> x \<Longrightarrow> 0.1508 \<le> sigmoid x"
proof -
  assume "- (3 / 2) \<le> x"
  then have "sigmoid (- (3 / 2)) \<le> sigmoid x" by (rule sigmoid_mono)
  moreover have "1 / (1 + 5.36) \<le> sigmoid (- (3 / 2))"
    unfolding sigmoid_def using exp_3_2 by (intro divide_left_mono) (simp_all add: add_pos_pos)
  ultimately show ?thesis by simp
qed

section \<open>Every role passes the threshold\<close>

definition waking_role :: "expert_role \<Rightarrow> bool" where
  "waking_role r \<longleftrightarrow> r \<noteq> ROUTER \<and> r \<noteq> TRANSLATOR"

lemma default_entry:
  assumes "waking_role r"
  obtains w where "(role_value r, w) \<in> set default_weights" "- (3 / 2) \<le> dict_get w (lit ''bias'') 0"
proof (cases r)
  case ANALYST
  show ?thesis
    by (rule that [of "snd (default_weights ! 0)"]) (simp_all add: ANALYST default_weights_def dict_get_def)
next
  case REASONER
  show ?thesis
    by (rule that [of "snd (default_weights ! 1)"]) (simp_all add: REASONER default_weights_def dict_get_def)
next
  case CODER
  show ?thesis
    by (rule that [of "snd (default_weights ! 2)"]) (simp_all add: CODER default_weights_def dict_get_def)
next
  case SYNTHESIZER
  show ?thesis
    by (rule that [of "snd (default_weights ! 3)"]) (simp_all add: SYNTHESIZER default_weights_def dict_get_def)
next
  case GENERALIST
  show ?thesis
    by (rule that [of "snd (default_weights ! 5)"]) (simp_all add: GENERALIST default_weights_def dict_get_def)
qed (use assms in \<open>simp_all add: waking_role_def\<close>)

lemma default_roles_distinct: "distinct (map fst default_weights)"
  by (simp add: default_weights_def)

lemma default_logistic_simps [simp]:
  "lg_min_activation default_logistic = 1" "lg_max_activation default_logistic = 3"
  "lg_force_last default_logistic = SYNTHESIZER" "lg_threshold default_logistic = 3 / 20"
  "lg_weights default_logistic = default_weights"
  by (simp_all add: default_logistic_def mk_logistic_def)

lemma default_score:
  assumes "(role, w) \<in> set default_weights"
  shows "dict_get (logistic_scores u default_logistic prompt) role 0 = sigmoid (logit (extract_features u prompt) w)"
proof -
  let ?xs = "map (\<lambda>(role, w). (role, sigmoid (logit (extract_features u prompt) w))) default_weights"
  have "distinct (map fst ?xs)" using default_roles_distinct by (simp add: comp_def case_prod_beta)
  then have "distinct (map fst (rev ?xs))" by (simp only: rev_map [symmetric] distinct_rev)
  moreover have "(role, sigmoid (logit (extract_features u prompt) w)) \<in> set (rev ?xs)" using assms by force
  ultimately have "map_of (rev ?xs) role = Some (sigmoid (logit (extract_features u prompt) w))" by (rule map_of_is_SomeI)
  then show ?thesis by (simp add: logistic_scores_def Let_def dict_get_def map_of_dict_of)
qed

lemma waking_score:
  assumes "waking_role (ex_role e)" and "ex_params_m e \<le> 8000"
  shows "3 / 20 \<le> adjusted_score (logistic_scores u default_logistic prompt) e"
proof -
  obtain w where w: "(role_value (ex_role e), w) \<in> set default_weights" "- (3 / 2) \<le> dict_get w (lit ''bias'') 0"
    using default_entry [OF assms(1)] .
  have "- (3 / 2) \<le> logit (extract_features u prompt) w"
    using w(2) logit_default [OF w(1), of u prompt] by linarith
  then have "0.1508 \<le> dict_get (logistic_scores u default_logistic prompt) (role_value (ex_role e)) 0"
    unfolding default_score [OF w(1)] by (rule sigmoid_lower)
  then show ?thesis using assms(2) by (simp add: adjusted_score_def)
qed

section \<open>The size of a selection\<close>

lemma role_best_facts:
  shows role_best_distinct: "distinct (map fst (role_best scores es))"
    and role_best_mem: "(r, s, x) \<in> set (role_best scores es) \<Longrightarrow>
      x \<in> set es \<and> r = role_value (ex_role x) \<and> s = adjusted_score scores x"
    and role_best_covers: "e \<in> set es \<Longrightarrow> \<exists>s x. (role_value (ex_role e), s, x) \<in> set (role_best scores es)"
proof -
  have inv: "best_inv scores es (role_best scores es)" by (rule role_best_inv)
  then show "distinct (map fst (role_best scores es))" by (simp add: best_inv_def)
  show "x \<in> set es \<and> r = role_value (ex_role x) \<and> s = adjusted_score scores x"
    if "(r, s, x) \<in> set (role_best scores es)" using inv that by (auto simp: best_inv_def)
  show "\<exists>s x. (role_value (ex_role e), s, x) \<in> set (role_best scores es)" if "e \<in> set es"
  proof -
    have "\<forall>e\<in>set es. \<exists>s x. map_of (role_best scores es) (role_value (ex_role e)) = Some (s, x) \<and> adjusted_score scores e \<le> s"
      using inv unfolding best_inv_def by (elim conjE)
    from bspec [OF this that] show ?thesis by (elim exE conjE) (rule exI, rule exI, erule map_of_SomeD)
  qed
qed

lemma role_best_size: "length (role_best scores es) = card (ex_role ` set es)"
proof -
  let ?b = "role_best scores es"
  have "fst ` set ?b = role_value ` ex_role ` set es"
  proof
    show "fst ` set ?b \<subseteq> role_value ` ex_role ` set es" using role_best_mem by fastforce
    show "role_value ` ex_role ` set es \<subseteq> fst ` set ?b"
    proof clarify
      fix e
      assume "e \<in> set es"
      then obtain s x where "(role_value (ex_role e), s, x) \<in> set ?b" using role_best_covers by blast
      then show "role_value (ex_role e) \<in> fst ` set ?b" by (metis fst_conv image_eqI)
    qed
  qed
  then have "length ?b = card (role_value ` ex_role ` set es)"
    using role_best_distinct by (metis distinct_card length_map list.set_map)
  also have "\<dots> = card (ex_role ` set es)" by (rule card_image) (simp add: inj_on_def)
  finally show ?thesis .
qed

lemma ranked_all:
  assumes "\<forall>e\<in>set es. thr \<le> adjusted_score scores e"
  shows "length (ranked thr (role_best scores es)) = card (ex_role ` set es)"
proof -
  have "thr \<le> s" if "(r, s, x) \<in> set (role_best scores es)" for r s x
    using assms role_best_mem [OF that] by simp
  then have "filter (\<lambda>x. thr \<le> fst x) (map snd (role_best scores es)) = map snd (role_best scores es)"
    by (auto simp: filter_id_conv)
  then show ?thesis by (simp add: ranked_def role_best_size)
qed

lemma with_forced_length:
  "length (with_forced r es sel) = length sel \<or>
   length (with_forced r es sel) = Suc (length sel) \<and>
     (\<exists>e\<in>set es. ex_role e = lg_force_last r \<and> role_value (lg_force_last r) \<notin> (\<lambda>n. first_role_of n es) ` set sel)"
  by (auto simp: with_forced_def append_forced_def find_Some_iff split: option.split)

lemma first_role_of_member:
  assumes "distinct (map ex_name es)" and "e \<in> set es"
  shows "first_role_of (ex_name e) es = role_value (ex_role e)"
proof -
  obtain x where x: "find (\<lambda>x. ex_name x = ex_name e) es = Some x"
    using assms(2) by (cases "find (\<lambda>x. ex_name x = ex_name e) es") (auto simp: find_None_iff)
  then have "x \<in> set es" "ex_name x = ex_name e" by (auto simp: find_Some_iff)
  with assms have "x = e" by (auto simp: distinct_map inj_on_def)
  with x show ?thesis by (simp add: first_role_of_def)
qed

lemma default_logistic_wakes:
  fixes es :: "'w expert list"
  assumes "distinct (map ex_name es)" and "\<forall>e\<in>set es. 3 / 20 \<le> adjusted_score scores e"
  shows "length (logistic_select default_logistic scores es) = min 3 (card (ex_role ` set es))"
proof (cases "es = []")
  case True
  then show ?thesis by (simp add: logistic_select_def)
next
  case False
  let ?r = default_logistic and ?n = "card (ex_role ` set es)"
  let ?rk = "ranked (3 / 20) (role_best scores es)"
  have n: "length ?rk = ?n" by (rule ranked_all [OF assms(2)])
  have pos: "0 < ?n" using False by (simp add: card_gt_0_iff)
  define tops where "tops = logistic_tops ?r scores es"
  have tops: "tops = map (\<lambda>x. ex_name (snd x)) (take 3 ?rk)" by (simp add: tops_def logistic_tops_def py_take_def)
  have len: "length tops = min 3 ?n" unfolding tops length_map length_take n by simp
  have chosen: "logistic_chosen ?r scores es = tops"
    using len pos by (auto simp: logistic_chosen_def tops_def [symmetric] pick_top_def Let_def)
  have d: "distinct tops" unfolding tops_def by (rule logistic_tops_distinct [OF assms(1)])
  have grow: "length (with_forced ?r es tops) = length tops" if "?n \<le> 3"
  proof (rule ccontr)
    assume "length (with_forced ?r es tops) \<noteq> length tops"
    then obtain e where e: "e \<in> set es" "ex_role e = SYNTHESIZER"
      and out: "role_value SYNTHESIZER \<notin> (\<lambda>n. first_role_of n es) ` set tops"
      using with_forced_length [of ?r es tops] by auto
    obtain s x where m: "(role_value SYNTHESIZER, s, x) \<in> set (role_best scores es)"
      using role_best_covers [OF e(1), of scores] e(2) by auto
    note x = role_best_mem [OF m]
    have "(s, x) \<in> snd ` set (role_best scores es)" using m by (metis image_eqI snd_conv)
    then have "(s, x) \<in> set ?rk" using x assms(2) by (simp add: ranked_def)
    then have "ex_name (snd (s, x)) \<in> (\<lambda>x. ex_name (snd x)) ` set ?rk" by (rule imageI)
    moreover have "take 3 ?rk = ?rk" using that n by simp
    ultimately have "ex_name x \<in> set tops" unfolding tops by simp
    moreover have "first_role_of (ex_name x) es = role_value SYNTHESIZER"
      using first_role_of_member [OF assms(1)] x by simp
    ultimately show False using out by force
  qed
  let ?m = "move_last (last_role_names SYNTHESIZER es) (with_forced ?r es tops)"
  have dm: "length ?m = length (with_forced ?r es tops)"
    by (rule length_move_last) (rule with_forced_props(3) [OF d])
  have eq: "logistic_select ?r scores es = take 3 ?m"
    by (simp add: logistic_select_eq [OF False] chosen cap_def py_take_def)
  have le: "length tops \<le> length (with_forced ?r es tops)" using with_forced_length [of ?r es tops] by auto
  show ?thesis
  proof (cases "?n \<le> 3")
    case True
    with grow len show ?thesis by (simp add: eq dm)
  next
    case False
    with le len show ?thesis by (simp add: eq dm)
  qed
qed

text \<open>C12: The default logistic router does not adapt the number of experts to the prompt: from a pool of uniquely named
  experts of at most 8B parameters, none a translator or a router, it selects one expert for every role in the pool, up
  to its limit of three, whatever the prompt says. The threshold never turns a role away.\<close>

theorem logistic_wakes_for_every_prompt:
  assumes "distinct (map ex_name es)" and "\<forall>e\<in>set es. waking_role (ex_role e) \<and> ex_params_m e \<le> 8000"
  shows "length (logistic_route u default_logistic prompt es) = min 3 (card (ex_role ` set es))"
  unfolding logistic_route_def using assms by (intro default_logistic_wakes ballI waking_score) simp_all

theorem logistic_wakes_for_every_prompt_witness:
  "length (logistic_route \<lparr>u_lower = (\<lambda>c. [c]), u_word = (\<lambda>_. False), u_digit = (\<lambda>_. False), u_printable = (\<lambda>_. True)\<rparr>
     default_logistic (lit ''Write a haiku about autumn leaves.'') (role_expert (lit ''r'') REASONER # role_pool)) = 3"
proof -
  let ?u = "\<lparr>u_lower = (\<lambda>c. [c]), u_word = (\<lambda>_. False), u_digit = (\<lambda>_. False), u_printable = (\<lambda>_. True)\<rparr>"
  let ?es = "role_expert (lit ''r'') REASONER # role_pool"
  have "length (logistic_route ?u default_logistic (lit ''Write a haiku about autumn leaves.'') ?es) =
      min 3 (card (ex_role ` set ?es))"
    by (rule logistic_wakes_for_every_prompt) (simp_all add: role_pool_def waking_role_def)
  moreover have "ex_role ` set ?es = {REASONER, ANALYST, CODER, SYNTHESIZER}" by (auto simp: role_pool_def)
  ultimately show ?thesis by simp
qed

end
