(* ===== verification/Run_Metrics.thy ===== *)
theory Run_Metrics
  imports Server_Routes
begin

text \<open>
  Where the metrics of a run come from (\<open>chen/phases\<close>, \<open>chen/core/expert.py\<close>): every record in \<open>per_expert\<close> is that of
  a completed \<open>Expert.invoke\<close> of an expert of the pipeline, and a cascade's records never report a used cache.
  With it, what backends promise about counting tokens carries over to whole runs.
\<close>

section \<open>Every record is an invocation's\<close>

definition invoked :: "'w pipeline \<Rightarrow> pystr \<Rightarrow> expert_metrics \<Rightarrow> bool" where
  "invoked pl out m \<longleftrightarrow>
     (\<exists>e\<in>set (pl_experts pl). \<exists>p c mt w oc w'. expert_invoke (pl_clocks pl) e p c mt w = (Inr (out, oc, m), w'))"

definition invocation :: "'w pipeline \<Rightarrow> expert_metrics \<Rightarrow> bool" where
  "invocation pl m \<longleftrightarrow> (\<exists>out. invoked pl out m)"

lemma invokedI:
  "e \<in> set (pl_experts pl) \<Longrightarrow> expert_invoke (pl_clocks pl) e p c mt w = (Inr (out, oc, m), w') \<Longrightarrow> invoked pl out m"
  unfolding invoked_def by blast

lemma invoke_expert_invoked:
  assumes "e \<in> set (pl_experts pl)" and "invoke_expert pl e p mt k w = (Inr (out, oc, m), w')"
  shows "invoked pl out m"
proof -
  obtain q v where "expert_invoke (pl_clocks pl) e (Some q) None mt v = (Inr (out, oc, m), w')"
    using assms(2) by (auto simp: invoke_expert_def)
  with assms(1) show ?thesis by (rule invokedI)
qed

lemma kv_first_invoked:
  assumes "e \<in> set (pl_experts pl)" and "kv_first pl e prompt mt w = (Inr ((out, oc, m), cache, tm, rd), w')"
  shows "invoked pl out m"
proof -
  obtain p c v where "expert_invoke (pl_clocks pl) e p c mt v = (Inr (out, oc, m), w')"
    using assms(2) by (auto simp: kv_first_def Let_def)
  with assms(1) show ?thesis by (rule invokedI)
qed

lemma kv_later_invoked:
  assumes "e \<in> set (pl_experts pl)" and "kv_later pl e mt cache txt tm w = (Inr ((out, oc, m), tm'), w')"
  shows "invoked pl out m"
proof -
  consider p c v where "expert_invoke (pl_clocks pl) e p c mt v = (Inr (out, oc, m), w')"
    | v where "invoke_expert pl e txt mt 0 v = (Inr (out, oc, m), w')"
    using assms(2) by (auto simp: kv_later_def split: if_splits)
  then show ?thesis by cases (use assms(1) in \<open>blast intro: invokedI invoke_expert_invoked\<close>)+
qed

lemma routing_first_invoked:
  assumes "e \<in> set (pl_experts pl)" and "routing_first pl e prompt mt tm0 w = (Inr ((out, oc, m), cache, tm, rd), w')"
  shows "invoked pl out m"
proof -
  consider p c v where "expert_invoke (pl_clocks pl) e p c mt v = (Inr (out, oc, m), w')"
    | v where "invoke_expert pl e prompt mt (pl_retrieve_k pl) v = (Inr (out, oc, m), w')"
    using assms(2)
    by (auto simp: routing_first_def Let_def try_except_Inr_iff split: if_splits option.splits)
  then show ?thesis by cases (use assms(1) in \<open>blast intro: invokedI invoke_expert_invoked\<close>)+
qed

text \<open>What a loop keeps: every record is an invocation's and has the property \<open>P\<close>, and the current text is the output
  of an invocation once there is one.\<close>

definition recorded :: "'w pipeline \<Rightarrow> (expert_metrics \<Rightarrow> bool) \<Rightarrow> run_state \<Rightarrow> bool" where
  "recorded pl P s \<longleftrightarrow>
     (\<forall>m\<in>set (rs_per_expert s). invocation pl m \<and> P m) \<and>
     (rs_per_expert s \<noteq> [] \<longrightarrow> (\<exists>m. invoked pl (rs_text s) m))"

lemma recorded_start: "recorded pl P (start_state pl prompt tm kw)"
  by (simp add: recorded_def start_state_def)

lemma recorded_append:
  assumes "recorded pl P s" and "invoked pl out m" and "P m"
    and "rs_per_expert s' = rs_per_expert s @ [m]" and "rs_text s' = out"
  shows "recorded pl P s'"
  using assms by (auto simp: recorded_def invocation_def)

lemma cascade_step_recorded:
  assumes "recorded pl (\<lambda>m. \<not> em_used_kv m) s" and "cascade_step pl n is_last s w = (Inr s', w')"
  shows "recorded pl (\<lambda>m. \<not> em_used_kv m) s'"
proof -
  obtain e out oc m v v' where e: "get_expert (pl_experts pl) n = Inr e"
    and i: "invoke_expert pl e (rs_text s) (step_tokens pl s) (pl_retrieve_k pl) v = (Inr (out, oc, m), v')"
    and s': "rs_per_expert s' = rs_per_expert s @ [m]" "rs_text s' = out"
    using assms(2) by (fastforce simp: cascade_step_def Let_def split: if_splits)
  have "e \<in> set (pl_experts pl)" using get_expert_Inr [OF e] by simp
  from recorded_append [OF assms(1) invoke_expert_invoked [OF this i] _ s'] invoke_expert_Inr [OF i] show ?thesis by simp
qed

lemma kv_finish_step_parts:
  assumes "kv_finish_step pl e l s (out, oc, m) cache tm rd w = (Inr s', w')"
  shows "rs_per_expert s' = rs_per_expert s @ [m]" and "rs_text s' = out"
  using assms by (auto simp: kv_finish_step_def Let_def)

lemma kv_step_recorded:
  assumes "recorded pl (\<lambda>_. True) s" and "kv_step pl prompt is_first n is_last s w = (Inr s', w')"
  shows "recorded pl (\<lambda>_. True) s'"
proof -
  obtain e out oc m cache tm rd v where m: "invoked pl out m"
    and f: "kv_finish_step pl e is_last s (out, oc, m) cache tm rd v = (Inr s', w')"
    using assms(2)
    by (fastforce simp: kv_step_def split: if_splits prod.splits dest: get_expert_Inr kv_first_invoked kv_later_invoked)
  show ?thesis by (rule recorded_append [OF assms(1) m TrueI kv_finish_step_parts [OF f]])
qed

lemma routing_step_recorded:
  assumes "recorded pl (\<lambda>_. True) s" and "routing_step pl prompt is_first n is_last s w = (Inr s', w')"
  shows "recorded pl (\<lambda>_. True) s'"
proof -
  obtain e out oc m cache tm rd v where m: "invoked pl out m"
    and f: "kv_finish_step pl e is_last s (out, oc, m) cache tm rd v = (Inr s', w')"
    using assms(2)
    by (fastforce simp: routing_step_def split: if_splits prod.splits dest: get_expert_Inr routing_first_invoked kv_later_invoked)
  show ?thesis by (rule recorded_append [OF assms(1) m TrueI kv_finish_step_parts [OF f]])
qed

lemma cascade_loop_recorded:
  "recorded pl (\<lambda>m. \<not> em_used_kv m) s \<Longrightarrow> cascade_loop pl ns s w = (Inr s', w') \<Longrightarrow> recorded pl (\<lambda>m. \<not> em_used_kv m) s'"
  by (induction ns arbitrary: s w) (auto dest: cascade_step_recorded)

lemma kv_loop_recorded:
  "recorded pl (\<lambda>_. True) s \<Longrightarrow> kv_loop pl prompt is_first ns s w = (Inr s', w') \<Longrightarrow> recorded pl (\<lambda>_. True) s'"
  by (induction ns arbitrary: s w is_first) (auto dest: kv_step_recorded)

lemma routing_loop_recorded:
  "recorded pl (\<lambda>_. True) s \<Longrightarrow> routing_loop pl prompt is_first ns s w = (Inr s', w') \<Longrightarrow> recorded pl (\<lambda>_. True) s'"
  by (induction ns arbitrary: s w is_first) (auto dest: routing_step_recorded)

definition recorded_result :: "'w pipeline \<Rightarrow> (expert_metrics \<Rightarrow> bool) \<Rightarrow> pipeline_result \<Rightarrow> bool" where
  "recorded_result pl P r \<longleftrightarrow>
     (\<forall>m\<in>set (pr_per_expert r). invocation pl m \<and> P m) \<and> (pr_per_expert r \<noteq> [] \<longrightarrow> (\<exists>m. invoked pl (pr_output r) m))"

lemma result_recorded: "recorded pl P s \<Longrightarrow> recorded_result pl P (result_of pl names s)"
  by (simp add: recorded_def recorded_result_def result_of_def)

lemma cascade_run_recorded:
  assumes "cascade_run pl prompt kw w = (Inr r, w')"
  shows "recorded_result pl (\<lambda>m. \<not> em_used_kv m) r"
proof -
  obtain u u' s where "cascade_loop pl (pl_sequence pl) (start_state pl prompt True kw) u = (Inr s, u')"
    and r: "r = result_of pl (pl_sequence pl) s"
    using assms by (auto simp: cascade_run_def)
  from cascade_loop_recorded [OF recorded_start this(1)] show ?thesis unfolding r by (rule result_recorded)
qed

lemma kv_run_recorded:
  assumes "kv_run pl prompt kw w = (Inr r, w')"
  shows "recorded_result pl (\<lambda>_. True) r"
proof -
  obtain u u' s where "kv_loop pl prompt True (pl_sequence pl) (start_state pl prompt False kw) u = (Inr s, u')"
    and r: "r = result_of pl (pl_sequence pl) s"
    using assms by (auto simp: kv_run_def)
  from kv_loop_recorded [OF recorded_start this(1)] show ?thesis unfolding r by (rule result_recorded)
qed

lemma routing_run_recorded:
  assumes "routing_run pl rt th prompt kw w = (Inr r, w')"
  shows "recorded_result pl (\<lambda>_. True) r"
proof -
  obtain u u' s names where "routing_loop pl prompt True names (start_state pl prompt th kw) u = (Inr s, u')"
    and r: "r = result_of pl names s"
    using assms by (auto simp: routing_run_def Let_def)
  from routing_loop_recorded [OF recorded_start this(1)] show ?thesis unfolding r by (rule result_recorded)
qed

section \<open>Text\<close>

text \<open>A backend that never answers with the empty text, as the mock backend, whose answers start with a header.\<close>

definition speaks :: "'w backend \<Rightarrow> bool" where
  "speaks b \<longleftrightarrow>
     (\<forall>p mt w t w'. bk_generate b p mt w = (Inr t, w') \<longrightarrow> t \<noteq> []) \<and>
     (\<forall>c mt w t w'. bk_decode b c mt w = (Inr t, w') \<longrightarrow> t \<noteq> [])"

lemma invoke_tail_speaks:
  assumes "speaks (ex_backend e)" and "invoke_tail ck e eff mt tr w = (Inr (out, oc, m), w')"
  shows "out \<noteq> []"
proof -
  obtain tc used ok ms where tr: "tr = (tc, used, ok, ms)" by (cases tr)
  from assms(2) have "(\<exists>v v'. bk_generate (ex_backend e) eff mt v = (Inr out, v')) \<or>
      (\<exists>c v v'. bk_decode (ex_backend e) c mt v = (Inr out, v'))"
    unfolding tr by (cases tc) (auto simp: invoke_tail_def Let_def split: if_splits)
  then show ?thesis using assms(1) unfolding speaks_def by (elim disjE exE conjE) blast+
qed

lemma invoked_speaks:
  assumes "invoked pl out m" and "\<forall>e\<in>set (pl_experts pl). speaks (ex_backend e)"
  shows "out \<noteq> []"
proof -
  obtain e p c mt w oc w' where e: "e \<in> set (pl_experts pl)"
    and i: "expert_invoke (pl_clocks pl) e p c mt w = (Inr (out, oc, m), w')"
    using assms(1) unfolding invoked_def by blast
  obtain eff tr v where "invoke_tail (pl_clocks pl) e eff mt tr v = (Inr (out, oc, m), w')"
    using i by (auto simp: expert_invoke_def Let_def split: if_splits prod.splits)
  from invoke_tail_speaks [OF _ this] e assms(2) show ?thesis by blast
qed

lemma recorded_speaks:
  "recorded_result pl P r \<Longrightarrow> pr_per_expert r \<noteq> [] \<Longrightarrow> \<forall>e\<in>set (pl_experts pl). speaks (ex_backend e) \<Longrightarrow> pr_output r \<noteq> []"
  unfolding recorded_result_def by (blast dest: invoked_speaks)

section \<open>Tokens\<close>

text \<open>A backend that counts at least one token in every text, as the mock backend does.\<close>

definition counts_tokens :: "'w backend \<Rightarrow> bool" where
  "counts_tokens b \<longleftrightarrow>
     (case bk_count_tokens b of None \<Rightarrow> True | Some f \<Rightarrow> (\<forall>s w n w'. f s w = (Inr n, w') \<longrightarrow> 1 \<le> n))"

lemma counts_mock: "counts_tokens (mock_backend u blake m)"
  by (auto simp: counts_tokens_def mock_backend_def mock_count_tokens_def ret_def)

lemma count_both_positive:
  assumes "counts_tokens b" and "count_both b i out w = (Inr (x, y), w')"
  shows "1 \<le> x \<and> 1 \<le> y"
proof (cases "bk_count_tokens b")
  case None
  with assms(2) show ?thesis by (auto simp: count_both_def estimate_tokens_def)
next
  case (Some f)
  with assms(1) have f: "f s v = (Inr n, v') \<Longrightarrow> 1 \<le> n" for s v n v' by (auto simp: counts_tokens_def)
  from assms(2) Some show ?thesis
    by (auto simp: count_both_def try_except_Inr_iff estimate_tokens_def dest: f)
qed

lemma invoke_tail_tokens:
  assumes "counts_tokens (ex_backend e)" and "invoke_tail ck e eff mt tr w = (Inr (out, oc, m), w')"
  shows "1 \<le> em_input_tokens m \<and> 1 \<le> em_output_tokens m"
proof -
  obtain v v' where "count_both (ex_backend e) eff out v = (Inr (em_input_tokens m, em_output_tokens m), v')"
    using assms(2) by (cases tr) (auto simp: invoke_tail_def Let_def)
  with assms(1) show ?thesis by (rule count_both_positive)
qed

lemma expert_invoke_tokens:
  assumes "counts_tokens (ex_backend e)" and "expert_invoke ck e p c mt w = (Inr (out, oc, m), w')"
  shows "1 \<le> em_input_tokens m \<and> 1 \<le> em_output_tokens m"
proof -
  obtain eff tr v where "invoke_tail ck e eff mt tr v = (Inr (out, oc, m), w')"
    using assms(2) by (auto simp: expert_invoke_def Let_def split: if_splits prod.splits)
  with assms(1) show ?thesis by (rule invoke_tail_tokens)
qed

lemma invocation_tokens:
  "invocation pl m \<Longrightarrow> \<forall>e\<in>set (pl_experts pl). counts_tokens (ex_backend e) \<Longrightarrow>
   1 \<le> em_input_tokens m \<and> 1 \<le> em_output_tokens m"
  unfolding invocation_def invoked_def by (blast dest: expert_invoke_tokens)

section \<open>Runs of any of the three pipelines\<close>

definition runnable_pipeline :: "'w runnable \<Rightarrow> 'w pipeline" where
  "runnable_pipeline p = (case p of Cascade pl \<Rightarrow> pl | KVPass pl \<Rightarrow> pl | Routing pl _ _ \<Rightarrow> pl)"

lemma run_pipeline_records:
  "run_pipeline p prompt kw w = (Inr r, w') \<Longrightarrow> \<forall>m\<in>set (pr_per_expert r). invocation (runnable_pipeline p) m"
  by (cases p)
    (auto simp: run_pipeline_def runnable_pipeline_def recorded_result_def
      dest!: cascade_run_recorded kv_run_recorded routing_run_recorded)

definition runnable_ok :: "'w runnable \<Rightarrow> bool" where
  "runnable_ok p = (case p of Cascade pl \<Rightarrow> pl_sequence pl \<noteq> [] | KVPass pl \<Rightarrow> pl_sequence pl \<noteq> []
     | Routing pl _ _ \<Rightarrow> pl_experts pl \<noteq> [])"

lemma runnable_report:
  assumes "run_pipeline p prompt kw w = (Inr r, w')"
  obtains names where "final_report (runnable_pipeline p) names r" and "runnable_ok p \<Longrightarrow> names \<noteq> []"
proof (cases p)
  case (Cascade pl)
  with assms show ?thesis
    by (intro that [of "pl_sequence pl"]) (auto simp: run_pipeline_def runnable_pipeline_def runnable_ok_def intro!: cascade_run_report)
next
  case (KVPass pl)
  with assms show ?thesis
    by (intro that [of "pl_sequence pl"]) (auto simp: run_pipeline_def runnable_pipeline_def runnable_ok_def intro!: kv_run_report)
next
  case (Routing pl rt th)
  with assms have r: "routing_run pl rt th prompt kw w = (Inr r, w')" by (simp add: run_pipeline_def)
  then obtain routed v where "rt prompt (pl_experts pl) w = (Inr routed, v)"
    by (auto simp: routing_run_def)
  from routing_run_report [OF r this] Routing routing_fallback_known [of "pl_experts pl"] show ?thesis
    by (intro that [of "if routed = [] then routing_fallback (pl_experts pl) else routed"])
      (simp_all add: runnable_pipeline_def runnable_ok_def)
qed

text \<open>A run has its tokens and its cost from the sums over its records.\<close>

lemma run_pipeline_cost:
  assumes "run_pipeline p prompt kw w = (Inr r, w')" and "runnable_ok p"
    and "\<forall>e\<in>set (pl_experts (runnable_pipeline p)). counts_tokens (ex_backend e)"
  shows "\<exists>i k. 0 < i \<and> 0 \<le> k \<and> agg_total_tokens (pr_metrics r) = i + k \<and>
     ag_cost_usd (pr_metrics r) = cost_for (pl_cost (runnable_pipeline p)) i k 0 False"
proof -
  obtain names where fr: "final_report (runnable_pipeline p) names r" and "names \<noteq> []"
    using runnable_report [OF assms(1)] assms(2) by metis
  let ?ms = "pr_per_expert r"
  have ne: "?ms \<noteq> []" using fr \<open>names \<noteq> []\<close> by (auto simp: final_report_def)
  have t: "1 \<le> em_input_tokens m \<and> 1 \<le> em_output_tokens m" if "m \<in> set ?ms" for m
    using run_pipeline_records [OF assms(1)] that assms(3) by (blast dest: invocation_tokens)
  have "0 \<le> sum_list (map em_input_tokens ms) \<and> 0 \<le> sum_list (map em_output_tokens ms) \<and>
      (ms \<noteq> [] \<longrightarrow> 0 < sum_list (map em_input_tokens ms))" if "set ms \<subseteq> set ?ms" for ms
    using that by (induction ms) (use t in force)+
  then have s: "0 < sum_list (map em_input_tokens ?ms)" "0 \<le> sum_list (map em_output_tokens ?ms)"
    using ne by blast+
  have c: "ag_cost_usd (pr_metrics r) = cost_for (pl_cost (runnable_pipeline p)) (sum_list (map em_input_tokens ?ms))
      (sum_list (map em_output_tokens ?ms)) 0 False"
    using fr by (simp add: final_report_def agg_counts_def)
  show ?thesis using final_report_counts(1) [OF fr] s c by blast
qed

end
