(* ===== verification/Examples.thy ===== *)
theory Examples
  imports Bench_Tasks Core_Activation Run_Metrics
begin

text \<open>
  \<open>examples/*.py\<close>: the demonstrations of the three phases, the benchmark run and the run on real models, each as a
  program over the library's model. Command lines arrive parsed, as a record or as arguments; what is printed is the
  data returned. The package's backends, routers, memory and clocks are those of the record \<open>server\<close>.
\<close>

section \<open>\<open>run_phase1.py\<close>\<close>

definition full_expert :: "pystr \<Rightarrow> expert_role \<Rightarrow> 'w backend \<Rightarrow> pystr \<Rightarrow> pystr list \<Rightarrow> 'w expert" where
  "full_expert n role b desc tags = \<lparr>ex_name = n, ex_role = role, ex_backend = b, ex_description = desc, ex_tags = tags\<rparr>"

record phase1_args =
  p1_prompt :: pystr
  p1_backend :: pystr
  p1_max_tokens :: int
  p1_no_memory :: bool

definition phase1_defaults :: phase1_args where
  "phase1_defaults =
     \<lparr>p1_prompt = lit ''Read this 10-page PDF about renewable energy trends and write a Python '' @
        lit ''script that loads the data and plots solar vs wind capacity over time.'',
      p1_backend = lit ''mock'', p1_max_tokens = 256, p1_no_memory = False\<rparr>"

definition phase1_experts :: "'w server \<Rightarrow> pystr \<Rightarrow> py_exc + 'w expert list" where
  "phase1_experts sv backend =
     (if backend = lit ''mock'' then Inr
        [full_expert (lit ''analyst'') ANALYST (sv_mock sv 3000 (lit ''analyst''))
           (lit ''Extracts entities and logic from text.'') [lit ''entity'', lit ''logic''],
         full_expert (lit ''reasoner'') REASONER (sv_mock sv 8000 (lit ''reasoner''))
           (lit ''Math and code reasoning.'') [lit ''math'', lit ''code''],
         full_expert (lit ''synthesizer'') SYNTHESIZER (sv_mock sv 3000 (lit ''synthesizer''))
           (lit ''Converts latent state to natural language.'') [lit ''text'', lit ''natural-language'']]
      else if backend = lit ''hf'' then Inr
        [mk_expert (lit ''analyst'') ANALYST (sv_hf sv (lit ''HuggingFaceTB/SmolLM2-1.7B-Instruct'') 1700),
         mk_expert (lit ''reasoner'') REASONER (sv_hf sv (lit ''Qwen/Qwen2.5-3B-Instruct'') 3000),
         mk_expert (lit ''synthesizer'') SYNTHESIZER (sv_hf sv (lit ''HuggingFaceTB/SmolLM2-1.7B-Instruct'') 1700)]
      else Inl ValueError)"

definition trio :: "pystr list" where
  "trio = [lit ''analyst'', lit ''reasoner'', lit ''synthesizer'']"

definition phase1_pipeline :: "'w server \<Rightarrow> phase1_args \<Rightarrow> 'w expert list \<Rightarrow> py_exc + 'w pipeline" where
  "phase1_pipeline sv a es =
     pipeline_init ((base_pipeline sv es trio (p1_max_tokens a))
       \<lparr>pl_write_memory := \<not> p1_no_memory a, pl_retrieve_k := (if p1_no_memory a then 0 else 2)\<rparr>)"

text \<open>The lines printed for each expert, numbered from 1.\<close>

type_synonym metric_row = "nat \<times> pystr \<times> pystr \<times> int \<times> int \<times> int \<times> real \<times> bool"

definition metric_rows :: "pipeline_result \<Rightarrow> metric_row list" where
  "metric_rows r =
     map (\<lambda>(i, m). (i, em_name m, role_value (em_role m), em_params_m m, em_input_tokens m, em_output_tokens m,
                    em_latency_ms m, em_used_kv m)) (enumerate 1 (pr_per_expert r))"

definition phase1_main :: "'w server \<Rightarrow> phase1_args \<Rightarrow> ('w, py_exc, (pipeline_result \<times> metric_row list) \<times> int) act" where
  "phase1_main sv a =
     bnd (lift_err (phase1_experts sv (p1_backend a))) (\<lambda>es.
     bnd (lift_err (phase1_pipeline sv a es)) (\<lambda>pl.
     bnd (cascade_run pl (p1_prompt a) None) (\<lambda>r.
     ret ((r, metric_rows r), 0))))"

section \<open>\<open>run_phase2.py\<close>\<close>

definition phase2_prompt :: pystr where
  "phase2_prompt = lit ''Explain quantum entanglement to a 12-year-old, then derive Bell's '' @ lit ''inequality step by step.''"

definition phase2_experts :: "'w server \<Rightarrow> 'w expert list" where
  "phase2_experts sv =
     [mk_expert (lit ''analyst'') ANALYST (sv_mock sv 3000 (lit ''analyst'')),
      mk_expert (lit ''reasoner'') REASONER (sv_mock sv 8000 (lit ''reasoner'')),
      mk_expert (lit ''synthesizer'') SYNTHESIZER (sv_mock sv 3000 (lit ''synthesizer''))]"

text \<open>\<open>kv_nuance / cascade_nuance if cascade_nuance > 0 else float("inf")\<close>; \<open>None\<close> is the infinity.\<close>

definition nuance_ratio :: "real \<Rightarrow> real \<Rightarrow> real option" where
  "nuance_ratio kv cascade = (if 0 < cascade then Some (kv / cascade) else None)"

record comparison =
  cp_cascade :: pipeline_result
  cp_kv :: pipeline_result
  cp_ratio :: "real option"
  cp_transfers :: int
  cp_failures :: int

definition compare_runs :: "pipeline_result \<Rightarrow> pipeline_result \<Rightarrow> comparison" where
  "compare_runs c k =
     \<lparr>cp_cascade = c, cp_kv = k, cp_ratio = nuance_ratio (ag_nuance (pr_metrics k)) (ag_nuance (pr_metrics c)),
      cp_transfers = ag_kv_transfers (pr_metrics k), cp_failures = ag_kv_failures (pr_metrics k)\<rparr>"

definition phase2_main :: "'w server \<Rightarrow> pystr \<Rightarrow> int \<Rightarrow> ('w, py_exc, comparison \<times> int) act" where
  "phase2_main sv prompt max_tokens =
     (let experts = phase2_experts sv in
      bnd (lift_err (pipeline_init (base_pipeline sv experts trio max_tokens))) (\<lambda>cascade.
      bnd (cascade_run cascade prompt None) (\<lambda>c.
      bnd (lift_err (pipeline_init (base_pipeline sv experts trio max_tokens))) (\<lambda>kv_pipe.
      bnd (kv_run kv_pipe prompt None) (\<lambda>k.
      ret (compare_runs c k, 0))))))"

section \<open>\<open>run_phase3.py\<close>\<close>

definition phase3_prompts :: "(pystr \<times> pystr) list" where
  "phase3_prompts =
     [(lit ''CHEAP  (poem)'', lit ''Write a haiku about autumn leaves.''),
      (lit ''MATH   (arithmetic)'', lit ''What is 17 * 23? Show your reasoning step by step.''),
      (lit ''EXPENSIVE (debug C++)'', lit ''Debug this segfault in my C++ allocator. The crash is in '' @
         lit ''malloc_consolidate when freeing a large block after a realloc.'')]"

definition phase3_experts :: "'w server \<Rightarrow> 'w expert list" where
  "phase3_experts sv =
     [full_expert (lit ''analyst'') ANALYST (sv_mock sv 3000 (lit ''analyst'')) [] [lit ''entity'', lit ''logic''],
      full_expert (lit ''reasoner'') REASONER (sv_mock sv 8000 (lit ''reasoner'')) [] [lit ''math'', lit ''logic''],
      full_expert (lit ''coder'') CODER (sv_mock sv 7000 (lit ''coder'')) [] [lit ''code'', lit ''python'', lit ''c++''],
      full_expert (lit ''synthesizer'') SYNTHESIZER (sv_mock sv 3000 (lit ''synthesizer'')) [] [lit ''text'']]"

definition phase3_router :: "'w server \<Rightarrow> 'w cli_routers \<Rightarrow> pystr \<Rightarrow> 'w expert list \<Rightarrow> py_exc + 'w router_fun" where
  "phase3_router sv cr kind es =
     (if kind = lit ''logistic'' then Inr (logistic_router_fun sv)
      else if kind = lit ''cosine'' then cr_cosine cr es
      else if kind = lit ''hybrid'' then cr_hybrid cr es
      else Inl ValueError)"

text \<open>The pipeline keeps the defaults for memory: every step is written to it and two entries are retrieved.\<close>

definition phase3_main :: "'w server \<Rightarrow> 'w cli_routers \<Rightarrow> pystr \<Rightarrow> int \<Rightarrow> ('w, py_exc, pipeline_result list \<times> int) act" where
  "phase3_main sv cr kind max_tokens =
     (let experts = phase3_experts sv;
          pl = (base_pipeline sv experts [] max_tokens)\<lparr>pl_write_memory := True, pl_retrieve_k := 2\<rparr> in
      bnd (lift_err (phase3_router sv cr kind experts)) (\<lambda>rt.
      bnd (lift_err (routing_pipeline pl rt False)) (\<lambda>pipe.
      bnd (run_each (\<lambda>(_, prompt). run_pipeline pipe prompt (Some max_tokens)) phase3_prompts) (\<lambda>rs.
      ret (rs, 0)))))"

section \<open>\<open>run_benchmarks.py\<close>\<close>

record suite_args =
  sa_phase :: int
  sa_router :: pystr
  sa_max_tokens :: int
  sa_params :: int
  sa_accuracy :: real
  sa_latency :: real
  sa_epu_target :: real
  sa_cost_target :: real

definition suite_defaults :: suite_args where
  "suite_defaults =
     \<lparr>sa_phase = 1, sa_router = lit ''logistic'', sa_max_tokens = 128, sa_params = 70000, sa_accuracy = 85 / 100,
      sa_latency = 1500, sa_epu_target = 3, sa_cost_target = 80\<rparr>"

definition suite_experts :: "'w server \<Rightarrow> 'w expert list" where
  "suite_experts sv =
     [mk_expert (lit ''analyst'') ANALYST (sv_mock sv 3000 (lit ''analyst'')),
      mk_expert (lit ''reasoner'') REASONER (sv_mock sv 8000 (lit ''reasoner'')),
      mk_expert (lit ''coder'') CODER (sv_mock sv 7000 (lit ''coder'')),
      mk_expert (lit ''synthesizer'') SYNTHESIZER (sv_mock sv 3000 (lit ''synthesizer''))]"

definition suite_pipeline :: "'w server \<Rightarrow> 'w cli_routers \<Rightarrow> int \<Rightarrow> pystr \<Rightarrow> 'w expert list \<Rightarrow> py_exc + 'w runnable" where
  "suite_pipeline sv cr phase kind es =
     (if phase = 1 then map_sum_r Cascade (pipeline_init (base_pipeline sv es trio 256))
      else if phase = 2 then map_sum_r KVPass (pipeline_init (base_pipeline sv es trio 256))
      else if phase = 3 then
        (case (if kind = lit ''logistic'' then Inr (logistic_router_fun sv)
               else if kind = lit ''cosine'' then cr_cosine cr es
               else if kind = lit ''hybrid'' then cr_hybrid cr es
               else Inl ValueError) of
           Inl e \<Rightarrow> Inl e
         | Inr rt \<Rightarrow> routing_pipeline (base_pipeline sv es [] 256) rt False)
      else Inl ValueError)"

definition suite_runner :: "'w server \<Rightarrow> suite_args \<Rightarrow> 'w runnable \<Rightarrow> 'w bench_runner" where
  "suite_runner sv a pipe =
     \<lparr>bn_pipeline = pipe,
      bn_baseline = default_baseline\<lparr>bl_params_m := sa_params a, bl_accuracy := sa_accuracy a, bl_latency_ms := sa_latency a\<rparr>,
      bn_kpis = \<lparr>kp_cost = sv_cost sv, kp_epu_target = sa_epu_target a, kp_cost_target_pct = sa_cost_target a\<rparr>\<rparr>"

text \<open>A task without a KPI report has no verdict and does not fail the suite.\<close>

definition suite_verdict :: "bench_result \<Rightarrow> bool option" where
  "suite_verdict r = map_option (\<lambda>k. kr_cost_met k \<and> kr_epu_met k \<and> kr_latency_met k) (br_kpi r)"

definition suite_main ::
  "'w server \<Rightarrow> 'w cli_routers \<Rightarrow> task_registry \<Rightarrow> suite_args \<Rightarrow> ('w, py_exc, bench_result list \<times> int) act" where
  "suite_main sv cr reg a =
     bnd (lift_err (suite_pipeline sv cr (sa_phase a) (sa_router a) (suite_experts sv))) (\<lambda>pipe.
     bnd (run_each (\<lambda>p. run_task (suite_runner sv a pipe) (snd p) (sa_max_tokens a)) reg) (\<lambda>rs.
     ret (rs, if \<forall>r\<in>set rs. suite_verdict r \<noteq> Some False then 0 else 1)))"

section \<open>\<open>run_real_models.py\<close>\<close>

definition tiers :: "(pystr \<times> (pystr \<times> pystr \<times> int) list) list" where
  "tiers =
     [(lit ''tiny'',
       [(lit ''analyst'', lit ''HuggingFaceTB/SmolLM2-360M-Instruct'', 360),
        (lit ''reasoner'', lit ''HuggingFaceTB/SmolLM2-1.7B-Instruct'', 1700),
        (lit ''synthesizer'', lit ''HuggingFaceTB/SmolLM2-360M-Instruct'', 360),
        (lit ''coder'', lit ''HuggingFaceTB/SmolLM2-1.7B-Instruct'', 1700)]),
      (lit ''cpu'',
       [(lit ''analyst'', lit ''HuggingFaceTB/SmolLM2-1.7B-Instruct'', 1700),
        (lit ''reasoner'', lit ''Qwen/Qwen2.5-3B-Instruct'', 3000),
        (lit ''synthesizer'', lit ''HuggingFaceTB/SmolLM2-1.7B-Instruct'', 1700),
        (lit ''coder'', lit ''Qwen/Qwen2.5-3B-Instruct'', 3000)]),
      (lit ''gpu'',
       [(lit ''analyst'', lit ''HuggingFaceTB/SmolLM2-1.7B-Instruct'', 1700),
        (lit ''reasoner'', lit ''Qwen/Qwen2.5-7B-Instruct'', 7000),
        (lit ''synthesizer'', lit ''HuggingFaceTB/SmolLM2-1.7B-Instruct'', 1700),
        (lit ''coder'', lit ''Qwen/CodeQwen1.5-7B-Chat'', 7000)])]"

definition py_item :: "(pystr \<times> 'v) list \<Rightarrow> pystr \<Rightarrow> py_exc + 'v" where
  "py_item d k = (case map_of d k of None \<Rightarrow> Inl KeyError | Some v \<Rightarrow> Inr v)"

definition tier_expert :: "'w server \<Rightarrow> (pystr \<times> pystr \<times> int) list \<Rightarrow> pystr \<times> expert_role \<Rightarrow> py_exc + 'w expert" where
  "tier_expert sv cfg = (\<lambda>(n, role). map_sum_r (\<lambda>(model, p). mk_expert n role (sv_hf sv model p)) (py_item cfg n))"

definition real_experts :: "'w server \<Rightarrow> pystr \<Rightarrow> py_exc + 'w expert list" where
  "real_experts sv tier =
     (case py_item tiers tier of
        Inl e \<Rightarrow> Inl e
      | Inr cfg \<Rightarrow> collect (tier_expert sv cfg)
          [(lit ''analyst'', ANALYST), (lit ''reasoner'', REASONER), (lit ''coder'', CODER), (lit ''synthesizer'', SYNTHESIZER)])"

definition real_phase1 :: "'w server \<Rightarrow> 'w expert list \<Rightarrow> pystr \<Rightarrow> int \<Rightarrow> ('w, py_exc, pipeline_result) act" where
  "real_phase1 sv es prompt mt =
     bnd (lift_err (pipeline_init (base_pipeline sv es trio mt))) (\<lambda>pl. cascade_run pl prompt None)"

definition real_phase2 :: "'w server \<Rightarrow> 'w expert list \<Rightarrow> pystr \<Rightarrow> int \<Rightarrow> ('w, py_exc, pipeline_result) act" where
  "real_phase2 sv es prompt mt =
     bnd (lift_err (pipeline_init (base_pipeline sv es trio mt))) (\<lambda>pl. kv_run pl prompt None)"

definition real_phase3 :: "'w server \<Rightarrow> 'w expert list \<Rightarrow> pystr \<Rightarrow> int \<Rightarrow> ('w, py_exc, pipeline_result) act" where
  "real_phase3 sv es prompt mt =
     bnd (lift_err (routing_pipeline (base_pipeline sv es [] mt) (logistic_router_fun sv) True)) (\<lambda>pipe.
     run_pipeline pipe prompt None)"

text \<open>What the script finds installed, and the device it reports: \<open>torch.cuda\<close> before Metal before the CPU.\<close>

record torch_env =
  te_transformers :: bool
  te_torch :: bool
  te_cuda :: "pystr option"
  te_mps :: "bool option"

datatype device = Cuda_Device pystr | Mps_Device | Cpu_Device

definition found_device :: "torch_env \<Rightarrow> device" where
  "found_device te =
     (case te_cuda te of
        Some n \<Rightarrow> Cuda_Device n
      | None \<Rightarrow> (if te_mps te = Some True then Mps_Device else Cpu_Device))"

record real_args =
  ra_tier :: pystr
  ra_phase :: int
  ra_prompt :: pystr
  ra_max_tokens :: int

definition real_defaults :: real_args where
  "real_defaults =
     \<lparr>ra_tier = lit ''cpu'', ra_phase = 1,
      ra_prompt = lit ''Explain recursion to a 12-year-old using a real-world analogy.'', ra_max_tokens = 128\<rparr>"

definition real_run :: "'w server \<Rightarrow> real_args \<Rightarrow> 'w expert list \<Rightarrow> ('w, py_exc, pipeline_result) act" where
  "real_run sv a es =
     (if ra_phase a = 1 then real_phase1 sv es (ra_prompt a) (ra_max_tokens a)
      else if ra_phase a = 2 then real_phase2 sv es (ra_prompt a) (ra_max_tokens a)
      else real_phase3 sv es (ra_prompt a) (ra_max_tokens a))"

definition real_main ::
  "'w server \<Rightarrow> torch_env \<Rightarrow> real_args \<Rightarrow> ('w, py_exc, (device \<times> pipeline_result) option \<times> int) act" where
  "real_main sv te a =
     (if \<not> te_transformers te \<or> \<not> te_torch te then ret (None, 1)
      else bnd (lift_err (real_experts sv (ra_tier a))) (\<lambda>es.
           bnd (real_run sv a es) (\<lambda>r. ret (Some (found_device te, r), 0))))"

section \<open>Building the pipelines\<close>

lemma init_known:
  assumes "es \<noteq> []" and "sq \<noteq> []" and "set sq \<subseteq> ex_name ` set es" and "pl_experts pl = es" and "pl_sequence pl = sq"
  shows "pipeline_init pl = Inr pl"
proof -
  have "\<forall>n\<in>set sq. find_expert es n \<noteq> None" using assms(3) find_expert_Some_iff [of es] by blast
  with assms show ?thesis by (auto simp: pipeline_init_def Let_def)
qed

lemma base_pipeline_simps [simp]:
  "pl_experts (base_pipeline sv es sq mt) = es" "pl_sequence (base_pipeline sv es sq mt) = sq"
  "pl_cost (base_pipeline sv es sq mt) = sv_cost sv" "pl_memory (base_pipeline sv es sq mt) = sv_memory sv"
  "pl_fallback (base_pipeline sv es sq mt)"
  by (simp_all add: base_pipeline_def)

lemma init_trio:
  assumes "set trio \<subseteq> ex_name ` set es" and "pl_experts pl = es" and "pl_sequence pl = trio"
  shows "pipeline_init pl = Inr pl"
  using assms by (intro init_known [where es = es and sq = trio]) (auto simp: trio_def)

lemma experts_trio:
  "phase1_experts sv b = Inr es1 \<Longrightarrow> set trio \<subseteq> ex_name ` set es1"
  "set trio \<subseteq> ex_name ` set (phase2_experts sv)" "set trio \<subseteq> ex_name ` set (suite_experts sv)"
  by (auto simp: phase1_experts_def phase2_experts_def suite_experts_def full_expert_def mk_expert_def trio_def
      simp del: lit_Cons split: if_splits)

lemma phase2_init: "pipeline_init (base_pipeline sv (phase2_experts sv) trio mt) = Inr (base_pipeline sv (phase2_experts sv) trio mt)"
  by (rule init_trio [OF experts_trio(2)]) simp_all

section \<open>Phase 1 from the command line\<close>

definition memory_works :: "'w server \<Rightarrow> bool" where
  "memory_works sv \<longleftrightarrow>
     (\<forall>e. nofail (mo_write (sv_memory sv) e)) \<and> (\<forall>q k. nofail (mo_retrieve (sv_memory sv) q k))"

lemma phase1_main_returns:
  assumes "p1_backend a = lit ''mock'' \<and> (\<forall>p n. answering (sv_mock sv p n)) \<or>
      p1_backend a = lit ''hf'' \<and> (\<forall>m p. answering (sv_hf sv m p))"
    and "memory_works sv"
  shows "\<exists>r w'. phase1_main sv a w = (Inr ((r, metric_rows r), 0), w') \<and> pr_selected r = trio \<and>
     map (\<lambda>(i, n, _). (i, n)) (metric_rows r) = enumerate 1 trio"
proof -
  have ne: "lit ''hf'' \<noteq> lit ''mock''" by simp
  obtain es where es: "phase1_experts sv (p1_backend a) = Inr es" and ans: "\<forall>e\<in>set es. answering (ex_backend e)"
    using assms(1) by (auto simp: ne phase1_experts_def full_expert_def mk_expert_def simp del: lit_Cons)
  let ?pl = "(base_pipeline sv es trio (p1_max_tokens a))
       \<lparr>pl_write_memory := \<not> p1_no_memory a, pl_retrieve_k := (if p1_no_memory a then 0 else 2)\<rparr>"
  have init: "phase1_pipeline sv a es = Inr ?pl"
    unfolding phase1_pipeline_def by (rule init_trio [OF experts_trio(1) [OF es]]) simp_all
  have mem: "memory_total ?pl" using assms(2) by (simp add: memory_total_def memory_works_def)
  have mod: "models_total ?pl" using ans by (auto simp: models_total_def answering_def)
  have nm: "set (pl_sequence ?pl) \<subseteq> ex_name ` set (pl_experts ?pl)" using experts_trio(1) [OF es] by simp
  have "nofail (cascade_run ?pl (p1_prompt a) None)"
    unfolding cascade_run_def by (intro nofail_intros nofail_remember_prompt nofail_cascade_loop mem mod nm)
  then obtain r w' where r: "cascade_run ?pl (p1_prompt a) None w = (Inr r, w')" by (rule nofailE)
  have fr: "final_report ?pl trio r" using cascade_run_report [OF r] by simp
  have "map (\<lambda>(i, n, _). (i, n)) (metric_rows r) = enumerate 1 (map em_name (pr_per_expert r))"
    by (simp add: metric_rows_def list_eq_iff_nth_eq nth_enumerate_eq)
  with fr r show ?thesis
    by (intro exI [of _ r] exI [of _ w']) (simp add: phase1_main_def es init bnd_apply final_report_def)
qed

section \<open>The comparison of phase 2 is never a number\<close>

lemma cascade_nuance:
  assumes "cascade_run pl prompt kw w = (Inr r, w')"
  shows "ag_nuance (pr_metrics r) = 0"
  using cascade_run_recorded [OF assms] cascade_run_report [OF assms] by (auto simp: final_report_def recorded_result_def)

lemma kv_nuance:
  assumes "kv_run pl prompt kw w = (Inr r, w')"
  shows "ag_nuance (pr_metrics r) = (if 0 < ag_kv_transfers (pr_metrics r) then 1 else 0)"
    and "ag_kv_failures (pr_metrics r) = 0"
  using kv_run_report [OF assms] by (auto simp: final_report_def agg_counts_def filter_empty_conv)

text \<open>A text hand-off has no nuance score, so the ratio the demonstration reports is always infinite, also when no
  transfer succeeded and the other score is 0 as well; and the failures it reports are always 0.\<close>

lemma phase2_ratio_infinite:
  assumes "phase2_main sv prompt mt w = (Inr (c, code), w')"
  shows "cp_ratio c = None" and "cp_failures c = 0" and "code = 0"
    and "ag_nuance (pr_metrics (cp_kv c)) = (if 0 < cp_transfers c then 1 else 0)"
proof -
  let ?pl = "base_pipeline sv (phase2_experts sv) trio mt"
  obtain r k v v' v'' where r: "cascade_run ?pl prompt None v = (Inr r, v')" and k: "kv_run ?pl prompt None v' = (Inr k, v'')"
    and c: "c = compare_runs r k" "code = 0"
    using assms by (auto simp: phase2_main_def Let_def phase2_init)
  show "cp_ratio c = None" "cp_failures c = 0" "code = 0"
    "ag_nuance (pr_metrics (cp_kv c)) = (if 0 < cp_transfers c then 1 else 0)"
    using cascade_nuance [OF r] kv_nuance [OF k] by (simp_all add: c compare_runs_def nuance_ratio_def)
qed

lemma phase2_main_returns:
  assumes "\<forall>p n. answering (sv_mock sv p n)"
  shows "\<exists>c w'. phase2_main sv prompt mt w = (Inr (c, 0), w')"
proof -
  let ?es = "phase2_experts sv"
  have a: "\<forall>e\<in>set ?es. answering (ex_backend e)" using assms by (simp add: phase2_experts_def mk_expert_def)
  obtain r v where r: "cascade_run (base_pipeline sv ?es trio mt) prompt None w = (Inr r, v)"
    using nofail_runs(1) [OF a experts_trio(2)] by (rule nofailE)
  obtain k v' where k: "kv_run (base_pipeline sv ?es trio mt) prompt None v = (Inr k, v')"
    using nofail_runs(2) [OF a experts_trio(2)] by (rule nofailE)
  show ?thesis by (simp add: phase2_main_def Let_def phase2_init bnd_apply r k)
qed

section \<open>Phase 3 wakes the same number of experts for every prompt\<close>

lemma run_each_all:
  assumes "run_each f ks w = (Inr xs, w')" and "\<And>k v x v'. k \<in> set ks \<Longrightarrow> f k v = (Inr x, v') \<Longrightarrow> P x"
  shows "\<forall>x\<in>set xs. P x"
  using assms by (induction ks arbitrary: w xs) fastforce+

lemma run_each_length: "run_each f ks w = (Inr xs, w') \<Longrightarrow> length xs = length ks"
  by (induction ks arbitrary: w xs) auto

definition mock_sized :: "'w server \<Rightarrow> bool" where
  "mock_sized sv \<longleftrightarrow> (\<forall>p n. bk_params_m (sv_mock sv p n) = IsInt p)"

text \<open>A pool of four experts, one for each of the analyst's, reasoner's, coder's and synthesizer's role.\<close>

definition four_roles :: "'w expert list \<Rightarrow> bool" where
  "four_roles es \<longleftrightarrow> distinct (map ex_name es) \<and> ex_role ` set es = {ANALYST, REASONER, CODER, SYNTHESIZER} \<and>
     (\<forall>e\<in>set es. ex_params_m e \<le> 8000)"

lemma four_roles_wake_three:
  assumes "four_roles es"
  shows "length (logistic_route u default_logistic prompt es) = 3"
proof -
  have r: "ex_role ` set es = {ANALYST, REASONER, CODER, SYNTHESIZER}" and d: "distinct (map ex_name es)"
    and s: "\<forall>e\<in>set es. ex_params_m e \<le> 8000"
    using assms by (simp_all add: four_roles_def)
  have w: "waking_role (ex_role e)" if "e \<in> set es" for e
  proof -
    have "ex_role e \<in> {ANALYST, REASONER, CODER, SYNTHESIZER}" using that r by blast
    then show ?thesis by (auto simp: waking_role_def)
  qed
  have "length (logistic_select default_logistic (logistic_scores u default_logistic prompt) es) = min 3 (card (ex_role ` set es))"
    using d w s by (intro default_logistic_wakes ballI waking_score) simp_all
  then show ?thesis by (simp add: logistic_route_def r)
qed

lemma four_roles_pools:
  "mock_sized sv \<Longrightarrow> four_roles (phase3_experts sv)" "mock_sized sv \<Longrightarrow> four_roles (suite_experts sv)"
  by (auto simp: four_roles_def mock_sized_def phase3_experts_def suite_experts_def full_expert_def mk_expert_def ex_params_m_def)

lemma phase3_wakes_three:
  assumes "mock_sized sv" and "phase3_main sv cr (lit ''logistic'') mt w = (Inr (rs, code), w')"
  shows "\<forall>r\<in>set rs. length (pr_selected r) = 3"
proof -
  let ?es = "phase3_experts sv"
  let ?pl = "(base_pipeline sv ?es [] mt)\<lparr>pl_write_memory := True, pl_retrieve_k := 2\<rparr>"
  have ne: "?es \<noteq> []" by (simp add: phase3_experts_def)
  obtain v v' where "run_each (\<lambda>(_, prompt). routing_run ?pl (logistic_router_fun sv) False prompt (Some mt)) phase3_prompts v = (Inr rs, v')"
    using assms(2) by (auto simp: phase3_main_def Let_def phase3_router_def routing_pipeline_def ne run_pipeline_def case_prod_beta')
  then show ?thesis
  proof (rule run_each_all, clarify)
    fix l prompt v r v'
    assume "routing_run ?pl (logistic_router_fun sv) False prompt (Some mt) v = (Inr r, v')"
    from routing_selected [OF this] ne four_roles_wake_three [OF four_roles_pools(1) [OF assms(1)]]
    show "length (pr_selected r) = 3" by simp
  qed
qed

section \<open>The benchmark suite never meets its default cost target\<close>

definition ran :: "'w runnable \<Rightarrow> pipeline_result \<Rightarrow> bool" where
  "ran p r \<longleftrightarrow> (\<exists>prompt kw w w'. run_pipeline p prompt kw w = (Inr r, w'))"

lemma run_samples_ran:
  "\<forall>x\<in>set (br_per_sample s). ran p (snd (snd (snd (snd (snd x))))) \<Longrightarrow> run_samples p g mt xs s w = (Inr s', w') \<Longrightarrow>
   \<forall>x\<in>set (br_per_sample s'). ran p (snd (snd (snd (snd (snd x)))))"
proof (induction xs arbitrary: s w)
  case (Cons x xs)
  obtain pr e where x: "x = (pr, e)" by (cases x)
  from Cons.prems(2) obtain r v where r: "run_pipeline p pr (Some mt) w = (Inr r, v)"
    and l: "run_samples p g mt xs (add_sample g pr e r s) v = (Inr s', w')"
    unfolding x by auto
  have "ran p r" using r unfolding ran_def by blast
  then have "\<forall>x\<in>set (br_per_sample (add_sample g pr e r s)). ran p (snd (snd (snd (snd (snd x)))))"
    using Cons.prems(1) by (auto simp: add_sample_def Let_def)
  from Cons.IH [OF this l] show ?case .
qed simp

text \<open>Costs of runs add up like the cost of all their tokens.\<close>

lemma costs_add_up:
  assumes "\<forall>x\<in>set xs. \<exists>i k. 0 < i \<and> 0 \<le> k \<and> tok x = i + k \<and> cost x = cost_for cm i k 0 False"
  shows "\<exists>i k. 0 \<le> i \<and> 0 \<le> k \<and> sum_list (map tok xs) = i + k \<and> sum_list (map cost xs) = cost_for cm i k 0 False \<and>
     (xs \<noteq> [] \<longrightarrow> 0 < i)"
  using assms
proof (induction xs)
  case Nil
  show ?case by (rule exI [of _ 0], rule exI [of _ 0]) (simp add: cost_for_no_tax)
next
  case (Cons x xs)
  then obtain i k where "0 \<le> i" "0 \<le> k" "sum_list (map tok xs) = i + k" "sum_list (map cost xs) = cost_for cm i k 0 False"
    by auto
  moreover obtain i' k' where "0 < i'" "0 \<le> k'" "tok x = i' + k'" "cost x = cost_for cm i' k' 0 False"
    using Cons.prems by auto
  ultimately show ?case
    by (intro exI [of _ "i' + i"] exI [of _ "k' + k"]) (simp add: cost_for_no_tax add_divide_distrib algebra_simps)
qed

lemma run_task_cost:
  assumes "run_task b t mt w = (Inr r, w')" and "runnable_ok (bn_pipeline b)" and "bt_samples t \<noteq> []"
    and "\<forall>e\<in>set (pl_experts (runnable_pipeline (bn_pipeline b))). counts_tokens (ex_backend e)"
  obtains i k l a ps dps n where "0 \<le> i" and "0 \<le> k" and "0 < i + k"
    and "br_kpi r = Some (kpi_compute (bn_kpis b) (i + k) (cost_for (pl_cost (runnable_pipeline (bn_pipeline b))) i k 0 False)
           l a ps dps (bn_baseline b) n (bt_name t))"
proof -
  let ?p = "bn_pipeline b" and ?pr = "\<lambda>x :: pystr \<times> pystr \<times> pystr \<times> real \<times> real \<times> pipeline_result. snd (snd (snd (snd (snd x))))"
  obtain s where sr: "run_samples ?p (bt_grader t) mt (bt_samples t) (new_result (bt_name t)) w = (Inr s, w')"
    and r: "r = finish_result b t s"
    using assms(1) unfolding run_task_def by (auto simp only: bnd_ret_Inr)
  have su: "sums_to (bt_grader t) (bt_samples t) s" using run_samples_sums [OF sums_to_new sr] by simp
  have len: "br_per_sample s \<noteq> []" using sums_to_length [OF su] assms(3) by auto
  have "\<forall>x\<in>set (br_per_sample s). ran ?p (?pr x)" by (rule run_samples_ran [OF _ sr]) (simp add: new_result_def)
  then have "\<forall>x\<in>set (br_per_sample s). \<exists>i k. 0 < i \<and> 0 \<le> k \<and> agg_total_tokens (pr_metrics (?pr x)) = i + k \<and>
      ag_cost_usd (pr_metrics (?pr x)) = cost_for (pl_cost (runnable_pipeline ?p)) i k 0 False"
    unfolding ran_def using run_pipeline_cost [OF _ assms(2,4)] by blast
  from costs_add_up [OF this] len obtain i k where ik: "0 < i" "0 \<le> k"
    "sum_list (map (\<lambda>x. agg_total_tokens (pr_metrics (?pr x))) (br_per_sample s)) = i + k"
    "sum_list (map (\<lambda>x. ag_cost_usd (pr_metrics (?pr x))) (br_per_sample s)) = cost_for (pl_cost (runnable_pipeline ?p)) i k 0 False"
    by blast
  have "br_total_tokens s = i + k" "br_total_cost s = cost_for (pl_cost (runnable_pipeline ?p)) i k 0 False"
    using su ik(3,4) by (simp_all add: sums_to_def case_prod_beta')
  with ik r show ?thesis
    by (intro that [of i k]) (simp_all add: finish_result_def Let_def)
qed

definition default_rates :: "cost_model \<Rightarrow> bool" where
  "default_rates cm \<longleftrightarrow> input_per_1m cm = 15 / 100 \<and> output_per_1m cm = 60 / 100"

lemma suite_task_fails:
  assumes "run_task (suite_runner sv a pipe) t mt w = (Inr r, w')" and "runnable_ok pipe" and "bt_samples t \<noteq> []"
    and "\<forall>e\<in>set (pl_experts (runnable_pipeline pipe)). counts_tokens (ex_backend e)"
    and "pl_cost (runnable_pipeline pipe) = sv_cost sv" and "default_rates (sv_cost sv)" and "65 \<le> sa_cost_target a"
  shows "suite_verdict r = Some False"
proof -
  let ?b = "suite_runner sv a pipe"
  have b: "bn_pipeline ?b = pipe" "kp_cost (bn_kpis ?b) = sv_cost sv" "kp_cost_target_pct (bn_kpis ?b) = sa_cost_target a"
    "bl_input_tokens (bn_baseline ?b) = 200" "bl_output_tokens (bn_baseline ?b) = 300"
    by (simp_all add: suite_runner_def default_baseline_def)
  obtain i k l ac ps dps n where ik: "0 \<le> i" "0 \<le> k" "0 < i + k"
    and k: "br_kpi r = Some (kpi_compute (bn_kpis ?b) (i + k) (cost_for (sv_cost sv) i k 0 False) l ac ps dps (bn_baseline ?b) n (bt_name t))"
    using run_task_cost [OF assms(1)] assms(2-5) unfolding b(1) by metis
  have "kr_cost_reduction_pct (kpi_compute (bn_kpis ?b) (i + k) (cost_for (sv_cost sv) i k 0 False) l ac ps dps (bn_baseline ?b) n (bt_name t)) < 65"
    using ik assms(6) b by (intro mix_reduction) (simp_all add: default_rates_def)
  then have "\<not> kr_cost_met (kpi_compute (bn_kpis ?b) (i + k) (cost_for (sv_cost sv) i k 0 False) l ac ps dps (bn_baseline ?b) n (bt_name t))"
    unfolding kpi_reduction(2) [OF refl] b(3) using assms(7) by simp
  then show ?thesis by (simp add: suite_verdict_def k)
qed

lemma suite_pipeline_ok:
  assumes "suite_pipeline sv cr phase kind (suite_experts sv) = Inr pipe"
  shows "runnable_ok pipe" and "pl_experts (runnable_pipeline pipe) = suite_experts sv" and "pl_cost (runnable_pipeline pipe) = sv_cost sv"
proof -
  have "pipeline_init (base_pipeline sv (suite_experts sv) trio 256) = Inr (base_pipeline sv (suite_experts sv) trio 256)"
    by (rule init_trio [OF experts_trio(3)]) simp_all
  moreover have "suite_experts sv \<noteq> []" "trio \<noteq> []" by (simp_all add: suite_experts_def trio_def)
  ultimately show "runnable_ok pipe" "pl_experts (runnable_pipeline pipe) = suite_experts sv"
    "pl_cost (runnable_pipeline pipe) = sv_cost sv"
    using assms
    by (auto simp: suite_pipeline_def map_sum_r_def routing_pipeline_def runnable_ok_def runnable_pipeline_def
        simp del: lit_Cons split: if_splits sum.splits)
qed

text \<open>\<open>examples/run_benchmarks.py\<close> cannot succeed with its default targets: whatever the phase and the router, with the
  default token rates and backends that count at least one token in a text, a run over any non-empty registry of tasks
  with samples gives every task the verdict FAIL and exits with status 1. The number of parameters, the accuracy and the
  latency of the baseline play no part.\<close>

theorem benchmark_script_always_fails:
  assumes "suite_main sv cr reg a w = (Inr (rs, code), w')" and "65 \<le> sa_cost_target a"
    and "reg \<noteq> []" and "\<forall>(n, t)\<in>set reg. bt_samples t \<noteq> []"
    and "default_rates (sv_cost sv)" and "\<forall>p n. counts_tokens (sv_mock sv p n)"
  shows "code = 1 \<and> length rs = length reg \<and> (\<forall>r\<in>set rs. suite_verdict r = Some False)"
proof -
  obtain pipe v v' where pipe: "suite_pipeline sv cr (sa_phase a) (sa_router a) (suite_experts sv) = Inr pipe"
    and rs: "run_each (\<lambda>p. run_task (suite_runner sv a pipe) (snd p) (sa_max_tokens a)) reg v = (Inr rs, v')"
    and code: "code = (if \<forall>r\<in>set rs. suite_verdict r \<noteq> Some False then 0 else 1)"
    using assms(1) by (auto simp: suite_main_def)
  note ok = suite_pipeline_ok [OF pipe]
  have ct: "\<forall>e\<in>set (pl_experts (runnable_pipeline pipe)). counts_tokens (ex_backend e)"
    using assms(6) by (simp add: ok(2) suite_experts_def mk_expert_def)
  have all: "\<forall>r\<in>set rs. suite_verdict r = Some False"
  proof (rule run_each_all [OF rs])
    fix k v r v'
    assume k: "k \<in> set reg" and r: "run_task (suite_runner sv a pipe) (snd k) (sa_max_tokens a) v = (Inr r, v')"
    have "bt_samples (snd k) \<noteq> []" using k assms(4) by (cases k) auto
    from suite_task_fails [OF r ok(1) this ct ok(3) assms(5,2)] show "suite_verdict r = Some False" .
  qed
  have len: "length rs = length reg" using rs by (rule run_each_length)
  with assms(3) have "rs \<noteq> []" by auto
  with all code len show ?thesis by (cases rs) auto
qed

definition priced_server :: "unit server" where
  "priced_server = unit_server\<lparr>sv_cost := \<lparr>input_per_1m = 15 / 100, output_per_1m = 60 / 100, per_1m_params_per_1k_tokens = 0\<rparr>\<rparr>"

lemma priced_server_simps [simp]:
  "sv_mock priced_server p n = tag_backend False n" "sv_cost priced_server =
     \<lparr>input_per_1m = 15 / 100, output_per_1m = 60 / 100, per_1m_params_per_1k_tokens = 0\<rparr>"
  by (simp_all add: priced_server_def unit_server_def)

lemma priced_suite_answers: "\<forall>e\<in>set (suite_experts priced_server). answering (ex_backend e)"
  by (simp add: suite_experts_def mk_expert_def)

theorem benchmark_script_always_fails_witness:
  "\<exists>rs w'. suite_main priced_server \<lparr>cr_cosine = \<lambda>_. Inl ValueError, cr_hybrid = \<lambda>_. Inl ValueError\<rparr>
     [(lit ''t'', unit_task)] suite_defaults () = (Inr (rs, 1), w') \<and> length rs = 1"
proof -
  let ?cr = "\<lparr>cr_cosine = \<lambda>_. Inl ValueError, cr_hybrid = \<lambda>_. Inl ValueError\<rparr> :: unit cli_routers"
  let ?es = "suite_experts priced_server" and ?reg = "[(lit ''t'', unit_task)]"
  let ?pl = "base_pipeline priced_server ?es trio 256"
  have init: "pipeline_init ?pl = Inr ?pl" by (rule init_trio [OF experts_trio(3)]) simp_all
  have pipe: "suite_pipeline priced_server ?cr (sa_phase suite_defaults) (sa_router suite_defaults) ?es = Inr (Cascade ?pl)"
    by (simp add: suite_pipeline_def suite_defaults_def init map_sum_r_def)
  let ?b = "suite_runner priced_server suite_defaults (Cascade ?pl)"
  have "nofail (run_pipeline (bn_pipeline ?b) p k)" for p k
    using nofail_runs(1) [OF priced_suite_answers experts_trio(3)] by (simp add: suite_runner_def run_pipeline_def)
  then have "nofail (run_task ?b unit_task (sa_max_tokens suite_defaults))" by (intro nofail_task_on)
  then obtain r w' where "run_task ?b unit_task (sa_max_tokens suite_defaults) () = (Inr r, w')" by (rule nofailE)
  then have "\<exists>rs code. suite_main priced_server ?cr ?reg suite_defaults () = (Inr (rs, code), w')"
    by (simp add: suite_main_def pipe bnd_apply)
  then obtain rs code where m: "suite_main priced_server ?cr ?reg suite_defaults () = (Inr (rs, code), w')" by blast
  have "code = 1 \<and> length rs = length ?reg \<and> (\<forall>r\<in>set rs. suite_verdict r = Some False)"
    by (rule benchmark_script_always_fails [OF m])
      (simp_all add: suite_defaults_def unit_task_def default_rates_def counts_tokens_def)
  with m show ?thesis by auto
qed

section \<open>Real models\<close>

lemma real_experts_known:
  assumes "tier \<in> {lit ''tiny'', lit ''cpu'', lit ''gpu''}"
  obtains es where "real_experts sv tier = Inr es" and "map ex_name es = garage_names"
    and "map ex_role es = [ANALYST, REASONER, CODER, SYNTHESIZER]"
    and "\<forall>e\<in>set es. \<exists>m p. ex_backend e = sv_hf sv m p \<and> p \<le> 7000"
proof -
  have "\<exists>c. py_item tiers tier = Inr c \<and> (\<forall>n\<in>set garage_names. \<exists>m p. py_item c n = Inr (m, p) \<and> p \<le> 7000)"
    using assms by (auto simp: py_item_def tiers_def garage_names_def)
  then obtain c where c: "py_item tiers tier = Inr c" and n: "\<forall>n\<in>set garage_names. \<exists>m p. py_item c n = Inr (m, p) \<and> p \<le> 7000"
    by blast
  obtain m1 p1 m2 p2 m3 p3 m4 p4 where g: "py_item c (lit ''analyst'') = Inr (m1, p1)" "py_item c (lit ''reasoner'') = Inr (m2, p2)"
    "py_item c (lit ''coder'') = Inr (m3, p3)" "py_item c (lit ''synthesizer'') = Inr (m4, p4)"
    "p1 \<le> 7000" "p2 \<le> 7000" "p3 \<le> 7000" "p4 \<le> 7000"
    using n by (auto simp: garage_names_def simp del: lit_Cons)
  show ?thesis
    by (rule that [of "[mk_expert (lit ''analyst'') ANALYST (sv_hf sv m1 p1), mk_expert (lit ''reasoner'') REASONER (sv_hf sv m2 p2),
        mk_expert (lit ''coder'') CODER (sv_hf sv m3 p3), mk_expert (lit ''synthesizer'') SYNTHESIZER (sv_hf sv m4 p4)]"])
      (use g in \<open>auto simp: real_experts_def c tier_expert_def map_sum_r_def mk_expert_def garage_names_def simp del: lit_Cons\<close>)
qed

definition hf_sized :: "'w server \<Rightarrow> bool" where
  "hf_sized sv \<longleftrightarrow> (\<forall>m p. bk_params_m (sv_hf sv m p) = IsInt p)"

text \<open>With the extras installed every tier and phase runs to the end; phases 1 and 2 run the three fixed experts, and phase
  3 also wakes three of the four, whatever the prompt.\<close>

lemma real_main_returns:
  assumes "te_transformers te" and "te_torch te" and "ra_tier a \<in> {lit ''tiny'', lit ''cpu'', lit ''gpu''}"
    and "\<forall>m p. answering (sv_hf sv m p)" and "hf_sized sv"
  shows "\<exists>r w'. real_main sv te a w = (Inr (Some (found_device te, r), 0), w') \<and>
     (if ra_phase a = 1 \<or> ra_phase a = 2 then pr_selected r = trio else length (pr_selected r) = 3)"
proof -
  obtain es where es: "real_experts sv (ra_tier a) = Inr es" and nm: "map ex_name es = garage_names"
    and rl: "map ex_role es = [ANALYST, REASONER, CODER, SYNTHESIZER]"
    and bk: "\<forall>e\<in>set es. \<exists>m p. ex_backend e = sv_hf sv m p \<and> p \<le> 7000"
    using real_experts_known [OF assms(3)] .
  have ans: "\<forall>e\<in>set es. answering (ex_backend e)" using bk assms(4) by metis
  have "ex_name ` set es = set garage_names" using nm by (metis list.set_map)
  then have tr: "set trio \<subseteq> ex_name ` set es" by (auto simp: trio_def garage_names_def simp del: lit_Cons)
  have ne: "es \<noteq> []" using nm by (auto simp: garage_names_def)
  let ?pl = "base_pipeline sv es trio (ra_max_tokens a)" and ?rt = "base_pipeline sv es [] (ra_max_tokens a)"
  have init: "pipeline_init ?pl = Inr ?pl" by (rule init_trio [OF tr]) simp_all
  have "ex_params_m e \<le> 8000" if "e \<in> set es" for e
    using bk that assms(5) by (fastforce simp: ex_params_m_def hf_sized_def)
  moreover have "ex_role ` set es = {ANALYST, REASONER, CODER, SYNTHESIZER}"
    using arg_cong [OF rl, of set] by simp
  moreover have "distinct (map ex_name es)" by (simp add: nm garage_names_def)
  ultimately have four: "four_roles es" by (simp add: four_roles_def)
  obtain r1 w1 where 1: "cascade_run ?pl (ra_prompt a) None w = (Inr r1, w1)" using nofail_runs(1) [OF ans tr] by (rule nofailE)
  obtain r2 w2 where 2: "kv_run ?pl (ra_prompt a) None w = (Inr r2, w2)" using nofail_runs(2) [OF ans tr] by (rule nofailE)
  obtain r3 w3 where 3: "routing_run ?rt (logistic_router_fun sv) True (ra_prompt a) None w = (Inr r3, w3)"
    using nofail_routing [OF ans ne] by (rule nofailE)
  have s1: "pr_selected r1 = trio" using cascade_selected [OF 1] by simp
  have s2: "pr_selected r2 = trio" using kv_selected [OF 2] by simp
  have s3: "length (pr_selected r3) = 3" using routing_selected [OF 3] ne four_roles_wake_three [OF four] by simp
  show ?thesis
    using assms(1,2)
    by (simp add: real_main_def es bnd_apply real_run_def real_phase1_def real_phase2_def real_phase3_def init routing_pipeline_def
        ne run_pipeline_def 1 2 3 s1 s2 s3)
qed

lemma real_main_missing: "\<not> te_torch te \<Longrightarrow> real_main sv te a w = (Inr (None, 1), w)"
  by (simp add: real_main_def)

end
