(* ===== verification/Notebooks.thy ===== *)
theory Notebooks
  imports Examples
begin

text \<open>
  \<open>notebooks/*.ipynb\<close>: the code cells of the three walkthroughs, one definition for each group of cells, and what the
  text around them says about the results. A notebook is run from top to bottom; what a cell prints is the data returned.
\<close>

section \<open>\<open>01_phase1_cascade.ipynb\<close>\<close>

definition nb1_experts :: "'w server \<Rightarrow> 'w expert list" where
  "nb1_experts sv =
     [full_expert (lit ''analyst'') ANALYST (sv_mock sv 3000 (lit ''analyst'')) (lit ''Extracts entities and logic from text.'') [],
      full_expert (lit ''reasoner'') REASONER (sv_mock sv 8000 (lit ''reasoner'')) (lit ''Math and code reasoning.'') [],
      full_expert (lit ''synthesizer'') SYNTHESIZER (sv_mock sv 3000 (lit ''synthesizer''))
        (lit ''Converts latent state to natural language.'') []]"

definition nb1_garage :: "'w expert list \<Rightarrow> (pystr \<times> pystr \<times> int) list" where
  "nb1_garage es = map (\<lambda>e. (ex_name e, role_value (ex_role e), ex_params_m e div 1000)) es"

definition nb1_pipeline :: "'w server \<Rightarrow> 'w expert list \<Rightarrow> py_exc + 'w pipeline" where
  "nb1_pipeline sv es =
     pipeline_init ((base_pipeline sv es trio 128)\<lparr>pl_write_memory := True, pl_retrieve_k := 2\<rparr>)"

definition nb1_prompt :: pystr where
  "nb1_prompt =
     lit ''Read this 10-page PDF about renewable energy trends and write a '' @
     lit ''Python script that loads the data and plots solar vs wind capacity '' @ lit ''over time.''"

definition nb1_costs :: "pipeline_result \<Rightarrow> real \<times> real \<times> real" where
  "nb1_costs r = (ag_cost_usd (pr_metrics r), cost_per_1m_tokens (pr_metrics r), epu (pr_metrics r))"

text \<open>The last cell counts the entries of the memory and lists the start of each; \<open>entries\<close> reads them off the world.\<close>

definition nb1_memory :: "('w \<Rightarrow> memory_entry list) \<Rightarrow> ('w, py_exc, nat \<times> (pystr \<times> pystr) list) act" where
  "nb1_memory entries = (\<lambda>w. (Inr (length (entries w), map (\<lambda>e. (me_role e, take 80 (me_text e))) (entries w)), w))"

definition notebook1 ::
  "'w server \<Rightarrow> ('w \<Rightarrow> memory_entry list) \<Rightarrow>
   ('w, py_exc, pipeline_result \<times> metric_row list \<times> (real \<times> real \<times> real) \<times> nat \<times> (pystr \<times> pystr) list) act" where
  "notebook1 sv entries =
     bnd (lift_err (nb1_pipeline sv (nb1_experts sv))) (\<lambda>pl.
     bnd (cascade_run pl nb1_prompt None) (\<lambda>r.
     bnd (nb1_memory entries) (\<lambda>(n, shown).
     ret (r, metric_rows r, nb1_costs r, n, shown))))"

section \<open>\<open>02_phase2_kv_pass.ipynb\<close>\<close>

definition nb2_experts :: "'w server \<Rightarrow> 'w expert list" where
  "nb2_experts sv =
     [mk_expert (lit ''analyst'') ANALYST (sv_mock sv 3000 (lit ''analyst'')),
      mk_expert (lit ''reasoner'') REASONER (sv_mock sv 8000 (lit ''reasoner'')),
      mk_expert (lit ''synthesizer'') SYNTHESIZER (sv_mock sv 3000 (lit ''synthesizer''))]"

definition nb2_cascade :: "'w server \<Rightarrow> pystr \<Rightarrow> ('w, py_exc, pipeline_result) act" where
  "nb2_cascade sv prompt =
     bnd (lift_err (pipeline_init (base_pipeline sv (nb2_experts sv) trio 256))) (\<lambda>pl. cascade_run pl prompt None)"

definition nb2_kv :: "'w server \<Rightarrow> pystr \<Rightarrow> ('w, py_exc, pipeline_result) act" where
  "nb2_kv sv prompt =
     bnd (lift_err (pipeline_init (base_pipeline sv (nb2_experts sv) trio 256))) (\<lambda>pl. kv_run pl prompt None)"

definition nb2_compare :: "pipeline_result \<Rightarrow> pipeline_result \<Rightarrow> real \<times> real \<times> real option \<times> int \<times> int" where
  "nb2_compare c k =
     (let cn = ag_nuance (pr_metrics c); kn = ag_nuance (pr_metrics k)
      in (cn, kn, nuance_ratio kn cn, ag_kv_transfers (pr_metrics k), ag_kv_failures (pr_metrics k)))"

definition nb2_details :: "pipeline_result \<Rightarrow> (nat \<times> pystr \<times> bool \<times> bool \<times> real \<times> real) list" where
  "nb2_details r =
     map (\<lambda>(i, m). (i, em_name m, em_used_kv m, em_transfer_ok m, em_transfer_ms m, em_latency_ms m))
       (enumerate 1 (pr_per_expert r))"

text \<open>\<open>cache.keys[0]\<close> of a cache without layers is an IndexError, and so is \<open>[0, 0, :3]\<close> of a tensor without rows; the
  tensors of the mock backend have three axes.\<close>

definition nb2_peek :: "kv_cache \<Rightarrow> py_exc + nat list \<times> real list" where
  "nb2_peek c =
     (case kv_keys c of
        [] \<Rightarrow> Inl IndexError
      | t # _ \<Rightarrow>
          (case t_shape t of
             [a, b, d] \<Rightarrow> (if a = 0 \<or> b = 0 then Inl IndexError else Inr (t_shape t, take 3 (take d (t_data t))))
           | _ \<Rightarrow> Inl IndexError))"

definition nb2_cache :: "'w server \<Rightarrow> pystr \<Rightarrow> ('w, py_exc, nat list \<times> real list) act" where
  "nb2_cache sv prompt =
     bnd (bk_encode (ex_backend (hd (nb2_experts sv))) prompt) (\<lambda>c. lift_err (nb2_peek c))"

definition notebook2 ::
  "'w server \<Rightarrow> ('w, py_exc, (real \<times> real \<times> real option \<times> int \<times> int) \<times> (nat \<times> pystr \<times> bool \<times> bool \<times> real \<times> real) list \<times>
     nat list \<times> real list) act" where
  "notebook2 sv =
     (let prompt = lit ''Explain quantum entanglement to a 12-year-old, then derive Bell's inequality step by step.'' in
      bnd (nb2_cascade sv prompt) (\<lambda>c.
      bnd (nb2_kv sv prompt) (\<lambda>k.
      bnd (nb2_cache sv prompt) (\<lambda>peek.
      ret (nb2_compare c k, nb2_details k, peek)))))"

section \<open>\<open>03_phase3_routing.ipynb\<close>\<close>

definition nb3_experts :: "'w server \<Rightarrow> 'w expert list" where
  "nb3_experts sv =
     [mk_expert (lit ''analyst'') ANALYST (sv_mock sv 3000 (lit ''analyst'')),
      mk_expert (lit ''reasoner'') REASONER (sv_mock sv 8000 (lit ''reasoner'')),
      mk_expert (lit ''coder'') CODER (sv_mock sv 7000 (lit ''coder'')),
      mk_expert (lit ''synthesizer'') SYNTHESIZER (sv_mock sv 3000 (lit ''synthesizer''))]"

definition nb3_pipeline :: "'w server \<Rightarrow> 'w expert list \<Rightarrow> py_exc + 'w runnable" where
  "nb3_pipeline sv es = routing_pipeline (base_pipeline sv es [] 128) (logistic_router_fun sv) False"

text \<open>What the cell of one query prints: the experts, the parameters in billions, the cost and the latency.\<close>

definition nb3_query :: "'w runnable \<Rightarrow> pystr \<Rightarrow> ('w, py_exc, pipeline_result \<times> pystr list \<times> real \<times> real \<times> real) act" where
  "nb3_query pipe prompt =
     bnd (run_pipeline pipe prompt None) (\<lambda>r.
     ret (r, pr_selected r, real_of_int (ag_params_invoked_m (pr_metrics r)) / 1000, ag_cost_usd (pr_metrics r),
          ag_latency_ms (pr_metrics r)))"

definition nb3_cheap :: pystr where
  "nb3_cheap = lit ''Write a haiku about autumn leaves.''"

definition nb3_math :: pystr where
  "nb3_math = lit ''What is 17 * 23? Show your reasoning step by step.''"

definition nb3_expensive :: pystr where
  "nb3_expensive =
     lit ''Debug this segfault in my C++ allocator. The crash is in '' @
     lit ''malloc_consolidate when freeing a large block after a realloc.''"

text \<open>A row of the cost table: the run's cost next to that of the same tokens on a model of 70B parameters.\<close>

definition nb3_savings :: "cost_model \<Rightarrow> pipeline_result \<Rightarrow> real \<times> real \<times> real \<times> real" where
  "nb3_savings cm r =
     (let m = pr_metrics r;
          base = cost_for cm (ag_input_tokens m) (ag_output_tokens m) 70000 True
      in (real_of_int (ag_distinct_params_m m) / 1000, ag_cost_usd m, base,
          if 0 < base then (1 - ag_cost_usd m / base) * 100 else 0))"

definition nb3_other :: "'w server \<Rightarrow> 'w expert list \<Rightarrow> py_exc + 'w router_fun \<Rightarrow> ('w, py_exc, pystr list) act" where
  "nb3_other sv es rt =
     bnd (lift_err rt) (\<lambda>router.
     bnd (lift_err (routing_pipeline (base_pipeline sv es [] 256) router True)) (\<lambda>pipe.
     bnd (run_pipeline pipe (lit ''Debug this Python function: def foo(): return None'') None) (\<lambda>r.
     ret (pr_selected r))))"

definition notebook3 ::
  "'w server \<Rightarrow> 'w cli_routers \<Rightarrow>
   ('w, py_exc, pipeline_result list \<times> (real \<times> real \<times> real \<times> real) list \<times> pystr list list) act" where
  "notebook3 sv cr =
     (let es = nb3_experts sv in
      bnd (lift_err (nb3_pipeline sv es)) (\<lambda>pipe.
      bnd (run_each (nb3_query pipe) [nb3_cheap, nb3_math, nb3_expensive]) (\<lambda>qs.
      bnd (run_each (nb3_other sv es) [Inr (logistic_router_fun sv), cr_cosine cr es, cr_hybrid cr es]) (\<lambda>os.
      ret (map fst qs, map (nb3_savings (sv_cost sv)) (map fst qs), os)))))"

section \<open>The comparisons\<close>

lemma nb2_init: "pipeline_init (base_pipeline sv (nb2_experts sv) trio 256) = Inr (base_pipeline sv (nb2_experts sv) trio 256)"
  by (rule init_trio) (simp_all add: nb2_experts_def mk_expert_def trio_def del: lit_Cons)

lemma notebook2_ratio:
  assumes "notebook2 sv w = (Inr ((cn, kn, ratio, n, f), d, peek), w')"
  shows "cn = 0" and "ratio = None" and "f = 0" and "kn = (if 0 < n then 1 else 0)"
proof -
  let ?pl = "base_pipeline sv (nb2_experts sv) trio 256"
  obtain p c k v v' u u' where c: "cascade_run ?pl p None v = (Inr c, v')" and k: "kv_run ?pl p None u = (Inr k, u')"
    and eq: "(cn, kn, ratio, n, f) = nb2_compare c k"
    using assms by (auto simp: notebook2_def nb2_cascade_def nb2_kv_def nb2_init Let_def)
  show "cn = 0" "ratio = None" "f = 0" "kn = (if 0 < n then 1 else 0)"
    using eq cascade_nuance [OF c] kv_nuance [OF k] by (simp_all add: nb2_compare_def Let_def nuance_ratio_def)
qed

lemma nb3_four_roles: "mock_sized sv \<Longrightarrow> four_roles (nb3_experts sv)"
  by (auto simp: four_roles_def mock_sized_def nb3_experts_def mk_expert_def ex_params_m_def)

text \<open>The haiku wakes as many experts as the debugging session.\<close>

lemma notebook3_wakes_three:
  assumes "mock_sized sv" and "notebook3 sv cr w = (Inr (rs, sav, os), w')"
  shows "\<forall>r\<in>set rs. length (pr_selected r) = 3"
proof -
  let ?es = "nb3_experts sv" and ?pl = "base_pipeline sv (nb3_experts sv) [] 128"
  have ne: "?es \<noteq> []" by (simp add: nb3_experts_def)
  obtain qs v v' where q: "run_each (nb3_query (Routing ?pl (logistic_router_fun sv) False)) [nb3_cheap, nb3_math, nb3_expensive] v = (Inr qs, v')"
    and rs: "rs = map fst qs"
    using assms(2) ne by (auto simp: notebook3_def nb3_pipeline_def routing_pipeline_def Let_def simp del: run_each.simps)
  have "\<forall>x\<in>set qs. length (pr_selected (fst x)) = 3"
  proof (rule run_each_all [OF q])
    fix prompt v x v'
    assume "nb3_query (Routing ?pl (logistic_router_fun sv) False) prompt v = (Inr x, v')"
    then obtain r where r: "routing_run ?pl (logistic_router_fun sv) False prompt None v = (Inr r, v')" "fst x = r"
      by (auto simp: nb3_query_def run_pipeline_def)
    show "length (pr_selected (fst x)) = 3"
      using routing_selected [OF r(1)] ne four_roles_wake_three [OF nb3_four_roles [OF assms(1)]] by (simp add: r(2))
  qed
  then show ?thesis by (simp add: rs)
qed

section \<open>The savings in the cost table\<close>

lemma saved_fraction:
  fixes c t :: real
  assumes "0 \<le> c" and "c \<le> 6 / 7000 * t" and "0 < t"
  shows "99.91 < (1 - c / (c + t)) * 100" and "(1 - c / (c + t)) * 100 \<le> 100"
proof -
  have pos: "0 < c + t" using assms(1,3) by linarith
  have eq: "1 - c / (c + t) = t / (c + t)" using pos by (simp add: field_simps)
  have "99.91 * (c + t) < t * 100" using assms by simp
  then show "99.91 < (1 - c / (c + t)) * 100" unfolding eq using pos by (simp add: pos_less_divide_eq)
  show "(1 - c / (c + t)) * 100 \<le> 100" using assms(1) pos by simp
qed

lemma tax_split:
  "cost_for cm a b 70000 True = cost_for cm a b 0 False + 70000 * (real_of_int (a + b) / 1000) * per_1m_params_per_1k_tokens cm"
  by (simp add: cost_for_def Let_def)

text \<open>The notebook's cost table says 99.9 percent for every run. The baseline is charged a tax for its 70B parameters and
  the pipeline none for its own, so with the default rates any finished run of any pipeline and any experts that counts
  tokens, even one that wakes them all, saves more than 99.91 percent.\<close>

theorem notebook_savings_constant:
  assumes "run_pipeline p prompt kw w = (Inr r, w')" and "runnable_ok p"
    and "\<forall>e\<in>set (pl_experts (runnable_pipeline p)). counts_tokens (ex_backend e)"
    and "pl_cost (runnable_pipeline p) = cm" and "default_rates cm" and "per_1m_params_per_1k_tokens cm = 1 / 100000"
  shows "99.91 < snd (snd (snd (nb3_savings cm r))) \<and> snd (snd (snd (nb3_savings cm r))) \<le> 100"
proof -
  let ?m = "pr_metrics r" and ?ms = "pr_per_expert r"
  obtain names where fr: "final_report (runnable_pipeline p) names r" using runnable_report [OF assms(1)] by metis
  obtain i k where ik: "0 < i" "0 \<le> k" and t: "agg_total_tokens ?m = i + k"
    and c: "ag_cost_usd ?m = cost_for cm i k 0 False"
    using run_pipeline_cost [OF assms(1-3)] assms(4) by blast
  have c': "ag_cost_usd ?m = cost_for cm (ag_input_tokens ?m) (ag_output_tokens ?m) 0 False"
    using fr assms(4) by (simp add: final_report_def agg_counts_def)
  let ?T = "real_of_int (i + k)" and ?C = "ag_cost_usd ?m"
  have base: "cost_for cm (ag_input_tokens ?m) (ag_output_tokens ?m) 70000 True = ?C + 7 / 10000 * ?T"
    using tax_split [of cm "ag_input_tokens ?m" "ag_output_tokens ?m"] t assms(6)
    by (simp only: c' agg_total_tokens_def)
  have C: "?C = (real_of_int i * (15 / 100) + real_of_int k * (60 / 100)) / 1000000"
    by (simp only: c cost_for_no_tax assms(5) [unfolded default_rates_def, THEN conjunct1]
        assms(5) [unfolded default_rates_def, THEN conjunct2])
  have T: "0 < ?T" using ik by simp
  have C0: "0 \<le> ?C" using ik by (simp add: C)
  have "?C \<le> 6 / 10000000 * ?T" using ik by (simp add: C)
  then have C1: "?C \<le> 6 / 7000 * (7 / 10000 * ?T)" by simp
  have T1: "0 < 7 / 10000 * ?T" using T by (rule mult_pos_pos [rotated]) simp
  have "0 < ?C + 7 / 10000 * ?T" using C0 T1 by (rule add_nonneg_pos)
  then show ?thesis
    using saved_fraction [OF C0 C1 T1] by (simp only: nb3_savings_def Let_def base snd_conv if_True)
qed

definition rated_server :: "unit server" where
  "rated_server = unit_server\<lparr>sv_cost := \<lparr>input_per_1m = 15 / 100, output_per_1m = 60 / 100, per_1m_params_per_1k_tokens = 1 / 100000\<rparr>\<rparr>"

theorem notebook_savings_constant_witness:
  "\<exists>r w'. nb2_cascade rated_server (lit ''hi'') () = (Inr r, w') \<and>
     99.91 < snd (snd (snd (nb3_savings (sv_cost rated_server) r)))"
proof -
  let ?es = "nb2_experts rated_server" and ?pl = "base_pipeline rated_server (nb2_experts rated_server) trio 256"
  have bk: "\<forall>e\<in>set ?es. ex_backend e \<in> range (tag_backend False)"
    by (simp add: nb2_experts_def mk_expert_def rated_server_def unit_server_def)
  then have a: "\<forall>e\<in>set ?es. answering (ex_backend e)" and ct: "\<forall>e\<in>set ?es. counts_tokens (ex_backend e)"
    by (auto simp: counts_tokens_def)
  have tr: "set trio \<subseteq> ex_name ` set ?es" by (simp add: nb2_experts_def mk_expert_def trio_def del: lit_Cons)
  obtain r w' where r: "cascade_run ?pl (lit ''hi'') None () = (Inr r, w')" using nofail_runs(1) [OF a tr] by (rule nofailE)
  have "99.91 < snd (snd (snd (nb3_savings (sv_cost rated_server) r))) \<and> snd (snd (snd (nb3_savings (sv_cost rated_server) r))) \<le> 100"
  proof (rule notebook_savings_constant [where p = "Cascade ?pl"])
    show "run_pipeline (Cascade ?pl) (lit ''hi'') None () = (Inr r, w')" using r by (simp add: run_pipeline_def del: lit_Cons)
    show "runnable_ok (Cascade ?pl)" by (simp add: runnable_ok_def trio_def)
    show "\<forall>e\<in>set (pl_experts (runnable_pipeline (Cascade ?pl))). counts_tokens (ex_backend e)"
      using ct by (simp add: runnable_pipeline_def)
    show "pl_cost (runnable_pipeline (Cascade ?pl)) = sv_cost rated_server" by (simp add: runnable_pipeline_def)
    show "default_rates (sv_cost rated_server)" "per_1m_params_per_1k_tokens (sv_cost rated_server) = 1 / 100000"
      by (simp_all add: rated_server_def default_rates_def)
  qed
  moreover have "nb2_cascade rated_server (lit ''hi'') () = (Inr r, w')"
    by (simp add: nb2_cascade_def nb2_init bnd_apply r del: lit_Cons)
  ultimately show ?thesis by blast
qed

end
