(* ===== verification/Mock_Text.thy ===== *)
theory Mock_Text
  imports Backend_Mock Core_Expert
begin

text \<open>
  The texts on which the mock backend (\<open>chen/backends/mock.py\<close>) cannot fail: Unicode scalar values, so that \<open>encode("utf-8")\<close>
  succeeds, and short enough for the keys of its hash. The operations are total on them and give such texts again, with a
  bound on the length; the locale \<open>prose_backend\<close> is this contract, which the mock backend is shown to keep.
\<close>

section \<open>Texts\<close>

definition scalar :: "nat \<Rightarrow> bool" where
  "scalar c \<longleftrightarrow> utf8_char c \<noteq> None"

definition scalars :: "pystr \<Rightarrow> bool" where
  "scalars s \<longleftrightarrow> list_all scalar s"

lemma scalars_simps [simp]:
  "scalars []" "scalars (c # s) \<longleftrightarrow> scalar c \<and> scalars s" "scalars (s @ t) \<longleftrightarrow> scalars s \<and> scalars t"
  by (simp_all add: scalars_def)

lemma scalar_ascii [simp]: "c < 128 \<Longrightarrow> scalar c"
  by (simp add: scalar_def utf8_char_def)

lemma scalars_iff: "scalars s \<longleftrightarrow> (\<forall>c\<in>set s. scalar c)"
  by (simp add: scalars_def list_all_iff)

lemma scalars_subset: "set s \<subseteq> set t \<Longrightarrow> scalars t \<Longrightarrow> scalars s"
  by (auto simp: scalars_iff)

lemma scalars_ascii: "\<forall>c\<in>set s. c < 128 \<Longrightarrow> scalars s"
  by (simp add: scalars_iff)

lemma utf8_char_length: "utf8_char c = Some bs \<Longrightarrow> length bs \<le> 4"
  by (auto simp: utf8_char_def split: if_splits)

lemma scalars_encode: "scalars s \<Longrightarrow> \<exists>enc. utf8_encode s = Some enc \<and> length enc \<le> 4 * length s"
proof (induction s)
  case (Cons c s)
  then obtain bs enc where "utf8_char c = Some bs" "utf8_encode s = Some enc" "length enc \<le> 4 * length s"
    by (auto simp: scalar_def)
  with utf8_char_length [of c bs] show ?case by simp
qed simp

text \<open>Texts of at most \<open>n\<close> characters.\<close>

definition prose :: "nat \<Rightarrow> pystr \<Rightarrow> bool" where
  "prose n s \<longleftrightarrow> scalars s \<and> length s \<le> n"

named_theorems prose_intros \<open>texts built from texts\<close>

lemma prose_append [prose_intros]: "prose a s \<Longrightarrow> prose b t \<Longrightarrow> prose (a + b) (s @ t)"
  by (simp add: prose_def)

lemma prose_mono: "prose a s \<Longrightarrow> a \<le> b \<Longrightarrow> prose b s"
  by (simp add: prose_def)

lemma prose_Nil [prose_intros]: "prose 0 []"
  by (simp add: prose_def)

lemma prose_nl [prose_intros]: "prose 1 nl"
  by (simp add: prose_def)

lemma prose_take [prose_intros]: "prose a s \<Longrightarrow> prose 80 (py_take 80 s)"
  using set_py_take_subset [of 80 s] by (auto simp: prose_def py_take_def intro: scalars_subset)

section \<open>Formatting\<close>

lemma length_digits10: "length (digits10 n) \<le> n + 1"
proof (induction n rule: digits10.induct)
  case (1 n)
  show ?case
  proof (cases "n < 10")
    case False
    then have "length (digits10 n) \<le> n div 10 + 2"
      using 1 by (subst digits10.simps) simp
    then show ?thesis using False by linarith
  qed (simp add: digits10.simps [of n])
qed

lemma scalars_digits10 [simp]: "scalars (digits10 n)"
  by (rule scalars_ascii) (use digits10_digit in fastforce)

lemma prose_int [prose_intros]: "0 \<le> k \<Longrightarrow> prose (nat k + 1) (py_str_int k)"
  using length_digits10 [of "nat k"] by (simp add: prose_def py_str_int_def)

lemma hex_digit_lt: "n < 16 \<Longrightarrow> hex_digit n < 128"
  by (simp add: hex_digit_def)

lemma prose_hex_pad: "prose k (hex_pad k n)"
  by (induction k arbitrary: n) (simp_all add: prose_def hex_digit_lt)

lemma prose_hex [prose_intros]: "prose (2 * length bs) (hex_of_bytes bs)"
proof (induction bs)
  case (Cons b bs)
  then show ?case using prose_hex_pad [of 2 "unat b"] by (simp add: prose_def hex_of_bytes_def)
qed (simp add: prose_def hex_of_bytes_def)

lemma prose_repr_char: "scalar c \<Longrightarrow> q < 128 \<Longrightarrow> prose 10 (repr_char u q c)"
  using prose_hex_pad [of 2 c] prose_hex_pad [of 4 c] prose_hex_pad [of 8 c]
  by (simp add: prose_def repr_char_def)

lemma prose_concat: "(\<And>x. x \<in> set xs \<Longrightarrow> prose k x) \<Longrightarrow> prose (length xs * k) (concat xs)"
proof (induction xs)
  case (Cons x xs)
  have "prose k x" "prose (length xs * k) (concat xs)" using Cons by simp_all
  then have "prose (k + length xs * k) (x @ concat xs)" by (rule prose_append)
  then show ?case by simp
qed (simp add: prose_def)

lemma prose_repr [prose_intros]:
  assumes "prose n s"
  shows "prose (10 * n + 2) (py_repr u s)"
proof -
  define q :: nat where "q = (if 39 \<in> set s \<and> 34 \<notin> set s then 34 else 39)"
  have "prose 10 (repr_char u q c)" if "c \<in> set s" for c
    using that assms by (intro prose_repr_char) (auto simp: prose_def scalars_iff q_def)
  then have "\<And>x. x \<in> set (map (repr_char u q) s) \<Longrightarrow> prose 10 x" by auto
  then have "prose (length s * 10) (concat (map (repr_char u q) s))" using prose_concat [of "map (repr_char u q) s" 10] by simp
  with assms show ?thesis by (simp add: prose_def py_repr_def Let_def q_def [symmetric]) (simp add: q_def)
qed

lemma prose_fixed4 [prose_intros]:
  assumes "0 \<le> x" and "x < 1"
  shows "prose 7 (py_fixed4 x)"
proof -
  let ?n = "nat \<lfloor>x * 10000 + 1 / 2\<rfloor>"
  have "\<lfloor>x * 10000 + 1 / 2\<rfloor> \<le> 10000" using assms by (simp add: floor_le_iff)
  then have "?n \<le> 10000" by linarith
  then have "?n div 10000 \<le> 1" using div_le_mono [of ?n 10000 10000] by simp
  then have l: "length (digits10 (?n div 10000)) \<le> 2" using length_digits10 [of "?n div 10000"] by linarith
  have d: "48 + ?n div k mod 10 < 128" for k using mod_less_divisor [of 10 "?n div k"] by linarith
  show ?thesis using l d [of 1000] d [of 100] d [of 10] d [of 1] by (simp add: prose_def py_fixed4_def Let_def)
qed

lemma prose_strip [prose_intros]: "prose n s \<Longrightarrow> prose n (py_strip s)"
proof -
  assume p: "prose n s"
  have "set (py_strip s) \<subseteq> set s" by (auto simp: py_strip_def dest!: set_dropWhileD)
  moreover have "length (py_strip s) \<le> length s"
    using length_dropWhile_le [of py_isspace "rev (dropWhile py_isspace s)"] length_dropWhile_le [of py_isspace s]
    by (simp add: py_strip_def)
  ultimately show ?thesis using p scalars_subset by (auto simp: prose_def)
qed

lemma prose_replace1 [prose_intros]: "prose n s \<Longrightarrow> b < 128 \<Longrightarrow> prose n (py_replace1 a b s)"
  by (auto simp: prose_def scalars_iff py_replace1_def)

lemma prose_join:
  assumes "\<And>x. x \<in> set xs \<Longrightarrow> prose k x"
  shows "prose (length xs * (k + 1)) (py_join nl xs)"
  using assms
proof (induction xs rule: induct_list012)
  case (3 x y xs)
  have "prose k x" "prose (length (y # xs) * (k + 1)) (py_join nl (y # xs))" using 3 by auto
  then show ?case by (auto simp: prose_def)
qed (auto simp: prose_def)

section \<open>The operations of the mock backend\<close>

text \<open>\<open>MockBackend(params_m=..., role_hint=...)\<close>, the other fields left at their defaults.\<close>

definition mock_of :: "int \<Rightarrow> pystr \<Rightarrow> mock_config" where
  "mock_of p hint = mock_post_init (default_mock\<lparr>m_params_m := p, m_role_hint := hint\<rparr>)"

definition fair_mock :: "mock_config \<Rightarrow> bool" where
  "fair_mock m \<longleftrightarrow> 0 \<le> m_params_m m \<and> m_params_m m \<le> 100000 \<and> prose 100 (m_role_hint m) \<and> prose 300 (m_model_id m) \<and>
     m_n_layers m = 4 \<and> m_n_heads m = 8 \<and> m_head_dim m = 64 \<and> m_seed m = 42"

text \<open>A hash of \<open>digest_size\<close> bytes, as \<open>hashlib\<close> documents.\<close>

definition blake_sized :: "blake \<Rightarrow> bool" where
  "blake_sized blake \<longleftrightarrow> (\<forall>data key n. length (blake data key n) = n)"

lemma prose_params:
  assumes "0 \<le> p" and "p \<le> 100000"
  shows "prose 101 (py_str_int (p div 1000))"
proof -
  have "prose (nat (p div 1000) + 1) (py_str_int (p div 1000))" using assms by (intro prose_int) simp
  moreover have "nat (p div 1000) \<le> 100" using assms by simp
  ultimately show ?thesis by (elim prose_mono) linarith
qed

lemma fair_mock_of:
  assumes "0 \<le> p" and "p \<le> 100000" and "prose 100 hint"
  shows "fair_mock (mock_of p hint)"
  using assms prose_params [OF assms(1,2)]
  by (auto simp: fair_mock_def mock_of_def mock_post_init_def default_mock_def prose_def)

lemma embeddable:
  assumes "prose L s" and "L \<le> 2 ^ 58" and "0 < d" and "0 \<le> seed" and "seed \<le> 2 ^ 20"
  shows "\<exists>xs. hash_to_embedding blake s d seed = Inr xs"
proof -
  obtain enc where enc: "utf8_encode s = Some enc" "length enc \<le> 4 * length s"
    using scalars_encode assms(1) by (auto simp: prose_def)
  have "length enc \<le> 4 * 2 ^ 58" using enc(2) assms(1,2) by (simp add: prose_def)
  then have "n_chunks (length enc) - 1 \<le> 2 ^ 57" by (simp add: n_chunks_def)
  then have "seed + 8 * int (n_chunks (length enc) - 1) < 2 ^ 64" using assms(5) by simp
  with enc assms(3,4) show ?thesis by (auto simp: hash_to_embedding_def Let_def)
qed

lemma prose_step_line:
  assumes "i < 50" and "0 \<le> x" and "x < 1"
  shows "prose 140 (lit ''  step '' @ py_str_int (int i + 1) @ lit '': latent['' @ py_str_int (int i) @ lit ''] = '' @ py_fixed4 x)"
proof -
  have "prose 52 (py_str_int (int i + 1))" "prose 51 (py_str_int (int i))"
    using prose_int [of "int i + 1"] prose_int [of "int i"] assms(1) by (simp_all add: prose_def nat_add_distrib)
  with prose_fixed4 [OF assms(2,3)] show ?thesis by (simp add: prose_def)
qed

lemma prose_steps:
  assumes "n \<le> 50" and "length emb = 32" and "\<forall>x\<in>set emb. 0 \<le> x \<and> x < 1"
  shows "prose 7050 (mock_steps n emb)"
proof -
  let ?f = "\<lambda>i. lit ''  step '' @ py_str_int (int i + 1) @ lit '': latent['' @ py_str_int (int i) @ lit ''] = '' @
      py_fixed4 (emb ! (i mod 32))"
  have "prose 140 (?f i)" if "i < nat n" for i
  proof -
    have "emb ! (i mod 32) \<in> set emb" using assms(2) by simp
    then show ?thesis using that assms(1,3) by (intro prose_step_line) auto
  qed
  then have "prose (length (map ?f [0..<nat n]) * (140 + 1)) (py_join nl (map ?f [0..<nat n]))"
    by (intro prose_join) auto
  then show ?thesis unfolding mock_steps_def using assms(1) by (elim prose_mono) simp
qed

lemma prose_header: "fair_mock m \<Longrightarrow> prose 210 (mock_header m) \<and> mock_header m \<noteq> []"
  using prose_params [of "m_params_m m"] by (simp add: fair_mock_def mock_header_def prose_def)

lemma mock_generate_prose:
  assumes "fair_mock m" and "blake_sized blake" and "prose L p" and "L \<le> 2 ^ 58"
  shows "\<exists>t. mock_generate u blake m p mt s = (Inr t, s) \<and> prose 65536 t \<and> t \<noteq> []"
proof -
  have f: "0 \<le> m_params_m m" "m_params_m m \<le> 100000" "prose 300 (m_model_id m)" "m_seed m = 42"
    using assms(1) by (simp_all add: fair_mock_def)
  obtain emb where emb: "hash_to_embedding blake p 32 42 = Inr emb" using embeddable [OF assms(3,4), of 32 42 blake] by auto
  obtain enc where enc: "utf8_encode p = Some enc" using scalars_encode assms(3) by (auto simp: prose_def)
  let ?n = "max 1 (m_params_m m div 2000)" and ?sn = "py_take 80 (py_replace1 10 32 (py_strip p))"
  have n: "?n \<le> 50" "0 \<le> ?n" using f(2) by auto
  have st: "prose 7050 (mock_steps ?n emb)"
    using hash_to_embedding_Inr [OF emb] by (intro prose_steps n) auto
  have hx: "prose 8 (hex_of_bytes (blake enc [] 4))"
    using prose_hex [of "blake enc [] 4"] assms(2) by (simp add: blake_sized_def)
  have "prose L (py_replace1 10 32 (py_strip p))" by (intro prose_intros assms(3)) simp
  then have "prose 80 ?sn" by (rule prose_take)
  then have sn: "prose (10 * 80 + 2) (py_repr u ?sn)" by (rule prose_repr)
  have ni: "prose 51 (py_str_int ?n)" using prose_int [OF n(2)] n(1) by (elim prose_mono) linarith
  show ?thesis
    using prose_header [OF assms(1)] st hx sn ni f(3)
    by (simp add: mock_generate_def f(4) emb enc Let_def ret_def prose_def)
qed

text \<open>A cache made by a mock backend of the default shape from a text of at most \<open>n\<close> characters.\<close>

definition prose_cache :: "nat \<Rightarrow> kv_cache \<Rightarrow> bool" where
  "prose_cache n c \<longleftrightarrow> prose n (source_text c) \<and> prose 300 (source_model c) \<and> seq_len c \<le> n + 1 \<and>
     source_layer_count c = 4 \<and> source_n_heads c = 8 \<and> source_hidden_size c = 512"

lemma mock_decode_prose:
  assumes "fair_mock m" and "prose_cache L c" and "65536 \<le> L"
  shows "\<exists>t. mock_decode u m c mt s = (Inr t, s) \<and> prose (2 * L) t \<and> t \<noteq> []"
proof -
  have c: "prose L (source_text c)" "prose 300 (source_model c)" "seq_len c \<le> L + 1" "source_layer_count c = 4"
    and m: "prose 300 (m_model_id m)"
    using assms(1,2) by (simp_all add: prose_cache_def fair_mock_def)
  have sl: "prose (L + 2) (py_str_int (int (seq_len c)))"
    using prose_mono [OF prose_int [of "int (seq_len c)"], of "L + 2"] c(3) by simp
  have "prose (10 * 80 + 2) (py_repr u (py_take 80 (source_text c)))" by (rule prose_repr [OF prose_take [OF c(1)]])
  with prose_header [OF assms(1)] sl c m assms(3) prose_int [of 4] show ?thesis
    by (simp add: mock_decode_def Let_def ret_def prose_def)
qed

lemma mock_encode_prose:
  assumes "fair_mock m" and "prose L p" and "L \<le> 2 ^ 57" and "65536 \<le> L"
  shows "\<exists>c. mock_encode blake m p s = (Inr c, AList.update p c s) \<and> prose_cache L c"
proof -
  have m: "m_n_layers m = 4" "m_n_heads m = 8" "m_head_dim m = 64" "m_seed m = 42" "prose 300 (m_model_id m)"
    using assms(1) by (simp_all add: fair_mock_def)
  have layer: "\<exists>enc. utf8_encode (mock_layer_text p l kind) = Some enc \<and>
      42 + int l + 1000 + 8 * int (n_chunks (length enc) - 1) < 2 ^ 64"
    if "l < 4" and "kind \<in> {lit ''key'', lit ''val''}" for l kind
  proof -
    have "prose (L + 100) (mock_layer_text p l kind)"
      using that prose_int [of "int l"] assms(2) by (auto simp: mock_layer_text_def prose_def)
    then obtain enc where enc: "utf8_encode (mock_layer_text p l kind) = Some enc"
        "length enc \<le> 4 * length (mock_layer_text p l kind)" "length (mock_layer_text p l kind) \<le> L + 100"
      using scalars_encode by (auto simp: prose_def)
    have "length enc \<le> 2 ^ 60" using enc(2,3) assms(3) by simp
    then have "n_chunks (length enc) - 1 \<le> 2 ^ 58" by (simp add: n_chunks_def)
    then have "42 + int l + 1000 + 8 * int (n_chunks (length enc) - 1) < 2 ^ 64" using that(1) by simp
    with enc(1) show ?thesis by blast
  qed
  obtain enc where enc: "utf8_encode p = Some enc" using scalars_encode assms(2) by (auto simp: prose_def)
  have "mock_ok m p"
    unfolding mock_ok_def m using layer enc by simp
  then obtain c where c: "mock_encode blake m p s = (Inr c, AList.update p c s)" using mock_encode_total by blast
  note e = mock_encode_Inr [OF c]
  have k: "length (kv_keys c) = 4" using e m by simp
  then obtain t ts where kv: "kv_keys c = t # ts" by (cases "kv_keys c") auto
  have "mock_tensor_ok m (mock_seq_len p) t" using e kv by simp
  then have "seq_len c = mock_seq_len p" by (simp add: seq_len_def kv mock_tensor_ok_def)
  moreover have "length p div 4 \<le> L" using assms(2) div_le_dividend [of "length p" 4] unfolding prose_def by linarith
  ultimately have "seq_len c \<le> L + 1" by (simp add: mock_seq_len_def)
  with e c k m assms(2) show ?thesis by (simp add: prose_cache_def kv_wf_def)
qed

end
