(* ===== verification/Mock_Runs.thy ===== *)
theory Mock_Runs
  imports Mock_Text Run_Metrics
begin

text \<open>
  Runs on the mock backend, the default of the package: whole pipelines (\<open>chen/phases\<close>) over experts whose backends keep the
  contract \<open>prose_backend\<close> return for every Unicode prompt that is not absurdly long, with some text as the output; the
  KV-pass pipeline hands over at least one cache.
\<close>

section \<open>Actions that give a result with a property\<close>

definition gives :: "('a \<Rightarrow> bool) \<Rightarrow> ('w, 'e, 'a) act \<Rightarrow> bool" where
  "gives P m \<longleftrightarrow> (\<forall>w. \<exists>x w'. m w = (Inr x, w') \<and> P x)"

lemma givesE:
  assumes "gives P m"
  obtains x w' where "m w = (Inr x, w')" and "P x"
  using assms unfolding gives_def by blast

lemma gives_ret: "P x \<Longrightarrow> gives P (ret x)"
  by (simp add: gives_def)

lemma gives_Pair [simp]: "gives P (Pair (Inr x)) \<longleftrightarrow> P x"
  by (simp add: gives_def)

lemma gives_nofail: "gives P m \<Longrightarrow> nofail m"
  unfolding gives_def nofail_def by blast

lemma nofail_gives: "nofail m \<longleftrightarrow> gives (\<lambda>_. True) m"
  by (simp add: gives_def nofail_def)

lemma gives_mono: "gives P m \<Longrightarrow> (\<And>x. P x \<Longrightarrow> Q x) \<Longrightarrow> gives Q m"
  unfolding gives_def by blast

lemma gives_bnd:
  assumes "gives P m" and "\<And>x. P x \<Longrightarrow> gives Q (f x)"
  shows "gives Q (bnd m f)"
  unfolding gives_def
proof
  fix w
  obtain x w1 where x: "m w = (Inr x, w1)" "P x" using assms(1) by (rule givesE)
  obtain y w2 where "f x w1 = (Inr y, w2)" "Q y" using assms(2) [OF x(2)] by (rule givesE)
  with x(1) show "\<exists>x w'. bnd m f w = (Inr x, w') \<and> Q x" by (simp add: bnd_apply)
qed

lemma gives_any: "nofail m \<Longrightarrow> (\<And>x. gives Q (f x)) \<Longrightarrow> gives Q (bnd m f)"
  unfolding nofail_gives by (rule gives_bnd) simp_all

lemma gives_try: "gives P m \<Longrightarrow> gives P (try_except m h)"
  unfolding gives_def try_except_def by (metis (no_types, lifting) old.sum.simps(6) prod.case)

section \<open>The contract of the mock backend\<close>

text \<open>The postcondition of an invocation that started from a text or a cache of size \<open>n\<close>.\<close>

definition invoked_prose :: "nat \<Rightarrow> bool \<Rightarrow> pystr \<times> kv_cache option \<times> expert_metrics \<Rightarrow> bool" where
  "invoked_prose n cached r \<longleftrightarrow>
     (case r of (out, oc, m) \<Rightarrow> prose (2 * n) out \<and> out \<noteq> [] \<and> (\<exists>c. oc = Some c \<and> prose_cache (4 * n) c) \<and>
        em_transfer_ok m \<and> em_used_kv m = cached)"

locale prose_backend =
  fixes b :: "'w backend"
  assumes latent: "supports_kv_cache (bk_capabilities b)"
    and generates: "prose n p \<Longrightarrow> n \<le> 2 ^ 57 \<Longrightarrow> gives (\<lambda>t. prose 65536 t \<and> t \<noteq> []) (bk_generate b p mt)"
    and encodes: "prose n p \<Longrightarrow> 65536 \<le> n \<Longrightarrow> n \<le> 2 ^ 57 \<Longrightarrow> gives (prose_cache n) (bk_encode b p)"
    and transfers: "prose_cache n c \<Longrightarrow> gives (prose_cache n) (bk_transfer_cache b c)"
    and decodes: "prose_cache n c \<Longrightarrow> 65536 \<le> n \<Longrightarrow> gives (\<lambda>t. prose (2 * n) t \<and> t \<noteq> []) (bk_decode b c mt)"
begin

lemma expert_latent: "ex_backend e = b \<Longrightarrow> ex_supports_kv e"
  using latent by (simp add: ex_supports_kv_def)

lemma transfer_none: "gives (\<lambda>(tc, used, ok, _). tc = None \<and> \<not> used \<and> ok) (transfer_in ck b None)"
  by (simp add: transfer_in_def gives_ret)

lemma transfer_some:
  assumes "prose_cache n c"
  shows "gives (\<lambda>(tc, used, ok, _). (\<exists>c'. tc = Some c' \<and> prose_cache n c') \<and> used \<and> ok) (transfer_in ck b (Some c))"
proof -
  have "gives (\<lambda>(tc, used, ok). (\<exists>c'. tc = Some c' \<and> prose_cache n c') \<and> used \<and> ok)
      (try_except (bnd (bk_transfer_cache b c) (\<lambda>c'. ret (Some c', True, True))) (\<lambda>_. ret (None, False, False)))"
    by (intro gives_try gives_bnd [OF transfers [OF assms]] gives_ret) simp
  then show ?thesis
    unfolding transfer_in_def option.case
    by (intro gives_any [OF nofail_tick] gives_bnd [where P = "\<lambda>(tc, used, ok). (\<exists>c'. tc = Some c' \<and> prose_cache n c') \<and> used \<and> ok"])
      (auto intro!: gives_any [OF nofail_tick] gives_ret)
qed

lemma output_cached:
  assumes "ex_backend e = b" and "prose n p" and "prose (2 * n) out" and "65536 \<le> n" and "4 * n \<le> 2 ^ 57"
  shows "gives (\<lambda>oc. \<exists>c. oc = Some c \<and> prose_cache (4 * n) c) (output_cache e p out)"
proof -
  have "prose (4 * n) (p @ nl @ out)" using assms(2-4) by (simp add: prose_def)
  then have "gives (prose_cache (4 * n)) (bk_encode b (p @ nl @ out))" using assms(4,5) by (intro encodes) linarith+
  then have "gives (\<lambda>oc. \<exists>c. oc = Some c \<and> prose_cache (4 * n) c) (bnd (bk_encode b (p @ nl @ out)) (\<lambda>c. ret (Some c)))"
    by (rule gives_bnd) (simp add: gives_ret)
  then show ?thesis using expert_latent [OF assms(1)] by (simp add: output_cache_def assms(1) gives_try)
qed

lemma tail_prose:
  assumes "ex_backend e = b" and "prose n p" and "65536 \<le> n" and "4 * n \<le> 2 ^ 57"
    and "if used then \<exists>c. tc = Some c \<and> prose_cache n c else tc = None"
  shows "gives (invoked_prose n used) (invoke_tail ck e p mt (tc, used, True, ms))"
proof -
  have "gives (\<lambda>t. prose (2 * n) t \<and> t \<noteq> [])
      (case tc of Some c \<Rightarrow> if used then bk_decode b c mt else bk_generate b p mt | None \<Rightarrow> bk_generate b p mt)"
  proof (cases used)
    case True
    then show ?thesis using assms(5) decodes assms(3) by auto
  next
    case False
    have "gives (\<lambda>t. prose 65536 t \<and> t \<noteq> []) (bk_generate b p mt)" using generates [OF assms(2)] assms(4) by simp
    then have "gives (\<lambda>t. prose (2 * n) t \<and> t \<noteq> []) (bk_generate b p mt)"
      using assms(3) by (elim gives_mono) (auto elim: prose_mono)
    with False assms(5) show ?thesis by simp
  qed
  then show ?thesis
    unfolding invoke_tail_def Let_def prod.case assms(1)
    by (intro gives_any [OF nofail_tick] gives_bnd [where P = "\<lambda>t. prose (2 * n) t \<and> t \<noteq> []"])
      (auto intro!: gives_any [OF nofail_tick] gives_any [OF nofail_count_both] gives_ret
        gives_bnd [OF output_cached [OF assms(1,2) _ assms(3,4)]] simp: invoked_prose_def)
qed

lemma invoke_text:
  assumes "ex_backend e = b" and "prose n p" and "65536 \<le> n" and "4 * n \<le> 2 ^ 57"
  shows "gives (invoked_prose n False) (expert_invoke ck e (Some p) None mt)"
  unfolding expert_invoke_def Let_def option.case prod.case assms(1)
  by simp (rule gives_bnd [OF transfer_none], auto intro!: tail_prose assms)

lemma invoke_cache:
  assumes "ex_backend e = b" and "prose_cache n c" and "65536 \<le> n" and "4 * n \<le> 2 ^ 57"
  shows "gives (invoked_prose n True) (expert_invoke ck e p0 (Some c) mt)"
proof -
  have "prose n (source_text c)" using assms(2) by (simp add: prose_cache_def)
  then show ?thesis
    unfolding expert_invoke_def Let_def option.case assms(1) using expert_latent [OF assms(1)]
    by simp (rule gives_bnd [OF transfer_some [OF assms(2)]], auto intro!: tail_prose assms)
qed

end

section \<open>Pipelines over such backends\<close>

text \<open>The texts and the cache a step leaves for the next one.\<close>

definition carries :: "nat \<Rightarrow> run_state \<Rightarrow> bool" where
  "carries n s \<longleftrightarrow> prose n (rs_text s) \<and> (\<forall>c. rs_cache s = Some c \<longrightarrow> prose_cache n c)"

definition stepped :: "nat \<Rightarrow> run_state \<Rightarrow> run_state \<Rightarrow> bool" where
  "stepped n s s' \<longleftrightarrow> carries n s' \<and> rs_text s' \<noteq> [] \<and> (\<exists>m. rs_per_expert s' = rs_per_expert s @ [m])"

lemma prose_cache_mono: "prose_cache a c \<Longrightarrow> a \<le> b \<Longrightarrow> prose_cache b c"
  by (auto simp: prose_cache_def elim: prose_mono)

lemma carries_mono: "carries a s \<Longrightarrow> a \<le> b \<Longrightarrow> carries b s"
  by (auto simp: carries_def elim: prose_mono prose_cache_mono)

definition prose_experts :: "'w pipeline \<Rightarrow> bool" where
  "prose_experts pl \<longleftrightarrow> no_memory_use pl \<and> pl_fallback pl \<and> (\<forall>e\<in>set (pl_experts pl). prose_backend (ex_backend e))"

lemma prose_expertsD:
  assumes "prose_experts pl"
  shows "\<not> pl_write_memory pl" and "pl_retrieve_k pl = 0" and "e \<in> set (pl_experts pl) \<Longrightarrow> prose_backend (ex_backend e)"
  using assms by (simp_all add: prose_experts_def no_memory_use_def)

lemma prose_double: "prose (2 * n) t \<Longrightarrow> prose (4 * n) t"
  by (erule prose_mono) simp

lemma invoke_expert_prose:
  assumes "prose_backend (ex_backend e)" and "prose n p" and "65536 \<le> n" and "4 * n \<le> 2 ^ 57"
  shows "gives (invoked_prose n False) (invoke_expert pl e p mt 0)"
  using prose_backend.invoke_text [OF assms(1) refl assms(2-4)] by (simp add: invoke_expert_def)

lemma cascade_step_prose:
  assumes "prose_experts pl" and "x \<in> ex_name ` set (pl_experts pl)" and "carries n s"
    and "65536 \<le> n" and "4 * n \<le> 2 ^ 57"
  shows "gives (stepped (4 * n) s) (cascade_step pl x l s)"
proof -
  note pl = prose_expertsD [OF assms(1)]
  obtain e where e: "get_expert (pl_experts pl) x = Inr e" "e \<in> set (pl_experts pl)" using assms(2) by (rule nofail_get_expert)
  have l: "lift_err (get_expert (pl_experts pl) x) = ret e" by (rule ext) (simp add: e)
  have t: "prose n (rs_text s)" and c: "rs_cache s = Some c \<Longrightarrow> prose_cache (4 * n) c" for c
    using assms(3) by (auto simp: carries_def elim: prose_cache_mono)
  show ?thesis
    unfolding cascade_step_def l bnd_ret pl(2)
    by (rule gives_bnd [OF invoke_expert_prose [OF pl(3) [OF e(2)] t assms(4,5)]])
      (auto simp: invoked_prose_def remember_step_def pl(1) Let_def stepped_def carries_def c intro: prose_double)
qed

lemma kv_finish_prose:
  assumes "prose_experts pl" and "invoked_prose n u r"
  shows "gives (\<lambda>s'. stepped (4 * n) s s' \<and> (\<exists>m. rs_per_expert s' = rs_per_expert s @ [m] \<and> em_used_kv m = u) \<and>
      rs_cache s' \<noteq> None \<and> rs_text_mode s' = tm) (kv_finish_step pl e l s r cache tm rd)"
  using assms(2) prose_expertsD(1) [OF assms(1)]
  by (auto simp: kv_finish_step_def remember_step_def invoked_prose_def Let_def stepped_def carries_def intro: prose_double)

lemma kv_first_prose:
  assumes "prose_experts pl" and "prose_backend (ex_backend e)" and "prose n p" and "65536 \<le> n" and "4 * n \<le> 2 ^ 57"
  shows "gives (\<lambda>(r, _, tm, _). invoked_prose n True r \<and> \<not> tm) (kv_first pl e p mt)"
proof -
  note pb = prose_backend.expert_latent [OF assms(2) refl]
  have enc: "gives (prose_cache n) (bk_encode (ex_backend e) p)"
    using prose_backend.encodes [OF assms(2,3,4)] assms(5) by simp
  have "gives (\<lambda>(cache, tm). \<exists>c. cache = Some c \<and> prose_cache n c \<and> \<not> tm)
      (try_except (bnd (bk_encode (ex_backend e) p) (\<lambda>c. ret (Some c, False))) (\<lambda>_. ret (None, True)))"
    by (intro gives_try gives_bnd [OF enc] gives_ret) simp
  then show ?thesis
    unfolding kv_first_def using pb prose_expertsD(2) [OF assms(1)]
    by (auto intro!: gives_ret gives_bnd [OF prose_backend.invoke_cache [OF assms(2) refl _ assms(4,5)]]
        gives_bnd [where P = "\<lambda>(cache, tm). \<exists>c. cache = Some c \<and> prose_cache n c \<and> \<not> tm"])
qed

lemma kv_later_prose:
  assumes "prose_experts pl" and "prose_backend (ex_backend e)" and "carries n s" and "65536 \<le> n" and "4 * n \<le> 2 ^ 57"
  shows "gives (\<lambda>(r, _). \<exists>u. invoked_prose n u r) (kv_later pl e mt (rs_cache s) (rs_text s) tm)"
proof (cases "tm \<or> rs_cache s = None")
  case True
  have "prose n (rs_text s)" using assms(3) by (simp add: carries_def)
  then have "gives (invoked_prose n False) (invoke_expert pl e (rs_text s) mt 0)" by (rule invoke_expert_prose [OF assms(2) _ assms(4,5)])
  with True show ?thesis unfolding kv_later_def by (auto intro!: gives_bnd gives_ret)
next
  case False
  then obtain c where c: "rs_cache s = Some c" "prose_cache n c" using assms(3) by (auto simp: carries_def)
  show ?thesis
    using False unfolding kv_later_def c(1)
    by (auto intro!: gives_ret gives_bnd [OF prose_backend.invoke_cache [OF assms(2) refl c(2) assms(4,5)]] simp: invoked_prose_def ex_bool_eq)
qed

lemma kv_later_latent:
  assumes "prose_experts pl" and "prose_backend (ex_backend e)" and "carries n s" and "65536 \<le> n" and "4 * n \<le> 2 ^ 57"
    and "rs_cache s \<noteq> None"
  shows "gives (\<lambda>(r, tm). invoked_prose n True r \<and> \<not> tm) (kv_later pl e mt (rs_cache s) (rs_text s) False)"
proof -
  obtain c where c: "rs_cache s = Some c" "prose_cache n c" using assms(3,6) by (auto simp: carries_def)
  show ?thesis
    unfolding kv_later_def c(1)
    by (auto intro!: gives_ret gives_bnd [OF prose_backend.invoke_cache [OF assms(2) refl c(2) assms(4,5)]] simp: invoked_prose_def)
qed

lemma routing_first_prose:
  assumes "prose_experts pl" and "prose_backend (ex_backend e)" and "prose n p" and "65536 \<le> n" and "4 * n \<le> 2 ^ 57"
  shows "gives (\<lambda>(r, _). \<exists>u. invoked_prose n u r) (routing_first pl e p mt tm)"
proof -
  have kv: "ex_supports_kv e" by (rule prose_backend.expert_latent [OF assms(2) refl])
  have enc: "gives (prose_cache n) (bk_encode (ex_backend e) p)"
    using prose_backend.encodes [OF assms(2,3,4)] assms(5) by simp
  have plain: "gives (\<lambda>(r, _). \<exists>u. invoked_prose n u r)
      (bnd (invoke_expert pl e p mt (pl_retrieve_k pl)) (\<lambda>r. ret (r, None, True, rd)))" for rd
    unfolding prose_expertsD(2) [OF assms(1)]
    by (rule gives_bnd [OF invoke_expert_prose [OF assms(2-5)]]) (auto intro!: gives_ret)
  have cached: "gives (\<lambda>(r, _). \<exists>u. invoked_prose n u r)
      (bnd (bk_encode (ex_backend e) p) (\<lambda>c. bnd (expert_invoke (pl_clocks pl) e None (Some c) mt) (\<lambda>r. ret (r, Some c, False, rd))))" for rd
    by (intro gives_bnd [OF enc] gives_bnd [OF prose_backend.invoke_cache [OF assms(2) refl _ assms(4,5)]] gives_ret) auto
  show ?thesis
    unfolding routing_first_def Let_def prose_expertsD(2) [OF assms(1)]
    by (simp add: augment_def kv)
      (intro conjI impI plain [unfolded prose_expertsD(2) [OF assms(1)]] gives_try cached)
qed

section \<open>Loops and runs\<close>

lemma known_expert:
  fixes pl :: "'w pipeline"
  assumes "prose_experts pl" and "x \<in> ex_name ` set (pl_experts pl)"
  obtains e where "lift_err (get_expert (pl_experts pl) x) = (ret e :: ('w, py_exc, 'w expert) act)" and "prose_backend (ex_backend e)"
proof -
  obtain e where e: "get_expert (pl_experts pl) x = Inr e" "e \<in> set (pl_experts pl)" using assms(2) by (rule nofail_get_expert)
  have "lift_err (get_expert (pl_experts pl) x) = (ret e :: ('w, py_exc, 'w expert) act)" by (rule ext) (simp add: e)
  with prose_expertsD(3) [OF assms(1) e(2)] show ?thesis by (rule that [rotated])
qed

text \<open>A step of the KV-pass between backends of this kind stays latent: a cache comes in, is used, and a cache goes out.\<close>

definition latent_state :: "nat \<Rightarrow> run_state \<Rightarrow> bool" where
  "latent_state n s \<longleftrightarrow> carries n s \<and> rs_cache s \<noteq> None \<and> \<not> rs_text_mode s"

lemma kv_step_latent:
  fixes pl :: "'w pipeline"
  assumes "prose_experts pl" and "x \<in> ex_name ` set (pl_experts pl)"
    and "if is_first then prose n p else latent_state n s" and "65536 \<le> n" and "4 * n \<le> 2 ^ 57"
  shows "gives (\<lambda>s'. latent_state (4 * n) s' \<and> rs_text s' \<noteq> [] \<and> (\<exists>m. rs_per_expert s' = rs_per_expert s @ [m] \<and> em_used_kv m))
    (kv_step pl p is_first x l s)"
proof -
  obtain e where l: "lift_err (get_expert (pl_experts pl) x) = (ret e :: ('w, py_exc, 'w expert) act)" and b: "prose_backend (ex_backend e)"
    using known_expert [OF assms(1,2)] .
  have fin: "gives (\<lambda>s'. latent_state (4 * n) s' \<and> rs_text s' \<noteq> [] \<and> (\<exists>m. rs_per_expert s' = rs_per_expert s @ [m] \<and> em_used_kv m))
      (kv_finish_step pl e l s r cache False rd)" if "invoked_prose n True r" for r cache rd
    by (rule gives_mono [OF kv_finish_prose [OF assms(1) that]]) (auto simp: latent_state_def stepped_def)
  show ?thesis
  proof (cases is_first)
    case True
    have "prose n p" using assms(3) True by simp
    note first = kv_first_prose [OF assms(1) b this assms(4,5)]
    show ?thesis
      unfolding kv_step_def l bnd_ret using True by simp (rule gives_bnd [OF first], auto intro: fin)
  next
    case False
    then have s: "carries n s" "rs_cache s \<noteq> None" "rs_text_mode s = False" using assms(3) by (simp_all add: latent_state_def)
    note later = kv_later_latent [OF assms(1) b s(1) assms(4,5) s(2)]
    show ?thesis
      unfolding kv_step_def l bnd_ret s(3) using False by simp (rule gives_bnd [OF later], auto intro: fin)
  qed
qed

lemma routing_step_prose:
  fixes pl :: "'w pipeline"
  assumes "prose_experts pl" and "x \<in> ex_name ` set (pl_experts pl)" and "carries n s"
    and "is_first \<Longrightarrow> prose n p" and "65536 \<le> n" and "4 * n \<le> 2 ^ 57"
  shows "gives (stepped (4 * n) s) (routing_step pl p is_first x l s)"
proof -
  obtain e where l: "lift_err (get_expert (pl_experts pl) x) = (ret e :: ('w, py_exc, 'w expert) act)" and b: "prose_backend (ex_backend e)"
    using known_expert [OF assms(1,2)] .
  have fin: "gives (stepped (4 * n) s) (kv_finish_step pl e l s r cache tm rd)" if "invoked_prose n u r" for r u cache tm rd
    by (rule gives_mono [OF kv_finish_prose [OF assms(1) that]]) simp
  note later = kv_later_prose [OF assms(1) b assms(3,5,6)]
  show ?thesis
  proof (cases is_first)
    case True
    note first = routing_first_prose [OF assms(1) b assms(4) [OF True] assms(5,6)]
    show ?thesis
      unfolding routing_step_def l bnd_ret using True by simp (rule gives_bnd [OF first], auto intro: fin)
  next
    case False
    then show ?thesis
      unfolding routing_step_def l bnd_ret by simp (rule gives_bnd [OF later], auto intro: fin)
  qed
qed

text \<open>A loop over at least one expert ends with some text, and keeps the records of the experts before.\<close>

definition looped :: "'a list \<Rightarrow> run_state \<Rightarrow> bool" where
  "looped xs s' \<longleftrightarrow> (xs \<noteq> [] \<longrightarrow> rs_text s' \<noteq> [])"

lemma looped_Cons: "rs_text s1 \<noteq> [] \<Longrightarrow> looped xs s' \<Longrightarrow> (xs = [] \<Longrightarrow> s' = s1) \<Longrightarrow> looped (x # xs) s'"
  by (cases xs) (auto simp: looped_def)

lemma four_step: "4 ^ Suc k * n \<le> 2 ^ 57 \<Longrightarrow> 4 ^ k * (4 * n) \<le> (2 :: nat) ^ 57 \<and> 4 * n \<le> 2 ^ 57"
proof -
  assume a: "4 ^ Suc k * n \<le> (2 :: nat) ^ 57"
  have "1 * (4 * n) \<le> 4 ^ k * (4 * n)" by (rule mult_right_mono) simp_all
  moreover have "4 ^ Suc k * n = 4 ^ k * (4 * n)" by simp
  ultimately show ?thesis using a by linarith
qed

lemma cascade_loop_prose:
  assumes "prose_experts pl" and "set xs \<subseteq> ex_name ` set (pl_experts pl)" and "carries n s"
    and "65536 \<le> n" and "4 ^ length xs * n \<le> 2 ^ 57"
  shows "gives (\<lambda>s'. looped xs s' \<and> (xs = [] \<longrightarrow> s' = s)) (cascade_loop pl xs s)"
  using assms(2-5)
proof (induction xs arbitrary: n s)
  case (Cons x xs)
  have n: "4 ^ length xs * (4 * n) \<le> 2 ^ 57" "4 * n \<le> 2 ^ 57" "65536 \<le> 4 * n"
    using four_step [of "length xs" n] Cons.prems(3,4) by simp_all
  have x: "x \<in> ex_name ` set (pl_experts pl)" "set xs \<subseteq> ex_name ` set (pl_experts pl)" using Cons.prems(1) by auto
  have IH: "gives (\<lambda>s'. looped xs s' \<and> (xs = [] \<longrightarrow> s' = s1)) (cascade_loop pl xs s1)" if "stepped (4 * n) s s1" for s1
    using that by (intro Cons.IH [OF x(2) _ n(3,1)]) (simp add: stepped_def)
  show ?case
    unfolding cascade_loop.simps
    by (rule gives_bnd [OF cascade_step_prose [OF assms(1) x(1) Cons.prems(2,3) n(2)]], rule gives_mono [OF IH])
      (auto intro: looped_Cons simp: stepped_def)
qed (simp add: looped_def gives_ret)

lemma routing_loop_prose:
  assumes "prose_experts pl" and "set xs \<subseteq> ex_name ` set (pl_experts pl)" and "carries n s"
    and "is_first \<Longrightarrow> prose n p" and "65536 \<le> n" and "4 ^ length xs * n \<le> 2 ^ 57"
  shows "gives (\<lambda>s'. looped xs s' \<and> (xs = [] \<longrightarrow> s' = s)) (routing_loop pl p is_first xs s)"
  using assms(2-6)
proof (induction xs arbitrary: n s is_first)
  case (Cons x xs)
  have n: "4 ^ length xs * (4 * n) \<le> 2 ^ 57" "4 * n \<le> 2 ^ 57" "65536 \<le> 4 * n"
    using four_step [of "length xs" n] Cons.prems(4,5) by simp_all
  have x: "x \<in> ex_name ` set (pl_experts pl)" "set xs \<subseteq> ex_name ` set (pl_experts pl)" using Cons.prems(1) by auto
  have IH: "gives (\<lambda>s'. looped xs s' \<and> (xs = [] \<longrightarrow> s' = s1)) (routing_loop pl p False xs s1)" if "stepped (4 * n) s s1" for s1
    using that by (intro Cons.IH [OF x(2) _ _ n(3,1)]) (simp_all add: stepped_def)
  show ?case
    unfolding routing_loop.simps
    by (rule gives_bnd [OF routing_step_prose [OF assms(1) x(1) Cons.prems(2,3,4) n(2)]], assumption, rule gives_mono [OF IH])
      (auto intro: looped_Cons simp: stepped_def)
qed (simp add: looped_def gives_ret)

lemma kv_loop_latent:
  assumes "prose_experts pl" and "set xs \<subseteq> ex_name ` set (pl_experts pl)"
    and "if is_first then prose n p else latent_state n s" and "65536 \<le> n" and "4 ^ length xs * n \<le> 2 ^ 57"
  shows "gives (\<lambda>s'. looped xs s' \<and> (xs = [] \<longrightarrow> s' = s) \<and> (\<exists>ms. rs_per_expert s' = rs_per_expert s @ ms \<and> list_all em_used_kv ms))
    (kv_loop pl p is_first xs s)"
  using assms(2-5)
proof (induction xs arbitrary: n s is_first)
  case (Cons x xs)
  have n: "4 ^ length xs * (4 * n) \<le> 2 ^ 57" "4 * n \<le> 2 ^ 57" "65536 \<le> 4 * n"
    using four_step [of "length xs" n] Cons.prems(3,4) by simp_all
  have x: "x \<in> ex_name ` set (pl_experts pl)" "set xs \<subseteq> ex_name ` set (pl_experts pl)" using Cons.prems(1) by auto
  have IH: "gives (\<lambda>s'. looped xs s' \<and> (xs = [] \<longrightarrow> s' = s1) \<and>
      (\<exists>ms. rs_per_expert s' = rs_per_expert s1 @ ms \<and> list_all em_used_kv ms)) (kv_loop pl p False xs s1)"
    if "latent_state (4 * n) s1" for s1
    using that by (intro Cons.IH [OF x(2) _ n(3,1)]) simp
  show ?case
    unfolding kv_loop.simps
    by (rule gives_bnd [OF kv_step_latent [OF assms(1) x(1) Cons.prems(2,3) n(2)]], elim conjE, rule gives_mono [OF IH], assumption)
      (auto intro: looped_Cons)
qed (simp add: looped_def gives_ret)

lemma start_carries: "prose n p \<Longrightarrow> carries n (start_state pl p tm kw)"
  by (simp add: carries_def start_state_def)

lemma enough_room: "length xs \<le> 8 \<Longrightarrow> 4 ^ length xs * 2 ^ 40 \<le> (2 :: nat) ^ 57"
proof -
  assume "length xs \<le> 8"
  then have "4 ^ length xs \<le> (4 :: nat) ^ 8" by (intro power_increasing) simp_all
  then show ?thesis by simp
qed

lemma runs_prose:
  assumes "prose_experts pl" and "prose (2 ^ 40) p"
    and "pl_sequence pl \<noteq> []" and "set (pl_sequence pl) \<subseteq> ex_name ` set (pl_experts pl)" and "length (pl_sequence pl) \<le> 8"
  shows "gives (\<lambda>r. pr_output r \<noteq> []) (cascade_run pl p kw)"
    and "gives (\<lambda>r. pr_output r \<noteq> [] \<and> list_all em_used_kv (pr_per_expert r)) (kv_run pl p kw)"
proof -
  have rem: "remember_prompt pl p = ret ()" using prose_expertsD(1) [OF assms(1)] by (simp add: remember_prompt_def)
  have pe: "rs_per_expert (start_state pl p tm kw) = []" for tm by (simp add: start_state_def)
  note room = enough_room [OF assms(5)]
  show "gives (\<lambda>r. pr_output r \<noteq> []) (cascade_run pl p kw)"
    unfolding cascade_run_def rem bnd_ret
    by (rule gives_bnd [OF cascade_loop_prose [OF assms(1,4) start_carries [OF assms(2)] _ room]])
      (use assms(3) in \<open>auto intro!: gives_ret simp: result_of_def looped_def\<close>)
  have "gives (\<lambda>s'. looped (pl_sequence pl) s' \<and> (pl_sequence pl = [] \<longrightarrow> s' = start_state pl p False kw) \<and>
      (\<exists>ms. rs_per_expert s' = rs_per_expert (start_state pl p False kw) @ ms \<and> list_all em_used_kv ms))
    (kv_loop pl p True (pl_sequence pl) (start_state pl p False kw))"
    by (rule kv_loop_latent [OF assms(1,4) _ _ room]) (use assms(2) in simp_all)
  then show "gives (\<lambda>r. pr_output r \<noteq> [] \<and> list_all em_used_kv (pr_per_expert r)) (kv_run pl p kw)"
    unfolding kv_run_def rem bnd_ret
    by (rule gives_bnd) (use assms(3) in \<open>auto intro!: gives_ret simp: result_of_def looped_def pe\<close>)
qed

lemma routing_prose:
  assumes "prose_experts pl" and "prose (2 ^ 40) p"
    and "nofail (rt p (pl_experts pl))"
    and "\<And>ns w w'. rt p (pl_experts pl) w = (Inr ns, w') \<Longrightarrow>
      ns \<noteq> [] \<and> set ns \<subseteq> ex_name ` set (pl_experts pl) \<and> length ns \<le> 8"
  shows "gives (\<lambda>r. pr_output r \<noteq> [] \<and> pr_selected r \<noteq> []) (routing_run pl rt th p kw)"
proof -
  have rem: "remember_prompt pl p = ret ()" using prose_expertsD(1) [OF assms(1)] by (simp add: remember_prompt_def)
  have "gives (\<lambda>ns. ns \<noteq> [] \<and> set ns \<subseteq> ex_name ` set (pl_experts pl) \<and> length ns \<le> 8) (rt p (pl_experts pl))"
    unfolding gives_def using assms(3,4) by (metis nofail_def)
  then show ?thesis
    unfolding routing_run_def rem bnd_ret Let_def
  proof (rule gives_bnd)
    fix ns
    assume ns: "ns \<noteq> [] \<and> set ns \<subseteq> ex_name ` set (pl_experts pl) \<and> length ns \<le> 8"
    have n: "set ns \<subseteq> ex_name ` set (pl_experts pl)" "length ns \<le> 8" using ns by simp_all
    note loop = routing_loop_prose [OF assms(1) n(1) start_carries [OF assms(2), of pl th kw] assms(2) _ enough_room [OF n(2)], of True]
    show "gives (\<lambda>r. pr_output r \<noteq> [] \<and> pr_selected r \<noteq> [])
        (bnd (routing_loop pl p True (if ns = [] then routing_fallback (pl_experts pl) else ns) (start_state pl p th kw))
          (\<lambda>s. ret (result_of pl (if ns = [] then routing_fallback (pl_experts pl) else ns) s)))"
      using ns by simp (rule gives_bnd [OF loop], auto intro!: gives_ret simp: result_of_def looped_def)
  qed
qed

section \<open>The mock backend keeps the contract\<close>

lemma mock_prose:
  assumes "fair_mock m" and "blake_sized blake"
  shows "prose_backend (mock_backend u blake m)"
proof
  show "supports_kv_cache (bk_capabilities (mock_backend u blake m))" by (simp add: mock_backend_def mock_capabilities_def)
  fix n p mt c
  show "gives (\<lambda>t. prose 65536 t \<and> t \<noteq> []) (bk_generate (mock_backend u blake m) p mt)" if "prose n p" "n \<le> 2 ^ 57"
    using mock_generate_prose [OF assms that(1)] that(2) unfolding gives_def mock_backend_def by fastforce
  show "gives (prose_cache n) (bk_encode (mock_backend u blake m) p)" if "prose n p" "65536 \<le> n" "n \<le> 2 ^ 57"
    using mock_encode_prose [OF assms(1) that(1,3,2)] unfolding gives_def mock_backend_def by fastforce
  show "gives (\<lambda>t. prose (2 * n) t \<and> t \<noteq> []) (bk_decode (mock_backend u blake m) c mt)" if "prose_cache n c" "65536 \<le> n"
    using mock_decode_prose [OF assms(1) that] unfolding gives_def mock_backend_def by fastforce
  show "gives (prose_cache n) (bk_transfer_cache (mock_backend u blake m) c)" if "prose_cache n c"
    using that assms(1)
    by (simp add: mock_backend_def mock_transfer_cache_def mock_same_shape_def prose_cache_def fair_mock_def ret_def)
qed

interpretation plain_mock: prose_backend "mock_backend u (\<lambda>_ _ n. replicate n 0) (mock_of 3000 (lit ''expert''))" for u
  by (intro mock_prose fair_mock_of) (simp_all add: blake_sized_def prose_def)

text \<open>A backend of the server's world that answers as a backend with a state of its own.\<close>

definition same_results :: "('w, 'e, 'a) act \<Rightarrow> ('v, 'e, 'a) act \<Rightarrow> bool" where
  "same_results f g \<longleftrightarrow> (\<forall>w. \<exists>s. fst (f w) = fst (g s))"

definition imitates :: "'w backend \<Rightarrow> 'v backend \<Rightarrow> bool" where
  "imitates b m \<longleftrightarrow>
     bk_capabilities b = bk_capabilities m \<and> (\<forall>p mt. same_results (bk_generate b p mt) (bk_generate m p mt)) \<and>
     (\<forall>p. same_results (bk_encode b p) (bk_encode m p)) \<and>
     (\<forall>c. same_results (bk_transfer_cache b c) (bk_transfer_cache m c)) \<and>
     (\<forall>c mt. same_results (bk_decode b c mt) (bk_decode m c mt)) \<and>
     rel_option (\<lambda>f g. \<forall>s. same_results (f s) (g s)) (bk_count_tokens b) (bk_count_tokens m)"

lemma imitates_self: "imitates b b"
  by (cases "bk_count_tokens b") (auto simp: imitates_def same_results_def)

lemma imitates_counts: "imitates b (mock_backend u blake m) \<Longrightarrow> counts_tokens b"
  unfolding imitates_def counts_tokens_def mock_backend_def mock_count_tokens_def same_results_def ret_def
  by (auto split: option.splits) (metis fst_conv sum.inject(2) max.cobounded1)

lemma same_gives:
  assumes "same_results f g" and "gives P g"
  shows "gives P f"
  unfolding gives_def
proof
  fix w
  obtain s where s: "fst (f w) = fst (g s)" using assms(1) unfolding same_results_def by blast
  obtain x s' where "g s = (Inr x, s')" "P x" using assms(2) by (rule givesE)
  with s show "\<exists>x w'. f w = (Inr x, w') \<and> P x" by (metis fst_conv prod.collapse)
qed

lemma imitates_prose:
  assumes "imitates b m" and "prose_backend m"
  shows "prose_backend b"
proof
  note i = assms(1) [unfolded imitates_def]
  note m = prose_backend.latent [OF assms(2)] prose_backend.generates [OF assms(2)] prose_backend.encodes [OF assms(2)]
    prose_backend.transfers [OF assms(2)] prose_backend.decodes [OF assms(2)]
  show "supports_kv_cache (bk_capabilities b)" using i m(1) by simp
  fix n p mt c
  show "gives (\<lambda>t. prose 65536 t \<and> t \<noteq> []) (bk_generate b p mt)" if "prose n p" "n \<le> 2 ^ 57"
    by (rule same_gives [OF _ m(2) [OF that]]) (use i in blast)
  show "gives (prose_cache n) (bk_encode b p)" if "prose n p" "65536 \<le> n" "n \<le> 2 ^ 57"
    by (rule same_gives [OF _ m(3) [OF that]]) (use i in blast)
  show "gives (prose_cache n) (bk_transfer_cache b c)" if "prose_cache n c"
    by (rule same_gives [OF _ m(4) [OF that]]) (use i in blast)
  show "gives (\<lambda>t. prose (2 * n) t \<and> t \<noteq> []) (bk_decode b c mt)" if "prose_cache n c" "65536 \<le> n"
    by (rule same_gives [OF _ m(5) [OF that]]) (use i in blast)
qed

section \<open>Runs of the server's pipelines\<close>

text \<open>A world whose mock backends give what \<open>MockBackend\<close> gives.\<close>

definition mock_world :: "unicode \<Rightarrow> blake \<Rightarrow> 'w server \<Rightarrow> bool" where
  "mock_world u blake sv \<longleftrightarrow>
     blake_sized blake \<and> (\<forall>p n. imitates (sv_mock sv p n) (mock_backend u blake (mock_of p n)))"

lemma mock_world_backend:
  assumes "mock_world u blake sv" and "0 \<le> p" and "p \<le> 100000" and "prose 100 n"
  shows "\<exists>m. fair_mock m \<and> imitates (sv_mock sv p n) (mock_backend u blake m)"
  using assms fair_mock_of [OF assms(2-4)] unfolding mock_world_def by blast

definition mock_garage :: "unicode \<Rightarrow> blake \<Rightarrow> 'w expert list \<Rightarrow> bool" where
  "mock_garage u blake es \<longleftrightarrow>
     blake_sized blake \<and> (\<forall>e\<in>set es. \<exists>m. fair_mock m \<and> imitates (ex_backend e) (mock_backend u blake m))"

lemma mock_garage_prose:
  assumes "mock_garage u blake es"
  shows "prose_experts (base_pipeline sv es sq mt)"
proof -
  have "prose_backend (ex_backend e)" if "e \<in> set es" for e
  proof -
    obtain m where m: "fair_mock m" "imitates (ex_backend e) (mock_backend u blake m)"
      using assms \<open>e \<in> set es\<close> unfolding mock_garage_def by blast
    have "blake_sized blake" using assms unfolding mock_garage_def by (rule conjunct1)
    from imitates_prose [OF m(2) mock_prose [OF m(1) this]] show ?thesis .
  qed
  moreover have "pl_fallback (base_pipeline sv es sq mt)" "pl_experts (base_pipeline sv es sq mt) = es"
    by (simp_all add: base_pipeline_def)
  ultimately show ?thesis by (simp add: prose_experts_def)
qed

lemma mock_cascade:
  assumes "mock_garage u blake es" and "prose (2 ^ 40) p" and "sq \<noteq> []" and "set sq \<subseteq> ex_name ` set es" and "length sq \<le> 8"
  shows "gives (\<lambda>r. pr_output r \<noteq> []) (cascade_run (base_pipeline sv es sq mt) p kw)"
  using assms by (intro runs_prose(1) mock_garage_prose) (simp_all add: base_pipeline_def)

text \<open>Between mock experts every hand-over is latent: each of them worked from a cache.\<close>

lemma mock_kv:
  assumes "mock_garage u blake es" and "prose (2 ^ 40) p" and "sq \<noteq> []" and "set sq \<subseteq> ex_name ` set es" and "length sq \<le> 8"
  shows "gives (\<lambda>r. pr_output r \<noteq> [] \<and> ag_kv_transfers (pr_metrics r) = int (length sq)) (kv_run (base_pipeline sv es sq mt) p kw)"
proof -
  let ?pl = "base_pipeline sv es sq mt"
  have g: "gives (\<lambda>r. pr_output r \<noteq> [] \<and> list_all em_used_kv (pr_per_expert r)) (kv_run ?pl p kw)"
    using assms by (intro runs_prose(2) mock_garage_prose) (simp_all add: base_pipeline_def)
  show ?thesis
    unfolding gives_def
  proof
    fix w
    obtain r w' where r: "kv_run ?pl p kw w = (Inr r, w')" "pr_output r \<noteq> []" "list_all em_used_kv (pr_per_expert r)"
      using g unfolding gives_def by blast
    have "final_report ?pl sq r" using kv_run_report [OF r(1)] by (simp add: base_pipeline_def)
    then have "map em_name (pr_per_expert r) = sq"
      and "ag_kv_transfers (pr_metrics r) = int (length (filter em_used_kv (pr_per_expert r)))"
      by (simp_all add: final_report_def agg_counts_def)
    moreover have "filter em_used_kv (pr_per_expert r) = pr_per_expert r" using r(3) by (simp add: list_all_iff)
    ultimately have "ag_kv_transfers (pr_metrics r) = int (length sq)" by (metis length_map)
    with r(1,2) show "\<exists>x w'. kv_run ?pl p kw w = (Inr x, w') \<and> pr_output x \<noteq> [] \<and> ag_kv_transfers (pr_metrics x) = int (length sq)"
      by blast
  qed
qed

lemma default_route_length: "es \<noteq> [] \<Longrightarrow> length (logistic_route u default_logistic p es) \<le> 8"
proof -
  assume "es \<noteq> []"
  then have "int (length (logistic_route u default_logistic p es)) \<le> 3"
    unfolding logistic_route_def logistic_select_eq [OF \<open>es \<noteq> []\<close>]
    using cap_props(4) [of 3] by (simp add: default_logistic_def mk_logistic_def)
  then show ?thesis by simp
qed

lemma mock_routing:
  assumes "mock_garage u blake es" and "prose (2 ^ 40) p" and "es \<noteq> []"
  shows "gives (\<lambda>r. pr_output r \<noteq> [] \<and> pr_selected r \<noteq> []) (routing_run (base_pipeline sv es sq mt) (logistic_router_fun sv) th p kw)"
proof (rule routing_prose [OF mock_garage_prose [OF assms(1)] assms(2)])
  have e: "pl_experts (base_pipeline sv es sq mt) = es" by (simp add: base_pipeline_def)
  show "nofail (logistic_router_fun sv p (pl_experts (base_pipeline sv es sq mt)))" by (simp add: logistic_router_fun_def nofail_ret)
  fix ns and w w' :: 'a
  assume "logistic_router_fun sv p (pl_experts (base_pipeline sv es sq mt)) w = (Inr ns, w')"
  then have "ns = logistic_route (sv_unicode sv) default_logistic p es" by (simp add: logistic_router_fun_def e)
  then show "ns \<noteq> [] \<and> set ns \<subseteq> ex_name ` set (pl_experts (base_pipeline sv es sq mt)) \<and> length ns \<le> 8"
    using logistic_select_props(1,2) [OF assms(3)] default_route_length [OF assms(3)]
    by (simp add: e names_of_def) (simp add: logistic_route_def)
qed

section \<open>A request for the mock backend\<close>

lemma mock_experts:
  assumes "build_experts sv (lit ''mock'') = Inr es" and "mock_world u blake sv"
  shows "mock_garage u blake es"
proof -
  have "es = map (\<lambda>(n, role, p). mk_expert n role (sv_mock sv p n)) garage"
    using assms(1) by (simp add: build_experts_def build_backend_def garage_def del: lit_Cons)
  moreover have "\<exists>m. fair_mock m \<and> imitates (sv_mock sv p n) (mock_backend u blake m)" if "(n, role, p) \<in> set garage" for n role p
    using that by (intro mock_world_backend [OF assms(2)]) (auto simp: garage_def prose_def)
  ultimately show ?thesis using assms(2) by (fastforce simp: mock_garage_def mock_world_def mk_expert_def)
qed

lemma mock_run_request:
  assumes "iq_backend q = lit ''mock''" and "1 \<le> iq_phase q" and "iq_phase q \<le> 3" and "prose (2 ^ 40) (iq_prompt q)"
    and "mock_world u blake sv"
  obtains r w' where "run_request sv q (db, w) = (Inr r, (db, w'))" and "pr_output r \<noteq> []"
    and "iq_phase q = 2 \<longrightarrow> ag_kv_transfers (pr_metrics r) = 2"
    and "set (pr_selected r) \<subseteq> set garage_names" and "pr_selected r \<noteq> []"
    and "iq_phase q \<noteq> 3 \<longrightarrow> pr_selected r = [lit ''analyst'', lit ''synthesizer'']"
proof -
  have known: "known_backend (lit ''mock'')" by (simp del: lit_Cons)
  obtain es where es: "build_experts sv (lit ''mock'') = Inr es" "map ex_name es = garage_names"
    using build_experts_known [OF known] by metis
  note g = mock_experts [OF es(1) assms(5)]
  have names: "ex_name ` set es = set garage_names" using es(2) by (metis list.set_map)
  have ne: "es \<noteq> []" using es(2) by (auto simp: garage_names_def)
  let ?two = "[lit ''analyst'', lit ''synthesizer'']" and ?mt = "iq_max_tokens q"
  let ?pl = "\<lambda>sq. base_pipeline sv es sq ?mt"
  have two: "set ?two \<subseteq> set garage_names" "?two \<noteq> []" "length ?two \<le> 8" by (auto simp: garage_names_def)
  note init = pipeline_init_garage [OF es(2) two(1,2), of sv ?mt]
  have rr: "run_request sv q (db, w) =
      (case make_pipeline sv (iq_phase q) (iq_router q) es ?mt of Inl e \<Rightarrow> (Inl e, (db, w))
       | Inr pipe \<Rightarrow> (case run_pipeline pipe (iq_prompt q) None w of (x, w') \<Rightarrow> (x, (db, w'))))"
    by (simp add: run_request_def assms(1) es(1) bnd_apply on_snd_apply del: lit_Cons split: sum.split)
  consider "iq_phase q = 1" | "iq_phase q = 2" | "iq_phase q = 3" using assms(2,3) by linarith
  then show ?thesis
  proof cases
    case 1
    obtain r w' where r: "cascade_run (?pl ?two) (iq_prompt q) None w = (Inr r, w')" "pr_output r \<noteq> []"
      using givesE [OF mock_cascade [OF g assms(4) two(2) _ two(3)]] two(1) names by metis
    have "run_request sv q (db, w) = (Inr r, (db, w'))"
      by (simp add: rr make_pipeline_def 1 init map_sum_r_def run_pipeline_def r del: lit_Cons)
    moreover have "pr_selected r = ?two" using cascade_selected [OF r(1)] by (simp add: base_pipeline_def)
    ultimately show ?thesis using that [of r w'] two r(2) 1 by simp
  next
    case 2
    obtain r w' where r: "kv_run (?pl ?two) (iq_prompt q) None w = (Inr r, w')" "pr_output r \<noteq> []"
        "ag_kv_transfers (pr_metrics r) = int (length ?two)"
      using givesE [OF mock_kv [OF g assms(4) two(2) _ two(3)]] two(1) names by metis
    have "run_request sv q (db, w) = (Inr r, (db, w'))"
      by (simp add: rr make_pipeline_def 2 init map_sum_r_def run_pipeline_def r(1) del: lit_Cons)
    moreover have "pr_selected r = ?two" using kv_selected [OF r(1)] by (simp add: base_pipeline_def)
    ultimately show ?thesis using that [of r w'] two r(2,3) by simp
  next
    case 3
    obtain r w' where r: "routing_run (?pl []) (logistic_router_fun sv) True (iq_prompt q) None w = (Inr r, w')" "pr_output r \<noteq> []"
      using givesE [OF mock_routing [OF g assms(4) ne]] by metis
    have pe: "pl_experts (?pl []) = es" by (simp add: base_pipeline_def)
    have "run_request sv q (db, w) = (Inr r, (db, w'))"
      by (simp add: rr make_pipeline_def 3 routing_pipeline_def pe ne run_pipeline_def r(1))
    moreover have "pr_selected r = logistic_route (sv_unicode sv) default_logistic (iq_prompt q) es"
      using routing_selected [OF r(1)] ne pe by simp
    ultimately show ?thesis
      using that [of r w'] logistic_select_props(1,2) [OF ne] 3 names r(2) by (simp add: logistic_route_def names_of_def)
  qed
qed

text \<open>C18: On the mock backend, the default of the API, every valid request is answered. In a world whose mock
  backends give what \<open>MockBackend\<close> gives, with a hash of the documented size, a valid request whose prompt is Unicode
  text, and which is not to be saved, gets a reply in every phase, whatever the state: it has a non-empty output, names
  experts of the four, and in phase 2 reports a latent transfer for both of them. No text an expert produces, and no
  cache handed on, can make a later expert fail.\<close>

theorem mock_request_answered:
  assumes "valid_request q" and "iq_backend q = lit ''mock''" and "\<not> iq_save_run q" and "scalars (iq_prompt q)"
    and "mock_world u blake sv"
  shows "\<exists>resp w'. post_infer sv q (db, w) = (Reply resp, (db, w')) \<and> ir_output resp \<noteq> [] \<and>
     ir_selected resp \<noteq> [] \<and> set (ir_selected resp) \<subseteq> set garage_names \<and>
     (iq_phase q \<noteq> 3 \<longrightarrow> ir_selected resp = [lit ''analyst'', lit ''synthesizer'']) \<and>
     (iq_phase q = 2 \<longrightarrow> ir_kv_transfers resp = 2)"
proof -
  have ph: "1 \<le> iq_phase q" "iq_phase q \<le> 3" "prose (2 ^ 40) (iq_prompt q)"
    using assms(1,4) by (simp_all add: valid_request_def prose_def)
  obtain r w' where r: "run_request sv q (db, w) = (Inr r, (db, w'))" "pr_output r \<noteq> []"
    "iq_phase q = 2 \<longrightarrow> ag_kv_transfers (pr_metrics r) = 2" "set (pr_selected r) \<subseteq> set garage_names" "pr_selected r \<noteq> []"
    "iq_phase q \<noteq> 3 \<longrightarrow> pr_selected r = [lit ''analyst'', lit ''synthesizer'']"
    using mock_run_request [OF assms(2) ph assms(5), where db = db and w = w] .
  have "post_infer sv q (db, w) = (Reply (response_of sv q r), (db, w'))"
    using assms(1,3) r(1) by (simp add: post_infer_def handle_def infer_def bnd_apply save_result_def)
  with r(2-6) show ?thesis by (simp add: response_of_def del: lit_Cons)
qed

text \<open>A server whose mock backends share one table of caches, and whose hash gives zeros.\<close>

definition zero_blake :: blake where
  "zero_blake = (\<lambda>_ _ n. replicate n 0)"

definition mock_server :: "mock_state server" where
  "mock_server =
     \<lparr>sv_mock = (\<lambda>p n. mock_backend (sv_unicode unit_server) zero_blake (mock_of p n)),
      sv_hf = (\<lambda>n p. mock_backend (sv_unicode unit_server) zero_blake (mock_of p n)),
      sv_vllm = (\<lambda>n p. mock_backend (sv_unicode unit_server) zero_blake (mock_of p n)),
      sv_llama = (\<lambda>p. mock_backend (sv_unicode unit_server) zero_blake (mock_of p [])),
      sv_memory = idle_memory, sv_clocks = \<lparr>ck_perf = (\<lambda>w. (0, w)), ck_wall = (\<lambda>w. (0, w))\<rparr>,
      sv_cost = sv_cost unit_server, sv_environ = (\<lambda>_. None), sv_unicode = sv_unicode unit_server, sv_sha = (\<lambda>_. [1]),
      sv_now = (\<lambda>w. (lit ''t'', w))\<rparr>"

lemma mock_server_ok: "mock_world (sv_unicode unit_server) zero_blake mock_server"
  by (simp add: mock_world_def blake_sized_def zero_blake_def mock_server_def imitates_self)

theorem mock_request_answered_witness:
  "\<exists>resp w'. post_infer mock_server ((unit_request (lit ''hi'') False)\<lparr>iq_phase := 2\<rparr>) (new_db, []) = (Reply resp, (new_db, w')) \<and>
     ir_output resp \<noteq> [] \<and> ir_kv_transfers resp = 2"
proof -
  let ?q = "(unit_request (lit ''hi'') False)\<lparr>iq_phase := 2\<rparr>"
  have "valid_request ?q" by (simp add: valid_request_def unit_request_def short_def)
  from mock_request_answered [OF this _ _ _ mock_server_ok, of new_db "[]"]
  show ?thesis by (auto simp: unit_request_def simp del: lit_Cons) (auto simp: unit_request_def)
qed

end
