(* ===== verification/Mock_Suite.thy ===== *)
theory Mock_Suite
  imports Examples Mock_Runs
begin

text \<open>
  The benchmark suite on the mock backend (\<open>examples/run_benchmarks.py\<close> with \<open>chen/benchmarks/tasks.py\<close>): the prompts of the
  built-in tasks are texts the mock backend accepts, so every task returns a report.
\<close>

section \<open>The built-in tasks\<close>

lemma builtin_prompts:
  assumes "t \<in> set (builtin_tasks u pf up re)" and "(q, x) \<in> set (bt_samples t)"
  shows "prose (2 ^ 40) q"
proof -
  have "list_all (\<lambda>(q, _). prose (2 ^ 40) q) (bt_samples t)" if "t \<in> set (builtin_tasks u pf up re)" for t
    using that
    by (auto simp: builtin_tasks_def math_task_def code_task_def qa_task_def summary_task_def reasoning_task_def mmlu_task_def
        humaneval_task_def gsm8k_task_def math_samples_def code_samples_def qa_samples_def summary_samples_def
        reasoning_samples_def mmlu_samples_def humaneval_samples_def gsm8k_samples_def prose_def)
  from this [OF assms(1)] assms(2) show ?thesis by (auto simp: list_all_iff)
qed

lemma builtin_samples: "t \<in> set (builtin_tasks u pf up re) \<Longrightarrow> bt_samples t \<noteq> []"
  by (auto simp: builtin_tasks_def math_task_def code_task_def qa_task_def summary_task_def reasoning_task_def mmlu_task_def
      humaneval_task_def gsm8k_task_def math_samples_def code_samples_def qa_samples_def summary_samples_def
      reasoning_samples_def mmlu_samples_def humaneval_samples_def gsm8k_samples_def simp del: lit_Cons)

lemma builtin_registry_tasks: "(n, t) \<in> set (builtin_registry u pf up re) \<Longrightarrow> t \<in> set (builtin_tasks u pf up re)"
  by (auto simp: builtin_registry_map)

lemma nofail_builtin:
  assumes "\<And>q k. prose (2 ^ 40) q \<Longrightarrow> nofail (run_pipeline (bn_pipeline b) q k)" and "t \<in> set (builtin_tasks u pf up re)"
  shows "nofail (run_task b t mt)"
  by (intro nofail_task_on assms(1)) (erule builtin_prompts [OF assms(2)])

section \<open>The script\<close>

lemma suite_garage:
  assumes "mock_world u blake sv"
  shows "mock_garage u blake (suite_experts sv)"
proof -
  have "\<exists>m. fair_mock m \<and> imitates (sv_mock sv p n) (mock_backend u blake m)"
    if "p \<in> {3000, 7000, 8000}" and "prose 100 n" for p n
    using that by (intro mock_world_backend [OF assms]) auto
  then show ?thesis
    using assms by (simp add: mock_garage_def suite_experts_def mk_expert_def mock_world_def prose_def)
qed

lemma suite_pipeline_runs:
  assumes "mock_world u blake sv" and "sa_phase a \<in> {1, 2} \<or> sa_phase a = 3 \<and> sa_router a = lit ''logistic''"
  obtains pipe where "suite_pipeline sv cr (sa_phase a) (sa_router a) (suite_experts sv) = Inr pipe"
    and "\<And>q k. prose (2 ^ 40) q \<Longrightarrow> nofail (run_pipeline pipe q k)"
proof -
  let ?es = "suite_experts sv"
  note g = suite_garage [OF assms(1)]
  have ne: "?es \<noteq> []" by (simp add: suite_experts_def)
  have tr: "trio \<noteq> []" "length trio \<le> 8" by (simp_all add: trio_def)
  have init: "pipeline_init (base_pipeline sv ?es trio 256) = Inr (base_pipeline sv ?es trio 256)"
    by (rule init_trio [OF experts_trio(3)]) simp_all
  consider "sa_phase a = 1" | "sa_phase a = 2" | "sa_phase a = 3" "sa_router a = lit ''logistic''" using assms(2) by auto
  then show ?thesis
  proof cases
    case 1
    show ?thesis
    proof (rule that)
      show "suite_pipeline sv cr (sa_phase a) (sa_router a) ?es = Inr (Cascade (base_pipeline sv ?es trio 256))"
        by (simp add: suite_pipeline_def 1 init map_sum_r_def)
      show "nofail (run_pipeline (Cascade (base_pipeline sv ?es trio 256)) q k)" if "prose (2 ^ 40) q" for q k
        using gives_nofail [OF mock_cascade [OF g that tr(1) experts_trio(3) tr(2)]] by (simp add: run_pipeline_def)
    qed
  next
    case 2
    show ?thesis
    proof (rule that)
      show "suite_pipeline sv cr (sa_phase a) (sa_router a) ?es = Inr (KVPass (base_pipeline sv ?es trio 256))"
        by (simp add: suite_pipeline_def 2 init map_sum_r_def)
      show "nofail (run_pipeline (KVPass (base_pipeline sv ?es trio 256)) q k)" if "prose (2 ^ 40) q" for q k
        using gives_nofail [OF mock_kv [OF g that tr(1) experts_trio(3) tr(2)]] by (simp add: run_pipeline_def)
    qed
  next
    case 3
    show ?thesis
    proof (rule that)
      show "suite_pipeline sv cr (sa_phase a) (sa_router a) ?es = Inr (Routing (base_pipeline sv ?es [] 256) (logistic_router_fun sv) False)"
        by (simp add: suite_pipeline_def 3 routing_pipeline_def ne del: lit_Cons)
      show "nofail (run_pipeline (Routing (base_pipeline sv ?es [] 256) (logistic_router_fun sv) False) q k)"
        if "prose (2 ^ 40) q" for q k
        using gives_nofail [OF mock_routing [OF g that ne]] by (simp add: run_pipeline_def)
    qed
  qed
qed

text \<open>C30: \<open>examples/run_benchmarks.py\<close> runs to its end and fails. On mock backends, for which it is written, with a hash of
  the documented size, the default token rates and any cost target from 65 percent up (its default is 80), in phases 1
  and 2 and in phase 3 with its default router, it reports on all eight built-in tasks, gives every one the verdict FAIL
  and exits with status 1, whatever size, accuracy and latency the baseline is given.\<close>

theorem benchmark_script_on_mock:
  assumes "mock_world v blake sv" and "sa_phase a \<in> {1, 2} \<or> sa_phase a = 3 \<and> sa_router a = lit ''logistic''"
    and "default_rates (sv_cost sv)" and "65 \<le> sa_cost_target a"
  shows "\<exists>rs w'. suite_main sv cr (builtin_registry u pf up re) a w = (Inr (rs, 1), w') \<and> length rs = 8 \<and>
     (\<forall>r\<in>set rs. suite_verdict r = Some False)"
proof -
  let ?reg = "builtin_registry u pf up re"
  obtain pipe where pipe: "suite_pipeline sv cr (sa_phase a) (sa_router a) (suite_experts sv) = Inr pipe"
    and run: "\<And>q k. prose (2 ^ 40) q \<Longrightarrow> nofail (run_pipeline pipe q k)"
    using suite_pipeline_runs [OF assms(1,2)] by metis
  let ?b = "suite_runner sv a pipe"
  have "\<exists>rs w'. run_each (\<lambda>p. run_task ?b (snd p) (sa_max_tokens a)) ?reg w = (Inr rs, w') \<and> list_all2 (\<lambda>_ _. True) ?reg rs"
  proof (rule run_each_returns)
    fix k assume "k \<in> set ?reg"
    then have "snd k \<in> set (builtin_tasks u pf up re)"
      using builtin_registry_tasks by (metis prod.collapse)
    then show "nofail (run_task ?b (snd k) (sa_max_tokens a))"
      by (rule nofail_builtin [rotated]) (simp add: suite_runner_def run)
  qed simp
  then obtain rs w' where rs: "run_each (\<lambda>p. run_task ?b (snd p) (sa_max_tokens a)) ?reg w = (Inr rs, w')" by blast
  define code :: int where "code = (if \<forall>r\<in>set rs. suite_verdict r \<noteq> Some False then 0 else 1)"
  have main: "suite_main sv cr ?reg a w = (Inr (rs, code), w')" by (simp add: suite_main_def bnd_apply pipe rs code_def)
  have ct: "\<forall>p n. counts_tokens (sv_mock sv p n)" using assms(1) imitates_counts by (fastforce simp: mock_world_def)
  have len: "length ?reg = 8" by (simp add: builtin_registry_map builtin_tasks_def)
  have "code = 1 \<and> length rs = length ?reg \<and> (\<forall>r\<in>set rs. suite_verdict r = Some False)"
    using len builtin_registry_tasks builtin_samples
    by (intro benchmark_script_always_fails [OF main assms(4) _ _ assms(3) ct]) (fastforce simp del: builtin_registry_def)+
  with main len show ?thesis by auto
qed

definition priced_mocks :: "mock_state server" where
  "priced_mocks = mock_server\<lparr>sv_cost := \<lparr>input_per_1m = 15 / 100, output_per_1m = 60 / 100, per_1m_params_per_1k_tokens = 0\<rparr>\<rparr>"

theorem benchmark_script_on_mock_witness:
  "\<exists>rs w'. suite_main priced_mocks \<lparr>cr_cosine = \<lambda>_. Inl ValueError, cr_hybrid = \<lambda>_. Inl ValueError\<rparr>
     (builtin_registry (sv_unicode unit_server) (\<lambda>_. None) (\<lambda>c. [c]) (\<lambda>_ _. False)) suite_defaults [] = (Inr (rs, 1), w') \<and>
     length rs = 8"
proof -
  have "mock_world (sv_unicode unit_server) zero_blake priced_mocks"
    using mock_server_ok by (simp add: mock_world_def priced_mocks_def)
  moreover have "default_rates (sv_cost priced_mocks)" by (simp add: priced_mocks_def default_rates_def)
  moreover have "sa_phase suite_defaults \<in> {1, 2} \<or> sa_phase suite_defaults = 3 \<and> sa_router suite_defaults = lit ''logistic''"
    "65 \<le> sa_cost_target suite_defaults"
    by (simp_all add: suite_defaults_def)
  ultimately show ?thesis
    using benchmark_script_on_mock [of "sv_unicode unit_server" zero_blake priced_mocks suite_defaults
        "\<lparr>cr_cosine = \<lambda>_. Inl ValueError, cr_hybrid = \<lambda>_. Inl ValueError\<rparr>" "sv_unicode unit_server" "\<lambda>_. None" "\<lambda>c. [c]"
        "\<lambda>_ _. False" "[]"] by blast
qed

end
