(* ===== verification/Smoke_Test.thy ===== *)
theory Smoke_Test
  imports Mock_Suite
begin

text \<open>
  \<open>scripts/smoke_test.py\<close>: the script that is to verify an installation, with \<open>__version__\<close> of \<open>chen/__init__.py\<close>. A
  check is an action that raises when an assertion fails; \<open>AssertionError\<close> is \<open>OtherError\<close>. The registries of backends
  and of tasks are arguments.
\<close>

section \<open>The script\<close>

definition chen_version :: pystr where
  "chen_version = lit ''0.4.0''"

definition py_assert :: "bool \<Rightarrow> ('w, py_exc, unit) act" where
  "py_assert b = (if b then ret () else raise OtherError)"

definition smoke_check :: "('w, py_exc, unit) act \<Rightarrow> ('w, py_exc, bool) act" where
  "smoke_check f = try_except (bnd f (\<lambda>_. ret True)) (\<lambda>_. ret False)"

definition smoke_imports :: "'f registry \<Rightarrow> ('w, py_exc, unit) act" where
  "smoke_imports backends =
     bnd (py_assert (chen_version = lit ''0.1.0'')) (\<lambda>_.
     py_assert (lit ''mock'' \<in> set (list_backends backends)))"

text \<open>\<open>MockBackend(params_m=3_000)\<close> has the role hint \<open>expert\<close>.\<close>

definition smoke_experts :: "'w server \<Rightarrow> 'w expert list" where
  "smoke_experts sv =
     [mk_expert (lit ''a'') ANALYST (sv_mock sv 3000 (lit ''expert'')),
      mk_expert (lit ''s'') SYNTHESIZER (sv_mock sv 3000 (lit ''expert''))]"

definition smoke_phase1 :: "'w server \<Rightarrow> ('w, py_exc, unit) act" where
  "smoke_phase1 sv =
     bnd (lift_err (pipeline_init (base_pipeline sv (smoke_experts sv) [] 256))) (\<lambda>pl.
     bnd (cascade_run pl (lit ''hello world'') None) (\<lambda>r.
     py_assert (0 < length (pr_output r))))"

definition smoke_phase2 :: "'w server \<Rightarrow> ('w, py_exc, unit) act" where
  "smoke_phase2 sv =
     bnd (lift_err (pipeline_init (base_pipeline sv (smoke_experts sv) [] 256))) (\<lambda>pl.
     bnd (kv_run pl (lit ''hello world'') None) (\<lambda>r.
     bnd (py_assert (0 < length (pr_output r))) (\<lambda>_.
     py_assert (1 \<le> ag_kv_transfers (pr_metrics r)))))"

definition smoke_phase3 :: "'w server \<Rightarrow> ('w, py_exc, unit) act" where
  "smoke_phase3 sv =
     bnd (lift_err (routing_pipeline (base_pipeline sv (smoke_experts sv) [] 256) (logistic_router_fun sv) True)) (\<lambda>pipe.
     bnd (run_pipeline pipe (lit ''hello world'') None) (\<lambda>r.
     py_assert (1 \<le> length (pr_selected r))))"

definition smoke_runner :: "'w server \<Rightarrow> 'w pipeline \<Rightarrow> 'w bench_runner" where
  "smoke_runner sv pl =
     \<lparr>bn_pipeline = Cascade pl, bn_baseline = default_baseline\<lparr>bl_params_m := 70000, bl_accuracy := 1 / 2\<rparr>,
      bn_kpis = default_kpis (sv_cost sv)\<rparr>"

definition smoke_benchmarks :: "'w server \<Rightarrow> task_registry \<Rightarrow> ('w, py_exc, unit) act" where
  "smoke_benchmarks sv reg =
     (let es = [mk_expert (lit ''g'') SYNTHESIZER (sv_mock sv 3000 (lit ''expert''))] in
      bnd (lift_err (pipeline_init (base_pipeline sv es [] 256))) (\<lambda>pl.
      bnd (run_task_named (smoke_runner sv pl) reg (lit ''qa_factual'') 32) (\<lambda>r.
      bnd (py_assert (br_kpi r \<noteq> None)) (\<lambda>_.
      bnd (py_assert (br_task_name r = lit ''qa_factual'')) (\<lambda>_.
      py_assert (5 \<le> length reg))))))"

text \<open>The checks all run; the exit status is 0 when every one of them is OK.\<close>

definition smoke_main :: "'w server \<Rightarrow> 'f registry \<Rightarrow> task_registry \<Rightarrow> ('w, py_exc, bool list \<times> int) act" where
  "smoke_main sv backends reg =
     bnd (run_each smoke_check [smoke_imports backends, smoke_phase1 sv, smoke_phase2 sv, smoke_phase3 sv, smoke_benchmarks sv reg])
       (\<lambda>oks. ret (oks, if list_all (\<lambda>ok. ok) oks then 0 else 1))"

section \<open>A check passes when its action always succeeds\<close>

lemma py_assert_both: "bnd (py_assert a) (\<lambda>_. py_assert b) = py_assert (a \<and> b)"
  by (simp add: py_assert_def fun_eq_iff bnd_apply raise_def)

lemma bnd_lift_Inr: "bnd (lift_err (Inr x)) f = f x"
  by (simp add: fun_eq_iff bnd_apply)

lemma smoke_check_True: "nofail f \<Longrightarrow> \<exists>w'. smoke_check f w = (Inr True, w')"
  by (erule nofailE [where w = w]) (simp add: smoke_check_def try_except_def bnd_apply)

lemma smoke_imports_fails: "smoke_check (smoke_imports backends) w = (Inr False, w)"
proof -
  have "chen_version \<noteq> lit ''0.1.0''" by (simp add: chen_version_def)
  then show ?thesis by (simp add: smoke_check_def smoke_imports_def py_assert_def try_except_def bnd_apply raise_def)
qed

lemma nofail_checked:
  assumes "nofail m" and "\<And>w x w'. m w = (Inr x, w') \<Longrightarrow> P x"
  shows "nofail (bnd m (\<lambda>x. py_assert (P x)))"
  unfolding nofail_def
proof
  fix w
  obtain x w' where x: "m w = (Inr x, w')" using assms(1) by (rule nofailE)
  with assms(2) have "P x" by blast
  with x show "\<exists>y w''. bnd m (\<lambda>x. py_assert (P x)) w = (Inr y, w'')" by (simp add: bnd_apply py_assert_def ret_def)
qed

section \<open>The checks of the phases and of the benchmark\<close>

lemma mock_world_experts:
  assumes "mock_world v blake sv"
  shows "mock_garage v blake (smoke_experts sv)"
    and "mock_garage v blake [mk_expert (lit ''g'') SYNTHESIZER (sv_mock sv 3000 (lit ''expert''))]"
proof -
  have "fair_mock (mock_of 3000 (lit ''expert''))" by (intro fair_mock_of) (simp_all add: prose_def)
  with assms show "mock_garage v blake (smoke_experts sv)"
    "mock_garage v blake [mk_expert (lit ''g'') SYNTHESIZER (sv_mock sv 3000 (lit ''expert''))]"
    by (auto simp: mock_world_def mock_garage_def smoke_experts_def mk_expert_def simp del: lit_Cons)
qed

lemma init_default:
  "es \<noteq> [] \<Longrightarrow> pipeline_init (base_pipeline sv es [] mt) = Inr (base_pipeline sv es (map ex_name es) mt)"
  using find_expert_Some_iff [of es] by (force simp: pipeline_init_def base_pipeline_def Let_def)

lemma prose_hello: "prose (2 ^ 40) (lit ''hello world'')"
  by (simp add: prose_def)

lemma nofail_check: "gives P m \<Longrightarrow> (\<And>x. P x \<Longrightarrow> Q x) \<Longrightarrow> nofail (bnd m (\<lambda>x. py_assert (Q x)))"
  unfolding nofail_gives by (erule gives_bnd) (simp add: py_assert_def gives_ret)

lemma nofail_smoke_phases:
  assumes "mock_world v blake sv"
  shows "nofail (smoke_phase1 sv)" and "nofail (smoke_phase2 sv)" and "nofail (smoke_phase3 sv)"
proof -
  let ?es = "smoke_experts sv"
  note g = mock_world_experts(1) [OF assms]
  have es: "?es \<noteq> []" "map ex_name ?es \<noteq> []" "set (map ex_name ?es) \<subseteq> ex_name ` set ?es" "length (map ex_name ?es) \<le> 8"
    "length (map ex_name ?es) = 2"
    by (auto simp: smoke_experts_def)
  note init = init_default [OF es(1)]
  show "nofail (smoke_phase1 sv)"
    unfolding smoke_phase1_def init bnd_lift_Inr by (rule nofail_check [OF mock_cascade [OF g prose_hello es(2-4)]]) simp
  show "nofail (smoke_phase2 sv)"
    unfolding smoke_phase2_def init bnd_lift_Inr py_assert_both
    by (rule nofail_check [OF mock_kv [OF g prose_hello es(2-4)]]) (use es(5) in simp)
  have r: "routing_pipeline (base_pipeline sv ?es [] 256) (logistic_router_fun sv) True =
      Inr (Routing (base_pipeline sv ?es [] 256) (logistic_router_fun sv) True)"
    using es(1) by (simp add: routing_pipeline_def)
  have "nofail (bnd (routing_run (base_pipeline sv ?es [] 256) (logistic_router_fun sv) True (lit ''hello world'') None)
      (\<lambda>r. py_assert (1 \<le> length (pr_selected r))))"
    by (rule nofail_check [OF mock_routing [OF g prose_hello es(1)]]) (simp add: Suc_le_eq)
  then show "nofail (smoke_phase3 sv)" unfolding smoke_phase3_def r bnd_lift_Inr run_pipeline_def by simp
qed

lemma nofail_smoke_benchmarks:
  assumes "mock_world v blake sv"
  shows "nofail (smoke_benchmarks sv (builtin_registry u pf up re))"
proof -
  let ?reg = "builtin_registry u pf up re"
  let ?es = "[mk_expert (lit ''g'') SYNTHESIZER (sv_mock sv 3000 (lit ''expert''))]"
  let ?pl = "base_pipeline sv ?es (map ex_name ?es) 256"
  let ?b = "smoke_runner sv ?pl"
  have run: "nofail (run_pipeline (Cascade ?pl) q k)" if "prose (2 ^ 40) q" for q k
    using mock_cascade [OF mock_world_experts(2) [OF assms] that, of "map ex_name ?es"]
    by (auto simp: run_pipeline_def intro: gives_nofail simp del: lit_Cons)
  have qa: "qa_task u \<in> set (builtin_tasks u pf up re)" by (simp add: builtin_tasks_def)
  have nf: "nofail (run_task ?b (qa_task u) 32)"
    by (rule nofail_builtin [OF _ qa]) (simp add: smoke_runner_def run del: lit_Cons list.map)
  have nm: "bt_name (qa_task u) = lit ''qa_factual''"
    by (simp add: qa_task_def del: lit_Cons)
  with qa have "map_of ?reg (lit ''qa_factual'') = Some (qa_task u)"
    using map_of_names [OF builtin_distinct, of "qa_task u" u pf up re] by (simp only: builtin_registry_map)
  then have t: "run_task_named ?b ?reg (lit ''qa_factual'') 32 = run_task ?b (qa_task u) 32"
    by (simp add: run_task_named_def del: lit_Cons)
  have "length ?reg = 8" by (simp add: builtin_registry_map builtin_tasks_def)
  then have "nofail (bnd (run_task ?b (qa_task u) 32) (\<lambda>r.
      py_assert (br_kpi r \<noteq> None \<and> br_task_name r = lit ''qa_factual'' \<and> 5 \<le> length ?reg)))"
  proof (intro nofail_checked nf)
    fix w r w'
    assume "run_task ?b (qa_task u) 32 w = (Inr r, w')"
    then obtain s where "br_task_name s = bt_name (qa_task u)" "r = finish_result ?b (qa_task u) s"
      using run_task_parts by metis
    then show "br_kpi r \<noteq> None \<and> br_task_name r = lit ''qa_factual'' \<and> 5 \<le> length ?reg"
      using \<open>length ?reg = 8\<close> nm by (simp add: finish_result_def Let_def)
  qed
  then show ?thesis by (simp add: py_assert_both smoke_benchmarks_def Let_def init_default bnd_lift_Inr t [unfolded list.map] del: lit_Cons)
qed

text \<open>C27: The smoke test fails on every working installation. In a world whose mock backends give what \<open>MockBackend\<close> gives, with
  a hash of the documented size, with the built-in tasks and any registry of backends, the checks of the three phases and
  of the benchmark pass, and the check of the imports does not, because it still asks for version 0.1.0: the script exits
  with status 1, whatever the state, the clocks and the character tables.\<close>

theorem smoke_test_outcome:
  assumes "mock_world v blake sv"
  shows "\<exists>w'. smoke_main sv backends (builtin_registry u pf up re) w = (Inr ([False, True, True, True, True], 1), w')"
proof -
  let ?reg = "builtin_registry u pf up re"
  obtain w1 where 1: "smoke_check (smoke_phase1 sv) w = (Inr True, w1)"
    using smoke_check_True [OF nofail_smoke_phases(1) [OF assms]] ..
  obtain w2 where 2: "smoke_check (smoke_phase2 sv) w1 = (Inr True, w2)"
    using smoke_check_True [OF nofail_smoke_phases(2) [OF assms]] ..
  obtain w3 where 3: "smoke_check (smoke_phase3 sv) w2 = (Inr True, w3)"
    using smoke_check_True [OF nofail_smoke_phases(3) [OF assms]] ..
  obtain w4 where 4: "smoke_check (smoke_benchmarks sv ?reg) w3 = (Inr True, w4)"
    using smoke_check_True [OF nofail_smoke_benchmarks [OF assms]] ..
  show ?thesis by (simp add: smoke_main_def bnd_apply smoke_imports_fails 1 2 3 4)
qed

theorem smoke_test_outcome_witness:
  "\<exists>w'. smoke_main mock_server (register_builtins (sv_unicode unit_server) 0 1 2 (3 :: nat) [])
     (builtin_registry (sv_unicode unit_server) (\<lambda>_. None) (\<lambda>c. [c]) (\<lambda>_ _. False)) [] =
   (Inr ([False, True, True, True, True], 1), w')"
proof -
  show ?thesis by (rule smoke_test_outcome [OF mock_server_ok])
qed

end
