(* ===== verification/Obs_Spans.thy ===== *)
theory Obs_Spans
  imports Obs_Logging Server_Routes
begin

text \<open>
  \<open>chen/observability/tracing.py\<close>: spans. \<open>span\<close> is a context manager around a body; here it takes the body as an action
  on the right half of the state, while OpenTelemetry keeps its own state on the left. What the OpenTelemetry API does is
  an argument; without it, or before it is initialised, the span is a \<open>_NoOpSpan\<close>.
\<close>

section \<open>Spans\<close>

datatype 's span_handle = Noop_Span | Otel_Span 's

type_synonym attrs = "(pystr \<times> pystr) list"

record ('o, 's) otel_api =
  oa_start :: "tracer_provider \<Rightarrow> pystr \<Rightarrow> ('o, py_exc, 's) act"
  oa_attribute :: "'s \<Rightarrow> pystr \<Rightarrow> pystr \<Rightarrow> ('o, py_exc, unit) act"
  oa_status :: "'s \<Rightarrow> pystr \<Rightarrow> ('o, py_exc, unit) act"
  oa_exception :: "'s \<Rightarrow> py_exc \<Rightarrow> ('o, py_exc, unit) act"
  oa_event :: "'s \<Rightarrow> pystr \<Rightarrow> attrs \<Rightarrow> ('o, py_exc, unit) act"
  oa_end :: "'s \<Rightarrow> py_exc option \<Rightarrow> ('o, py_exc, unit) act"

definition set_attribute :: "('o, 's) otel_api \<Rightarrow> 's span_handle \<Rightarrow> pystr \<Rightarrow> pystr \<Rightarrow> ('o, py_exc, unit) act" where
  "set_attribute api h k v = (case h of Noop_Span \<Rightarrow> ret () | Otel_Span s \<Rightarrow> oa_attribute api s k v)"

definition set_status :: "('o, 's) otel_api \<Rightarrow> 's span_handle \<Rightarrow> pystr \<Rightarrow> ('o, py_exc, unit) act" where
  "set_status api h st = (case h of Noop_Span \<Rightarrow> ret () | Otel_Span s \<Rightarrow> oa_status api s st)"

definition record_exception :: "('o, 's) otel_api \<Rightarrow> 's span_handle \<Rightarrow> py_exc \<Rightarrow> ('o, py_exc, unit) act" where
  "record_exception api h e = (case h of Noop_Span \<Rightarrow> ret () | Otel_Span s \<Rightarrow> oa_exception api s e)"

definition add_event :: "('o, 's) otel_api \<Rightarrow> 's span_handle \<Rightarrow> pystr \<Rightarrow> attrs \<Rightarrow> ('o, py_exc, unit) act" where
  "add_event api h n ats = (case h of Noop_Span \<Rightarrow> ret () | Otel_Span s \<Rightarrow> oa_event api s n ats)"

definition start_span :: "('o, 's) otel_api \<Rightarrow> tracer_kind \<Rightarrow> pystr \<Rightarrow> ('o, py_exc, 's span_handle) act" where
  "start_span api t n =
     (case t of No_Op_Tracer \<Rightarrow> ret Noop_Span | Otel_Tracer p \<Rightarrow> bnd (oa_start api p n) (\<lambda>s. ret (Otel_Span s)))"

text \<open>\<open>__exit__\<close>: the no-op span lets an exception pass; so does a span of OpenTelemetry, which is told of it.\<close>

definition end_span :: "('o, 's) otel_api \<Rightarrow> 's span_handle \<Rightarrow> py_exc option \<Rightarrow> ('o, py_exc, unit) act" where
  "end_span api h exc = (case h of Noop_Span \<Rightarrow> ret () | Otel_Span s \<Rightarrow> oa_end api s exc)"

fun set_attributes :: "('o, 's) otel_api \<Rightarrow> 's span_handle \<Rightarrow> attrs \<Rightarrow> ('o, py_exc, unit) act" where
  "set_attributes api h [] = ret ()"
| "set_attributes api h ((k, v) # ats) = bnd (set_attribute api h k v) (\<lambda>_. set_attributes api h ats)"

text \<open>Leaving the \<open>with\<close> block ends the span, then the result or the exception goes on.\<close>

definition leave_span ::
  "('o, 's) otel_api \<Rightarrow> 's span_handle \<Rightarrow> ('o \<times> 'w, py_exc, 'a) act \<Rightarrow> ('o \<times> 'w, py_exc, 'a) act" where
  "leave_span api h m = (\<lambda>st. case m st of
     (Inr x, st') \<Rightarrow> bnd (on_fst (end_span api h None)) (\<lambda>_. ret x) st'
   | (Inl e, st') \<Rightarrow> bnd (on_fst (end_span api h (Some e))) (\<lambda>_. raise e) st')"

definition span ::
  "('o, 's) otel_api \<Rightarrow> otel_env \<Rightarrow> tracer_provider option \<Rightarrow> pystr \<Rightarrow> attrs \<Rightarrow> ('s span_handle \<Rightarrow> ('o \<times> 'w, py_exc, 'a) act) \<Rightarrow>
   ('o \<times> 'w, py_exc, 'a) act" where
  "span api oe st n ats body =
     bnd (on_fst (start_span api (tracer oe st) n)) (\<lambda>h.
     leave_span api h (bnd (on_fst (set_attributes api h ats)) (\<lambda>_. body h)))"

section \<open>Spans do not interfere\<close>

lemma on_fst_ret: "on_fst (ret x) = ret x"
  by (simp add: fun_eq_iff on_fst_def ret_def)

lemma noop_attributes: "set_attributes api Noop_Span ats = ret ()"
  by (induction ats) (auto simp: set_attribute_def)

lemma leave_noop: "leave_span api Noop_Span m = m"
proof
  fix st
  obtain r st' where "m st = (r, st')" by (cases "m st")
  then show "leave_span api Noop_Span m st = m st"
    by (cases r) (simp_all add: leave_span_def end_span_def on_fst_ret)
qed

lemma noop_span_is_body:
  assumes "tracer oe st = No_Op_Tracer"
  shows "span api oe st n ats body = body Noop_Span"
  by (simp add: span_def assms start_span_def on_fst_ret leave_noop noop_attributes)

text \<open>The API does not raise: its documentation promises that a failure of tracing never reaches the application.\<close>

definition quiet_api :: "('o, 's) otel_api \<Rightarrow> bool" where
  "quiet_api api \<longleftrightarrow> (\<forall>p n. nofail (oa_start api p n)) \<and> (\<forall>s k v. nofail (oa_attribute api s k v)) \<and>
     (\<forall>s x. nofail (oa_end api s x))"

lemma nofail_set_attributes: "quiet_api api \<Longrightarrow> nofail (set_attributes api h ats)"
  by (induction api h ats rule: set_attributes.induct)
    (auto simp: set_attribute_def quiet_api_def nofail_ret intro!: nofail_bnd split: span_handle.split)

lemma on_fst_quiet:
  assumes "nofail m"
  obtains x s' where "on_fst m (s, w) = (Inr x, (s', w))"
  using assms by (rule nofailE [where w = s]) (simp add: on_fst_def)


text \<open>An API whose state counts its calls.\<close>

definition counting_api :: "(nat, unit) otel_api" where
  "counting_api =
     \<lparr>oa_start = (\<lambda>_ _ k. (Inr (), k + 1)), oa_attribute = (\<lambda>_ _ _ k. (Inr (), k + 1)), oa_status = (\<lambda>_ _ k. (Inr (), k + 1)),
      oa_exception = (\<lambda>_ _ k. (Inr (), k + 1)), oa_event = (\<lambda>_ _ _ k. (Inr (), k + 1)), oa_end = (\<lambda>_ _ k. (Inr (), k + 1))\<rparr>"


end
