(* ===== verification/Package.thy ===== *)
theory Package
  imports Main
begin

text \<open>
  \<open>chen/__init__.py\<close>: the names the package binds, the guarded import of the security modules, and what
  \<open>from chen import *\<close> finds of the names \<open>__all__\<close> promises.
\<close>

section \<open>Imports\<close>

definition package_imports :: "(string \<times> string list) list" where
  "package_imports =
     [(''chen.backends.base'', [''BackendCapabilities'', ''InferenceBackend'']),
      (''chen.backends.mock'', [''MockBackend'']),
      (''chen.backends.registry'', [''BACKEND_REGISTRY'', ''get_backend'', ''list_backends'', ''register_backend'']),
      (''chen.benchmarks.kpis'', [''KPIReport'', ''KPIs'']),
      (''chen.benchmarks.runner'', [''BenchmarkRunner'']),
      (''chen.benchmarks.tasks'', [''TASK_REGISTRY'', ''BenchmarkTask'']),
      (''chen.core.config'', [''CostModel'', ''Settings'']),
      (''chen.core.expert'', [''Expert'', ''ExpertRole'']),
      (''chen.core.kv_cache'', [''IncompatibleCacheError'', ''KVCache'']),
      (''chen.core.memory'', [''InMemoryMemory'', ''Memory'', ''MemoryEntry'']),
      (''chen.core.pipeline'', [''AggregateMetrics'', ''ExpertMetrics'', ''Pipeline'', ''PipelineResult'']),
      (''chen.core.router'', [''CosineRouter'', ''HybridRouter'', ''LogisticRouter'', ''Router'', ''RouterDecision'']),
      (''chen.observability.logging'', [''configure_logging'', ''get_logger'']),
      (''chen.persistence.run_store'', [''RunRecord'', ''RunStore'']),
      (''chen.phases.phase1_cascade'', [''CascadePipeline'']),
      (''chen.phases.phase2_kv_pass'', [''KVPassPipeline'']),
      (''chen.phases.phase3_routing'', [''RoutingPipeline'']),
      (''chen.reproducibility'', [''RunContext'', ''hash_config'', ''seed_everything'', ''track_run''])]"

definition security_names :: "string list" where
  "security_names =
     [''CrypticStream'', ''CryptoError'', ''Decryptor'', ''EncryptedBackend'', ''EncryptionConfig'', ''Encryptor'',
      ''KeyStore'', ''SecuritySettings'']"

text \<open>The names these imports and the assignments of the module bind (importing also binds the submodules, none of which
  \<open>__all__\<close> lists); \<open>available\<close>: importing \<open>chen.security\<close> raised no \<open>ImportError\<close>.\<close>

definition package_names :: "bool \<Rightarrow> string list" where
  "package_names available =
     concat (map snd package_imports) @ (if available then security_names else []) @
     [''_SECURITY_AVAILABLE'', ''__version__'', ''__all__'']"

definition package_all :: "string list" where
  "package_all =
     [''Expert'', ''ExpertRole'', ''Router'', ''LogisticRouter'', ''CosineRouter'', ''HybridRouter'',
      ''RouterDecision'', ''Memory'', ''MemoryEntry'', ''InMemoryMemory'', ''KVCache'', ''IncompatibleCacheError'',
      ''Pipeline'', ''PipelineResult'', ''ExpertMetrics'', ''AggregateMetrics'', ''Settings'', ''CostModel'',
      ''CascadePipeline'', ''KVPassPipeline'', ''RoutingPipeline'', ''InferenceBackend'', ''BackendCapabilities'',
      ''MockBackend'', ''get_backend'', ''register_backend'', ''list_backends'', ''BACKEND_REGISTRY'', ''KPIs'',
      ''KPIReport'', ''BenchmarkRunner'', ''BenchmarkTask'', ''TASK_REGISTRY'', ''configure_logging'', ''get_logger'',
      ''RunRecord'', ''RunStore'', ''hash_config'', ''seed_everything'', ''track_run'', ''RunContext'',
      ''CrypticStream'', ''CryptoError'', ''EncryptedBackend'', ''EncryptionConfig'', ''Encryptor'', ''Decryptor'',
      ''KeyStore'', ''SecuritySettings'', ''__version__'']"

text \<open>A star import binds every name of \<open>__all__\<close>; the first one the module does not have raises \<open>AttributeError\<close>.\<close>

fun star_import :: "string list \<Rightarrow> string list \<Rightarrow> string + string list" where
  "star_import names [] = Inr []"
| "star_import names (n # ns) =
     (if n \<in> set names
      then (case star_import names ns of Inl e \<Rightarrow> Inl e | Inr bs \<Rightarrow> Inr (n # bs))
      else Inl n)"

section \<open>Lemmas\<close>

lemma star_import_all: "set ns \<subseteq> set names \<Longrightarrow> star_import names ns = Inr ns"
  by (induction ns) simp_all

text \<open>The export list names the security classes whether or not they could be imported: without them a star import fails
  at the first of them, so the guard around the import protects plain imports only.\<close>

theorem star_import_needs_security:
  "star_import (package_names available) package_all =
     (if available then Inr package_all else Inl ''CrypticStream'')"
proof (cases available)
  case True
  have "set package_all \<subseteq> set (package_names True)"
    by code_simp
  then show ?thesis using True by (simp add: star_import_all)
next
  case False
  have "star_import (package_names False) package_all = Inl ''CrypticStream''" by code_simp
  then show ?thesis using False by simp
qed

end
