(* ===== verification/Cli_App.thy ===== *)
theory Cli_App
  imports Smoke_Test Cli_Keys Server_App Obs_Logging
begin

text \<open>
  \<open>chen/cli/main.py\<close> with the commands \<open>run\<close>, \<open>bench\<close>, \<open>serve\<close> and \<open>info\<close>, and \<open>scripts/check_env.py\<close>. The options
  arrive parsed; what is printed is data. A command starts by configuring logging, whose state every process already has
  from the import of the package; it works on the key directory or on the state of the application.
\<close>

section \<open>Options and dispatch\<close>

text \<open>An option that was not given is \<open>None\<close>; without its prompt \<open>run\<close> is a usage error.\<close>

datatype keys_command =
    Keys_Generate
  | Keys_List
  | Keys_Activate pystr
  | Keys_Rotate
  | Keys_Revoke pystr
  | Keys_Show pystr
  | Keys_Export_Env pystr

datatype cli_command =
    Cmd_Info
  | Cmd_Run pystr int pystr int pystr bool
  | Cmd_Bench int pystr int pystr int
  | Cmd_Serve pystr int pystr bool
  | Cmd_Keys "keys_command option"

definition opt_or :: "'a option \<Rightarrow> 'a \<Rightarrow> 'a" where
  "opt_or v d = (case v of None \<Rightarrow> d | Some x \<Rightarrow> x)"

definition cli_run ::
  "pystr option \<Rightarrow> int option \<Rightarrow> pystr option \<Rightarrow> int option \<Rightarrow> pystr option \<Rightarrow> bool \<Rightarrow> cli_command option" where
  "cli_run prompt phase backend max_tokens kind save_run =
     map_option (\<lambda>p. Cmd_Run p (opt_or phase 1) (opt_or backend (lit ''mock'')) (opt_or max_tokens 128)
       (opt_or kind (lit ''logistic'')) save_run) prompt"

definition cli_bench :: "int option \<Rightarrow> pystr option \<Rightarrow> int option \<Rightarrow> pystr option \<Rightarrow> int option \<Rightarrow> cli_command" where
  "cli_bench phase kind max_tokens task baseline_params =
     Cmd_Bench (opt_or phase 1) (opt_or kind (lit ''logistic'')) (opt_or max_tokens 64) (opt_or task (lit ''all''))
       (opt_or baseline_params 70000)"

definition cli_serve :: "pystr option \<Rightarrow> int option \<Rightarrow> pystr option \<Rightarrow> bool \<Rightarrow> cli_command" where
  "cli_serve host port backend reload =
     Cmd_Serve (opt_or host (lit ''0.0.0.0'')) (opt_or port 8000) (opt_or backend (lit ''mock'')) reload"

text \<open>The group: without a command it shows its help when there are no arguments at all and fails with a usage error
  otherwise; the callback with \<open>--version\<close> only runs when a command follows.\<close>

datatype group_outcome = Help_Text | Missing_Command | Version_Text pystr | Invoke cli_command

definition cli_group :: "bool \<Rightarrow> cli_command option \<Rightarrow> group_outcome" where
  "cli_group version cmd =
     (case cmd of
        None \<Rightarrow> (if version then Missing_Command else Help_Text)
      | Some c \<Rightarrow> (if version then Version_Text (lit ''chen '' @ chen_version) else Invoke c))"

section \<open>\<open>chen info\<close>\<close>

text \<open>What the command asks of the system: \<open>ei_import n\<close> is \<open>None\<close> when the package cannot be imported, and otherwise its
  \<open>__version__\<close> if it has one.\<close>

record torch_info =
  ti_gpu :: "(pystr \<times> real) option"
  ti_mps :: "bool option"
  ti_threads :: int

record env_info =
  ei_import :: "pystr \<Rightarrow> pystr option option"
  ei_python :: pystr
  ei_python_version :: "int \<times> int"
  ei_system :: pystr
  ei_release :: pystr
  ei_machine :: pystr
  ei_git :: "pystr option option"
  ei_torch :: torch_info
  ei_backends :: "pystr list"

definition check_package :: "env_info \<Rightarrow> pystr \<Rightarrow> bool \<times> pystr" where
  "check_package ei n =
     (case ei_import ei n of None \<Rightarrow> (False, []) | Some v \<Rightarrow> (True, opt_or v (lit ''unknown'')))"

text \<open>\<open>ei_git\<close>: git is not on the path, or its answer, or the call raised.\<close>

definition git_version :: "env_info \<Rightarrow> pystr" where
  "git_version ei =
     (case ei_git ei of
        None \<Rightarrow> lit ''not installed''
      | Some (Some out) \<Rightarrow> py_strip out
      | Some None \<Rightarrow> lit ''unknown'')"

definition info_deps :: "(pystr \<times> pystr) list" where
  "info_deps =
     [(lit ''numpy'', lit ''core''), (lit ''pydantic'', lit ''core''), (lit ''structlog'', lit ''core''), (lit ''typer'', lit ''core''),
      (lit ''rich'', lit ''core''), (lit ''transformers'', lit ''hf''), (lit ''torch'', lit ''hf''), (lit ''tokenizers'', lit ''hf''),
      (lit ''accelerate'', lit ''hf''), (lit ''fastapi'', lit ''server''), (lit ''uvicorn'', lit ''server''),
      (lit ''prometheus_client'', lit ''server''), (lit ''chromadb'', lit ''memory''), (lit ''sentence_transformers'', lit ''memory''),
      (lit ''pytest'', lit ''dev''), (lit ''ruff'', lit ''dev''), (lit ''mypy'', lit ''dev''), (lit ''hypothesis'', lit ''dev'')]"

record info_page =
  ip_version :: pystr
  ip_system :: "(pystr \<times> pystr) list"
  ip_chen :: "(pystr \<times> pystr) list"
  ip_deps :: "(pystr \<times> bool \<times> pystr \<times> pystr) list"
  ip_compute :: "(bool \<times> (pystr \<times> real) option \<times> bool \<times> int) option"

definition info_command :: "env_info \<Rightarrow> info_page" where
  "info_command ei =
     \<lparr>ip_version = chen_version,
      ip_system = [(lit ''python'', ei_python ei),
                   (lit ''platform'', ei_system ei @ lit '' '' @ ei_release ei @ lit '' ('' @ ei_machine ei @ lit '')''),
                   (lit ''git'', git_version ei)],
      ip_chen = [(lit ''version'', chen_version), (lit ''backends'', py_join (lit '', '') (ei_backends ei))],
      ip_deps = map (\<lambda>(n, extra). case check_package ei n of (ok, v) \<Rightarrow> (n, ok, if ok then v else [8212], extra)) info_deps,
      ip_compute =
        (if ei_import ei (lit ''torch'') = None then None
         else (let t = ei_torch ei in
               Some (ti_gpu t \<noteq> None, map_option (\<lambda>(n, bytes). (n, bytes / 1000000000)) (ti_gpu t), opt_or (ti_mps t) False,
                     ti_threads t)))\<rparr>"

section \<open>\<open>chen serve\<close>\<close>

record uvicorn_call =
  uv_host :: pystr
  uv_port :: int
  uv_reload :: bool

text \<open>\<open>uvicorn.run("chen.server.app:create_app", factory=True, ...)\<close>, or exit status 1 without uvicorn.\<close>

definition serve_command :: "bool \<Rightarrow> pystr \<Rightarrow> int \<Rightarrow> pystr \<Rightarrow> bool \<Rightarrow> uvicorn_call cli" where
  "serve_command uvicorn_installed host port backend reload =
     (if uvicorn_installed then Shown \<lparr>uv_host = host, uv_port = port, uv_reload = reload\<rparr> else Exit_1)"

text \<open>What uvicorn then serves: the application the factory builds from the environment.\<close>

definition served_app ::
  "environ \<Rightarrow> keys_file \<Rightarrow> bool \<Rightarrow> pystr \<Rightarrow> int \<Rightarrow> pystr \<Rightarrow> bool \<Rightarrow> (run_db, py_exc, (uvicorn_call \<times> app_config) cli) act" where
  "served_app ev f uvicorn_installed host port backend reload =
     (case serve_command uvicorn_installed host port backend reload of
        Exit_1 \<Rightarrow> ret Exit_1
      | Shown u \<Rightarrow> bnd (create_app ev f) (\<lambda>cfg. ret (Shown (u, cfg))))"

section \<open>The commands in a process\<close>

record 'w cli_env =
  ce_server :: "'w server"
  ce_routers :: "'w cli_routers"
  ce_registry :: task_registry
  ce_log :: log_env
  ce_info :: env_info
  ce_uvicorn :: bool
  ce_lib :: "'w crypto_lib"
  ce_now :: "'w \<Rightarrow> pystr \<times> 'w"
  ce_help_status :: int

text \<open>The table of \<open>chen bench\<close>: task, samples, accuracy, tokens, cost, EPU and cost per million when there is a report.\<close>

definition bench_row ::
  "bench_result \<Rightarrow> pystr \<times> nat \<times> real \<times> int \<times> real \<times> (real \<times> real) option \<times> bool" where
  "bench_row r =
     (br_task_name r, length (br_per_sample r), br_avg_accuracy r, br_total_tokens r, br_total_cost r,
      map_option (\<lambda>k. (kr_epu k, kr_chen_cost_per_1m k)) (br_kpi r), bench_verdict r)"

text \<open>The subcommands of \<open>chen keys\<close>, each with what it shows.\<close>

datatype keys_page =
    Key_Made pystr pystr
  | Key_Table "(pystr \<times> pystr \<times> bool \<times> pystr \<times> pystr) list"
  | Key_Activated pystr
  | Key_Rotated pystr "pystr option"
  | Key_Revoked pystr
  | Key_Details pystr pystr pystr "pystr option"
  | Key_Env "(pystr \<times> pystr) list"

definition on_page :: "('a \<Rightarrow> keys_page) \<Rightarrow> ('s, py_exc, 'a cli) act \<Rightarrow> ('s, py_exc, keys_page cli) act" where
  "on_page f m = bnd m (\<lambda>r. ret (map_cli f r))"

definition reading_keys :: "(key_files \<Rightarrow> py_exc + 'a) \<Rightarrow> (key_files \<times> 'w, py_exc, 'a) act" where
  "reading_keys f = (\<lambda>(fs, w). (f fs, (fs, w)))"

definition keys_exec :: "'w cli_env \<Rightarrow> keys_command \<Rightarrow> (key_files \<times> 'w, py_exc, keys_page cli) act" where
  "keys_exec ce cmd =
     (case cmd of
        Keys_Generate \<Rightarrow> on_page (\<lambda>(kid, st). Key_Made kid st) (keys_generate (ce_lib ce) (ce_now ce))
      | Keys_List \<Rightarrow> bnd (reading_keys keys_list) (\<lambda>rows. ret (Shown (Key_Table rows)))
      | Keys_Activate kid \<Rightarrow> on_page (\<lambda>_. Key_Activated kid) (keys_activate kid)
      | Keys_Rotate \<Rightarrow> on_page (\<lambda>(kid, old). Key_Rotated kid old) (keys_rotate (ce_lib ce) (ce_now ce))
      | Keys_Revoke kid \<Rightarrow> on_page (\<lambda>_. Key_Revoked kid) (keys_revoke kid)
      | Keys_Show kid \<Rightarrow> on_page (\<lambda>(k, st, created, old). Key_Details k st created old) (reading_keys (keys_show kid))
      | Keys_Export_Env kid \<Rightarrow> on_page Key_Env (reading_keys (keys_export_env kid)))"

datatype shown =
    Run_Shown pystr "metric_row list" aggregate
  | Bench_Shown "(pystr \<times> nat \<times> real \<times> int \<times> real \<times> (real \<times> real) option \<times> bool) list" bool
  | Serve_Shown uvicorn_call
  | Info_Shown info_page
  | Keys_Shown keys_page
  | Keys_Help

text \<open>The state of a process: logging, the key directory, the run database and the rest of the world.\<close>

type_synonym 'w process = "log_config option \<times> key_files \<times> 'w app_state"

definition on_keys :: "(key_files \<times> 'w, py_exc, 'a) act \<Rightarrow> ('w process, py_exc, 'a) act" where
  "on_keys m = (\<lambda>(log, fs, db, w). case m (fs, w) of (r, (fs', w')) \<Rightarrow> (r, (log, fs', db, w')))"

definition on_app :: "('w app_state, py_exc, 'a) act \<Rightarrow> ('w process, py_exc, 'a) act" where
  "on_app m = on_snd (on_snd m)"

text \<open>\<open>configure_logging(level=...)\<close> and \<open>get_logger(__name__)\<close> at the start of a command.\<close>

definition start_logging :: "log_env \<Rightarrow> pystr \<Rightarrow> ('w process, py_exc, unit) act" where
  "start_logging le level = bnd (on_fst (configure_logging le level None)) (\<lambda>_. bnd (on_fst (get_logger le)) (\<lambda>_. ret ()))"

definition cli_exec :: "'w cli_env \<Rightarrow> cli_command \<Rightarrow> ('w process, py_exc, shown cli) act" where
  "cli_exec ce cmd =
     (case cmd of
        Cmd_Info \<Rightarrow> ret (Shown (Info_Shown (info_command (ce_info ce))))
      | Cmd_Run prompt phase backend max_tokens kind save_run \<Rightarrow>
          bnd (start_logging (ce_log ce) (lit ''INFO'')) (\<lambda>_.
          bnd (on_app (run_command (ce_server ce) (ce_routers ce) prompt phase backend max_tokens kind save_run)) (\<lambda>r.
          ret (Shown (Run_Shown (pr_output r) (metric_rows r) (pr_metrics r)))))
      | Cmd_Bench phase kind max_tokens task baseline_params \<Rightarrow>
          bnd (start_logging (ce_log ce) (lit ''WARNING'')) (\<lambda>_.
          bnd (on_app (on_snd (bench_command (ce_server ce) (ce_routers ce) (ce_registry ce) phase kind max_tokens task baseline_params)))
            (\<lambda>(rs, ok). ret (Shown (Bench_Shown (map bench_row rs) ok))))
      | Cmd_Serve host port backend reload \<Rightarrow>
          bnd (start_logging (ce_log ce) (lit ''INFO'')) (\<lambda>_.
          ret (case serve_command (ce_uvicorn ce) host port backend reload of
                 Exit_1 \<Rightarrow> Exit_1
               | Shown u \<Rightarrow> Shown (Serve_Shown u)))
      | Cmd_Keys None \<Rightarrow> ret (Shown Keys_Help)
      | Cmd_Keys (Some k) \<Rightarrow>
          bnd (if k = Keys_Generate then on_fst (configure_logging (ce_log ce) (lit ''WARNING'') None) else ret ()) (\<lambda>_.
          bnd (on_keys (keys_exec ce k)) (\<lambda>r. ret (map_cli Keys_Shown r))))"

text \<open>The process: importing the package asks for a logger; an exception of a command ends it with status 1. The status
  after the help of a group without arguments is click's (0 or 2 by its version).\<close>

definition import_package :: "log_env \<Rightarrow> log_config option" where
  "import_package le = log_run le [Get_Logger] None"

definition exit_status :: "int \<Rightarrow> py_exc + shown cli \<Rightarrow> int" where
  "exit_status help r = (case r of Inr (Shown Keys_Help) \<Rightarrow> help | Inr (Shown _) \<Rightarrow> 0 | _ \<Rightarrow> 1)"

definition chen_process ::
  "'w cli_env \<Rightarrow> bool \<Rightarrow> cli_command option \<Rightarrow> key_files \<times> 'w app_state \<Rightarrow> (group_outcome \<times> int) \<times> 'w process" where
  "chen_process ce version cmd s =
     (let log = import_package (ce_log ce) in
      case cli_group version cmd of
        Invoke c \<Rightarrow> (case cli_exec ce c (log, s) of (r, p) \<Rightarrow> ((Invoke c, exit_status (ce_help_status ce) r), p))
      | Missing_Command \<Rightarrow> ((Missing_Command, 2), (log, s))
      | Help_Text \<Rightarrow> ((Help_Text, ce_help_status ce), (log, s))
      | Version_Text v \<Rightarrow> ((Version_Text v, 0), (log, s)))"

section \<open>\<open>check_env.py\<close>\<close>

datatype env_line =
    Found pystr pystr pystr
  | Missing pystr pystr
  | Fine pystr
  | Failed pystr
  | Value pystr pystr

definition env_python :: "env_info \<Rightarrow> env_line list" where
  "env_python ei =
     [Value (lit ''Python'') (ei_python ei @ lit '' ('' @ ei_machine ei @ lit '')''),
      (if fst (ei_python_version ei) < 3 \<or> fst (ei_python_version ei) = 3 \<and> snd (ei_python_version ei) < 9
       then Failed (lit ''Python 3.9+ required'') else Fine (lit ''Python 3.9+''))]"

definition env_package :: "env_info \<Rightarrow> pystr \<times> pystr \<Rightarrow> env_line" where
  "env_package ei = (\<lambda>(n, why).
     case ei_import ei n of None \<Rightarrow> Missing n why | Some v \<Rightarrow> Found n (opt_or v (lit ''unknown'')) why)"

definition env_chen :: "env_info \<Rightarrow> env_line list" where
  "env_chen ei =
     (if ei_import ei (lit ''chen'') = None then [Failed (lit ''cannot import chen'')]
      else [Fine (lit ''chen '' @ chen_version), Fine (lit ''backends: '' @ py_join (lit '', '') (ei_backends ei))])"

definition env_core :: "(pystr \<times> pystr) list" where
  "env_core = [(lit ''numpy'', lit ''arrays / KV-cache''), (lit ''pydantic'', lit ''config validation'')]"

definition env_hf :: "(pystr \<times> pystr) list" where
  "env_hf =
     [(lit ''transformers'', lit ''model loading''), (lit ''torch'', lit ''tensor ops / GPU''), (lit ''tokenizers'', lit ''tokenization''),
      (lit ''accelerate'', lit ''device placement'')]"

definition env_torch :: "env_info \<Rightarrow> (bool \<times> bool option \<times> int \<times> (pystr \<times> real) option) option" where
  "env_torch ei =
     (if ei_import ei (lit ''torch'') = None then None
      else (let t = ei_torch ei in
            Some (ti_gpu t \<noteq> None, ti_mps t, ti_threads t,
                  map_option (\<lambda>(n, bytes). (n, bytes / 1000000000)) (ti_gpu t))))"

definition env_memory :: "(pystr \<times> pystr) list" where
  "env_memory = [(lit ''chromadb'', lit ''persistent vector store''), (lit ''sentence_transformers'', lit ''embeddings'')]"

definition env_optional :: "(pystr \<times> pystr) list" where
  "env_optional = [(lit ''vllm'', lit ''vLLM backend (CUDA GPU required)''), (lit ''llama_cpp'', lit ''llama.cpp backend (CPU/MPS)'')]"

definition env_dev :: "(pystr \<times> pystr) list" where
  "env_dev = [(lit ''pytest'', lit ''tests''), (lit ''ruff'', lit ''linting''), (lit ''mypy'', lit ''type checking'')]"

definition env_git :: "env_info \<Rightarrow> py_exc + env_line" where
  "env_git ei =
     (case ei_git ei of
        None \<Rightarrow> Inr (Missing (lit ''git'') (lit ''not on PATH''))
      | Some (Some out) \<Rightarrow> Inr (Fine (py_strip out))
      | Some None \<Rightarrow> Inl OtherError)"

definition env_main ::
  "env_info \<Rightarrow> py_exc + (env_line list \<times> (bool \<times> bool option \<times> int \<times> (pystr \<times> real) option) option) \<times> int" where
  "env_main ei =
     (case env_git ei of
        Inl e \<Rightarrow> Inl e
      | Inr g \<Rightarrow> Inr ((env_python ei @ [g] @ env_chen ei @
          map (env_package ei) (env_core @ env_hf @ env_memory @ env_optional @ env_dev), env_torch ei), 0))"

section \<open>Lemmas\<close>

text \<open>\<open>--backend\<close> of \<open>chen serve\<close> has no effect: neither the server started nor the application served depends on it.\<close>

lemma serve_ignores_backend:
  "serve_command i host port b reload = serve_command i host port b' reload"
  "served_app ev f i host port b reload = served_app ev f i host port b' reload"
  by (simp_all add: served_app_def serve_command_def)

text \<open>\<open>chen --version\<close> ends in a usage error; the version is shown only when a command follows.\<close>

lemma version_needs_command:
  "chen_process ce True None s = ((Missing_Command, 2), (import_package (ce_log ce), s))"
  "chen_process ce True (Some c) s = ((Version_Text (lit ''chen 0.4.0''), 0), (import_package (ce_log ce), s))"
  by (simp_all add: chen_process_def cli_group_def chen_version_def)

lemma import_level: "le_structlog le \<Longrightarrow> \<exists>k. import_package le = Some k \<and> lc_level k = 20"
  by (simp add: import_package_def log_run_def get_logger_def bnd_apply configure_logging_def Let_def del: lit_Cons)

lemma start_logging_keeps: "start_logging le level (Some k, s) = (Inr (), (Some k, s))"
  by (simp add: start_logging_def bnd_apply on_fst_def configure_logging_def get_logger_def)

lemma cli_exec_keeps_log:
  assumes "cli_exec ce cmd (Some k, s) = (r, (l, s'))"
  shows "l = Some k"
  using assms
  by (cases cmd)
    (auto simp: cli_exec_def bnd_apply start_logging_keeps on_snd_apply on_app_def on_keys_def on_fst_def configure_logging_def
      ret_def split: sum.splits prod.splits if_splits option.splits)

text \<open>C31: The log levels of the commands never take effect. In a process that runs \<open>chen\<close> with structlog installed,
  whatever command it is given, with whatever options, and whether the command succeeds, fails or is never reached, logging
  stays configured at level INFO: importing the package has configured it, so the WARNING of \<open>chen bench\<close> comes too late.\<close>

theorem process_logs_at_info:
  assumes "le_structlog (ce_log ce)"
  shows "\<exists>k. fst (snd (chen_process ce version cmd s)) = Some k \<and> lc_level k = 20"
proof -
  obtain k where k: "import_package (ce_log ce) = Some k" "lc_level k = 20" using import_level [OF assms] by blast
  have e: "fst (snd (cli_exec ce c (Some k, s))) = Some k" for c
    using cli_exec_keeps_log [of ce c k s] by (metis prod.collapse)
  show ?thesis
    by (cases "cli_group version cmd") (use k e in \<open>simp_all add: chen_process_def Let_def case_prod_beta'\<close>)
qed

definition unit_cli :: "unit cli_env" where
  "unit_cli =
     \<lparr>ce_server = unit_server, ce_routers = \<lparr>cr_cosine = \<lambda>_. Inl ValueError, cr_hybrid = \<lambda>_. Inl ValueError\<rparr>,
      ce_registry = [],
      ce_log = \<lparr>le_structlog = True, le_isatty = True, le_environ = (\<lambda>_. None), le_upper = (\<lambda>c. [c])\<rparr>,
      ce_info =
        \<lparr>ei_import = (\<lambda>_. None), ei_python = lit ''3.11.4'', ei_python_version = (3, 11), ei_system = lit ''Linux'',
         ei_release = lit ''6.1'', ei_machine = lit ''x86_64'', ei_git = None,
         ei_torch = \<lparr>ti_gpu = None, ti_mps = None, ti_threads = 1\<rparr>, ei_backends = [lit ''mock'']\<rparr>,
      ce_uvicorn = False, ce_lib = plain_lib, ce_now = (\<lambda>w. ([], w)), ce_help_status = 2\<rparr>"

theorem process_logs_at_info_witness:
  "\<exists>k. fst (snd (chen_process unit_cli False (Some (cli_bench None None None None None)) ([], new_db, ()))) = Some k \<and> lc_level k = 20"
  by (rule process_logs_at_info) (simp add: unit_cli_def)

text \<open>\<open>check_env.py\<close> exits with 0 whatever is missing, the package itself and a supported Python included.\<close>

lemma env_check_always_passes: "env_main ei = Inr (ls, code) \<Longrightarrow> code = 0"
  by (auto simp: env_main_def split: sum.splits)

end
