(* ===== verification/Spec2Isabelle.thy ===== *)
theory Spec2Isabelle
  imports Backend_Mock Backend_HF Backend_Engines Core_Router Phases Obs_Circuit Obs_Audit Server_Auth
    Sec_Stream Sec_Keys Sec_Backend Persist_Tenant Server_Routes Bench_Tasks Core_Carbon Obs_Logging Server_App Cli_Keys
    Core_Activation Run_Metrics Examples Notebooks Smoke_Test Obs_Spans Package Cli_App
begin

text \<open>
  A model of CHEN (\<open>src/src/chen\<close>), a Python library that answers a prompt with a pipeline of small language models
  (experts) instead of one large model. An expert wraps a backend; a pipeline runs experts in a configured or routed
  order and hands on either text or a KV-cache; around this sit a shared memory, an encryption layer, a server with
  authentication, run stores, a benchmark runner and a command line. The theories follow the source file by file, and
  every definition is a translation of a class, function or block that keeps its name where HOL leaves it free.

  \<^bold>\<open>Conventions\<close> (\<open>Chen_Prelude\<close>, \<open>Chen_Bytes\<close>, \<open>Chen_Json\<close>). A \<open>str\<close> is a list of code points, \<open>bytes\<close> are
  8-bit words, an \<open>int\<close> is an integer, a \<open>float\<close> a real without rounding (no NaN or infinity). A dict is an association
  list in insertion order where that can be seen. Code that raises or changes state is an action
  \<open>'w \<Rightarrow> (py_exc + 'a) \<times> 'w\<close>: an exception keeps the state reached, as Python does. Objects are records and methods take
  the record and return it updated. The state \<open>'w\<close> of models, clocks and other outside parties is abstract.
  UTF-8, base64, big- and little-endian integers and the JSON reader and writer are defined and inverse to each other
  (locale \<open>codec\<close>).

  \<^bold>\<open>Theories and sources.\<close>
  \<^item> \<open>Core_Config\<close> (\<open>core/config.py\<close>): settings, cost model. \<open>Core_KVCache\<close> (\<open>core/kv_cache.py\<close>, \<open>backends/base.py\<close>):
    the cache, the backend protocol as a record of operations, and the locale \<open>latent_backend\<close> of its transfer contract.
  \<^item> \<open>Backend_Mock\<close>, \<open>Backend_HF\<close>, \<open>Backend_Engines\<close> (\<open>backends/\<close>): the mock, HuggingFace, vLLM and llama.cpp
    backends and the registry; each interprets \<open>latent_backend\<close>.
  \<^item> \<open>Core_Memory\<close> (\<open>core/memory.py\<close>), \<open>Persist_Tenant\<close> (\<open>persistence/tenant_memory.py\<close>): entries, keyed writes,
    ranked retrieval; one memory per tenant with quota and expiry.
  \<^item> \<open>Core_Expert\<close>, \<open>Core_Pipeline\<close>, \<open>Phases\<close> (\<open>core/expert.py\<close>, \<open>core/pipeline.py\<close>, \<open>phases/\<close>): one invocation with
    its metrics and error paths, the aggregation, and the three pipelines with their fallbacks.
  \<^item> \<open>Core_Router\<close> (\<open>core/router.py\<close>): features, the logistic, cosine and hybrid routers (locale \<open>router\<close>).
    \<open>Core_Carbon\<close> (\<open>core/carbon.py\<close>): the carbon-aware scheduler and its cache.
  \<^item> \<open>Sec_Crypto\<close>, \<open>Sec_Stream\<close>, \<open>Sec_Keys\<close>, \<open>Sec_Backend\<close> (\<open>security/\<close>): keys and sessions, encrypted blocks and their
    wire format, streams, the key directory, the encrypting backend. \<open>Cli_Keys\<close> (\<open>cli/commands/keys.py\<close>).
  \<^item> \<open>Obs_Circuit\<close>, \<open>Obs_Audit\<close>, \<open>Obs_Metrics\<close>, \<open>Obs_Logging\<close> (\<open>observability/\<close>): the circuit breaker as a step
    relation, the hash-chained log, the counters, and the once-only configuration of logging and tracing; \<open>Obs_Spans\<close>: spans
    around a body.
  \<^item> \<open>Repro\<close> (\<open>reproducibility/\<close>), \<open>Persist_RunStore\<close> (\<open>persistence/run_store.py\<close>, \<open>pg_store.py\<close>): the hash of a
    configuration; the SQLite and PostgreSQL stores with schema, migration and upsert.
  \<^item> \<open>Server_Auth\<close>, \<open>Server_Routes\<close>, \<open>Server_App\<close> (\<open>server/\<close>): keys, roles and rate limits; the endpoints and
    \<open>chen run\<close>; the application, its middleware stack and sessions of requests.
  \<^item> \<open>Bench\<close>, \<open>Bench_Tasks\<close> (\<open>benchmarks/\<close>, \<open>cli/commands/bench.py\<close>): graders, KPIs, runner, sample tasks, registry.
  \<^item> \<open>Cli_App\<close> (\<open>cli/main.py\<close>, \<open>cli/commands/\<close>, \<open>scripts/check_env.py\<close>): options, dispatch, every command in a process with
    its log, key directory, run database and exit status. \<open>Package\<close> (\<open>chen/__init__.py\<close>): the exports.
  \<^item> \<open>Examples\<close>, \<open>Notebooks\<close>, \<open>Smoke_Test\<close> (\<open>examples/\<close>, \<open>notebooks/\<close>, \<open>scripts/smoke_test.py\<close>): the programs that come with
    the library, over its model. They rest on \<open>Core_Activation\<close> (which scores the default weights can give, and so how
    many experts the default router wakes) and \<open>Run_Metrics\<close> (every metrics record of a run is that of an invocation).
  \<^item> \<open>Mock_Text\<close>, \<open>Mock_Runs\<close>, \<open>Mock_Suite\<close>: the mock backend (\<open>backends/mock.py\<close>), the default everywhere, under the
    pipelines, the API and the benchmark suite: on Unicode text its operations are total and give such text again (locale
    \<open>prose_backend\<close>), so that runs, requests, the benchmark script and the smoke test end as stated, with no assumption that
    a model answers.

  \<^bold>\<open>How the parts fit.\<close> A request enters \<open>serve_request\<close>: metrics, \<open>auth_middleware\<close>, \<open>rate_middleware\<close>, then \<open>call_route\<close>.
  \<open>infer\<close> builds experts over a backend (\<open>build_experts\<close>), a pipeline (\<open>make_pipeline\<close>), runs it (\<open>cascade_run\<close>, \<open>kv_run\<close>,
  \<open>routing_run\<close>: loops of \<open>expert_invoke\<close>, which call the backend's \<open>transfer_cache\<close>, \<open>decode\<close>, \<open>generate\<close> and \<open>encode\<close>),
  hashes the configuration and saves a record. \<open>run_task\<close> runs the same pipelines over the samples of a benchmark.

  \<^bold>\<open>What is proved.\<close> Invariants over all histories (breaker, audit log, tenant quotas, memory index, run store, counters,
  rate-limit windows), with the locale \<open>stepper\<close> for machines and \<open>keyed_store\<close> for lookups after updates; round trips
  (blocks, streams, texts, keys in the environment, engine buffers); refinement of an abstract map or set (memory, run
  store); what each pipeline reports and that it returns; that the stream endpoint and the counting handler do what the
  plain one does; decisions of authentication and who can change state; and where the code departs from its
  documentation, as theorems about what it does instead, up to whole programs: the outcome of the smoke test and of the
  benchmark script, and the level every process logs at.

  \<^bold>\<open>Bounds, fuel and termination.\<close> Loops over blocks, frames, characters and samples are functions with measures. The JSON
  reader has fuel \<open>2 * length s + 2\<close>, enough because every nested call consumes a character first; \<open>json_loads_dumps\<close>
  shows it reads back whatever the writer produced. The pattern matcher of \<open>Bench_Tasks\<close> is measured by the rest of the
  text and the rest of the pattern. Texts in runs on the mock backend start at \<open>2 ^ 40\<close> characters or fewer and grow at most
  fourfold with each of at most eight experts, which keeps its hash keys within 64 bits. \<open>int64\<close> is the range SQLite stores.

  \<^bold>\<open>Parameters.\<close> Code outside the repository is an argument: AES-GCM, HKDF, SHA-256, BLAKE2b and random bytes (used
  through named hypotheses such as \<open>lib_ok\<close>), torch, transformers, vLLM, llama.cpp, the PostgreSQL driver, the order in
  which SQLite returns equal timestamps, Unicode tables beyond ASCII, \<open>float(text)\<close>, clocks, the HTTP client, CORS
  and the documentation pages of the web framework. Witnesses instantiate each with concrete functions.

  \<^bold>\<open>Not modelled.\<close> The layout of text made for people: \<open>summary\<close> methods, panels, colours and number formats of tables (their
  cells are modelled as data), log messages. Parsing of command lines by typer and argparse, uvicorn, and what structlog,
  OpenTelemetry and the Prometheus client do with their data, which are other packages' code. Concurrency: handlers run one
  after another. Rounding of floats. The markdown and the file format of the notebooks, the tests and the build files.
\<close>

end
